(* ===== verification/Prelude.thy ===== *)
theory Prelude
  imports Main "HOL-Library.Word" "HOL-Library.Multiset" "HOL-Library.Monad_Syntax"
begin

text \<open>
  Shared vocabulary of the development: the machine integers of the Rust sources as words, the
  saturating operations of \<open>sp_runtime::Saturating\<close>, FRAME storage maps (plain maps where the code
  only reads and writes single keys, association lists where it also iterates), and folds in the
  \<open>option\<close> monad, where \<open>None\<close> is a panic.
\<close>

named_theorems unat_simps \<open>saturating and checked arithmetic read as natural numbers\<close>
named_theorems storage_simps \<open>reading a storage map after a write\<close>

section \<open>Machine integers\<close>

type_synonym u8 = "8 word"
type_synonym u16 = "16 word"
type_synonym u32 = "32 word"
type_synonym u64 = "64 word"
type_synonym u128 = "128 word"

text \<open>A Rust \<open>Vec<u8>\<close>, a slice or a byte array.\<close>

type_synonym bytes = "u8 list"

definition sat_add :: "'a::len word \<Rightarrow> 'a word \<Rightarrow> 'a word" where
  "sat_add a b = (if unat a + unat b < 2 ^ LENGTH('a) then a + b else - 1)"

definition sat_sub :: "'a::len word \<Rightarrow> 'a word \<Rightarrow> 'a word" where
  "sat_sub a b = (if b \<le> a then a - b else 0)"

definition checked_add :: "'a::len word \<Rightarrow> 'a word \<Rightarrow> 'a word option" where
  "checked_add a b = (if unat a + unat b < 2 ^ LENGTH('a) then Some (a + b) else None)"

definition checked_sub :: "'a::len word \<Rightarrow> 'a word \<Rightarrow> 'a word option" where
  "checked_sub a b = (if b \<le> a then Some (a - b) else None)"

text \<open>\<open>Saturating::saturating_plus_one\<close> and \<open>saturating_less_one\<close>.\<close>

definition sat_succ :: "'a::len word \<Rightarrow> 'a word" where
  "sat_succ a = sat_add a 1"

definition sat_pred :: "'a::len word \<Rightarrow> 'a word" where
  "sat_pred a = sat_sub a 1"

text \<open>\<open>to_be_bytes\<close>: the \<open>n\<close> lowest bytes of a number, most significant first.\<close>

fun be_bytes :: "nat \<Rightarrow> nat \<Rightarrow> bytes" where
  "be_bytes 0 x = []"
| "be_bytes (Suc n) x = be_bytes n (x div 256) @ [of_nat (x mod 256)]"

text \<open>\<open>from_be_bytes\<close>, read as a natural number.\<close>

definition from_be :: "bytes \<Rightarrow> nat" where
  "from_be bs = foldl (\<lambda>acc b. acc * 256 + unat b) 0 bs"

section \<open>Storage\<close>

text \<open>
  A \<open>StorageMap\<close> or \<open>StorageDoubleMap\<close> over which the code iterates: its entries, at most one per
  key. The order of the entries carries no meaning, since iteration visits the keys in the order of
  their hashes in the storage trie. That order is a function of the key, passed as \<open>ord\<close>.
\<close>

type_synonym ('k, 'v) smap = "('k \<times> 'v) list"

definition sget :: "('k, 'v) smap \<Rightarrow> 'k \<Rightarrow> 'v option" where
  "sget m k = map_of m k"

definition sdel :: "'k \<Rightarrow> ('k, 'v) smap \<Rightarrow> ('k, 'v) smap" where
  "sdel k m = filter (\<lambda>e. fst e \<noteq> k) m"

definition sput :: "'k \<Rightarrow> 'v \<Rightarrow> ('k, 'v) smap \<Rightarrow> ('k, 'v) smap" where
  "sput k v m = (k, v) # sdel k m"

definition swf :: "('k, 'v) smap \<Rightarrow> bool" where
  "swf m \<longleftrightarrow> distinct (map fst m)"

definition siter :: "('k \<Rightarrow> nat) \<Rightarrow> ('k, 'v) smap \<Rightarrow> ('k \<times> 'v) list" where
  "siter ord m = sort_key (\<lambda>e. ord (fst e)) m"

text \<open>The entries of a double map below one first key, and the map without them.\<close>

definition sprefix :: "('b \<Rightarrow> nat) \<Rightarrow> 'a \<Rightarrow> ('a \<times> 'b, 'v) smap \<Rightarrow> ('b \<times> 'v) list" where
  "sprefix ord a m =
     sort_key (\<lambda>e. ord (fst e)) (map (\<lambda>e. (snd (fst e), snd e)) (filter (\<lambda>e. fst (fst e) = a) m))"

definition sclear_prefix :: "'a \<Rightarrow> ('a \<times> 'b, 'v) smap \<Rightarrow> ('a \<times> 'b, 'v) smap" where
  "sclear_prefix a m = filter (\<lambda>e. fst (fst e) \<noteq> a) m"

text \<open>How many entries a double map has below a first key.\<close>

definition slen :: "'a \<Rightarrow> ('a \<times> 'b, 'v) smap \<Rightarrow> nat" where
  "slen a m = length (filter (\<lambda>e. fst (fst e) = a) m)"

text \<open>\<open>unwrap_or\<close>. A map with a default (\<open>ValueQuery\<close>) is a total function.\<close>

definition value_or :: "'v \<Rightarrow> 'v option \<Rightarrow> 'v" where
  "value_or d x = (case x of None \<Rightarrow> d | Some v \<Rightarrow> v)"

section \<open>Slices\<close>

text \<open>\<open>chunks\<close> of a slice. A chunk size of zero, for which Rust panics, is used nowhere.\<close>

fun chunks :: "nat \<Rightarrow> 'a list \<Rightarrow> 'a list list" where
  "chunks k [] = []"
| "chunks k (x # xs) = (if k = 0 then [] else take k (x # xs) # chunks k (drop k (x # xs)))"

section \<open>Loops that may panic\<close>

fun ofold :: "('a \<Rightarrow> 's \<Rightarrow> 's option) \<Rightarrow> 'a list \<Rightarrow> 's \<Rightarrow> 's option" where
  "ofold f [] s = Some s"
| "ofold f (x # xs) s = (case f x s of None \<Rightarrow> None | Some s' \<Rightarrow> ofold f xs s')"

section \<open>Lemmas on words\<close>

lemma unat_sat_add [unat_simps]:
  "unat (sat_add a b) = min (unat a + unat b) (2 ^ LENGTH('a) - 1)" for a b :: "'a::len word"
proof (cases "unat a + unat b < 2 ^ LENGTH('a)")
  case True
  then show ?thesis by (simp add: sat_add_def unat_word_ariths)
next
  case False
  then show ?thesis by (simp add: sat_add_def unsigned_minus_1_eq_mask mask_eq_exp_minus_1)
qed

lemma unat_sat_sub [unat_simps]: "unat (sat_sub a b) = unat a - unat b"
  by (auto simp: sat_sub_def unat_sub word_le_nat_alt)

lemma unat_sat_succ [unat_simps]:
  "unat (sat_succ a) = min (unat a + 1) (2 ^ LENGTH('a) - 1)" for a :: "'a::len word"
  by (cases "LENGTH('a) = 1") (auto simp: sat_succ_def unat_sat_add min_def)

lemma unat_sat_pred [unat_simps]: "unat (sat_pred a) = unat a - 1"
  by (simp add: sat_pred_def unat_sat_sub)

lemma unat_max: "unat (- 1 :: 'a::len word) = 2 ^ LENGTH('a) - 1"
  by (simp add: unsigned_minus_1_eq_mask mask_eq_exp_minus_1)

lemma not_max_unat: "a \<noteq> - 1 \<longleftrightarrow> unat a < 2 ^ LENGTH('a) - 1" for a :: "'a::len word"
proof -
  have "unat a < 2 ^ LENGTH('a)" by (rule unsigned_less)
  moreover have "a = - 1 \<longleftrightarrow> unat a = 2 ^ LENGTH('a) - 1"
    by (metis unat_max word_unat_eq_iff)
  ultimately show ?thesis by linarith
qed

lemma unat_succ: "a \<noteq> - 1 \<Longrightarrow> unat (a + 1) = unat a + 1" for a :: "'a::len word"
  by (simp add: not_max_unat unat_word_ariths)

lemma sat_succ_not_max: "a \<noteq> - 1 \<Longrightarrow> sat_succ a = a + 1" for a :: "'a::len word"
  by (rule word_unat_eq_iff [THEN iffD2]) (auto simp: unat_sat_succ unat_succ not_max_unat)

lemma less_not_max: "a < b \<Longrightarrow> a \<noteq> - 1" for a b :: "'a::len word"
  using word_order.extremum_strict by blast

lemma unat_sat_succ_less: "a < b \<Longrightarrow> unat (sat_succ a) = unat a + 1" for a b :: "'a::len word"
  by (simp add: less_not_max sat_succ_not_max unat_succ)

lemma unat_u16_less: "unat (w :: u16) < 2 ^ 16"
  and unat_u32_less: "unat (x :: u32) < 2 ^ 32"
  and unat_u64_less: "unat (y :: u64) < 2 ^ 64"
  using unsigned_less [of w, where ?'a = nat] unsigned_less [of x, where ?'a = nat]
    unsigned_less [of y, where ?'a = nat] by simp_all

lemma of_nat_below: "i < unat b \<Longrightarrow> unat (of_nat i :: 'a word) = i" for b :: "'a::len word"
proof -
  assume "i < unat b"
  also have "unat b < 2 ^ LENGTH('a)" by (rule unsigned_less)
  finally show ?thesis by (simp add: unat_of_nat)
qed

lemma unat_add_less: "unat a + unat b < 2 ^ LENGTH('a) \<Longrightarrow> unat (a + b) = unat a + unat b"
  for a b :: "'a::len word"
  by (simp add: unat_word_ariths)

lemma unat_ucast_small:
  fixes w :: "'a::len word"
  assumes "unat w < 2 ^ LENGTH('b::len)"
  shows "unat (ucast w :: 'b word) = unat w"
  using assms by (simp add: unsigned_ucast_eq take_bit_nat_eq_self)

lemma unat_ucast_up:
  fixes w :: "'a::len word"
  assumes "LENGTH('a) \<le> LENGTH('b::len)"
  shows "unat (ucast w :: 'b word) = unat w"
proof (rule unat_ucast_small)
  have "unat w < 2 ^ LENGTH('a)" by (rule unsigned_less)
  also have "\<dots> \<le> 2 ^ LENGTH('b)" using assms by (simp add: power_increasing)
  finally show "unat w < 2 ^ LENGTH('b)" .
qed

lemma checked_add_Some [unat_simps]:
  "checked_add a b = Some c \<Longrightarrow> unat c = unat a + unat b" for a b c :: "'a::len word"
  by (auto simp: checked_add_def unat_word_ariths split: if_splits)

lemma checked_sub_Some [unat_simps]:
  "checked_sub a b = Some c \<Longrightarrow> unat a = unat c + unat b" for a b c :: "'a::len word"
  by (auto simp: checked_sub_def unat_sub word_le_nat_alt split: if_splits)

lemma length_be_bytes [simp]: "length (be_bytes n x) = n"
  by (induction n arbitrary: x) auto

lemma from_be_snoc: "from_be (bs @ [b]) = from_be bs * 256 + unat b"
  by (simp add: from_be_def)

lemma from_be_be_bytes: "x < 256 ^ n \<Longrightarrow> from_be (be_bytes n x) = x"
proof (induction n arbitrary: x)
  case 0
  then show ?case by (simp add: from_be_def)
next
  case (Suc n)
  from Suc.prems have "x div 256 < 256 ^ n" by (simp add: less_mult_imp_div_less mult.commute)
  then have "from_be (be_bytes n (x div 256)) = x div 256" by (rule Suc.IH)
  moreover have "unat (of_nat (x mod 256) :: u8) = x mod 256"
    by (simp add: unat_of_nat take_bit_eq_mod)
  ultimately show ?case by (simp add: from_be_snoc)
qed

lemma be_bytes_inj: "be_bytes n x = be_bytes n y \<Longrightarrow> x < 256 ^ n \<Longrightarrow> y < 256 ^ n \<Longrightarrow> x = y"
  by (metis from_be_be_bytes)

lemma from_be_zeros: "from_be (replicate k 0 @ bs) = from_be bs"
  by (induction k) (simp_all add: from_be_def)

section \<open>Lemmas on storage maps\<close>

lemma sget_Nil [simp]: "sget [] k = None"
  by (simp add: sget_def)

lemma sget_sdel [storage_simps, simp]: "sget (sdel k m) k' = (if k' = k then None else sget m k')"
  by (induction m) (auto simp: sget_def sdel_def)

lemma sget_sput [storage_simps, simp]: "sget (sput k v m) k' = (if k' = k then Some v else sget m k')"
  using sget_sdel [of k m k'] by (auto simp: sget_def sput_def)

lemma sget_sclear_prefix [storage_simps, simp]:
  "sget (sclear_prefix a m) k = (if fst k = a then None else sget m k)"
  by (induction m) (auto simp: sget_def sclear_prefix_def)

lemma swf_Nil [simp]: "swf []"
  by (simp add: swf_def)

lemma swf_sdel [simp, intro]: "swf m \<Longrightarrow> swf (sdel k m)"
  by (auto simp: swf_def sdel_def intro: distinct_map_filter)

lemma swf_sput [simp, intro]: "swf m \<Longrightarrow> swf (sput k v m)"
  using swf_sdel [of m k] by (auto simp: swf_def sput_def) (auto simp: sdel_def)

lemma swf_sclear_prefix [simp, intro]: "swf m \<Longrightarrow> swf (sclear_prefix a m)"
  by (auto simp: swf_def sclear_prefix_def intro: distinct_map_filter)

lemma sget_iff: "swf m \<Longrightarrow> sget m k = Some v \<longleftrightarrow> (k, v) \<in> set m"
  by (simp add: swf_def sget_def)

lemma set_siter [simp]: "set (siter ord m) = set m"
  by (simp add: siter_def)

lemma siter_iff: "swf m \<Longrightarrow> (k, v) \<in> set (siter ord m) \<longleftrightarrow> sget m k = Some v"
  by (simp add: sget_iff)

lemma distinct_siter: "swf m \<Longrightarrow> distinct (map fst (siter ord m))"
proof -
  assume "swf m"
  moreover have "mset (map fst (siter ord m)) = mset (map fst m)"
    by (simp add: siter_def)
  ultimately show ?thesis using mset_eq_imp_distinct_iff swf_def by blast
qed

lemma sprefix_iff: "swf m \<Longrightarrow> (b, v) \<in> set (sprefix ord a m) \<longleftrightarrow> sget m (a, b) = Some v"
  by (force simp: sprefix_def sget_iff)

lemma distinct_sprefix: "swf m \<Longrightarrow> distinct (map fst (sprefix ord a m))"
proof -
  assume wf: "swf m"
  have "distinct (map fst (filter (\<lambda>e. fst (fst e) = a) m))"
    using wf by (auto simp: swf_def intro: distinct_map_filter)
  moreover have "map fst (map (\<lambda>e. (snd (fst e), snd e)) (filter (\<lambda>e. fst (fst e) = a) m)) =
      map snd (map fst (filter (\<lambda>e. fst (fst e) = a) m))"
    by simp
  moreover have "inj_on snd (set (map fst (filter (\<lambda>e. fst (fst e) = a) m)))"
    by (auto simp: inj_on_def)
  ultimately have "distinct (map fst (map (\<lambda>e. (snd (fst e), snd e)) (filter (\<lambda>e. fst (fst e) = a) m)))"
    by (simp only: distinct_map)
  moreover have "mset (map fst (sprefix ord a m)) =
      mset (map fst (map (\<lambda>e. (snd (fst e), snd e)) (filter (\<lambda>e. fst (fst e) = a) m)))"
    by (simp only: sprefix_def mset_map mset_sort)
  ultimately show ?thesis using mset_eq_imp_distinct_iff by blast
qed

lemma sdel_absent: "sget m k = None \<Longrightarrow> sdel k m = m"
  by (force simp: sget_def sdel_def map_of_eq_None_iff intro: filter_True)

lemma mset_sdel_present:
  "swf m \<Longrightarrow> sget m k = Some v \<Longrightarrow> mset m = add_mset (k, v) (mset (sdel k m))"
proof (induction m)
  case (Cons e m)
  show ?case
  proof (cases "fst e = k")
    case True
    then have "sget m k = None" using Cons.prems(1) by (simp add: swf_def sget_def map_of_eq_None_iff)
    then have "sdel k (e # m) = m" using True sdel_absent [of m k] by (simp add: sdel_def)
    moreover have "e = (k, v)" using Cons.prems(2) True by (cases e) (simp add: sget_def)
    ultimately show ?thesis by simp
  next
    case False
    then have "sget m k = Some v" "swf m" using Cons.prems by (auto simp: sget_def swf_def)
    from Cons.IH [OF this(2,1)] False show ?thesis by (simp add: sdel_def)
  qed
qed simp

lemma length_sput_new: "sget m k = None \<Longrightarrow> length (sput k v m) = Suc (length m)"
  by (simp add: sput_def sdel_absent)

lemma length_sprefix [simp]: "length (sprefix ord a m) = slen a m"
  by (simp add: sprefix_def slen_def)

lemma slen_Nil [simp]: "slen a [] = 0"
  by (simp add: slen_def)

lemma slen_sput_new:
  "sget m (a, b) = None \<Longrightarrow> slen c (sput (a, b) v m) = (if c = a then Suc (slen a m) else slen c m)"
  by (simp add: sput_def sdel_absent slen_def)

lemma slen_sdel:
  "swf m \<Longrightarrow> sget m (a, b) \<noteq> None \<Longrightarrow>
    slen c m = (if c = a then Suc (slen a (sdel (a, b) m)) else slen c (sdel (a, b) m))"
proof (induction m)
  case (Cons e m)
  show ?case
  proof (cases "fst e = (a, b)")
    case True
    with Cons.prems(1) have "sget m (a, b) = None"
      by (simp add: swf_def sget_def map_of_eq_None_iff)
    then have "sdel (a, b) (e # m) = m" using True sdel_absent [of m "(a, b)"] by (simp add: sdel_def)
    with True show ?thesis by (simp add: slen_def)
  next
    case False
    with Cons.prems have "swf m" "sget m (a, b) \<noteq> None" by (auto simp: swf_def sget_def)
    from Cons.IH [OF this] False show ?thesis by (auto simp: slen_def sdel_def split: if_splits)
  qed
qed simp

lemma slen_sclear_prefix [simp]:
  "slen c (sclear_prefix a m) = (if c = a then 0 else slen c m)"
  by (induction m) (auto simp: slen_def sclear_prefix_def)

lemma value_or_simps [simp]: "value_or d None = d" "value_or d (Some v) = v"
  by (simp_all add: value_or_def)

section \<open>Lemmas on lists\<close>

lemma map_filter_same: "(\<And>x. x \<in> set xs \<Longrightarrow> f x = g x) \<Longrightarrow> List.map_filter f xs = List.map_filter g xs"
  by (induction xs) (auto simp: List.map_filter_simps split: option.split)

lemma map_filter_append: "List.map_filter f (xs @ ys) = List.map_filter f xs @ List.map_filter f ys"
  by (simp add: List.map_filter_def)

lemma map_filter_none: "(\<And>x. x \<in> set xs \<Longrightarrow> f x = None) \<Longrightarrow> List.map_filter f xs = []"
  by (induction xs) (auto simp: List.map_filter_simps)

lemma concat_chunks: "k \<noteq> 0 \<Longrightarrow> concat (chunks k xs) = xs"
  by (induction k xs rule: chunks.induct) simp_all

lemma length_chunks: "k \<noteq> 0 \<Longrightarrow> length xs = m * k \<Longrightarrow> length (chunks k xs) = m \<and> (\<forall>c\<in>set (chunks k xs). length c = k)"
proof (induction k xs arbitrary: m rule: chunks.induct)
  case (2 k x xs)
  obtain m' where m: "m = Suc m'" using "2.prems"(2) by (cases m) simp_all
  have "length (drop k (x # xs)) = m' * k" using "2.prems" by (simp add: m)
  with "2.IH" [of m'] "2.prems" have "length (chunks k (drop k (x # xs))) = m' \<and> (\<forall>c\<in>set (chunks k (drop k (x # xs))). length c = k)"
    by blast
  with "2.prems" show ?case by (simp add: m)
qed auto

lemma chunks_nonempty: "k \<noteq> 0 \<Longrightarrow> xs \<noteq> [] \<Longrightarrow> chunks k xs = take k xs # chunks k (drop k xs)"
  by (cases xs) simp_all

lemma sorted_by_key_unique:
  fixes f :: "'a \<Rightarrow> 'b::linorder"
  assumes "set xs = set ys" "sorted (map f xs)" "distinct (map f xs)" "sorted (map f ys)" "distinct (map f ys)"
  shows "xs = ys"
proof -
  have "map f xs = map f ys" using assms by (intro sorted_distinct_set_unique) simp_all
  moreover have "inj_on f (set xs \<union> set ys)" using assms(1,3) by (simp add: distinct_map)
  ultimately show ?thesis by (simp add: inj_on_map_eq_map)
qed

section \<open>Lemmas on loops\<close>

lemma ofold_invariant:
  assumes "ofold f xs s = Some t" and "P s"
    and "\<And>x s t. x \<in> set xs \<Longrightarrow> P s \<Longrightarrow> f x s = Some t \<Longrightarrow> P t"
  shows "P t"
  using assms
proof (induction xs arbitrary: s)
  case Nil
  then show ?case by simp
next
  case (Cons x xs)
  from Cons.prems(1) obtain u where u: "f x s = Some u" "ofold f xs u = Some t"
    by (auto split: option.splits)
  from Cons.prems(3) [OF _ Cons.prems(2) u(1)] have "P u" by simp
  with u(2) show ?case
    by (rule Cons.IH) (use Cons.prems(3) in auto)
qed

lemma ofold_total:
  assumes "P s" and "\<And>x s. x \<in> set xs \<Longrightarrow> P s \<Longrightarrow> \<exists>t. f x s = Some t \<and> P t"
  shows "\<exists>t. ofold f xs s = Some t \<and> P t"
  using assms
proof (induction xs arbitrary: s)
  case Nil
  then show ?case by simp
next
  case (Cons x xs)
  from Cons.prems(2) [OF _ Cons.prems(1), of x] obtain u where u: "f x s = Some u" "P u"
    by auto
  have "\<exists>t. ofold f xs u = Some t \<and> P t"
    by (rule Cons.IH [OF u(2)]) (use Cons.prems(2) in auto)
  with u(1) show ?case by simp
qed

lemma ofold_append:
  "ofold f (xs @ ys) s = (case ofold f xs s of None \<Rightarrow> None | Some t \<Rightarrow> ofold f ys t)"
  by (induction xs arbitrary: s) (auto split: option.splits)

lemma fold_invariant_set:
  assumes "P s" and "\<And>x s. x \<in> set xs \<Longrightarrow> P s \<Longrightarrow> P (f x s)"
  shows "P (fold f xs s)"
  using assms by (induction xs arbitrary: s) auto

section \<open>Runs and invariants\<close>

text \<open>The states that a system reaches from its initial states, and what holds in all of them.\<close>

inductive reach :: "('s \<Rightarrow> bool) \<Rightarrow> ('s \<Rightarrow> 's \<Rightarrow> bool) \<Rightarrow> 's \<Rightarrow> bool" for init step where
  reach_init: "init s \<Longrightarrow> reach init step s"
| reach_step: "reach init step s \<Longrightarrow> step s s' \<Longrightarrow> reach init step s'"

locale step_invariant =
  fixes init :: "'s \<Rightarrow> bool" and step :: "'s \<Rightarrow> 's \<Rightarrow> bool" and inv :: "'s \<Rightarrow> bool"
  assumes inv_init: "init s \<Longrightarrow> inv s"
    and inv_step: "inv s \<Longrightarrow> step s s' \<Longrightarrow> inv s'"
begin

lemma reachable_inv: "reach init step s \<Longrightarrow> inv s"
  by (induction rule: reach.induct) (auto intro: inv_init inv_step)

end

end
