(* ===== verification/Gmp.thy ===== *)
theory Gmp
  imports Prelude
begin

text \<open>
  The message types of \<open>primitives/src/gmp.rs\<close> and \<open>primitives/src/task.rs\<close>: GMP messages and their
  identifiers, gateway operations, the digest a shard signs for a batch, the \<open>BatchBuilder\<close> that
  groups operations into batches, and the tasks and task results the chain exchanges with the
  chronicles. Keccak-256 is a parameter, \<open>keccak\<close>.
\<close>

type_synonym network_id = u16
type_synonym address32 = bytes
type_synonym message_id = bytes
type_synonym tx_hash = bytes
type_synonym batch_id = u64
type_synonym task_id = u64
type_synonym shard_id = u64
type_synonym tss_public_key = bytes
type_synonym tss_signature = bytes

section \<open>Messages\<close>

record gmp_message =
  src_network :: network_id
  dest_network :: network_id
  src :: address32
  dest :: address32
  nonce :: u64
  gas_limit :: u128
  gas_cost :: u128
  payload :: bytes

text \<open>\<open>FixedSizeEncodable::left_pad_32\<close> of \<open>primitives/src/cctp.rs\<close>, for arrays of at most 32 bytes.\<close>

definition left_pad_32 :: "bytes \<Rightarrow> bytes" where
  "left_pad_32 bs = replicate (32 - length bs) 0 @ bs"

definition HEADER_LEN :: nat where
  "HEADER_LEN = 224"

definition encoded_len :: "gmp_message \<Rightarrow> nat" where
  "encoded_len m = HEADER_LEN + length (payload m)"

definition encode_header :: "gmp_message \<Rightarrow> bytes" where
  "encode_header m =
     replicate 32 0 @
     left_pad_32 (src m) @
     left_pad_32 (be_bytes 2 (unat (src_network m))) @
     left_pad_32 (dest m) @
     left_pad_32 (be_bytes 2 (unat (dest_network m))) @
     left_pad_32 (be_bytes 16 (unat (gas_limit m))) @
     left_pad_32 (be_bytes 8 (unat (nonce m)))"

definition message_id_of :: "(bytes \<Rightarrow> bytes) \<Rightarrow> gmp_message \<Rightarrow> message_id" where
  "message_id_of keccak m = keccak (encode_header m)"

text \<open>The addresses are Rust arrays of 32 bytes.\<close>

definition wf_message :: "gmp_message \<Rightarrow> bool" where
  "wf_message m \<longleftrightarrow> length (src m) = 32 \<and> length (dest m) = 32"

definition GMP_VERSION :: bytes where
  "GMP_VERSION = map of_char ''Analog GMP v2''"

record gmp_params =
  network :: network_id
  gateway :: address32

definition params_hash :: "gmp_params \<Rightarrow> bytes \<Rightarrow> bytes" where
  "params_hash p data = GMP_VERSION @ be_bytes 2 (unat (network p)) @ gateway p @ data"

section \<open>Gateway operations\<close>

datatype gateway_op =
    SendMessage gmp_message
  | RegisterShard tss_public_key
  | UnregisterShard tss_public_key

fun op_code :: "gateway_op \<Rightarrow> u8" where
  "op_code (SendMessage m) = 1"
| "op_code (RegisterShard k) = 2"
| "op_code (UnregisterShard k) = 3"

text \<open>The 64 bytes that \<open>GatewayOp::hash\<close> digests.\<close>

fun op_preimage :: "(bytes \<Rightarrow> bytes) \<Rightarrow> gateway_op \<Rightarrow> bytes" where
  "op_preimage keccak (SendMessage m) = message_id_of keccak m @ keccak (payload m)"
| "op_preimage keccak (RegisterShard k) = replicate 31 0 @ k"
| "op_preimage keccak (UnregisterShard k) = replicate 31 0 @ k"

definition op_hash :: "(bytes \<Rightarrow> bytes) \<Rightarrow> gateway_op \<Rightarrow> bytes" where
  "op_hash keccak op = keccak (op_preimage keccak op)"

fun op_gas :: "gateway_op \<Rightarrow> u128" where
  "op_gas (SendMessage m) = gas_cost m"
| "op_gas _ = 40000"

datatype gateway_message = GatewayMessage (msg_ops: "gateway_op list")

text \<open>One round of the loop of \<open>GatewayMessage::hash\<close>: the bytes fed to the hasher.\<close>

definition chain_preimage :: "(bytes \<Rightarrow> bytes) \<Rightarrow> bytes \<Rightarrow> gateway_op \<Rightarrow> bytes" where
  "chain_preimage keccak acc op = acc @ replicate 31 0 @ [op_code op] @ op_hash keccak op"

definition ops_hash :: "(bytes \<Rightarrow> bytes) \<Rightarrow> gateway_op list \<Rightarrow> bytes" where
  "ops_hash keccak xs = foldl (\<lambda>acc op. keccak (chain_preimage keccak acc op)) (replicate 32 0) xs"

definition batch_preimage :: "(bytes \<Rightarrow> bytes) \<Rightarrow> gateway_message \<Rightarrow> batch_id \<Rightarrow> bytes" where
  "batch_preimage keccak m b =
     replicate 32 0 @ left_pad_32 (be_bytes 8 (unat b)) @ ops_hash keccak (msg_ops m)"

definition gateway_message_hash :: "(bytes \<Rightarrow> bytes) \<Rightarrow> gateway_message \<Rightarrow> batch_id \<Rightarrow> bytes" where
  "gateway_message_hash keccak m b = keccak (batch_preimage keccak m b)"

definition gateway_message_gas :: "gateway_message \<Rightarrow> u128" where
  "gateway_message_gas m = foldl (\<lambda>acc op. sat_add acc (op_gas op)) 0 (msg_ops m)"

section \<open>The batch builder\<close>

record batch_builder =
  batch_gas_limit :: u128
  gas :: u128
  ops :: "gateway_op list"

definition batch_builder_new :: "u128 \<Rightarrow> batch_builder" where
  "batch_builder_new limit = \<lparr>batch_gas_limit = limit, gas = 0, ops = []\<rparr>"

definition set_gas_limit :: "u128 \<Rightarrow> batch_builder \<Rightarrow> batch_builder" where
  "set_gas_limit limit b = b\<lparr>batch_gas_limit := limit\<rparr>"

definition take_batch :: "batch_builder \<Rightarrow> gateway_message option \<times> batch_builder" where
  "take_batch b =
     (if ops b = [] then (None, b)
      else (Some (GatewayMessage (ops b)), b\<lparr>gas := 0, ops := []\<rparr>))"

definition batch_push :: "gateway_op \<Rightarrow> batch_builder \<Rightarrow> gateway_message option \<times> batch_builder" where
  "batch_push op b =
     (let (batch, b') = (if gas b + op_gas op > batch_gas_limit b then take_batch b else (None, b))
      in (batch, b'\<lparr>ops := ops b' @ [op]\<rparr>))"

section \<open>Events\<close>

datatype gmp_event =
    ShardRegistered tss_public_key
  | ShardUnregistered tss_public_key
  | MessageReceived gmp_message
  | MessageExecuted message_id
  | BatchExecuted batch_id "tx_hash option"

section \<open>Tasks\<close>

datatype task =
    ReadGatewayEvents (blocks_start: u64) (blocks_end: u64)
  | SubmitGatewayMessage batch_id

fun needs_registration :: "task \<Rightarrow> bool" where
  "needs_registration (ReadGatewayEvents _ _) = False"
| "needs_registration (SubmitGatewayMessage _) = True"

fun needs_signer :: "task \<Rightarrow> bool" where
  "needs_signer (SubmitGatewayMessage _) = True"
| "needs_signer (ReadGatewayEvents _ _) = False"

fun start_block :: "task \<Rightarrow> u64" where
  "start_block (ReadGatewayEvents s e) = e"
| "start_block (SubmitGatewayMessage _) = 0"

definition MAX_GMP_EVENTS :: nat where
  "MAX_GMP_EVENTS = 10000"

text \<open>The message of a failed submission, at most 10000 bytes.\<close>

type_synonym error_msg = bytes

datatype task_result =
    ReadGatewayEventsResult "gmp_event list" tss_signature
  | SubmitGatewayMessageResult error_msg

section \<open>Header and digest\<close>

lemma length_left_pad_32 [simp]: "length bs \<le> 32 \<Longrightarrow> length (left_pad_32 bs) = 32"
  by (simp add: left_pad_32_def)

lemma left_pad_32_inj: "left_pad_32 xs = left_pad_32 ys \<Longrightarrow> length xs = length ys \<Longrightarrow> xs = ys"
  by (simp add: left_pad_32_def)

lemma length_encode_header: "wf_message m \<Longrightarrow> length (encode_header m) = HEADER_LEN"
  by (simp add: encode_header_def wf_message_def HEADER_LEN_def)

lemma be_bytes_word_inj:
  assumes "be_bytes n (unat a) = be_bytes n (unat b)" and "LENGTH('a) = 8 * n"
  shows "a = (b :: 'a::len word)"
proof -
  have p: "(2::nat) ^ LENGTH('a) = 256 ^ n" using assms(2) by (simp add: power_mult)
  have lt: "unat x < 256 ^ n" for x :: "'a word"
    unfolding p [symmetric] by (rule unsigned_less)
  from assms(1) lt lt have "unat a = unat b" by (rule be_bytes_inj)
  then show ?thesis by (simp add: word_unat_eq_iff)
qed

text \<open>Two messages with the same header agree in every field the header carries.\<close>

lemma encode_header_inj:
  assumes "wf_message m" "wf_message m'" and eq: "encode_header m = encode_header m'"
  shows "src m = src m' \<and> src_network m = src_network m' \<and> dest m = dest m' \<and>
    dest_network m = dest_network m' \<and> gas_limit m = gas_limit m' \<and> nonce m = nonce m'"
proof -
  have len: "length (src m) = 32" "length (src m') = 32" "length (dest m) = 32" "length (dest m') = 32"
    using assms(1,2) by (auto simp: wf_message_def)
  have parts: "left_pad_32 (src m) = left_pad_32 (src m')"
    "left_pad_32 (be_bytes 2 (unat (src_network m))) = left_pad_32 (be_bytes 2 (unat (src_network m')))"
    "left_pad_32 (dest m) = left_pad_32 (dest m')"
    "left_pad_32 (be_bytes 2 (unat (dest_network m))) = left_pad_32 (be_bytes 2 (unat (dest_network m')))"
    "left_pad_32 (be_bytes 16 (unat (gas_limit m))) = left_pad_32 (be_bytes 16 (unat (gas_limit m')))"
    "left_pad_32 (be_bytes 8 (unat (nonce m))) = left_pad_32 (be_bytes 8 (unat (nonce m')))"
    using eq len by (simp_all add: encode_header_def)
  note unpad = parts [THEN left_pad_32_inj]
  have "src m = src m'" "dest m = dest m'" using unpad(1,3) len by simp_all
  moreover have "src_network m = src_network m'" "dest_network m = dest_network m'"
    using unpad(2,4) by (simp_all add: be_bytes_word_inj [where n = 2])
  moreover have "gas_limit m = gas_limit m'" "nonce m = nonce m'"
    using unpad(5,6) by (simp_all add: be_bytes_word_inj [where n = 16] be_bytes_word_inj [where n = 8])
  ultimately show ?thesis by simp
qed

section \<open>The digest of a batch\<close>

text \<open>
  What of an operation reaches the digest: all but the gas cost of a message. The keys are Rust arrays of 33
  bytes.
\<close>

fun op_content :: "gateway_op \<Rightarrow> gateway_op" where
  "op_content (SendMessage m) = SendMessage (m\<lparr>gas_cost := 0\<rparr>)"
| "op_content op = op"

fun wf_op :: "gateway_op \<Rightarrow> bool" where
  "wf_op (SendMessage m) = wf_message m"
| "wf_op (RegisterShard k) = (length k = 33)"
| "wf_op (UnregisterShard k) = (length k = 33)"

text \<open>Every input Keccak is applied to while the digests of an operation and of a list of them are computed.\<close>

fun op_inputs :: "(bytes \<Rightarrow> bytes) \<Rightarrow> gateway_op \<Rightarrow> bytes set" where
  "op_inputs keccak (SendMessage m) = {encode_header m, payload m, op_preimage keccak (SendMessage m)}"
| "op_inputs keccak op = {op_preimage keccak op}"

fun chain_inputs :: "(bytes \<Rightarrow> bytes) \<Rightarrow> bytes \<Rightarrow> gateway_op list \<Rightarrow> bytes set" where
  "chain_inputs keccak acc [] = {}"
| "chain_inputs keccak acc (op # xs) =
     op_inputs keccak op \<union>
       insert (chain_preimage keccak acc op)
         (chain_inputs keccak (keccak (chain_preimage keccak acc op)) xs)"

definition batch_inputs :: "(bytes \<Rightarrow> bytes) \<Rightarrow> gateway_message \<Rightarrow> batch_id \<Rightarrow> bytes set" where
  "batch_inputs keccak m b =
     insert (batch_preimage keccak m b) (chain_inputs keccak (replicate 32 0) (msg_ops m))"

text \<open>
  What the digest is relied on for: over the inputs at hand Keccak returns 32 bytes, has no
  collision and never returns the zero digest the chain starts from.
\<close>

definition keccak_ok :: "(bytes \<Rightarrow> bytes) \<Rightarrow> bytes set \<Rightarrow> bool" where
  "keccak_ok keccak A \<longleftrightarrow>
     inj_on keccak A \<and> (\<forall>x\<in>A. length (keccak x) = 32 \<and> keccak x \<noteq> replicate 32 0)"

lemma chain_inputs_append:
  "chain_inputs keccak acc (xs @ ys) = chain_inputs keccak acc xs \<union>
     chain_inputs keccak (foldl (\<lambda>acc op. keccak (chain_preimage keccak acc op)) acc xs) ys"
  by (induction xs arbitrary: acc) auto

lemma ops_hash_snoc:
  "ops_hash keccak (xs @ [op]) = keccak (chain_preimage keccak (ops_hash keccak xs) op)"
  by (simp add: ops_hash_def)

lemma chain_inputs_snoc:
  "chain_inputs keccak (replicate 32 0) (xs @ [op]) =
     op_inputs keccak op \<union> insert (chain_preimage keccak (ops_hash keccak xs) op)
       (chain_inputs keccak (replicate 32 0) xs)"
  by (auto simp: chain_inputs_append ops_hash_def)

lemma length_ops_hash:
  "keccak_ok keccak A \<Longrightarrow> chain_inputs keccak (replicate 32 0) xs \<subseteq> A \<Longrightarrow> length (ops_hash keccak xs) = 32"
  by (cases xs rule: rev_cases)
    (auto simp: ops_hash_snoc chain_inputs_snoc keccak_ok_def ops_hash_def [of keccak "[]"])

lemma keccak_ok_inj: "keccak_ok keccak A \<Longrightarrow> x \<in> A \<Longrightarrow> y \<in> A \<Longrightarrow> keccak x = keccak y \<Longrightarrow> x = y"
  by (auto simp: keccak_ok_def inj_on_def)

lemma op_preimage_in: "op_preimage keccak op \<in> op_inputs keccak op"
  by (cases op) simp_all

text \<open>Code and bytes of an operation determine what of it reaches the digest, and the converse.\<close>

lemma op_preimage_inj:
  assumes ok: "keccak_ok keccak A" and sub: "op_inputs keccak x \<subseteq> A" "op_inputs keccak y \<subseteq> A"
    and wf: "wf_op x" "wf_op y" and eq: "op_code x = op_code y" "op_preimage keccak x = op_preimage keccak y"
  shows "op_content x = op_content y"
proof (cases x)
  case (SendMessage m)
  with eq(1) obtain m' where y: "y = SendMessage m'" by (cases y) simp_all
  have A: "encode_header m \<in> A" "encode_header m' \<in> A" "payload m \<in> A" "payload m' \<in> A"
    using sub by (simp_all add: SendMessage y)
  have l: "length (keccak (encode_header m)) = 32" "length (keccak (encode_header m')) = 32"
    using ok A(1,2) by (simp_all add: keccak_ok_def)
  have "keccak (encode_header m) = keccak (encode_header m')" "keccak (payload m) = keccak (payload m')"
    using eq(2) l by (simp_all add: SendMessage y message_id_of_def)
  then have "encode_header m = encode_header m'" "payload m = payload m'" using keccak_ok_inj [OF ok] A by blast+
  with encode_header_inj [of m m'] wf show ?thesis by (simp add: SendMessage y)
next
  case (RegisterShard k)
  with eq show ?thesis by (cases y) simp_all
next
  case (UnregisterShard k)
  with eq show ?thesis by (cases y) simp_all
qed

lemma op_content_digest: "op_code (op_content op) = op_code op" "op_hash keccak (op_content op) = op_hash keccak op"
  by (cases op; simp add: op_hash_def message_id_of_def encode_header_def)+

lemma ops_hash_content: "ops_hash keccak (map op_content xs) = ops_hash keccak xs"
  by (simp add: ops_hash_def foldl_map chain_preimage_def op_content_digest)

text \<open>The chain digest determines the operations up to the gas costs.\<close>

lemma ops_hash_inj:
  assumes "keccak_ok keccak A"
    and "chain_inputs keccak (replicate 32 0) xs \<subseteq> A" and "chain_inputs keccak (replicate 32 0) ys \<subseteq> A"
    and "list_all wf_op xs" and "list_all wf_op ys" and "ops_hash keccak xs = ops_hash keccak ys"
  shows "map op_content xs = map op_content ys"
  using assms(2-)
proof (induction xs arbitrary: ys rule: rev_induct)
  case Nil
  show ?case
  proof (cases ys rule: rev_cases)
    case (snoc ys' y)
    with Nil assms(1) show ?thesis
      by (auto simp: ops_hash_snoc chain_inputs_snoc keccak_ok_def ops_hash_def [of keccak "[]"])
  qed simp
next
  case (snoc x xs)
  show ?case
  proof (cases ys rule: rev_cases)
    case Nil
    with snoc.prems assms(1) show ?thesis
      by (auto simp: ops_hash_snoc chain_inputs_snoc keccak_ok_def ops_hash_def [of keccak "[]"])
  next
    case ys: (snoc ys' y)
    have sub: "chain_inputs keccak (replicate 32 0) xs \<subseteq> A" "chain_inputs keccak (replicate 32 0) ys' \<subseteq> A"
      "op_inputs keccak x \<subseteq> A" "op_inputs keccak y \<subseteq> A"
      "chain_preimage keccak (ops_hash keccak xs) x \<in> A"
      "chain_preimage keccak (ops_hash keccak ys') y \<in> A"
      using snoc.prems(1,2) by (auto simp: ys chain_inputs_snoc)
    from snoc.prems(5) have eq: "ops_hash keccak (xs @ [x]) = ops_hash keccak (ys' @ [y])"
      by (simp add: ys)
    have "chain_preimage keccak (ops_hash keccak xs) x =
        chain_preimage keccak (ops_hash keccak ys') y"
      by (rule keccak_ok_inj [OF assms(1) sub(5,6)]) (use eq in \<open>simp add: ops_hash_snoc\<close>)
    then have "ops_hash keccak xs = ops_hash keccak ys'" "op_code x = op_code y"
      "op_hash keccak x = op_hash keccak y"
      using length_ops_hash [OF assms(1) sub(1)] length_ops_hash [OF assms(1) sub(2)]
      by (auto simp: chain_preimage_def)
    moreover from this(3) have "keccak (op_preimage keccak x) = keccak (op_preimage keccak y)"
      by (simp add: op_hash_def)
    then have "op_preimage keccak x = op_preimage keccak y"
      using keccak_ok_inj [OF assms(1)] sub(3,4) op_preimage_in by (metis subsetD)
    ultimately show ?thesis
      using snoc.IH [OF sub(1,2)] op_preimage_inj [OF assms(1) sub(3,4)] snoc.prems(3,4) by (simp add: ys)
  qed
qed

section \<open>What the builder does with a sequence of operations\<close>

text \<open>The batches a sequence of pushes emits, and the builder left behind.\<close>

fun push_all :: "gateway_op list \<Rightarrow> batch_builder \<Rightarrow> gateway_message list \<times> batch_builder" where
  "push_all [] b = ([], b)"
| "push_all (op # xs) b =
     (let (batch, b') = batch_push op b; (bs, b'') = push_all xs b'
      in (case batch of None \<Rightarrow> bs | Some m \<Rightarrow> m # bs, b''))"

lemma take_batch_ops: "take_batch b = (r, b') \<Longrightarrow>
    (case r of None \<Rightarrow> [] | Some m \<Rightarrow> msg_ops m) @ ops b' = ops b"
  by (auto simp: take_batch_def split: if_splits)

lemma batch_push_ops: "batch_push op b = (r, b') \<Longrightarrow>
    (case r of None \<Rightarrow> [] | Some m \<Rightarrow> msg_ops m) @ ops b' = ops b @ [op]"
  by (auto simp: batch_push_def Let_def take_batch_def split: if_splits)

lemma batch_push_nonempty: "batch_push op b = (Some m, b') \<Longrightarrow> msg_ops m \<noteq> [] \<and> ops b' = [op]"
  by (auto simp: batch_push_def Let_def take_batch_def split: if_splits)

lemma batch_push_gas: "batch_push op b = (r, b') \<Longrightarrow> gas b = 0 \<Longrightarrow> gas b' = 0"
  by (auto simp: batch_push_def Let_def take_batch_def split: if_splits)

lemma batch_push_limit: "batch_push op b = (r, b') \<Longrightarrow> batch_gas_limit b' = batch_gas_limit b"
  by (auto simp: batch_push_def Let_def take_batch_def split: if_splits)

text \<open>
  The batch builder loses, duplicates and reorders nothing: the operations of the batches emitted
  by a sequence of pushes, followed by the operations still held, are the operations held before
  followed by those pushed.
\<close>

theorem push_all_conserves:
  "concat (map msg_ops (fst (push_all xs b))) @ ops (snd (push_all xs b)) = ops b @ xs"
proof (induction xs arbitrary: b)
  case (Cons op xs)
  obtain r c where p: "batch_push op b = (r, c)" by fastforce
  obtain ms d where q: "push_all xs c = (ms, d)" by fastforce
  from Cons.IH [of c] q have "concat (map msg_ops ms) @ ops d = ops c @ xs" by simp
  with batch_push_ops [OF p] show ?case
    by (cases r) (auto simp: p q)
qed simp

text \<open>
  The accumulated gas of a batch is never counted: however many operations are pushed, as long as
  each one alone is within the gas limit no batch is emitted, and the next batch taken holds all of
  them.
\<close>

theorem builder_counts_single_op_gas:
  assumes "\<forall>op\<in>set xs. op_gas op \<le> limit"
  shows "push_all xs (batch_builder_new limit) =
    ([], \<lparr>batch_gas_limit = limit, gas = 0, ops = xs\<rparr>)"
proof -
  have "push_all xs \<lparr>batch_gas_limit = limit, gas = 0, ops = ys\<rparr> =
      ([], \<lparr>batch_gas_limit = limit, gas = 0, ops = ys @ xs\<rparr>)" for ys
    using assms
    by (induction xs arbitrary: ys) (auto simp: batch_push_def Let_def)
  then show ?thesis by (simp add: batch_builder_new_def)
qed

theorem builder_counts_single_op_gas_witness:
  "push_all [RegisterShard [1], RegisterShard [2], UnregisterShard [3]] (batch_builder_new 50000) =
     ([], \<lparr>batch_gas_limit = 50000, gas = 0,
        ops = [RegisterShard [1], RegisterShard [2], UnregisterShard [3]]\<rparr>) \<and>
   gateway_message_gas (GatewayMessage [RegisterShard [1], RegisterShard [2], UnregisterShard [3]]) > 50000"
proof -
  have "\<forall>op\<in>set [RegisterShard [1], RegisterShard [2], UnregisterShard [3]]. op_gas op \<le> 50000"
    by simp
  from builder_counts_single_op_gas [OF this] show ?thesis
    by (simp add: gateway_message_gas_def sat_add_def)
qed

text \<open>
  C9. The digest a shard signs for a batch determines the batch id and the operations, in their order, with every
  field of their messages except the gas cost, and nothing else enters it: over inputs on which
  Keccak has no collision, two batches have the same digest exactly if they agree in these. The operations are built from
  arrays of the lengths of the code.
\<close>

theorem gateway_message_hash_binds:
  assumes ok: "keccak_ok keccak (batch_inputs keccak m b \<union> batch_inputs keccak m' b')"
    and wf: "list_all wf_op (msg_ops m)" "list_all wf_op (msg_ops m')"
  shows "gateway_message_hash keccak m b = gateway_message_hash keccak m' b' \<longleftrightarrow>
    b = b' \<and> map op_content (msg_ops m) = map op_content (msg_ops m')"
proof
  let ?A = "batch_inputs keccak m b \<union> batch_inputs keccak m' b'"
  have sub: "chain_inputs keccak (replicate 32 0) (msg_ops m) \<subseteq> ?A"
    "chain_inputs keccak (replicate 32 0) (msg_ops m') \<subseteq> ?A"
    and mem: "batch_preimage keccak m b \<in> ?A" "batch_preimage keccak m' b' \<in> ?A"
    by (auto simp: batch_inputs_def)
  assume eq: "gateway_message_hash keccak m b = gateway_message_hash keccak m' b'"
  have "batch_preimage keccak m b = batch_preimage keccak m' b'"
    by (rule keccak_ok_inj [OF ok mem]) (use eq in \<open>simp add: gateway_message_hash_def\<close>)
  then have pad: "left_pad_32 (be_bytes 8 (unat b)) = left_pad_32 (be_bytes 8 (unat b'))"
    and ops: "ops_hash keccak (msg_ops m) = ops_hash keccak (msg_ops m')"
    by (simp_all add: batch_preimage_def)
  from left_pad_32_inj [OF pad] have "b = b'" by (simp add: be_bytes_word_inj [where n = 8])
  with ops_hash_inj [OF ok sub wf ops] show "b = b' \<and> map op_content (msg_ops m) = map op_content (msg_ops m')" by simp
next
  assume eq: "b = b' \<and> map op_content (msg_ops m) = map op_content (msg_ops m')"
  then have "ops_hash keccak (msg_ops m) = ops_hash keccak (msg_ops m')" by (metis ops_hash_content)
  with eq show "gateway_message_hash keccak m b = gateway_message_hash keccak m' b'"
    by (simp add: gateway_message_hash_def batch_preimage_def)
qed

text \<open>A digest function for the witness: 32 bytes, the last of which mixes the length and two bytes of the input.\<close>

definition mix_digest :: "bytes \<Rightarrow> bytes" where
  "mix_digest bs = replicate 31 0 @ [1 + sum_list (take 1 (drop 31 bs)) + last bs + of_nat (length bs)]"

text \<open>A batch with a message of the given nonce and gas cost.\<close>

definition priced_batch :: "u64 \<Rightarrow> u128 \<Rightarrow> gateway_message" where
  "priced_batch n cost = GatewayMessage [SendMessage \<lparr>src_network = 1, dest_network = 2,
     src = replicate 32 3, dest = replicate 32 4, nonce = n, gas_limit = 5, gas_cost = cost, payload = [9]\<rparr>]"

theorem gateway_message_hash_binds_witness:
  "gateway_message_hash mix_digest (priced_batch 1 10) 5 = gateway_message_hash mix_digest (priced_batch 1 20) 5 \<and>
   gateway_message_hash mix_digest (priced_batch 1 10) 5 \<noteq> gateway_message_hash mix_digest (priced_batch 2 10) 5"
proof -
  have wf: "list_all wf_op (msg_ops (priced_batch n c))" for n c by (simp add: priced_batch_def wf_message_def)
  have 1: "keccak_ok mix_digest (batch_inputs mix_digest (priced_batch 1 10) 5 \<union> batch_inputs mix_digest (priced_batch 2 10) 5)"
    by code_simp
  have "batch_inputs mix_digest (priced_batch 1 20) 5 = batch_inputs mix_digest (priced_batch 1 10) 5"
    by (simp add: priced_batch_def batch_inputs_def batch_preimage_def chain_preimage_def ops_hash_def op_hash_def
        message_id_of_def encode_header_def)
  with 1 have 2: "keccak_ok mix_digest (batch_inputs mix_digest (priced_batch 1 10) 5 \<union> batch_inputs mix_digest (priced_batch 1 20) 5)"
    by (auto simp: keccak_ok_def inj_on_def)
  from 1 [THEN gateway_message_hash_binds, OF wf wf] 2 [THEN gateway_message_hash_binds, OF wf wf] show ?thesis by (simp add: priced_batch_def)
qed

end
