(* ===== verification/Cctp.thy ===== *)
theory Cctp
  imports Prelude Gmp
begin

text \<open>
  The Solidity ABI encoding of \<open>primitives/src/cctp.rs\<close>: fixed 32-byte blocks, length-prefixed dynamic
  byte strings and the three-field \<open>CCTPMessage\<close>. Lengths and offsets are the \<open>usize\<close> of a
  64-bit target, so that \<open>as usize\<close> loses nothing of a \<open>u64\<close> (on a 32-bit target such as \<open>wasm32\<close> it would drop the upper
  half); plain additions wrap as in the release profile, slices out of range panic (\<open>None\<close>).
\<close>

datatype decode_error = InsufficientData | InvalidBlockSize

text \<open>A decoder's result: \<open>None\<close> is a panic, \<open>Some (Inl e)\<close> an error, \<open>Some (Inr v)\<close> a value.\<close>

type_synonym 'a decoded = "(decode_error + 'a) option"

definition DECODE_BLOCK_SIZE :: nat where
  "DECODE_BLOCK_SIZE = 32"

text \<open>\<open>&xs[a..b]\<close>: panics unless \<open>a <= b <= xs.len()\<close>; \<open>&xs[a..]\<close> is the case \<open>b = xs.len()\<close>.\<close>

definition slice :: "bytes \<Rightarrow> nat \<Rightarrow> nat \<Rightarrow> bytes option" where
  "slice xs a b = (if a \<le> b \<and> b \<le> length xs then Some (take (b - a) (drop a xs)) else None)"

text \<open>\<open>u64::decode_from_block\<close>, an instance of \<open>impl_abi_fixed_decode_int\<close>.\<close>

definition decode_u64_from_block :: "bytes \<Rightarrow> decode_error + nat" where
  "decode_u64_from_block block =
     (if length block \<noteq> DECODE_BLOCK_SIZE then Inl InvalidBlockSize
      else Inr (from_be (drop (DECODE_BLOCK_SIZE - 8) block)))"

text \<open>Addition of \<open>usize\<close> values.\<close>

definition usize_add :: "nat \<Rightarrow> nat \<Rightarrow> nat" where
  "usize_add a b = (a + b) mod 2 ^ 64"

definition padded_length :: "nat \<Rightarrow> nat" where
  "padded_length n =
     (if n mod DECODE_BLOCK_SIZE = 0 then n
      else usize_add n (DECODE_BLOCK_SIZE - n mod DECODE_BLOCK_SIZE))"

definition decode_dynamic :: "bytes \<Rightarrow> (bytes \<times> nat) decoded" where
  "decode_dynamic input =
     (if length input < DECODE_BLOCK_SIZE then Some (Inl InsufficientData)
      else
        (let len = from_be (take 8 (drop (DECODE_BLOCK_SIZE - 8) input));
             total_size = usize_add DECODE_BLOCK_SIZE (padded_length len)
         in if length input < total_size then Some (Inl InsufficientData)
            else (case slice input DECODE_BLOCK_SIZE (usize_add DECODE_BLOCK_SIZE len) of
                    None \<Rightarrow> None
                  | Some data \<Rightarrow> Some (Inr (data, total_size)))))"

definition encode_dynamic :: "bytes \<Rightarrow> bytes" where
  "encode_dynamic bs =
     left_pad_32 (be_bytes 8 (length bs)) @ bs @
     replicate (if length bs mod 32 = 0 then 0 else 32 - length bs mod 32) 0"

record cctp_message =
  attestation :: bytes
  message :: bytes
  extra_data :: bytes

definition cctp_encode :: "cctp_message \<Rightarrow> bytes" where
  "cctp_encode m =
     (let att = encode_dynamic (attestation m);
          msg = encode_dynamic (message m);
          ext = encode_dynamic (extra_data m);
          attestation_offset = 3 * DECODE_BLOCK_SIZE;
          message_offset = usize_add attestation_offset (length att);
          extra_offset = usize_add message_offset (length msg)
      in left_pad_32 (be_bytes 8 32) @
         left_pad_32 (be_bytes 8 attestation_offset) @
         left_pad_32 (be_bytes 8 message_offset) @
         left_pad_32 (be_bytes 8 extra_offset) @
         att @ msg @ ext)"

text \<open>The dynamic field at an offset of the input: \<open>decode_dynamic(&input[offset as usize..])?\<close>.\<close>

definition decode_field :: "bytes \<Rightarrow> nat \<Rightarrow> bytes decoded" where
  "decode_field input off =
     (case slice input off (length input) of
        None \<Rightarrow> None
      | Some tail \<Rightarrow>
          (case decode_dynamic tail of
             None \<Rightarrow> None
           | Some (Inl e) \<Rightarrow> Some (Inl e)
           | Some (Inr (d, _)) \<Rightarrow> Some (Inr d)))"

text \<open>Sequencing decoders: the \<open>?\<close> operator, with a panic ending everything.\<close>

definition and_then :: "'a decoded \<Rightarrow> ('a \<Rightarrow> 'b decoded) \<Rightarrow> 'b decoded" where
  "and_then r f = (case r of None \<Rightarrow> None | Some (Inl e) \<Rightarrow> Some (Inl e) | Some (Inr v) \<Rightarrow> f v)"

definition cctp_from_bytes :: "bytes \<Rightarrow> cctp_message decoded" where
  "cctp_from_bytes inp =
     (if length inp < DECODE_BLOCK_SIZE then Some (Inl InsufficientData)
      else
        and_then (Some (decode_u64_from_block (take DECODE_BLOCK_SIZE inp))) (\<lambda>_.
        let input = drop DECODE_BLOCK_SIZE inp
        in if length input < 3 * DECODE_BLOCK_SIZE then Some (Inl InsufficientData)
           else
             and_then (Some (decode_u64_from_block (take 32 input))) (\<lambda>attestation_offset.
             and_then (Some (decode_u64_from_block (take 32 (drop 32 input)))) (\<lambda>message_offset.
             and_then (Some (decode_u64_from_block (take 32 (drop 64 input)))) (\<lambda>extra_offset.
             and_then (decode_field input attestation_offset) (\<lambda>att.
             and_then (decode_field input message_offset) (\<lambda>msg.
             and_then (decode_field input extra_offset) (\<lambda>ext.
               Some (Inr \<lparr>attestation = att, message = msg, extra_data = ext\<rparr>)))))))))"

section \<open>Blocks and dynamic fields\<close>

lemma and_then_simps [simp]:
  "and_then None f = None" "and_then (Some (Inl e)) f = Some (Inl e)" "and_then (Some (Inr v)) f = f v"
  by (simp_all add: and_then_def)

text \<open>A number below \<open>2 ^ 64\<close> padded into a block is read back.\<close>

lemma decode_u64_pad:
  assumes "x < 2 ^ 64"
  shows "decode_u64_from_block (left_pad_32 (be_bytes 8 x)) = Inr x"
  using assms by (simp add: decode_u64_from_block_def DECODE_BLOCK_SIZE_def left_pad_32_def from_be_be_bytes)

lemma length_encode_dynamic: "length (encode_dynamic bs) = 32 + padded_len"
  if "padded_len = (if length bs mod 32 = 0 then length bs else length bs + (32 - length bs mod 32))"
  using that by (simp add: encode_dynamic_def left_pad_32_def)

lemma decode_encode_dynamic:
  assumes "length bs + 64 < 2 ^ 64"
  shows "decode_dynamic (encode_dynamic bs @ rest) = Some (Inr (bs, length (encode_dynamic bs)))"
proof -
  let ?n = "length bs"
  let ?p = "if ?n mod 32 = 0 then ?n else ?n + (32 - ?n mod 32)"
  have n: "?n < 256 ^ 8" using assms by simp
  have p: "padded_length ?n = ?p" "usize_add 32 ?p = 32 + ?p" "usize_add 32 ?n = 32 + ?n"
    using assms by (simp_all add: padded_length_def usize_add_def DECODE_BLOCK_SIZE_def)
  have len: "length (encode_dynamic bs) = 32 + ?p"
    by (rule length_encode_dynamic) simp
  have lenb: "take 8 (drop 24 (encode_dynamic bs @ rest)) = be_bytes 8 ?n"
    by (simp add: encode_dynamic_def left_pad_32_def)
  have data: "slice (encode_dynamic bs @ rest) 32 (32 + ?n) = Some bs"
    by (simp add: slice_def encode_dynamic_def left_pad_32_def)
  show ?thesis
    unfolding decode_dynamic_def DECODE_BLOCK_SIZE_def
    using len lenb data p from_be_be_bytes [OF n] by (simp add: Let_def)
qed

lemma decode_field_at:
  assumes "length bs + 64 < 2 ^ 64"
  shows "decode_field (pre @ encode_dynamic bs @ rest) (length pre) = Some (Inr bs)"
  using decode_encode_dynamic [OF assms, of rest] by (simp add: decode_field_def slice_def)

lemma decode_u64_block:
  "length bs = 32 \<Longrightarrow> decode_u64_from_block bs = Inr (from_be (drop 24 bs))"
  by (simp add: decode_u64_from_block_def DECODE_BLOCK_SIZE_def)

text \<open>
  C10. Encoding a CCTP message and decoding the bytes gives the message back, for every message whose
  encoding fits the 64-bit offsets.
\<close>

theorem cctp_roundtrip:
  assumes "length (attestation m) + length (message m) + length (extra_data m) + 512 < 2 ^ 64"
  shows "cctp_from_bytes (cctp_encode m) = Some (Inr m)"
proof -
  let ?a = "encode_dynamic (attestation m)"
  let ?b = "encode_dynamic (message m)"
  let ?c = "encode_dynamic (extra_data m)"
  let ?blk = "\<lambda>x. left_pad_32 (be_bytes 8 x)"
  have la: "length ?a \<le> length (attestation m) + 64" and lb: "length ?b \<le> length (message m) + 64"
    by (simp_all add: encode_dynamic_def)
  have off: "usize_add 96 (length ?a) = 96 + length ?a"
    "usize_add (96 + length ?a) (length ?b) = 96 + length ?a + length ?b"
    using la lb assms by (simp_all add: usize_add_def)
  define body where "body = ?blk 96 @ ?blk (96 + length ?a) @ ?blk (96 + length ?a + length ?b) @ ?a @ ?b @ ?c"
  have enc: "cctp_encode m = ?blk 32 @ body"
    by (simp add: cctp_encode_def Let_def DECODE_BLOCK_SIZE_def off body_def)
  have len: "length body = 96 + length ?a + length ?b + length ?c" "length (?blk x) = 32" for x
    by (simp_all add: body_def)
  have blocks: "take 32 body = ?blk 96" "take 32 (drop 32 body) = ?blk (96 + length ?a)"
    "take 32 (drop 64 body) = ?blk (96 + length ?a + length ?b)"
    by (simp_all add: body_def)
  have dec: "decode_u64_from_block (?blk 96) = Inr 96"
    "decode_u64_from_block (?blk (96 + length ?a)) = Inr (96 + length ?a)"
    "decode_u64_from_block (?blk (96 + length ?a + length ?b)) = Inr (96 + length ?a + length ?b)"
    "decode_u64_from_block (?blk 32) = Inr 32"
    using la lb assms by (simp_all add: decode_u64_pad)
  have fa: "decode_field body 96 = Some (Inr (attestation m))"
    using decode_field_at [of "attestation m" "?blk 96 @ ?blk (96 + length ?a) @ ?blk (96 + length ?a + length ?b)"
        "?b @ ?c"] assms by (simp add: body_def)
  have fb: "decode_field body (96 + length ?a) = Some (Inr (message m))"
    using decode_field_at [of "message m"
        "?blk 96 @ ?blk (96 + length ?a) @ ?blk (96 + length ?a + length ?b) @ ?a" ?c] assms
    by (simp add: body_def)
  have fc: "decode_field body (96 + length ?a + length ?b) = Some (Inr (extra_data m))"
    using decode_field_at [of "extra_data m"
        "?blk 96 @ ?blk (96 + length ?a) @ ?blk (96 + length ?a + length ?b) @ ?a @ ?b" "[]"] assms
    by (simp add: body_def add.assoc)
  show ?thesis
    unfolding cctp_from_bytes_def enc DECODE_BLOCK_SIZE_def
    using len blocks dec fa fb fc by (simp add: Let_def)
qed

theorem cctp_roundtrip_witness:
  "cctp_from_bytes (cctp_encode \<lparr>attestation = [1, 2], message = replicate 32 9, extra_data = []\<rparr>) =
     Some (Inr \<lparr>attestation = [1, 2], message = replicate 32 9, extra_data = []\<rparr>)"
  by (rule cctp_roundtrip) simp

text \<open>
  Decoding does not check the offsets it reads: an input whose first offset points past its end
  makes \<open>from_bytes\<close> panic instead of returning a \<open>DecodeError\<close>.
\<close>

theorem cctp_offset_panics:
  assumes "128 \<le> length inp"
    and "length inp < 32 + from_be (take 8 (drop 56 inp))"
  shows "cctp_from_bytes inp = None"
proof -
  let ?input = "drop 32 inp"
  have len: "32 \<le> length inp" "96 \<le> length ?input" using assms(1) by simp_all
  have "decode_u64_from_block (take 32 ?input) = Inr (from_be (take 8 (drop 56 inp)))"
    using assms(1) by (simp add: decode_u64_block drop_take)
  moreover have "decode_field ?input (from_be (take 8 (drop 56 inp))) = None"
    using assms by (auto simp: decode_field_def slice_def)
  ultimately show ?thesis
    using assms(1)
    by (simp add: cctp_from_bytes_def DECODE_BLOCK_SIZE_def Let_def decode_u64_block)
qed

theorem cctp_offset_panics_witness: "cctp_from_bytes (replicate 63 0 @ [255] @ replicate 64 0) = None"
  by (rule cctp_offset_panics) (simp_all add: from_be_def)

end
