(* ===== verification/Runtime_Config.thy ===== *)
theory Runtime_Config
  imports Gmp
begin

text \<open>
  What the pallets take from outside: the constants the runtime configures, the origins and dispatch
  errors of FRAME, the order in which the storage trie holds hashed keys, and the cryptographic
  functions of the \<open>schnorr_evm\<close> and \<open>sha3\<close> crates, and the derived SCALE codec of
  \<open>parity_scale_codec\<close>. All of it is one record, \<open>config\<close>, passed to the
  operations that use it.
\<close>

type_synonym block_number = u32
type_synonym account_id = "256 word"
type_synonym peer_id = bytes
type_synonym public_key = bytes
type_synonym proof_of_knowledge = bytes
type_synonym commitment = "tss_public_key list"

definition MAX_SHARD_SIZE :: u32 where
  "MAX_SHARD_SIZE = 100"

text \<open>
  The origins of FRAME and of the technical committee: a call executed by a single member, or agreed on by some
  of its members, out of so many.
\<close>

datatype origin = Signed account_id | Root | Unsigned | CommitteeMember account_id | CommitteeMembers u32 u32

datatype 'e dispatch_error = BadOrigin | ModuleError 'e

text \<open>
  The result of a dispatchable: \<open>None\<close> is a panic, \<open>Some (Inl e)\<close> an error, after which FRAME rolls
  every storage change of the call back, \<open>Some (Inr s)\<close> the new storage.
\<close>

type_synonym ('e, 's) dispatch = "('e dispatch_error + 's) option"

text \<open>A call of a pallet as the runtime dispatches it: its errors are errors of the module.\<close>

definition dispatch_of :: "('e + 's) option \<Rightarrow> ('e, 's) dispatch" where
  "dispatch_of r = map_option (case_sum (\<lambda>e. Inl (ModuleError e)) Inr) r"

record config =
  max_tasks_per_block :: u32
  max_batches_per_block :: u32
  max_elections_per_block :: u32
  dkg_timeout :: block_number
  heartbeat_timeout :: block_number
  max_timeouts_per_block :: u32
  admin_origin :: "origin \<Rightarrow> bool"
  id_order :: "u64 \<Rightarrow> nat"
  network_order :: "network_id \<Rightarrow> nat"
  network_name_order :: "network_id \<Rightarrow> nat"
  account_order :: "account_id \<Rightarrow> nat"
  keccak :: "bytes \<Rightarrow> bytes"
  scale_gmp_events :: "task_id \<times> gmp_event list \<Rightarrow> bytes"
  schnorr_signature_ok :: "tss_signature \<Rightarrow> bool"
  schnorr_key_ok :: "tss_public_key \<Rightarrow> bool"
  schnorr_verify :: "tss_public_key \<Rightarrow> bytes \<Rightarrow> tss_signature \<Rightarrow> bool"
  schnorr_add :: "tss_public_key \<Rightarrow> tss_public_key \<Rightarrow> tss_public_key option"
  schnorr_verify_pok :: "peer_id \<Rightarrow> commitment \<Rightarrow> proof_of_knowledge \<Rightarrow> bool"
  into_account :: "public_key \<Rightarrow> account_id"

text \<open>The constants of the production runtime.\<close>

definition production_limits :: "config \<Rightarrow> config" where
  "production_limits c = c\<lparr>
     heartbeat_timeout := 300, max_timeouts_per_block := 25, max_elections_per_block := 25,
     dkg_timeout := 10, max_tasks_per_block := 50, max_batches_per_block := 10\<rparr>"

text \<open>\<open>verify_signature\<close> of \<open>primitives/src/shard.rs\<close>: both arguments must parse, then the signature is checked.\<close>

definition verify_signature :: "config \<Rightarrow> tss_public_key \<Rightarrow> bytes \<Rightarrow> tss_signature \<Rightarrow> bool" where
  "verify_signature cfg public_key data signature \<longleftrightarrow>
     (if \<not> schnorr_signature_ok cfg signature then False
      else if \<not> schnorr_key_ok cfg public_key then False
      else schnorr_verify cfg public_key data signature)"

text \<open>What a shard signs for the events it read: the SCALE encoding of the task id and the events.\<close>

definition encode_gmp_events :: "config \<Rightarrow> task_id \<Rightarrow> gmp_event list \<Rightarrow> bytes" where
  "encode_gmp_events cfg i events = scale_gmp_events cfg (i, events)"

text \<open>\<open>ensure_signed\<close> and \<open>AdminOrigin::ensure_origin\<close>.\<close>

definition ensure_signed :: "origin \<Rightarrow> account_id option" where
  "ensure_signed orig = (case orig of Signed a \<Rightarrow> Some a | _ \<Rightarrow> None)"

text \<open>A configuration for witnesses: every key parses and verifies, keys sort by their value.\<close>

definition test_config :: config where
  "test_config = \<lparr>
     max_tasks_per_block = 50, max_batches_per_block = 10, max_elections_per_block = 25,
     dkg_timeout = 10, heartbeat_timeout = 300, max_timeouts_per_block = 25,
     admin_origin = (\<lambda>orig. orig = Root),
     id_order = unat, network_order = unat, network_name_order = unat, account_order = unat,
     keccak = (\<lambda>bs. bs), scale_gmp_events = (\<lambda>(t, es). be_bytes 8 (unat t)),
     schnorr_signature_ok = (\<lambda>_. True), schnorr_key_ok = (\<lambda>_. True),
     schnorr_verify = (\<lambda>_ _ _. True), schnorr_add = (\<lambda>a b. Some a),
     schnorr_verify_pok = (\<lambda>_ _ _. True), into_account = (\<lambda>k. of_nat (from_be k))\<rparr>"

lemma dispatch_of_Inr [simp]: "dispatch_of r = Some (Inr s) \<longleftrightarrow> r = Some (Inr s)"
  by (cases r; cases "the r") (auto simp: dispatch_of_def)

lemma ensure_signed_simps [simp]:
  "ensure_signed (Signed a) = Some a" "ensure_signed Root = None" "ensure_signed Unsigned = None"
  "ensure_signed (CommitteeMember a) = None" "ensure_signed (CommitteeMembers n m) = None"
  by (simp_all add: ensure_signed_def)

end
