(* ===== verification/Networks.thy ===== *)
theory Networks
  imports Runtime_Config
begin

text \<open>
  The storage, queries and configuration calls of \<open>pallets/networks\<close>. Registering a network also
  starts its first task; that call is in the theory \<open>Registration\<close>, after the tasks pallet.
\<close>

record network_config =
  batch_size :: u32
  batch_offset :: u32
  cfg_batch_gas_limit :: u128
  cfg_shard_task_limit :: u32
  cfg_shard_size :: u16
  cfg_shard_threshold :: u16
  cctp_contracts :: "address32 list option"
  cctp_url :: "bytes option"

record network_info =
  network_info_id :: network_id
  chain_name :: bytes
  info_gateway :: address32
  gateway_block :: u64
  network_info_config :: network_config

datatype networks_event =
    NetworkRegistered network_id address32 u64
  | NetworkConfigChanged network_id network_config

datatype networks_error =
    NetworkExists | NetworkNotFound | ShardSizeAboveMax | ThresholdLargerThanSize | FailedClearingAddress

record networks_store =
  known_networks :: "network_id \<rightharpoonup> network_id"
  network_name :: "(network_id, bytes) smap"
  network_gateway_address :: "network_id \<rightharpoonup> address32"
  network_gateway_block :: "network_id \<rightharpoonup> u64"
  network_batch_size :: "network_id \<rightharpoonup> u32"
  network_batch_offset :: "network_id \<rightharpoonup> u32"
  network_batch_gas_limit :: "network_id \<rightharpoonup> u128"
  network_shard_task_limit :: "network_id \<rightharpoonup> u32"
  network_shard_size :: "network_id \<rightharpoonup> u16"
  network_shard_threshold :: "network_id \<rightharpoonup> u16"
  network_cctp_contracts :: "network_id \<rightharpoonup> address32 list"
  network_cctp_url :: "network_id \<rightharpoonup> bytes"
  networks_events :: "networks_event list"

definition empty_networks :: networks_store where
  "empty_networks = \<lparr>
     known_networks = Map.empty, network_name = [], network_gateway_address = Map.empty,
     network_gateway_block = Map.empty, network_batch_size = Map.empty,
     network_batch_offset = Map.empty, network_batch_gas_limit = Map.empty,
     network_shard_task_limit = Map.empty, network_shard_size = Map.empty,
     network_shard_threshold = Map.empty, network_cctp_contracts = Map.empty,
     network_cctp_url = Map.empty, networks_events = []\<rparr>"

section \<open>Queries\<close>

definition get_networks :: "config \<Rightarrow> networks_store \<Rightarrow> network_id list" where
  "get_networks cfg s = map fst (siter (network_name_order cfg) (network_name s))"

definition get_network :: "networks_store \<Rightarrow> network_id \<Rightarrow> bytes option" where
  "get_network s n = sget (network_name s) n"

definition get_cctp_contracts :: "networks_store \<Rightarrow> network_id \<Rightarrow> address32 list option" where
  "get_cctp_contracts s n = network_cctp_contracts s n"

definition get_cctp_url :: "networks_store \<Rightarrow> network_id \<Rightarrow> bytes option" where
  "get_cctp_url s n = network_cctp_url s n"

definition network_gateway :: "networks_store \<Rightarrow> network_id \<Rightarrow> address32 option" where
  "network_gateway s n = network_gateway_address s n"

text \<open>\<open>None\<close>: the remainder by a batch size of zero panics.\<close>

definition next_batch_size :: "networks_store \<Rightarrow> network_id \<Rightarrow> u64 \<Rightarrow> u32 option" where
  "next_batch_size s n block_height =
     (let size = value_or 32 (network_batch_size s n);
          off = value_or 0 (network_batch_offset s n)
      in if size = 0 then None
         else Some (size - ucast ((block_height + ucast off) mod ucast size)))"

definition network_gas_limit :: "networks_store \<Rightarrow> network_id \<Rightarrow> u128" where
  "network_gas_limit s n = value_or 10000 (network_batch_gas_limit s n)"

definition shard_task_limit :: "networks_store \<Rightarrow> network_id \<Rightarrow> u32" where
  "shard_task_limit s n = value_or 10 (network_shard_task_limit s n)"

definition shard_size :: "networks_store \<Rightarrow> network_id \<Rightarrow> u16" where
  "shard_size s n = value_or 3 (network_shard_size s n)"

definition shard_threshold_of :: "networks_store \<Rightarrow> network_id \<Rightarrow> u16" where
  "shard_threshold_of s n = value_or 2 (network_shard_threshold s n)"

section \<open>Configuration\<close>

definition insert_network_config ::
  "network_id \<Rightarrow> network_config \<Rightarrow> networks_store \<Rightarrow> networks_error + networks_store" where
  "insert_network_config n c s =
     (if known_networks s n = None then Inl NetworkNotFound
      else if \<not> (ucast MAX_SHARD_SIZE :: u16) \<ge> cfg_shard_size c then Inl ShardSizeAboveMax
      else if \<not> cfg_shard_size c \<ge> cfg_shard_threshold c then Inl ThresholdLargerThanSize
      else Inr (s\<lparr>
        network_batch_size := (network_batch_size s)(n \<mapsto> batch_size c),
        network_batch_offset := (network_batch_offset s)(n \<mapsto> batch_offset c),
        network_batch_gas_limit := (network_batch_gas_limit s)(n \<mapsto> cfg_batch_gas_limit c),
        network_shard_task_limit := (network_shard_task_limit s)(n \<mapsto> cfg_shard_task_limit c),
        network_shard_size := (network_shard_size s)(n \<mapsto> cfg_shard_size c),
        network_shard_threshold := (network_shard_threshold s)(n \<mapsto> cfg_shard_threshold c),
        network_cctp_contracts := (case cctp_contracts c of
            None \<Rightarrow> network_cctp_contracts s
          | Some cs \<Rightarrow> (network_cctp_contracts s)(n \<mapsto> cs)),
        network_cctp_url := (case cctp_url c of
            None \<Rightarrow> network_cctp_url s
          | Some u \<Rightarrow> (network_cctp_url s)(n \<mapsto> u)),
        networks_events := networks_events s @ [NetworkConfigChanged n c]\<rparr>))"

definition set_network_config ::
  "config \<Rightarrow> origin \<Rightarrow> network_id \<Rightarrow> network_config \<Rightarrow> networks_store \<Rightarrow>
     (networks_error, networks_store) dispatch" where
  "set_network_config cfg orig n c s =
     (if \<not> admin_origin cfg orig then Some (Inl BadOrigin)
      else (case insert_network_config n c s of
              Inl e \<Rightarrow> Some (Inl (ModuleError e))
            | Inr s' \<Rightarrow> Some (Inr s')))"

definition remove_network ::
  "config \<Rightarrow> origin \<Rightarrow> network_id \<Rightarrow> networks_store \<Rightarrow> (networks_error, networks_store) dispatch" where
  "remove_network cfg orig n s =
     (if \<not> admin_origin cfg orig then Some (Inl BadOrigin)
      else Some (Inr (s\<lparr>
        known_networks := (known_networks s)(n := None),
        network_name := sdel n (network_name s),
        network_gateway_address := (network_gateway_address s)(n := None),
        network_gateway_block := (network_gateway_block s)(n := None),
        network_batch_size := (network_batch_size s)(n := None),
        network_batch_gas_limit := (network_batch_gas_limit s)(n := None),
        network_shard_task_limit := (network_shard_task_limit s)(n := None),
        network_shard_size := (network_shard_size s)(n := None),
        network_shard_threshold := (network_shard_threshold s)(n := None),
        network_cctp_contracts := (network_cctp_contracts s)(n := None),
        network_cctp_url := (network_cctp_url s)(n := None)\<rparr>)))"

section \<open>Well-formed configurations\<close>

text \<open>
  The shard parameters every network is read with: at most \<open>MAX_SHARD_SIZE\<close> members, of which at most
  all are needed to sign; registered networks and network names are the same set.
\<close>

definition networks_inv :: "networks_store \<Rightarrow> bool" where
  "networks_inv s \<longleftrightarrow>
     (\<forall>n. shard_threshold_of s n \<le> shard_size s n \<and> shard_size s n \<le> 100) \<and>
     swf (network_name s) \<and>
     (\<forall>n. known_networks s n \<noteq> None \<longleftrightarrow> sget (network_name s) n \<noteq> None)"

lemma networks_inv_empty: "networks_inv empty_networks"
  by (simp add: networks_inv_def empty_networks_def shard_size_def shard_threshold_of_def)

lemma insert_network_config_fields:
  assumes "insert_network_config n c s = Inr s'"
  shows "cfg_shard_size c \<le> 100" "cfg_shard_threshold c \<le> cfg_shard_size c"
    "known_networks s n \<noteq> None"
    "known_networks s' = known_networks s" "network_name s' = network_name s"
    "network_gateway_address s' = network_gateway_address s"
    "shard_size s' m = (if m = n then cfg_shard_size c else shard_size s m)"
    "shard_threshold_of s' m = (if m = n then cfg_shard_threshold c else shard_threshold_of s m)"
    "network_batch_size s' = (network_batch_size s)(n \<mapsto> batch_size c)"
    "network_batch_offset s' = (network_batch_offset s)(n \<mapsto> batch_offset c)"
  using assms
  by (auto simp: insert_network_config_def MAX_SHARD_SIZE_def shard_size_def shard_threshold_of_def
      split: if_splits)

lemma insert_network_config_inv:
  "insert_network_config n c s = Inr s' \<Longrightarrow> networks_inv s \<Longrightarrow> networks_inv s'"
  using insert_network_config_fields [of n c s s'] by (auto simp: networks_inv_def)

lemma remove_network_inv:
  "remove_network cfg orig n s = Some (Inr s') \<Longrightarrow> networks_inv s \<Longrightarrow> networks_inv s'"
  by (fastforce simp: remove_network_def networks_inv_def shard_size_def shard_threshold_of_def
      split: if_splits)

section \<open>Block ranges\<close>

text \<open>
  What the tasks pallet relies on when it asks for the next batch of blocks: the batch is not empty,
  is at most one batch size long and ends at a multiple of the batch size, counted from the offset.
\<close>

locale batch_sizes =
  fixes next_size :: "'s \<Rightarrow> network_id \<Rightarrow> u64 \<Rightarrow> u32 option"
    and size_of :: "'s \<Rightarrow> network_id \<Rightarrow> u32"
    and offset_of :: "'s \<Rightarrow> network_id \<Rightarrow> u32"
  assumes zero: "size_of s n = 0 \<Longrightarrow> next_size s n h = None"
    and returns: "size_of s n \<noteq> 0 \<Longrightarrow> \<exists>r. next_size s n h = Some r"
    and bounds: "next_size s n h = Some r \<Longrightarrow> 0 < unat r \<and> unat r \<le> unat (size_of s n)"
    and aligned: "next_size s n h = Some r \<Longrightarrow> unat h + unat (offset_of s n) < 2 ^ 64 \<Longrightarrow>
      (unat h + unat (offset_of s n) + unat r) mod unat (size_of s n) = 0"
begin

text \<open>After one aligned batch every following batch has the full size.\<close>

lemma full_after_aligned:
  assumes r: "next_size s n h = Some r" and h': "unat h' = unat h + unat r"
    and fits: "unat h' + unat (offset_of s n) < 2 ^ 64" and r': "next_size s n h' = Some r'"
  shows "unat r' = unat (size_of s n)"
proof -
  let ?b = "unat (size_of s n)" and ?o = "unat (offset_of s n)"
  from fits h' have "unat h + ?o < 2 ^ 64" by simp
  from aligned [OF r this] have "(unat h' + ?o) mod ?b = 0" by (simp add: h' ac_simps)
  moreover from aligned [OF r' fits] have "(unat h' + ?o + unat r') mod ?b = 0" .
  ultimately have "?b dvd unat r'" by (auto simp: dvd_eq_mod_eq_0 [symmetric] dvd_add_right_iff)
  with bounds [OF r'] show ?thesis by (metis dvd_imp_le order_antisym)
qed

end

definition batch_size_of :: "networks_store \<Rightarrow> network_id \<Rightarrow> u32" where
  "batch_size_of s n = value_or 32 (network_batch_size s n)"

definition batch_offset_of :: "networks_store \<Rightarrow> network_id \<Rightarrow> u32" where
  "batch_offset_of s n = value_or 0 (network_batch_offset s n)"

lemma next_batch_size_unat:
  assumes "next_batch_size s n h = Some r"
  shows "batch_size_of s n \<noteq> 0"
    and "unat r = unat (batch_size_of s n) -
      unat (h + ucast (batch_offset_of s n)) mod unat (batch_size_of s n)"
proof -
  let ?b = "batch_size_of s n" and ?x = "h + ucast (batch_offset_of s n) :: u64"
  from assms show nz: "?b \<noteq> 0"
    by (auto simp: next_batch_size_def batch_size_of_def Let_def split: if_splits)
  from assms nz have r: "r = ?b - ucast (?x mod ucast ?b)"
    by (auto simp: next_batch_size_def batch_size_of_def batch_offset_of_def Let_def split: if_splits)
  have ub: "unat (ucast ?b :: u64) = unat ?b" by (simp add: unat_ucast_up)
  have m: "unat (?x mod ucast ?b) = unat ?x mod unat ?b" by (simp add: unat_mod ub)
  have lt: "unat ?x mod unat ?b < unat ?b" using nz by (simp add: unat_gt_0)
  also have "\<dots> < 2 ^ 32" using unsigned_less [of ?b] by simp
  finally have "unat (ucast (?x mod ucast ?b) :: u32) = unat ?x mod unat ?b"
    using m by (subst unat_ucast_small) simp_all
  with lt show "unat r = unat ?b - unat ?x mod unat ?b"
    by (simp add: r unat_sub word_le_nat_alt)
qed

interpretation network_batches: batch_sizes next_batch_size batch_size_of batch_offset_of
proof unfold_locales
  fix s n h r
  show "batch_size_of s n = 0 \<Longrightarrow> next_batch_size s n h = None"
    by (simp add: next_batch_size_def batch_size_of_def)
  show "batch_size_of s n \<noteq> 0 \<Longrightarrow> \<exists>r. next_batch_size s n h = Some r"
    by (simp add: next_batch_size_def batch_size_of_def Let_def)
  assume r: "next_batch_size s n h = Some r"
  note u = next_batch_size_unat [OF r]
  have pos: "0 < unat (batch_size_of s n)" using u(1) by (simp add: unat_gt_0)
  then have "unat (h + ucast (batch_offset_of s n)) mod unat (batch_size_of s n) < unat (batch_size_of s n)"
    by simp
  with u(2) pos show "0 < unat r \<and> unat r \<le> unat (batch_size_of s n)" by simp
  assume fits: "unat h + unat (batch_offset_of s n) < 2 ^ 64"
  have "unat (h + ucast (batch_offset_of s n)) = unat h + unat (batch_offset_of s n)"
    using fits by (simp add: unat_word_ariths unat_ucast_up)
  then show "(unat h + unat (batch_offset_of s n) + unat r) mod unat (batch_size_of s n) = 0"
    unfolding u(2) using pos
    by (metis (no_types, lifting) add_diff_inverse_nat mod_less_divisor le_add_diff_inverse
        less_imp_le_nat mod_add_left_eq mod_self)
qed

section \<open>Correctness of the block ranges\<close>

text \<open>
  C11. \<open>next_batch_size\<close> for a network with a positive batch size returns a range that is not empty, is
  at most one batch long and ends at a batch boundary (counted from the network's offset), and the
  range after it has exactly the batch size: after its first batch a network is read in aligned,
  full-sized batches.
\<close>

theorem next_batch_size_aligns:
  assumes size: "batch_size_of s n \<noteq> 0"
    and fits: "unat h + unat (batch_offset_of s n) + unat (batch_size_of s n) < 2 ^ 64"
  shows "\<exists>r. next_batch_size s n h = Some r \<and> 0 < unat r \<and> unat r \<le> unat (batch_size_of s n) \<and>
    (unat h + unat (batch_offset_of s n) + unat r) mod unat (batch_size_of s n) = 0 \<and>
    next_batch_size s n (h + ucast r) = Some (batch_size_of s n)"
proof -
  from network_batches.returns [OF size] obtain r where r: "next_batch_size s n h = Some r" by blast
  note b = network_batches.bounds [OF r]
  from fits have fits_h: "unat h + unat (batch_offset_of s n) < 2 ^ 64" by simp
  have h': "unat (h + ucast r) = unat h + unat r"
    using b fits by (simp add: unat_word_ariths unat_ucast_up)
  have fits': "unat (h + ucast r) + unat (batch_offset_of s n) < 2 ^ 64"
    using h' b fits by simp
  from network_batches.returns [OF size] obtain r' where
    r': "next_batch_size s n (h + ucast r) = Some r'" by blast
  have "unat r' = unat (batch_size_of s n)"
    by (rule network_batches.full_after_aligned [OF r h' fits' r'])
  then have "r' = batch_size_of s n" by (simp add: word_unat_eq_iff)
  with r r' b network_batches.aligned [OF r fits_h] show ?thesis by (intro exI [of _ r]) simp
qed

theorem next_batch_size_aligns_witness:
  "batch_size_of empty_networks 7 = 32 \<and> next_batch_size empty_networks 7 100 = Some 28 \<and>
   (100 + 28) mod 32 = (0::nat) \<and> next_batch_size empty_networks 7 128 = Some 32"
proof -
  have d: "batch_size_of empty_networks 7 = 32" "batch_offset_of empty_networks 7 = 0"
    by (simp_all add: batch_size_of_def batch_offset_of_def empty_networks_def)
  have v: "next_batch_size empty_networks 7 100 = Some 28"
    by (simp add: next_batch_size_def empty_networks_def)
  show ?thesis
    using next_batch_size_aligns [of empty_networks 7 100] by (simp add: d v)
qed

text \<open>
  \<open>insert_network_config\<close> checks the shard parameters but not the batch size: a configuration with
  a batch size of zero passes every check it makes on a known network, and from then on every call of
  \<open>next_batch_size\<close> for the network panics on a remainder by zero.
\<close>

theorem zero_batch_size_panics:
  assumes "known_networks s n \<noteq> None" and "cfg_shard_size c \<le> 100"
    and "cfg_shard_threshold c \<le> cfg_shard_size c" and "batch_size c = 0"
  shows "\<exists>s'. insert_network_config n c s = Inr s' \<and> next_batch_size s' n h = None"
proof -
  obtain s' where s': "insert_network_config n c s = Inr s'"
    using assms(1-3) by (auto simp: insert_network_config_def MAX_SHARD_SIZE_def)
  have "batch_size_of s' n = 0"
    using insert_network_config_fields(9) [OF s'] assms(4) by (simp add: batch_size_of_def)
  then have "next_batch_size s' n h = None" by (rule network_batches.zero)
  with s' show ?thesis by blast
qed

definition zero_batch_config :: network_config where
  "zero_batch_config = \<lparr>batch_size = 0, batch_offset = 0, cfg_batch_gas_limit = 10000,
     cfg_shard_task_limit = 10, cfg_shard_size = 3, cfg_shard_threshold = 2,
     cctp_contracts = None, cctp_url = None\<rparr>"

theorem zero_batch_size_panics_witness:
  "\<exists>s'. insert_network_config 5 zero_batch_config (empty_networks\<lparr>known_networks := [5 \<mapsto> 5]\<rparr>) = Inr s' \<and>
     next_batch_size s' 5 0 = None"
  by (rule zero_batch_size_panics) (simp_all add: zero_batch_config_def)

end
