(* ===== verification/Queue.thy ===== *)
theory Queue
  imports Gmp
begin

text \<open>
  The queues of \<open>pallets/tasks/src/queue.rs\<close>. A \<open>QueueImpl\<close> lives in three storage maps: the items by
  network and index, the index the next item is inserted at and the index the next item is removed
  from. Removing an item from the middle leaves a hole, which \<open>remove\<close> skips when the removal index
  reaches it. The theory shows that the three maps implement a FIFO queue per network, stated as the
  locale \<open>fifo\<close>.
\<close>

type_synonym index = u64

record 'v queue_store =
  insert_index :: "network_id \<rightharpoonup> index"
  remove_index :: "network_id \<rightharpoonup> index"
  items :: "network_id \<times> index \<rightharpoonup> 'v"

definition empty_queue :: "'v queue_store" where
  "empty_queue = \<lparr>insert_index = Map.empty, remove_index = Map.empty, items = Map.empty\<rparr>"

text \<open>\<open>InsertIndex::get(network).unwrap_or_default()\<close>, and the same for the removal index.\<close>

definition insert_i :: "'v queue_store \<Rightarrow> network_id \<Rightarrow> index" where
  "insert_i q n = value_or 0 (insert_index q n)"

definition remove_i :: "'v queue_store \<Rightarrow> network_id \<Rightarrow> index" where
  "remove_i q n = value_or 0 (remove_index q n)"

definition queue_push :: "network_id \<Rightarrow> 'v \<Rightarrow> 'v queue_store \<Rightarrow> 'v queue_store" where
  "queue_push n v q =
     (let i = insert_i q n
      in q\<lparr>items := (items q)((n, i) \<mapsto> v), insert_index := (insert_index q)(n \<mapsto> sat_succ i)\<rparr>)"

text \<open>The loop of \<open>remove\<close>: \<open>while Queue::get(network, remove_i).is_none() && remove_i < insert_i\<close>.\<close>

function skip_holes :: "(index \<rightharpoonup> 'v) \<Rightarrow> index \<Rightarrow> index \<Rightarrow> index" where
  "skip_holes m ins rem =
     (if m rem = None \<and> rem < ins then skip_holes m ins (sat_succ rem) else rem)"
  by pat_completeness auto
termination
  by (relation "measure (\<lambda>(m, ins, rem). unat ins - unat rem)")
    (auto simp: unat_sat_succ_less word_less_nat_alt)

declare skip_holes.simps [simp del]

definition queue_remove :: "network_id \<Rightarrow> index \<Rightarrow> 'v queue_store \<Rightarrow> 'v option \<times> 'v queue_store" where
  "queue_remove n i q =
     (let ins = insert_i q n; rem = remove_i q n
      in if ins \<le> rem then (None, q)
         else
           (let v = items q (n, i); its = (items q)((n, i) := None)
            in if i = rem
               then (v, q\<lparr>items := its,
                 remove_index := (remove_index q)(n \<mapsto> skip_holes (\<lambda>j. its (n, j)) ins (sat_succ rem))\<rparr>)
               else (v, q\<lparr>items := its\<rparr>)))"

definition queue_pop :: "network_id \<Rightarrow> 'v queue_store \<Rightarrow> 'v option \<times> 'v queue_store" where
  "queue_pop n q = queue_remove n (remove_i q n) q"

text \<open>A client's calls on the queues, their answers and the storage they leave.\<close>

datatype 'v queue_op = QPush network_id 'v | QPop network_id

fun queue_run :: "'v queue_op list \<Rightarrow> 'v queue_store \<Rightarrow> 'v option list \<times> 'v queue_store" where
  "queue_run [] q = ([], q)"
| "queue_run (QPush n v # xs) q = queue_run xs (queue_push n v q)"
| "queue_run (QPop n # xs) q =
     (let (x, q') = queue_pop n q; (rs, q'') = queue_run xs q' in (x # rs, q''))"

section \<open>The abstract queue\<close>

text \<open>The same calls on one list per network.\<close>

fun list_run :: "'v queue_op list \<Rightarrow> (network_id \<Rightarrow> 'v list) \<Rightarrow> 'v option list \<times> (network_id \<Rightarrow> 'v list)" where
  "list_run [] c = ([], c)"
| "list_run (QPush n v # xs) c = list_run xs (c(n := c n @ [v]))"
| "list_run (QPop n # xs) c =
     (case c n of
        [] \<Rightarrow> (let (rs, c') = list_run xs c in (None # rs, c'))
      | v # vs \<Rightarrow> (let (rs, c') = list_run xs (c(n := vs)) in (Some v # rs, c')))"

text \<open>The waiting items of a network, oldest first.\<close>

definition queue_list :: "'v queue_store \<Rightarrow> network_id \<Rightarrow> 'v list" where
  "queue_list q n =
     List.map_filter (\<lambda>i. items q (n, of_nat i)) [unat (remove_i q n)..<unat (insert_i q n)]"

text \<open>
  The well-formed queues: every stored item lies between the two indices, the removal index is at
  an item unless the queue is empty.
\<close>

definition queue_inv :: "'v queue_store \<Rightarrow> network_id \<Rightarrow> bool" where
  "queue_inv q n \<longleftrightarrow>
     remove_i q n \<le> insert_i q n \<and>
     (\<forall>i. items q (n, i) \<noteq> None \<longrightarrow> remove_i q n \<le> i \<and> i < insert_i q n) \<and>
     (remove_i q n < insert_i q n \<longrightarrow> items q (n, remove_i q n) \<noteq> None)"

text \<open>The queue still has room: its insert index has not saturated.\<close>

definition queue_room :: "'v queue_store \<Rightarrow> network_id \<Rightarrow> bool" where
  "queue_room q n \<longleftrightarrow> insert_i q n \<noteq> - 1"

text \<open>
  What a client of \<open>QueueT\<close> relies on, per network: \<open>push\<close> appends, \<open>pop\<close> takes the oldest item,
  neither touches the queue of another network.
\<close>

locale fifo =
  fixes push :: "network_id \<Rightarrow> 'v \<Rightarrow> 'q \<Rightarrow> 'q"
    and pop :: "network_id \<Rightarrow> 'q \<Rightarrow> 'v option \<times> 'q"
    and contents :: "'q \<Rightarrow> network_id \<Rightarrow> 'v list"
    and inv :: "'q \<Rightarrow> network_id \<Rightarrow> bool"
    and room :: "'q \<Rightarrow> network_id \<Rightarrow> bool"
  assumes push_contents: "inv q n \<Longrightarrow> room q n \<Longrightarrow> contents (push n v q) n = contents q n @ [v]"
    and push_other: "m \<noteq> n \<Longrightarrow> contents (push n v q) m = contents q m"
    and push_inv: "inv q m \<Longrightarrow> room q n \<Longrightarrow> inv (push n v q) m"
    and push_room: "room (push n v q) m \<Longrightarrow> room q m"
    and pop_empty: "inv q n \<Longrightarrow> contents q n = [] \<Longrightarrow> pop n q = (None, q)"
    and pop_cons: "inv q n \<Longrightarrow> contents q n = v # vs \<Longrightarrow>
      fst (pop n q) = Some v \<and> contents (snd (pop n q)) n = vs"
    and pop_other: "m \<noteq> n \<Longrightarrow> contents (snd (pop n q)) m = contents q m"
    and pop_inv: "inv q n \<Longrightarrow> inv q m \<Longrightarrow> inv (snd (pop n q)) m"
    and pop_room: "room (snd (pop n q)) m = room q m"
begin

lemma pop_None: "inv q n \<Longrightarrow> fst (pop n q) = None \<longleftrightarrow> contents q n = []"
  by (cases "contents q n") (auto simp: pop_empty dest: pop_cons)

lemma pop_eq: "inv q n \<Longrightarrow> pop n q = (x, q') \<Longrightarrow>
    (case x of None \<Rightarrow> contents q n = [] \<and> q' = q | Some v \<Rightarrow> contents q n = v # contents q' n)"
  using pop_empty [of q n] pop_cons [of q n] by (cases "contents q n") auto

text \<open>Popping until the queue answers \<open>None\<close> yields exactly its contents, oldest first.\<close>

lemma pop_shorter: "inv q n \<Longrightarrow> pop n q = (Some v, q') \<Longrightarrow>
    length (contents q' n) < length (contents q n) \<and> inv q' n"
  using pop_eq [of q n "Some v" q'] pop_inv [of q n n] by auto

end

section \<open>The storage maps implement the abstract queue\<close>

lemma insert_i_push [simp]:
  "insert_i (queue_push n v q) m = (if m = n then sat_succ (insert_i q n) else insert_i q m)"
  by (simp add: queue_push_def insert_i_def Let_def)

lemma remove_i_push [simp]: "remove_i (queue_push n v q) m = remove_i q m"
  by (simp add: queue_push_def remove_i_def Let_def)

lemma items_push [simp]: "items (queue_push n v q) = (items q)((n, insert_i q n) \<mapsto> v)"
  by (simp add: queue_push_def Let_def)

lemma skip_holes_bounds:
  "rem \<le> ins \<Longrightarrow> rem \<le> skip_holes m ins rem \<and> skip_holes m ins rem \<le> ins"
proof (induction m ins rem rule: skip_holes.induct)
  case (1 m ins rem)
  show ?case
  proof (cases "m rem = None \<and> rem < ins")
    case True
    then have s: "unat (sat_succ rem) = unat rem + 1" by (blast intro: unat_sat_succ_less)
    with True have le: "sat_succ rem \<le> ins" by (simp add: word_le_nat_alt word_less_nat_alt)
    from "1.IH" [OF True le] s True show ?thesis
      by (simp add: skip_holes.simps [of m ins rem] word_le_nat_alt)
  next
    case False
    with "1.prems" show ?thesis by (auto simp: skip_holes.simps [of m ins rem])
  qed
qed

lemma skip_holes_stops:
  "skip_holes m ins rem < ins \<Longrightarrow> m (skip_holes m ins rem) \<noteq> None"
proof (induction m ins rem rule: skip_holes.induct)
  case (1 m ins rem)
  then show ?case
    by (cases "m rem = None \<and> rem < ins") (auto simp: skip_holes.simps [of m ins rem])
qed

lemma skip_holes_skips:
  "rem \<le> i \<Longrightarrow> i < skip_holes m ins rem \<Longrightarrow> m i = None"
proof (induction m ins rem rule: skip_holes.induct)
  case (1 m ins rem)
  show ?case
  proof (cases "m rem = None \<and> rem < ins")
    case True
    then have s: "unat (sat_succ rem) = unat rem + 1" by (blast intro: unat_sat_succ_less)
    show ?thesis
    proof (cases "i = rem")
      case False
      with s "1.prems"(1) have "sat_succ rem \<le> i"
        by (simp add: word_le_nat_alt word_unat_eq_iff)
      moreover from True "1.prems"(2) have "i < skip_holes m ins (sat_succ rem)"
        by (simp add: skip_holes.simps [of m ins rem])
      ultimately show ?thesis by (rule "1.IH" [OF True])
    qed (use True in simp)
  next
    case False
    with "1.prems"(2) have "i < rem" by (auto simp: skip_holes.simps [of m ins rem])
    with "1.prems"(1) show ?thesis by simp
  qed
qed

lemma remove_at_front:
  assumes "remove_i q n < insert_i q n"
  shows "queue_pop n q = (items q (n, remove_i q n),
    q\<lparr>items := (items q)((n, remove_i q n) := None),
      remove_index := (remove_index q)(n \<mapsto>
        skip_holes (\<lambda>j. ((items q)((n, remove_i q n) := None)) (n, j)) (insert_i q n)
          (sat_succ (remove_i q n)))\<rparr>)"
  using assms by (auto simp: queue_pop_def queue_remove_def Let_def)

text \<open>The state after popping a non-empty queue.\<close>

lemma pop_state:
  assumes lt: "remove_i q n < insert_i q n"
  defines "r \<equiv> skip_holes (\<lambda>j. ((items q)((n, remove_i q n) := None)) (n, j)) (insert_i q n)
      (sat_succ (remove_i q n))"
  shows "fst (queue_pop n q) = items q (n, remove_i q n)"
    and "items (snd (queue_pop n q)) = (items q)((n, remove_i q n) := None)"
    and "insert_i (snd (queue_pop n q)) m = insert_i q m"
    and "remove_i (snd (queue_pop n q)) m = (if m = n then r else remove_i q m)"
    and "unat (remove_i q n) < unat r" and "r \<le> insert_i q n"
    and "unat (remove_i q n) < unat i \<Longrightarrow> i < r \<Longrightarrow> items q (n, i) = None"
    and "r < insert_i q n \<Longrightarrow> items q (n, r) \<noteq> None"
proof -
  have s: "unat (sat_succ (remove_i q n)) = unat (remove_i q n) + 1"
    using lt by (rule unat_sat_succ_less)
  then have le: "sat_succ (remove_i q n) \<le> insert_i q n"
    using lt by (simp add: word_le_nat_alt word_less_nat_alt)
  note b = skip_holes_bounds [OF le, of "\<lambda>j. ((items q)((n, remove_i q n) := None)) (n, j)", folded r_def]
  show "unat (remove_i q n) < unat r" "r \<le> insert_i q n"
    using b s by (simp_all add: word_le_nat_alt)
  show "fst (queue_pop n q) = items q (n, remove_i q n)"
    "items (snd (queue_pop n q)) = (items q)((n, remove_i q n) := None)"
    "insert_i (snd (queue_pop n q)) m = insert_i q m"
    "remove_i (snd (queue_pop n q)) m = (if m = n then r else remove_i q m)"
    by (simp_all add: remove_at_front [OF lt] insert_i_def remove_i_def [of "q\<lparr>items := _, remove_index := _\<rparr>"]
        r_def) (simp_all add: remove_i_def)
  show "items q (n, i) = None" if "unat (remove_i q n) < unat i" "i < r"
    using skip_holes_skips [of "sat_succ (remove_i q n)" i "\<lambda>j. ((items q)((n, remove_i q n) := None)) (n, j)"
        "insert_i q n"] that s
    by (auto simp: r_def word_le_nat_alt split: if_splits)
  show "items q (n, r) \<noteq> None" if "r < insert_i q n"
    using skip_holes_stops [of "\<lambda>j. ((items q)((n, remove_i q n) := None)) (n, j)" "insert_i q n"
        "sat_succ (remove_i q n)"] that
    by (auto simp: r_def split: if_splits)
qed

lemma pop_state_empty: "\<not> remove_i q n < insert_i q n \<Longrightarrow> queue_pop n q = (None, q)"
  by (simp add: queue_pop_def queue_remove_def Let_def not_less)

text \<open>The invariant over the indices as natural numbers.\<close>

lemma queue_inv_unat:
  "queue_inv q n \<longleftrightarrow>
     unat (remove_i q n) \<le> unat (insert_i q n) \<and>
     (\<forall>i. items q (n, i) \<noteq> None \<longrightarrow>
        unat (remove_i q n) \<le> unat i \<and> unat i < unat (insert_i q n)) \<and>
     (unat (remove_i q n) < unat (insert_i q n) \<longrightarrow> items q (n, remove_i q n) \<noteq> None)"
  by (simp add: queue_inv_def word_le_nat_alt word_less_nat_alt)

lemma queue_list_push:
  assumes inv: "queue_inv q n" and room: "queue_room q n"
  shows "queue_list (queue_push n v q) n = queue_list q n @ [v]"
proof -
  let ?r = "unat (remove_i q n)" and ?i = "unat (insert_i q n)"
  have s: "unat (sat_succ (insert_i q n)) = ?i + 1"
    using room by (simp add: queue_room_def sat_succ_not_max unat_succ)
  have le: "?r \<le> ?i" using inv by (simp add: queue_inv_def word_le_nat_alt)
  have "items (queue_push n v q) (n, of_nat j) = items q (n, of_nat j)" if "j < ?i" for j
    using that of_nat_below [OF that] by auto
  then have "List.map_filter (\<lambda>j. items (queue_push n v q) (n, of_nat j)) [?r..<?i] = queue_list q n"
    unfolding queue_list_def by (intro map_filter_same) auto
  moreover have "List.map_filter (\<lambda>j. items (queue_push n v q) (n, of_nat j)) [?i] = [v]"
    by (simp add: List.map_filter_simps)
  ultimately show ?thesis
    unfolding queue_list_def [of "queue_push n v q"] using le by (simp add: s map_filter_append)
qed

lemma queue_list_push_other: "m \<noteq> n \<Longrightarrow> queue_list (queue_push n v q) m = queue_list q m"
  by (simp add: queue_list_def)

lemma queue_inv_push:
  assumes inv: "queue_inv q m" and room: "queue_room q n"
  shows "queue_inv (queue_push n v q) m"
proof (cases "m = n")
  case True
  have s: "unat (sat_succ (insert_i q n)) = unat (insert_i q n) + 1"
    using room by (simp add: queue_room_def sat_succ_not_max unat_succ)
  from inv [unfolded True queue_inv_unat]
  have le: "unat (remove_i q n) \<le> unat (insert_i q n)"
    and its: "\<And>i. items q (n, i) \<noteq> None \<Longrightarrow>
      unat (remove_i q n) \<le> unat i \<and> unat i < unat (insert_i q n)"
    and front: "unat (remove_i q n) < unat (insert_i q n) \<Longrightarrow> items q (n, remove_i q n) \<noteq> None"
    by auto
  show ?thesis
    unfolding True queue_inv_unat insert_i_push remove_i_push items_push
  proof (intro conjI allI impI)
    show "unat (remove_i q n) \<le> unat (if n = n then sat_succ (insert_i q n) else insert_i q n)"
      using le by (simp add: s)
    fix i
    assume "((items q)((n, insert_i q n) \<mapsto> v)) (n, i) \<noteq> None"
    then have "i = insert_i q n \<or> items q (n, i) \<noteq> None" by (auto split: if_splits)
    then show "unat (remove_i q n) \<le> unat i"
      and "unat i < unat (if n = n then sat_succ (insert_i q n) else insert_i q n)"
      using le its [of i] by (auto simp: s)
  next
    show "((items q)((n, insert_i q n) \<mapsto> v)) (n, remove_i q n) \<noteq> None"
      using le front by (cases "remove_i q n = insert_i q n") (auto simp: word_unat_eq_iff)
  qed
next
  case False
  with inv show ?thesis by (simp add: queue_inv_def)
qed

lemma queue_room_push: "queue_room (queue_push n v q) m \<Longrightarrow> queue_room q m"
  by (auto simp: queue_room_def sat_succ_def sat_add_def unat_max split: if_splits)

lemma queue_list_empty: "queue_inv q n \<Longrightarrow> queue_list q n = [] \<longleftrightarrow> remove_i q n = insert_i q n"
proof
  assume inv: "queue_inv q n" and nil: "queue_list q n = []"
  show "remove_i q n = insert_i q n"
  proof (rule ccontr)
    assume "remove_i q n \<noteq> insert_i q n"
    with inv have lt: "unat (remove_i q n) < unat (insert_i q n)"
      and it: "items q (n, remove_i q n) \<noteq> None"
      by (auto simp: queue_inv_def word_less_nat_alt word_le_nat_alt word_unat_eq_iff)
    from lt have "[unat (remove_i q n)..<unat (insert_i q n)] =
        unat (remove_i q n) # [Suc (unat (remove_i q n))..<unat (insert_i q n)]"
      by (rule upt_conv_Cons)
    with it have "queue_list q n \<noteq> []" by (auto simp: queue_list_def List.map_filter_simps)
    with nil show False by simp
  qed
qed (simp add: queue_list_def List.map_filter_simps)

lemma queue_pop_empty: "queue_inv q n \<Longrightarrow> queue_list q n = [] \<Longrightarrow> queue_pop n q = (None, q)"
  by (simp add: queue_list_empty queue_pop_def queue_remove_def Let_def)

lemma queue_pop_cons:
  assumes inv: "queue_inv q n" and cons: "queue_list q n = v # vs"
  shows "fst (queue_pop n q) = Some v \<and> queue_list (snd (queue_pop n q)) n = vs"
proof -
  let ?q = "snd (queue_pop n q)"
  let ?a = "unat (remove_i q n)" and ?b = "unat (remove_i ?q n)" and ?c = "unat (insert_i q n)"
  from inv cons have lt: "remove_i q n < insert_i q n" and it: "items q (n, remove_i q n) \<noteq> None"
    using queue_list_empty [OF inv] by (auto simp: queue_inv_def)
  note ps = pop_state [OF lt]
  have r: "?a < ?b" "?b \<le> ?c" using ps(4) [of n] ps(5,6) by (simp_all add: word_le_nat_alt)
  have "[?a..<?c] = ?a # [Suc ?a..<?b] @ [?b..<?c]"
    using r upt_add_eq_append [of "Suc ?a" ?b "?c - ?b"] by (simp add: upt_conv_Cons)
  then have "queue_list q n = the (items q (n, remove_i q n)) #
      List.map_filter (\<lambda>i. items q (n, of_nat i)) [Suc ?a..<?b] @
      List.map_filter (\<lambda>i. items q (n, of_nat i)) [?b..<?c]"
    using it by (auto simp: queue_list_def List.map_filter_simps map_filter_append)
  moreover have "List.map_filter (\<lambda>i. items q (n, of_nat i)) [Suc ?a..<?b] = []"
    using ps(4) [of n] ps(7) of_nat_below [of _ "remove_i ?q n"]
    by (intro map_filter_none) (auto simp: word_less_nat_alt)
  moreover have "of_nat i \<noteq> remove_i q n" if "?b \<le> i" "i < ?c" for i
    using of_nat_below [OF that(2)] that(1) r(1) by auto
  then have "queue_list ?q n = List.map_filter (\<lambda>i. items q (n, of_nat i)) [?b..<?c]"
    unfolding queue_list_def ps(3) by (intro map_filter_same) (auto simp: ps(2))
  ultimately show ?thesis using cons it ps(1) by auto
qed

lemma queue_pop_other: "m \<noteq> n \<Longrightarrow> queue_list (snd (queue_pop n q)) m = queue_list q m"
  by (cases "remove_i q n < insert_i q n") (simp_all add: queue_list_def pop_state pop_state_empty)

lemma queue_pop_room: "queue_room (snd (queue_pop n q)) m = queue_room q m"
  by (cases "remove_i q n < insert_i q n") (simp_all add: queue_room_def pop_state pop_state_empty)

lemma queue_pop_inv:
  assumes "queue_inv q n" and inv: "queue_inv q m"
  shows "queue_inv (snd (queue_pop n q)) m"
proof (cases "remove_i q n < insert_i q n")
  case True
  note ps = pop_state [OF True]
  show ?thesis
  proof (cases "m = n")
    case same: True
    let ?r = "remove_i (snd (queue_pop n q)) n"
    have r: "unat (remove_i q n) < unat ?r" "unat ?r \<le> unat (insert_i q n)"
      and gap: "\<And>i. unat (remove_i q n) < unat i \<Longrightarrow> unat i < unat ?r \<Longrightarrow> items q (n, i) = None"
      and front: "unat ?r < unat (insert_i q n) \<Longrightarrow> items q (n, ?r) \<noteq> None"
      using ps(4) [of n] ps(5-8) by (auto simp: word_le_nat_alt word_less_nat_alt)
    from inv [unfolded same queue_inv_unat] have its: "\<And>i. items q (n, i) \<noteq> None \<Longrightarrow>
        unat (remove_i q n) \<le> unat i \<and> unat i < unat (insert_i q n)" by auto
    show ?thesis
      unfolding same queue_inv_unat ps(2,3)
    proof (intro conjI allI impI)
      fix i
      assume "((items q)((n, remove_i q n) := None)) (n, i) \<noteq> None"
      then have i: "i \<noteq> remove_i q n" "items q (n, i) \<noteq> None" by (auto split: if_splits)
      with its [of i] have "unat (remove_i q n) < unat i" "unat i < unat (insert_i q n)"
        by (auto simp: word_unat_eq_iff)
      with gap [of i] i show "unat ?r \<le> unat i" "unat i < unat (insert_i q n)"
        by (auto simp: not_less [symmetric])
    qed (use r front in auto)
  next
    case False
    with inv show ?thesis by (simp add: queue_inv_def ps(2-4))
  qed
qed (use inv in \<open>simp add: pop_state_empty\<close>)

interpretation queue_impl: fifo queue_push queue_pop queue_list queue_inv queue_room
  by unfold_locales
    (simp_all add: queue_list_push queue_list_push_other queue_inv_push queue_room_push
      queue_pop_empty queue_pop_cons queue_pop_other queue_pop_inv queue_pop_room)

section \<open>Correctness of the queues\<close>

lemma queue_run_room: "queue_room (snd (queue_run xs q)) n \<Longrightarrow> queue_room q n"
proof (induction xs arbitrary: q)
  case (Cons x xs)
  then show ?case
    by (cases x) (auto simp: split_beta Let_def queue_impl.pop_room dest: Cons.IH queue_impl.push_room)
qed simp

lemma contents_push:
  "queue_inv q n \<Longrightarrow> queue_room q n \<Longrightarrow>
    queue_list (queue_push n v q) = (queue_list q)(n := queue_list q n @ [v])"
  by (rule ext) (simp add: queue_impl.push_contents queue_impl.push_other)

lemma contents_pop:
  "queue_inv q n \<Longrightarrow> queue_list (snd (queue_pop n q)) = (queue_list q)(n := tl (queue_list q n))"
  using queue_impl.pop_cons [of q n] queue_impl.pop_empty [of q n]
  by (intro ext, cases "queue_list q n") (auto simp: queue_impl.pop_other)

lemma fst_pop: "queue_inv q n \<Longrightarrow>
    fst (queue_pop n q) = (case queue_list q n of [] \<Rightarrow> None | v # _ \<Rightarrow> Some v)"
  using queue_impl.pop_cons [of q n] queue_impl.pop_empty [of q n] by (cases "queue_list q n") auto

text \<open>Pushing several items to the queue of one network.\<close>

lemma pushes_room: "queue_room (fold (queue_push n) xs q) m \<Longrightarrow> queue_room q m"
  by (induction xs arbitrary: q) (auto dest: queue_impl.push_room)

lemma pushes_contents:
  assumes "\<And>m. queue_inv q m" and "queue_room (fold (queue_push n) xs q) n"
  shows "queue_list (fold (queue_push n) xs q) m = queue_list q m @ (if m = n then xs else [])"
    and "queue_inv (fold (queue_push n) xs q) m"
proof -
  have "queue_list (fold (queue_push n) xs q) m = queue_list q m @ (if m = n then xs else []) \<and>
      queue_inv (fold (queue_push n) xs q) m"
    using assms
  proof (induction xs arbitrary: q)
    case (Cons x xs)
    have room: "queue_room q n"
      using pushes_room [of n xs "queue_push n x q" n] Cons.prems(2) queue_impl.push_room by fastforce
    have inv: "queue_inv (queue_push n x q) m" for m
      using Cons.prems(1) room by (rule queue_impl.push_inv)
    from Cons.IH [OF inv] Cons.prems room show ?case
      by (simp add: queue_impl.push_contents queue_impl.push_other)
  qed simp
  then show "queue_list (fold (queue_push n) xs q) m = queue_list q m @ (if m = n then xs else [])"
    and "queue_inv (fold (queue_push n) xs q) m" by auto
qed

text \<open>
  C7. The three storage maps of \<open>QueueImpl\<close> implement one FIFO queue per network: any sequence of
  \<open>push\<close> and \<open>pop\<close> calls answers exactly as the same calls on plain lists do, and leaves the lists
  those leave, as long as no insert index has saturated at \<open>u64::MAX\<close>.
\<close>

theorem queue_refines_lists:
  assumes "\<And>n. queue_inv q n" and "\<And>n. queue_room (snd (queue_run xs q)) n"
  shows "fst (queue_run xs q) = fst (list_run xs (queue_list q)) \<and>
    queue_list (snd (queue_run xs q)) = snd (list_run xs (queue_list q)) \<and>
    (\<forall>n. queue_inv (snd (queue_run xs q)) n)"
  using assms
proof (induction xs q rule: queue_run.induct)
  case (2 n v xs q)
  have room: "queue_room q n"
    using "2.prems"(2) [of n] queue_run_room [of xs "queue_push n v q" n] queue_impl.push_room
    by fastforce
  have "queue_inv (queue_push n v q) m" for m
    using "2.prems"(1) room by (rule queue_impl.push_inv)
  with "2.IH" "2.prems"(2) show ?case
    by (simp add: contents_push [OF "2.prems"(1) room] fun_upd_def)
next
  case (3 n xs q)
  let ?q = "snd (queue_pop n q)"
  have inv: "queue_inv ?q m" for m using "3.prems"(1) by (intro queue_impl.pop_inv)
  have room: "queue_room (snd (queue_run xs ?q)) m" for m
    using "3.prems"(2) [of m] by (simp add: split_beta Let_def)
  note IH = "3.IH" [OF refl prod.collapse inv room, unfolded contents_pop [OF "3.prems"(1)]]
  show ?case
  proof (cases "queue_list q n")
    case Nil
    then have "(\<lambda>m. if m = n then [] else queue_list q m) = queue_list q" by auto
    with IH Nil show ?thesis by (simp add: split_beta Let_def fst_pop [OF "3.prems"(1)])
  next
    case (Cons v vs)
    with IH show ?thesis by (simp add: split_beta Let_def fst_pop [OF "3.prems"(1)] fun_upd_def)
  qed
qed auto

theorem queue_refines_lists_witness:
  "fst (queue_run [QPush 1 10, QPush 2 (20::nat), QPush 1 11, QPop 1, QPop 2, QPop 2, QPop 1] empty_queue)
     = [Some 10, Some 20, None, Some 11]"
proof -
  let ?xs = "[QPush 1 10, QPush 2 (20::nat), QPush 1 11, QPop 1, QPop 2, QPop 2, QPop 1]"
  have inv: "queue_inv (empty_queue :: nat queue_store) n" for n
    by (simp add: queue_inv_def empty_queue_def insert_i_def remove_i_def)
  have room: "queue_room (snd (queue_run ?xs empty_queue)) n" for n
    by (simp add: split_beta Let_def queue_impl.pop_room)
      (simp add: queue_room_def, simp add: empty_queue_def insert_i_def sat_succ_def sat_add_def)
  have empty: "queue_list (empty_queue :: nat queue_store) = (\<lambda>_. [])"
    by (rule ext) (simp add: queue_list_def empty_queue_def insert_i_def remove_i_def List.map_filter_simps)
  show ?thesis using queue_refines_lists [of empty_queue ?xs, OF inv room] by (simp add: empty)
qed

lemma queue_list_split:
  assumes "queue_inv q n" and "items q (n, i) = Some v"
  shows "queue_list q n =
    List.map_filter (\<lambda>j. items q (n, of_nat j)) [unat (remove_i q n)..<unat i] @
    v # List.map_filter (\<lambda>j. items q (n, of_nat j)) [Suc (unat i)..<unat (insert_i q n)]"
proof -
  have b: "unat (remove_i q n) \<le> unat i" "unat i < unat (insert_i q n)"
    using assms by (auto simp: queue_inv_unat)
  have "[unat (remove_i q n)..<unat (insert_i q n)] =
      [unat (remove_i q n)..<unat i] @ unat i # [Suc (unat i)..<unat (insert_i q n)]"
    using b upt_add_eq_append [of "unat (remove_i q n)" "unat i" "unat (insert_i q n) - unat i"]
    by (simp add: upt_conv_Cons)
  then show ?thesis
    using assms(2) by (simp add: queue_list_def map_filter_append List.map_filter_simps)
qed

lemma queue_remove_interior:
  assumes inv: "queue_inv q n" and it: "items q (n, i) = Some v" and ne: "i \<noteq> remove_i q n"
  shows "queue_remove n i q = (Some v, q\<lparr>items := (items q)((n, i) := None)\<rparr>)"
    and "queue_inv (q\<lparr>items := (items q)((n, i) := None)\<rparr>) m \<longleftrightarrow> queue_inv q m"
proof -
  from inv it have b: "remove_i q n \<le> i" "i < insert_i q n" by (auto simp: queue_inv_def)
  with it ne show "queue_remove n i q = (Some v, q\<lparr>items := (items q)((n, i) := None)\<rparr>)"
    by (auto simp: queue_remove_def Let_def not_le)
  show "queue_inv (q\<lparr>items := (items q)((n, i) := None)\<rparr>) m \<longleftrightarrow> queue_inv q m"
    using b ne by (cases "m = n") (auto simp: queue_inv_def insert_i_def remove_i_def)
qed

text \<open>
  \<open>remove\<close> of a stored index takes out exactly the item there: the answer is the item, and what
  waits afterwards is what waited before without it, in the same order. The queue stays well-formed
  whether the removal leaves a hole or advances the removal index over the holes left earlier.
\<close>

theorem queue_remove_exact:
  assumes inv: "queue_inv q n" and it: "items q (n, i) = Some v"
  shows "\<exists>older newer. queue_list q n = older @ v # newer \<and>
    fst (queue_remove n i q) = Some v \<and>
    queue_list (snd (queue_remove n i q)) n = older @ newer \<and>
    queue_inv (snd (queue_remove n i q)) n"
proof (cases "i = remove_i q n")
  case True
  have front: "queue_list q n = v # List.map_filter (\<lambda>j. items q (n, of_nat j))
      [Suc (unat i)..<unat (insert_i q n)]"
    using queue_list_split [OF assms] by (simp add: True List.map_filter_simps)
  have "queue_remove n i q = queue_pop n q" by (simp add: True queue_pop_def)
  with queue_impl.pop_cons [OF inv front] queue_impl.pop_inv [OF inv inv] front show ?thesis by auto
next
  case False
  let ?q = "q\<lparr>items := (items q)((n, i) := None)\<rparr>"
  from inv it have b: "unat (remove_i q n) \<le> unat i" "unat i < unat (insert_i q n)"
    by (auto simp: queue_inv_unat)
  let ?f = "\<lambda>j. items q (n, of_nat j)" and ?g = "\<lambda>j. items ?q (n, of_nat j)"
  let ?l = "[unat (remove_i q n)..<unat i]" and ?r = "[Suc (unat i)..<unat (insert_i q n)]"
  have ne: "of_nat j \<noteq> i" if "j < unat (insert_i q n)" "j \<noteq> unat i" for j
    using of_nat_below [OF that(1)] that(2) by auto
  have l: "List.map_filter ?g ?l = List.map_filter ?f ?l"
    and r: "List.map_filter ?g ?r = List.map_filter ?f ?r"
    using b ne by (intro map_filter_same; fastforce)+
  have "[unat (remove_i q n)..<unat (insert_i q n)] = ?l @ unat i # ?r"
    using b upt_add_eq_append [of "unat (remove_i q n)" "unat i" "unat (insert_i q n) - unat i"]
    by (simp add: upt_conv_Cons)
  then have "queue_list ?q n = List.map_filter ?g (?l @ unat i # ?r)"
    by (simp add: queue_list_def insert_i_def remove_i_def)
  also have "\<dots> = List.map_filter ?f ?l @ List.map_filter ?f ?r"
    by (simp only: map_filter_append l) (use r in \<open>simp add: List.map_filter_simps\<close>)
  finally show ?thesis
    using queue_list_split [OF assms] queue_remove_interior [OF assms False] inv by auto
qed

theorem queue_remove_exact_witness:
  "fst (queue_remove 1 0 (queue_push 1 (10::nat) empty_queue)) = Some 10"
proof -
  let ?q = "queue_push 1 (10::nat) empty_queue"
  have "queue_inv (empty_queue :: nat queue_store) 1" "queue_room (empty_queue :: nat queue_store) 1"
    by (simp_all add: queue_inv_def queue_room_def empty_queue_def insert_i_def remove_i_def)
  then have inv: "queue_inv ?q 1" by (rule queue_impl.push_inv)
  have it: "items ?q (1, 0) = Some 10" by (simp add: empty_queue_def insert_i_def)
  show ?thesis using queue_remove_exact [OF inv it] by auto
qed

end
