(* ===== verification/Shards_Store.thy ===== *)
theory Shards_Store
  imports Runtime_Config
begin

text \<open>
  The storage of \<open>pallets/shards\<close> and the read-only half of its \<open>ShardsInterface\<close>, which the tasks,
  members and elections pallets query. The operations that change it are in the theory \<open>Shards\<close>.
\<close>

datatype member_status = Added | Committed commitment | Ready

fun status_commitment :: "member_status \<Rightarrow> commitment option" where
  "status_commitment (Committed c) = Some c"
| "status_commitment Added = None"
| "status_commitment Ready = None"

definition is_committed :: "member_status \<Rightarrow> bool" where
  "is_committed st \<longleftrightarrow> status_commitment st \<noteq> None"

datatype shard_status = SCreated | SCommitted | SOnline | SOffline

datatype shards_event =
    ShardCreated shard_id network_id
  | ShardCommitted shard_id commitment
  | ShardOnline shard_id tss_public_key
  | ShardsOffline "shard_id list"

datatype shards_error =
    UnknownShardNetwork | UnknownShardCommitment | UnexpectedCommit | MemberPeerIdNotFound
  | CommitmentLenNotEqualToThreshold | InvalidVerifyingKeyInCommitment | InvalidCommitment
  | InvalidProofOfKnowledge | UnexpectedReady | MaxShardsCreatedThisBlock

record shards_store =
  shard_id_counter :: shard_id
  shard_network :: "shard_id \<rightharpoonup> network_id"
  shard_state :: "shard_id \<rightharpoonup> shard_status"
  dkg_timeout_counter :: "block_number \<Rightarrow> u32"
  dkg_timeouts :: "(block_number \<times> shard_id, unit) smap"
  shard_threshold :: "shard_id \<rightharpoonup> u16"
  shard_commitment :: "shard_id \<rightharpoonup> commitment"
  member_shard :: "account_id \<rightharpoonup> shard_id"
  signer_index :: "shard_id \<Rightarrow> u32"
  shard_member_status :: "(shard_id \<times> account_id, member_status) smap"
  shard_members_online :: "shard_id \<Rightarrow> u16"
  shards_events :: "shards_event list"

definition empty_shards :: shards_store where
  "empty_shards = \<lparr>
     shard_id_counter = 0, shard_network = Map.empty, shard_state = Map.empty,
     dkg_timeout_counter = (\<lambda>_. 0), dkg_timeouts = [], shard_threshold = Map.empty,
     shard_commitment = Map.empty, member_shard = Map.empty, signer_index = (\<lambda>_. 0),
     shard_member_status = [], shard_members_online = (\<lambda>_. 0), shards_events = []\<rparr>"

section \<open>Queries\<close>

text \<open>The members of a shard with their status, in the order of the storage trie.\<close>

definition get_shard_members :: "config \<Rightarrow> shards_store \<Rightarrow> shard_id \<Rightarrow> (account_id \<times> member_status) list" where
  "get_shard_members cfg s i = sprefix (account_order cfg) i (shard_member_status s)"

definition shard_members :: "config \<Rightarrow> shards_store \<Rightarrow> shard_id \<Rightarrow> account_id list" where
  "shard_members cfg s i = map fst (sprefix (account_order cfg) i (shard_member_status s))"

definition get_shard_threshold :: "shards_store \<Rightarrow> shard_id \<Rightarrow> u16" where
  "get_shard_threshold s i = value_or 0 (shard_threshold s i)"

text \<open>\<open>ShardStatus::default\<close> is \<open>Offline\<close>.\<close>

definition get_shard_status :: "shards_store \<Rightarrow> shard_id \<Rightarrow> shard_status" where
  "get_shard_status s i = value_or SOffline (shard_state s i)"

definition get_shard_commitment :: "shards_store \<Rightarrow> shard_id \<Rightarrow> commitment option" where
  "get_shard_commitment s i = shard_commitment s i"

text \<open>
  The shards of an account, by a scan of every entry. The trie holds the entries by the hash of the
  shard id first.
\<close>

definition get_shards :: "config \<Rightarrow> shards_store \<Rightarrow> account_id \<Rightarrow> shard_id list" where
  "get_shards cfg s a =
     map (\<lambda>e. fst (fst e)) (filter (\<lambda>e. snd (fst e) = a)
       (siter (\<lambda>k. id_order cfg (fst k)) (shard_member_status s)))"

definition is_shard_online :: "shards_store \<Rightarrow> shard_id \<Rightarrow> bool" where
  "is_shard_online s i \<longleftrightarrow> shard_state s i = Some SOnline"

definition is_shard_member :: "shards_store \<Rightarrow> account_id \<Rightarrow> bool" where
  "is_shard_member s a \<longleftrightarrow> member_shard s a \<noteq> None"

text \<open>
  The public key of a shard is the first element of its group commitment. The outer \<open>None\<close> is the
  panic of indexing an empty commitment.
\<close>

definition tss_public_key :: "shards_store \<Rightarrow> shard_id \<Rightarrow> tss_public_key option option" where
  "tss_public_key s i =
     (case shard_commitment s i of
        None \<Rightarrow> Some None
      | Some [] \<Rightarrow> None
      | Some (k # _) \<Rightarrow> Some (Some k))"

text \<open>No stored group commitment is empty.\<close>

definition commitments_ok :: "shards_store \<Rightarrow> bool" where
  "commitments_ok s \<longleftrightarrow> (\<forall>i. shard_commitment s i \<noteq> Some [])"

lemma tss_public_key_total: "commitments_ok s \<Longrightarrow> \<exists>k. tss_public_key s i = Some k"
  by (auto simp: tss_public_key_def commitments_ok_def split: option.splits list.splits)

lemma set_shard_members: "swf (shard_member_status s) \<Longrightarrow>
    set (shard_members cfg s i) = {a. sget (shard_member_status s) (i, a) \<noteq> None}"
  using sprefix_iff [of "shard_member_status s" _ _ "account_order cfg" i]
  by (force simp: shard_members_def image_iff)

lemma distinct_shard_members: "swf (shard_member_status s) \<Longrightarrow> distinct (shard_members cfg s i)"
  by (simp add: shard_members_def distinct_sprefix)

lemma mset_shard_members:
  assumes "swf (shard_member_status s)" "swf (shard_member_status s')"
    and "\<And>b. sget (shard_member_status s) (i, b) = None \<longleftrightarrow> sget (shard_member_status s') (i, b) = None"
  shows "mset (shard_members cfg s i) = mset (shard_members cfg s' i)"
proof -
  have "set (shard_members cfg s i) = set (shard_members cfg s' i)"
    using set_shard_members [OF assms(1)] set_shard_members [OF assms(2)] assms(3) by blast
  then show ?thesis
    using distinct_shard_members assms(1,2) by (simp add: set_eq_iff_mset_eq_distinct [symmetric])
qed

lemma get_shards_iff: "swf (shard_member_status s) \<Longrightarrow>
    i \<in> set (get_shards cfg s a) \<longleftrightarrow> a \<in> set (shard_members cfg s i)"
  by (force simp: get_shards_def set_shard_members sget_iff image_iff)

end
