(* ===== verification/Tasks.thy ===== *)
theory Tasks
  imports Queue Networks Shards_Store
begin

text \<open>
  The tasks pallet, \<open>pallets/tasks/src/lib.rs\<close>: its storage, dispatchables, block hook and the
  \<open>TasksInterface\<close> the shards and networks pallets call. The two pallets it queries, networks and
  shards, are passed as their storage; it never writes to them. \<open>None\<close> as a result is a panic.
\<close>

datatype tasks_event =
    EvTaskCreated task_id
  | EvTaskResult task_id "error_msg + unit"
  | EvBatchRestarted task_id task_id
  | EvMessageReceived message_id
  | EvMessageExecuted message_id

datatype tasks_error =
    UnknownTask | UnknownShard | InvalidSignature | InvalidTaskResult | InvalidSigner
  | UnassignedTask | TaskSigned | GatewayNotRegistered | InvalidBatchId | CannotRemoveTask

record tasks_store =
  ua_tasks :: "task_id queue_store"
  ops_queued :: "gateway_op queue_store"
  shard_tasks :: "(shard_id \<times> task_id, unit) smap"
  task_shard :: "task_id \<rightharpoonup> shard_id"
  network_shards :: "(network_id \<times> shard_id, unit) smap"
  task_id_counter :: u64
  task_count :: "network_id \<Rightarrow> u64"
  executed_task_count :: "network_id \<Rightarrow> u64"
  shard_task_count :: "shard_id \<Rightarrow> u32"
  tasks :: "task_id \<rightharpoonup> task"
  task_output :: "task_id \<rightharpoonup> error_msg + unit"
  task_network :: "task_id \<rightharpoonup> network_id"
  shard_register_batch_id :: "tss_public_key \<rightharpoonup> batch_id"
  shard_unregister_batch_id :: "tss_public_key \<rightharpoonup> batch_id"
  shard_registered :: "tss_public_key \<rightharpoonup> unit"
  read_events_task :: "(network_id, task_id) smap"
  sync_height :: "network_id \<Rightarrow> u64"
  message_received_task_id :: "message_id \<rightharpoonup> task_id"
  message_executed_task_id :: "message_id \<rightharpoonup> task_id"
  message_batch_id :: "message_id \<rightharpoonup> batch_id"
  batch_id_counter :: u64
  batch_message :: "batch_id \<rightharpoonup> gateway_message"
  batch_task_id :: "batch_id \<rightharpoonup> task_id"
  pending_batches :: "(batch_id, unit) smap"
  failed_batch_ids :: "(batch_id, unit) smap"
  batch_tx_hash :: "batch_id \<rightharpoonup> tx_hash"
  tasks_events :: "tasks_event list"

definition empty_tasks :: tasks_store where
  "empty_tasks = \<lparr>
     ua_tasks = empty_queue, ops_queued = empty_queue, shard_tasks = [], task_shard = Map.empty,
     network_shards = [], task_id_counter = 0, task_count = (\<lambda>_. 0), executed_task_count = (\<lambda>_. 0),
     shard_task_count = (\<lambda>_. 0), tasks = Map.empty, task_output = Map.empty, task_network = Map.empty,
     shard_register_batch_id = Map.empty, shard_unregister_batch_id = Map.empty,
     shard_registered = Map.empty, read_events_task = [], sync_height = (\<lambda>_. 0),
     message_received_task_id = Map.empty, message_executed_task_id = Map.empty,
     message_batch_id = Map.empty, batch_id_counter = 0, batch_message = Map.empty,
     batch_task_id = Map.empty, pending_batches = [], failed_batch_ids = [],
     batch_tx_hash = Map.empty, tasks_events = []\<rparr>"

definition deposit_event :: "tasks_event \<Rightarrow> tasks_store \<Rightarrow> tasks_store" where
  "deposit_event e s = s\<lparr>tasks_events := tasks_events s @ [e]\<rparr>"

section \<open>Tasks\<close>

definition create_task :: "network_id \<Rightarrow> task \<Rightarrow> tasks_store \<Rightarrow> task_id \<times> tasks_store" where
  "create_task n t s =
     (let i = sat_succ (task_id_counter s);
          s1 = s\<lparr>tasks := (tasks s)(i \<mapsto> t), task_network := (task_network s)(i \<mapsto> n),
                task_id_counter := i\<rparr>;
          s2 = (if \<not> needs_registration t
                then s1\<lparr>read_events_task := sput n i (read_events_task s1)\<rparr>
                else s1\<lparr>ua_tasks := queue_push n i (ua_tasks s1)\<rparr>);
          s3 = s2\<lparr>task_count := (task_count s2)(n := sat_add (task_count s2 n) 1)\<rparr>
      in (i, deposit_event (EvTaskCreated i) s3))"

definition finish_task :: "network_id \<Rightarrow> task_id \<Rightarrow> error_msg + unit \<Rightarrow> tasks_store \<Rightarrow> tasks_store" where
  "finish_task n i r s =
     (if task_output s i \<noteq> None then s
      else
        (let s1 = s\<lparr>task_output := (task_output s)(i \<mapsto> r)\<rparr>;
             s2 = (case task_shard s1 i of
                     None \<Rightarrow> s1
                   | Some sh \<Rightarrow> s1\<lparr>
                       task_shard := (task_shard s1)(i := None),
                       shard_tasks := sdel (sh, i) (shard_tasks s1),
                       shard_task_count := (shard_task_count s1)(sh := sat_sub (shard_task_count s1 sh) 1),
                       executed_task_count := (executed_task_count s1)(n := sat_add (executed_task_count s1 n) 1)\<rparr>)
         in deposit_event (EvTaskResult i r) s2))"

definition read_gateway_events :: "networks_store \<Rightarrow> network_id \<Rightarrow> tasks_store \<Rightarrow> (task_id \<times> tasks_store) option" where
  "read_gateway_events nets n s =
     (let block = sync_height s n
      in (case next_batch_size nets n block of
            None \<Rightarrow> None
          | Some sz \<Rightarrow> Some (create_task n (ReadGatewayEvents block (sat_add block (ucast sz))) s)))"

definition assign_task :: "shard_id \<Rightarrow> task_id \<Rightarrow> tasks_store \<Rightarrow> tasks_store" where
  "assign_task sh i s = s\<lparr>
     shard_tasks := sput (sh, i) () (shard_tasks s),
     task_shard := (task_shard s)(i \<mapsto> sh),
     shard_task_count := (shard_task_count s)(sh := sat_add (shard_task_count s sh) 1)\<rparr>"

section \<open>Gateway events\<close>

fun process_event :: "config \<Rightarrow> network_id \<Rightarrow> task_id \<Rightarrow> gmp_event \<Rightarrow> tasks_store \<Rightarrow> tasks_store" where
  "process_event cfg n i (ShardRegistered k) s = s\<lparr>shard_registered := (shard_registered s)(k \<mapsto> ())\<rparr>"
| "process_event cfg n i (ShardUnregistered k) s = s\<lparr>shard_registered := (shard_registered s)(k := None)\<rparr>"
| "process_event cfg n i (MessageReceived m) s =
     (let mid = message_id_of (keccak cfg) m
      in deposit_event (EvMessageReceived mid) (s\<lparr>
           ops_queued := queue_push (dest_network m) (SendMessage m) (ops_queued s),
           message_received_task_id := (message_received_task_id s)(mid \<mapsto> i)\<rparr>))"
| "process_event cfg n i (MessageExecuted mid) s =
     deposit_event (EvMessageExecuted mid)
       (s\<lparr>message_executed_task_id := (message_executed_task_id s)(mid \<mapsto> i)\<rparr>)"
| "process_event cfg n i (BatchExecuted b h) s =
     (let s1 = s\<lparr>pending_batches := sdel b (pending_batches s)\<rparr>;
          s2 = (case batch_task_id s1 b of None \<Rightarrow> s1 | Some j \<Rightarrow> finish_task n j (Inr ()) s1)
      in (case h of None \<Rightarrow> s2 | Some x \<Rightarrow> s2\<lparr>batch_tx_hash := (batch_tx_hash s2)(b \<mapsto> x)\<rparr>))"

definition process_events :: "config \<Rightarrow> network_id \<Rightarrow> task_id \<Rightarrow> gmp_event list \<Rightarrow> tasks_store \<Rightarrow> tasks_store" where
  "process_events cfg n i es s = fold (process_event cfg n i) es s"

section \<open>Dispatchables\<close>

text \<open>\<open>Pallet::verify_signature\<close>: the shard must have a key, and the signature must verify under it.\<close>

definition check_signature ::
  "config \<Rightarrow> shards_store \<Rightarrow> shard_id \<Rightarrow> bytes \<Rightarrow> tss_signature \<Rightarrow> (tasks_error + unit) option" where
  "check_signature cfg shs sh data sig =
     (case tss_public_key shs sh of
        None \<Rightarrow> None
      | Some None \<Rightarrow> Some (Inl UnknownShard)
      | Some (Some k) \<Rightarrow>
          if \<not> verify_signature cfg k data sig then Some (Inl InvalidSignature) else Some (Inr ()))"

text \<open>The sync height moves on unless the network was synced by hand meanwhile.\<close>

definition advance_sync_height :: "network_id \<Rightarrow> u64 \<Rightarrow> u64 \<Rightarrow> tasks_store \<Rightarrow> tasks_store" where
  "advance_sync_height n start stop s =
     (if sync_height s n = start then s\<lparr>sync_height := (sync_height s)(n := stop)\<rparr> else s)"

text \<open>The next range is read unless the network was stopped.\<close>

definition continue_reading :: "networks_store \<Rightarrow> network_id \<Rightarrow> tasks_store \<Rightarrow> tasks_store option" where
  "continue_reading nets n s =
     (if sget (read_events_task s) n \<noteq> None then map_option snd (read_gateway_events nets n s) else Some s)"

definition submit_task_result ::
  "config \<Rightarrow> networks_store \<Rightarrow> shards_store \<Rightarrow> origin \<Rightarrow> task_id \<Rightarrow> task_result \<Rightarrow> tasks_store \<Rightarrow>
     (tasks_error, tasks_store) dispatch" where
  "submit_task_result cfg nets shs orig i result s =
     (case ensure_signed orig of
        None \<Rightarrow> Some (Inl BadOrigin)
      | Some signer \<Rightarrow>
     (case tasks s i of
        None \<Rightarrow> Some (Inl (ModuleError UnknownTask))
      | Some t \<Rightarrow>
     (if task_output s i \<noteq> None then Some (Inr s)
      else
     (case task_shard s i of
        None \<Rightarrow> Some (Inl (ModuleError UnassignedTask))
      | Some sh \<Rightarrow>
     (case shard_network shs sh of
        None \<Rightarrow> Some (Inl (ModuleError UnknownShard))
      | Some n \<Rightarrow>
     (case (t, result) of
        (ReadGatewayEvents start stop, ReadGatewayEventsResult events sig) \<Rightarrow>
          (case check_signature cfg shs sh (encode_gmp_events cfg i events) sig of
             None \<Rightarrow> None
           | Some (Inl e) \<Rightarrow> Some (Inl (ModuleError e))
           | Some (Inr _) \<Rightarrow>
               (case continue_reading nets n (advance_sync_height n start stop s) of
                  None \<Rightarrow> None
                | Some s1 \<Rightarrow>
                    (let s2 = process_events cfg n i events s1
                     in if length events = MAX_GMP_EVENTS then Some (Inr s2)
                        else Some (Inr (finish_task n i (Inr ()) s2)))))
      | (SubmitGatewayMessage b, SubmitGatewayMessageResult err) \<Rightarrow>
          (if signer \<notin> set (shard_members cfg shs sh) then Some (Inl (ModuleError InvalidSigner))
           else
             (let s1 = s\<lparr>pending_batches := sdel b (pending_batches s),
                         failed_batch_ids := sput b () (failed_batch_ids s)\<rparr>
              in Some (Inr (finish_task n i (Inl err) s1))))
      | _ \<Rightarrow> Some (Inl (ModuleError InvalidTaskResult))))))))"

definition reset_batch_output :: "gmp_event \<Rightarrow> tasks_store \<Rightarrow> tasks_store" where
  "reset_batch_output e s =
     (case e of
        BatchExecuted b h \<Rightarrow>
          (let s1 = s\<lparr>failed_batch_ids := sdel b (failed_batch_ids s)\<rparr>
           in (case batch_task_id s1 b of
                 None \<Rightarrow> s1
               | Some j \<Rightarrow> s1\<lparr>task_output := (task_output s1)(j := None)\<rparr>))
      | _ \<Rightarrow> s)"

definition submit_gmp_events ::
  "config \<Rightarrow> origin \<Rightarrow> network_id \<Rightarrow> gmp_event list \<Rightarrow> tasks_store \<Rightarrow> (tasks_error, tasks_store) dispatch" where
  "submit_gmp_events cfg orig n es s =
     (if \<not> admin_origin cfg orig then Some (Inl BadOrigin)
      else Some (Inr (process_events cfg n 0 es (fold reset_batch_output es s))))"

definition sync_network ::
  "config \<Rightarrow> origin \<Rightarrow> network_id \<Rightarrow> u64 \<Rightarrow> tasks_store \<Rightarrow> (tasks_error, tasks_store) dispatch" where
  "sync_network cfg orig n block s =
     (if \<not> admin_origin cfg orig then Some (Inl BadOrigin)
      else Some (Inr (s\<lparr>sync_height := (sync_height s)(n := block)\<rparr>)))"

definition stop_network ::
  "config \<Rightarrow> origin \<Rightarrow> network_id \<Rightarrow> tasks_store \<Rightarrow> (tasks_error, tasks_store) dispatch" where
  "stop_network cfg orig n s =
     (if \<not> admin_origin cfg orig then Some (Inl BadOrigin)
      else Some (Inr (s\<lparr>read_events_task := sdel n (read_events_task s)\<rparr>)))"

text \<open>The inner loop of \<open>remove_task\<close>: forget the messages of a removed batch.\<close>

definition forget_message :: "config \<Rightarrow> gateway_op \<Rightarrow> tasks_store \<Rightarrow> tasks_store" where
  "forget_message cfg op s =
     (case op of
        SendMessage m \<Rightarrow>
          (let mid = message_id_of (keccak cfg) m
           in s\<lparr>message_received_task_id := (message_received_task_id s)(mid := None),
                message_batch_id := (message_batch_id s)(mid := None)\<rparr>)
      | _ \<Rightarrow> s)"

definition remove_task ::
  "config \<Rightarrow> origin \<Rightarrow> task_id \<Rightarrow> tasks_store \<Rightarrow> (tasks_error, tasks_store) dispatch" where
  "remove_task cfg orig i s =
     (if \<not> admin_origin cfg orig then Some (Inl BadOrigin)
      else if task_output s i = None then Some (Inl (ModuleError CannotRemoveTask))
      else
        (let s1 = s\<lparr>task_output := (task_output s)(i := None), tasks := (tasks s)(i := None)\<rparr>;
             s2 = (case tasks s i of
                     Some (SubmitGatewayMessage b) \<Rightarrow>
                       (let s' = (case batch_message s1 b of
                                    None \<Rightarrow> s1
                                  | Some m \<Rightarrow> fold (forget_message cfg) (msg_ops m)
                                      (s1\<lparr>batch_message := (batch_message s1)(b := None)\<rparr>))
                        in s'\<lparr>batch_task_id := (batch_task_id s')(b := None)\<rparr>)
                   | _ \<Rightarrow> s1)
         in Some (Inr (s2\<lparr>task_network := (task_network s2)(i := None)\<rparr>))))"

definition restart_batch ::
  "config \<Rightarrow> origin \<Rightarrow> batch_id \<Rightarrow> tasks_store \<Rightarrow> (tasks_error, tasks_store) dispatch" where
  "restart_batch cfg orig b s =
     (if \<not> admin_origin cfg orig then Some (Inl BadOrigin)
      else
        (case batch_task_id s b of
           None \<Rightarrow> Some (Inl (ModuleError InvalidBatchId))
         | Some old \<Rightarrow>
             (case task_network s old of
                None \<Rightarrow> Some (Inl (ModuleError UnknownTask))
              | Some n \<Rightarrow>
                  (let (new, s1) = create_task n (SubmitGatewayMessage b) s;
                       s2 = s1\<lparr>batch_task_id := (batch_task_id s1)(b \<mapsto> new),
                              pending_batches := sput b () (pending_batches s1),
                              failed_batch_ids := sdel b (failed_batch_ids s1)\<rparr>
                   in Some (Inr (deposit_event (EvBatchRestarted old new) s2))))))"

section \<open>Scheduling\<close>

definition is_shard_registered :: "shards_store \<Rightarrow> tasks_store \<Rightarrow> shard_id \<Rightarrow> bool option" where
  "is_shard_registered shs s sh =
     (case tss_public_key shs sh of
        None \<Rightarrow> None
      | Some None \<Rightarrow> Some False
      | Some (Some k) \<Rightarrow> Some (shard_registered s k \<noteq> None))"

text \<open>The loop of \<open>schedule_tasks_shard\<close>: the first argument is what is left of \<open>0..capacity\<close>.\<close>

fun schedule_tasks_shard_loop ::
  "nat \<Rightarrow> network_id \<Rightarrow> shard_id \<Rightarrow> u32 \<Rightarrow> tasks_store \<Rightarrow> u32 \<times> tasks_store" where
  "schedule_tasks_shard_loop 0 n sh k s = (k, s)"
| "schedule_tasks_shard_loop (Suc c) n sh k s =
     (case queue_pop n (ua_tasks s) of
        (None, q) \<Rightarrow> (k, s\<lparr>ua_tasks := q\<rparr>)
      | (Some i, q) \<Rightarrow>
          schedule_tasks_shard_loop c n sh (sat_succ k) (assign_task sh i (s\<lparr>ua_tasks := q\<rparr>)))"

definition schedule_tasks_shard ::
  "network_id \<Rightarrow> shard_id \<Rightarrow> u32 \<Rightarrow> tasks_store \<Rightarrow> u32 \<times> tasks_store" where
  "schedule_tasks_shard n sh capacity s = schedule_tasks_shard_loop (unat capacity) n sh 0 s"

text \<open>
  The loops of \<open>schedule_tasks\<close> return whether the function returned from inside the loop, the number
  of assigned tasks the returned weight is computed from, and the storage.
\<close>

fun assign_read_task ::
  "config \<Rightarrow> u32 \<Rightarrow> task_id \<Rightarrow> shard_id list \<Rightarrow> u32 \<Rightarrow> tasks_store \<Rightarrow> bool \<times> u32 \<times> tasks_store" where
  "assign_read_task cfg limit i [] k s = (False, k, s)"
| "assign_read_task cfg limit i (sh # shards) k s =
     (if shard_task_count s sh < limit
      then if k = max_tasks_per_block cfg then (True, max_tasks_per_block cfg, s)
           else (False, sat_succ k, assign_task sh i s)
      else assign_read_task cfg limit i shards k s)"

fun schedule_shards ::
  "config \<Rightarrow> network_id \<Rightarrow> u32 \<Rightarrow> shard_id list \<Rightarrow> u32 \<Rightarrow> tasks_store \<Rightarrow> bool \<times> u32 \<times> tasks_store" where
  "schedule_shards cfg n tasks_per_shard [] k s = (False, k, s)"
| "schedule_shards cfg n tasks_per_shard (sh # shards) k s =
     (let capacity = sat_sub tasks_per_shard (shard_task_count s sh)
      in if max_tasks_per_block cfg > sat_add k capacity
         then
           (let (a, s') = schedule_tasks_shard n sh capacity s
            in schedule_shards cfg n tasks_per_shard shards (sat_add k a) s')
         else
           (True, max_tasks_per_block cfg,
             snd (schedule_tasks_shard n sh (sat_sub (max_tasks_per_block cfg) k) s)))"

text \<open>The registered shards that are online; \<open>None\<close> if one of the keys panics.\<close>

fun registered_shards :: "shards_store \<Rightarrow> tasks_store \<Rightarrow> shard_id list \<Rightarrow> shard_id list option" where
  "registered_shards shs s [] = Some []"
| "registered_shards shs s (sh # shards) =
     (case is_shard_registered shs s sh of
        None \<Rightarrow> None
      | Some r \<Rightarrow>
          (case registered_shards shs s shards of
             None \<Rightarrow> None
           | Some rest \<Rightarrow> Some (if r \<and> is_shard_online shs sh then sh # rest else rest)))"

text \<open>
  \<open>(assignable_task_count as u32 - 1) / registered_shards.len() as u32 + 1\<close>, capped by the limit. The
  two subtractions wrap.
\<close>

definition tasks_per_shard_of :: "u64 \<Rightarrow> u64 \<Rightarrow> nat \<Rightarrow> u32 \<Rightarrow> u32" where
  "tasks_per_shard_of created executed shards limit =
     min ((ucast (created - executed) - 1) div of_nat shards + 1) limit"

definition network_shard_list :: "config \<Rightarrow> tasks_store \<Rightarrow> network_id \<Rightarrow> shard_id list" where
  "network_shard_list cfg s n = map fst (sprefix (id_order cfg) n (network_shards s))"

definition schedule_network ::
  "config \<Rightarrow> networks_store \<Rightarrow> shards_store \<Rightarrow> network_id \<times> task_id \<Rightarrow> u32 \<Rightarrow> tasks_store \<Rightarrow>
     (bool \<times> u32 \<times> tasks_store) option" where
  "schedule_network cfg nets shs e k s =
     (let (n, i) = e;
          limit = shard_task_limit nets n;
          (stop, k1, s1) =
            (if task_shard s i = None
             then assign_read_task cfg limit i (network_shard_list cfg s n) k s
             else (False, k, s))
      in if stop then Some (True, k1, s1)
         else
           (case registered_shards shs s1 (network_shard_list cfg s1 n) of
              None \<Rightarrow> None
            | Some [] \<Rightarrow> Some (False, k1, s1)
            | Some shards \<Rightarrow>
                Some (schedule_shards cfg n
                  (tasks_per_shard_of (task_count s1 n) (executed_task_count s1 n) (length shards) limit)
                  shards k1 s1)))"

fun schedule_networks ::
  "config \<Rightarrow> networks_store \<Rightarrow> shards_store \<Rightarrow> (network_id \<times> task_id) list \<Rightarrow> u32 \<Rightarrow> tasks_store \<Rightarrow>
     (u32 \<times> tasks_store) option" where
  "schedule_networks cfg nets shs [] k s = Some (k, s)"
| "schedule_networks cfg nets shs (e # es) k s =
     (case schedule_network cfg nets shs e k s of
        None \<Rightarrow> None
      | Some (stop, k', s') \<Rightarrow> if stop then Some (k', s') else schedule_networks cfg nets shs es k' s')"

definition schedule_tasks ::
  "config \<Rightarrow> networks_store \<Rightarrow> shards_store \<Rightarrow> tasks_store \<Rightarrow> (u32 \<times> tasks_store) option" where
  "schedule_tasks cfg nets shs s =
     schedule_networks cfg nets shs (siter (network_order cfg) (read_events_task s)) 0 s"

section \<open>Batches\<close>

fun index_op :: "config \<Rightarrow> batch_id \<Rightarrow> gateway_op \<Rightarrow> tasks_store \<Rightarrow> tasks_store" where
  "index_op cfg b (SendMessage m) s =
     s\<lparr>message_batch_id := (message_batch_id s)(message_id_of (keccak cfg) m \<mapsto> b)\<rparr>"
| "index_op cfg b (RegisterShard k) s =
     s\<lparr>shard_register_batch_id := (shard_register_batch_id s)(k \<mapsto> b)\<rparr>"
| "index_op cfg b (UnregisterShard k) s =
     s\<lparr>shard_unregister_batch_id := (shard_unregister_batch_id s)(k \<mapsto> b)\<rparr>"

definition start_batch :: "config \<Rightarrow> network_id \<Rightarrow> gateway_message \<Rightarrow> tasks_store \<Rightarrow> tasks_store" where
  "start_batch cfg n msg s =
     (let b = batch_id_counter s;
          s1 = s\<lparr>batch_id_counter := sat_add b 1\<rparr>;
          s2 = fold (index_op cfg b) (msg_ops msg) s1;
          s3 = s2\<lparr>batch_message := (batch_message s2)(b \<mapsto> msg)\<rparr>;
          (i, s4) = create_task n (SubmitGatewayMessage b) s3
      in s4\<lparr>pending_batches := sput b () (pending_batches s4),
            batch_task_id := (batch_task_id s4)(b \<mapsto> i)\<rparr>)"

definition start_some :: "config \<Rightarrow> network_id \<Rightarrow> gateway_message option \<Rightarrow> u32 \<times> tasks_store \<Rightarrow> u32 \<times> tasks_store" where
  "start_some cfg n m ks =
     (case m of None \<Rightarrow> ks | Some msg \<Rightarrow> (sat_succ (fst ks), start_batch cfg n msg (snd ks)))"

lemma index_op_ops_queued [simp]: "ops_queued (index_op cfg b op s) = ops_queued s"
  by (cases op) simp_all

lemma index_ops_ops_queued [simp]: "ops_queued (fold (index_op cfg b) xs s) = ops_queued s"
  by (induction xs arbitrary: s) simp_all

lemma create_task_ops_queued [simp]: "ops_queued (snd (create_task n t s)) = ops_queued s"
  by (simp add: create_task_def deposit_event_def Let_def)

lemma start_batch_ops_queued [simp]: "ops_queued (start_batch cfg n msg s) = ops_queued s"
  using create_task_ops_queued [of n "SubmitGatewayMessage (batch_id_counter s)"]
  by (simp add: start_batch_def Let_def split_beta)

lemma start_some_ops_queued [simp]: "ops_queued (snd (start_some cfg n m ks)) = ops_queued (snd ks)"
  by (simp add: start_some_def split: option.split)

text \<open>A pop that returns an item brings the removal index closer to the insert index.\<close>

lemma queue_pop_Some_shrinks:
  assumes "queue_pop n q = (Some v, q')"
  shows "unat (insert_i q' n) - unat (remove_i q' n) < unat (insert_i q n) - unat (remove_i q n)"
proof -
  have lt: "remove_i q n < insert_i q n"
    using assms pop_state_empty [of q n] by auto
  have "q' = snd (queue_pop n q)" by (simp add: assms)
  with pop_state(3-6) [OF lt] lt show ?thesis
    by (simp add: word_le_nat_alt word_less_nat_alt)
qed

text \<open>The \<open>while let\<close> loop of \<open>prepare_batches\<close> for one network.\<close>

function batch_loop ::
  "config \<Rightarrow> network_id \<Rightarrow> batch_builder \<Rightarrow> u32 \<Rightarrow> tasks_store \<Rightarrow> batch_builder \<times> u32 \<times> tasks_store" where
  "batch_loop cfg n b k s =
     (case queue_pop n (ops_queued s) of
        (None, q) \<Rightarrow> (b, k, s\<lparr>ops_queued := q\<rparr>)
      | (Some op, q) \<Rightarrow>
          (let pushed = batch_push op b;
               ks = start_some cfg n (fst pushed) (k, s\<lparr>ops_queued := q\<rparr>)
           in if fst ks = sat_pred (max_batches_per_block cfg)
              then (snd pushed, ks)
              else batch_loop cfg n (snd pushed) (fst ks) (snd ks)))"
  by pat_completeness auto
termination
  by (relation "measure (\<lambda>(cfg, n, b, k, s). unat (insert_i (ops_queued s) n) - unat (remove_i (ops_queued s) n))")
    (auto simp: split_beta dest!: queue_pop_Some_shrinks [OF sym])

declare batch_loop.simps [simp del]

definition prepare_network ::
  "config \<Rightarrow> networks_store \<Rightarrow> network_id \<Rightarrow> u32 \<times> tasks_store \<Rightarrow> u32 \<times> tasks_store" where
  "prepare_network cfg nets n ks =
     (let (b, ks1) = batch_loop cfg n (batch_builder_new (network_gas_limit nets n)) (fst ks) (snd ks)
      in start_some cfg n (fst (take_batch b)) ks1)"

definition prepare_batches ::
  "config \<Rightarrow> networks_store \<Rightarrow> tasks_store \<Rightarrow> u32 \<times> tasks_store" where
  "prepare_batches cfg nets s =
     fold (\<lambda>e. prepare_network cfg nets (fst e)) (siter (network_order cfg) (read_events_task s)) (0, s)"

definition tasks_on_initialize ::
  "config \<Rightarrow> networks_store \<Rightarrow> shards_store \<Rightarrow> tasks_store \<Rightarrow> tasks_store option" where
  "tasks_on_initialize cfg nets shs s =
     map_option snd (schedule_tasks cfg nets shs (snd (prepare_batches cfg nets s)))"

section \<open>Queries\<close>

definition get_shard_tasks :: "config \<Rightarrow> tasks_store \<Rightarrow> shard_id \<Rightarrow> task_id list" where
  "get_shard_tasks cfg s sh = map fst (sprefix (id_order cfg) sh (shard_tasks s))"

definition get_task :: "tasks_store \<Rightarrow> task_id \<Rightarrow> task option" where
  "get_task s i = tasks s i"

definition get_task_shard :: "tasks_store \<Rightarrow> task_id \<Rightarrow> shard_id option" where
  "get_task_shard s i = task_shard s i"

definition get_task_result :: "tasks_store \<Rightarrow> task_id \<Rightarrow> (error_msg + unit) option" where
  "get_task_result s i = task_output s i"

definition get_batch_message :: "tasks_store \<Rightarrow> batch_id \<Rightarrow> gateway_message option" where
  "get_batch_message s b = batch_message s b"

definition get_failed_batches :: "config \<Rightarrow> tasks_store \<Rightarrow> batch_id list" where
  "get_failed_batches cfg s = map fst (siter (id_order cfg) (failed_batch_ids s))"

definition get_pending_batches :: "config \<Rightarrow> tasks_store \<Rightarrow> batch_id list" where
  "get_pending_batches cfg s = map fst (siter (id_order cfg) (pending_batches s))"

section \<open>The interface to the shards and networks pallets\<close>

definition shard_online ::
  "networks_store \<Rightarrow> shards_store \<Rightarrow> shard_id \<Rightarrow> network_id \<Rightarrow> tasks_store \<Rightarrow> tasks_store option" where
  "shard_online nets shs sh n s =
     (let s1 = s\<lparr>network_shards := sput (n, sh) () (network_shards s)\<rparr>
      in if network_gateway nets n \<noteq> None
         then (case tss_public_key shs sh of
                 None \<Rightarrow> None
               | Some None \<Rightarrow> Some s1
               | Some (Some k) \<Rightarrow> Some (s1\<lparr>ops_queued := queue_push n (RegisterShard k) (ops_queued s1)\<rparr>))
         else Some s1)"

text \<open>What \<open>drain_prefix\<close> does with each drained task.\<close>

definition unassign_task :: "network_id \<Rightarrow> task_id option \<Rightarrow> task_id \<Rightarrow> tasks_store \<Rightarrow> tasks_store" where
  "unassign_task n read i s =
     (let s1 = s\<lparr>task_shard := (task_shard s)(i := None)\<rparr>
      in if Some i \<noteq> read then s1\<lparr>ua_tasks := queue_push n i (ua_tasks s1)\<rparr> else s1)"

definition shard_offline ::
  "config \<Rightarrow> shards_store \<Rightarrow> shard_id \<Rightarrow> network_id \<Rightarrow> tasks_store \<Rightarrow> tasks_store option" where
  "shard_offline cfg shs sh n s =
     (let s1 = s\<lparr>network_shards := sdel (n, sh) (network_shards s)\<rparr>;
          read = sget (read_events_task s1) n;
          drained = map fst (sprefix (id_order cfg) sh (shard_tasks s1));
          s2 = fold (unassign_task n read) drained
                 (s1\<lparr>shard_tasks := sclear_prefix sh (shard_tasks s1)\<rparr>);
          s3 = s2\<lparr>shard_task_count := (shard_task_count s2)(sh := 0)\<rparr>
      in (case tss_public_key shs sh of
            None \<Rightarrow> None
          | Some None \<Rightarrow> Some s3
          | Some (Some k) \<Rightarrow> Some (s3\<lparr>ops_queued := queue_push n (UnregisterShard k) (ops_queued s3)\<rparr>)))"

definition gateway_registered :: "networks_store \<Rightarrow> network_id \<Rightarrow> u64 \<Rightarrow> tasks_store \<Rightarrow> tasks_store option" where
  "gateway_registered nets n block s =
     map_option snd (read_gateway_events nets n (s\<lparr>sync_height := (sync_height s)(n := block)\<rparr>))"

end
