(* ===== verification/Tasks_Assignment.thy ===== *)
theory Tasks_Assignment
  imports Tasks
begin

text \<open>
  The assignment of tasks to shards: the invariant that ties the task queue, \<open>TaskShard\<close>, \<open>ShardTasks\<close>
  and \<open>ShardTaskCount\<close> of the tasks pallet together, and that every operation of the pallet keeps it.
\<close>

section \<open>The invariant\<close>

text \<open>The tasks of a network that wait for a shard, oldest first.\<close>

definition waiting :: "tasks_store \<Rightarrow> network_id \<Rightarrow> task_id list" where
  "waiting s n = queue_list (ua_tasks s) n"

text \<open>\<open>TaskShard\<close> and \<open>ShardTasks\<close> agree, and \<open>ShardTaskCount\<close> counts the tasks of a shard.\<close>

definition assigned_ok :: "tasks_store \<Rightarrow> bool" where
  "assigned_ok s \<longleftrightarrow>
     swf (shard_tasks s) \<and>
     (\<forall>sh i. sget (shard_tasks s) (sh, i) \<noteq> None \<longleftrightarrow> task_shard s i = Some sh) \<and>
     (\<forall>sh. unat (shard_task_count s sh) = slen sh (shard_tasks s))"

text \<open>A waiting task waits once, for one network, and is not assigned.\<close>

definition waiting_ok :: "tasks_store \<Rightarrow> bool" where
  "waiting_ok s \<longleftrightarrow>
     (\<forall>n. queue_inv (ua_tasks s) n) \<and> (\<forall>n. distinct (waiting s n)) \<and>
     (\<forall>m n i. i \<in> set (waiting s m) \<longrightarrow> i \<in> set (waiting s n) \<longrightarrow> m = n) \<and>
     (\<forall>n. \<forall>i\<in>set (waiting s n). task_shard s i = None)"

text \<open>The task a network reads events with is its own, never waits and submits no batch.\<close>

definition reads_ok :: "tasks_store \<Rightarrow> bool" where
  "reads_ok s \<longleftrightarrow>
     swf (read_events_task s) \<and>
     (\<forall>m n i. sget (read_events_task s) m = Some i \<longrightarrow> sget (read_events_task s) n = Some i \<longrightarrow> m = n) \<and>
     (\<forall>m i. sget (read_events_task s) m = Some i \<longrightarrow>
        (\<forall>n. i \<notin> set (waiting s n)) \<and> (\<forall>b. tasks s i \<noteq> Some (SubmitGatewayMessage b)))"

text \<open>Every id in use was handed out.\<close>

definition id_used :: "tasks_store \<Rightarrow> task_id \<Rightarrow> bool" where
  "id_used s i \<longleftrightarrow>
     task_shard s i \<noteq> None \<or> (\<exists>n. i \<in> set (waiting s n)) \<or>
     (\<exists>n. sget (read_events_task s) n = Some i) \<or> tasks s i \<noteq> None"

definition ids_ok :: "tasks_store \<Rightarrow> bool" where
  "ids_ok s \<longleftrightarrow> (\<forall>i. id_used s i \<longrightarrow> i \<le> task_id_counter s)"

text \<open>An unfinished batch submission is assigned or waits, those in \<open>R\<close> excepted.\<close>

definition none_lost :: "task_id set \<Rightarrow> tasks_store \<Rightarrow> bool" where
  "none_lost R s \<longleftrightarrow>
     (\<forall>i b. tasks s i = Some (SubmitGatewayMessage b) \<and> task_output s i = None \<and> i \<notin> R \<longrightarrow>
        task_shard s i \<noteq> None \<or> (\<exists>n. i \<in> set (waiting s n)))"

text \<open>
  A shard serves the network it was created for, only shards that serve a network have tasks, and the
  task a network reads events with is assigned to a shard of that network. The network of a shard is
  the parameter \<open>net\<close>: the shards pallet keeps it, in \<open>ShardNetwork\<close>.
\<close>

definition shards_ok :: "(shard_id \<rightharpoonup> network_id) \<Rightarrow> tasks_store \<Rightarrow> bool" where
  "shards_ok net s \<longleftrightarrow>
     swf (network_shards s) \<and>
     (\<forall>n sh. sget (network_shards s) (n, sh) \<noteq> None \<longrightarrow> net sh = Some n) \<and>
     (\<forall>i sh. task_shard s i = Some sh \<longrightarrow> (\<exists>n. sget (network_shards s) (n, sh) \<noteq> None)) \<and>
     (\<forall>m i sh. sget (read_events_task s) m = Some i \<longrightarrow> task_shard s i = Some sh \<longrightarrow> net sh = Some m)"

text \<open>A task waits for, is read by, or is assigned to a shard of, the network it was created for.\<close>

definition networks_ok :: "tasks_store \<Rightarrow> bool" where
  "networks_ok s \<longleftrightarrow>
     (\<forall>n i. i \<in> set (waiting s n) \<longrightarrow> tasks s i \<noteq> None \<longrightarrow> task_network s i = Some n) \<and>
     (\<forall>n i. sget (read_events_task s) n = Some i \<longrightarrow> tasks s i \<noteq> None \<longrightarrow> task_network s i = Some n) \<and>
     (\<forall>n i sh. task_shard s i = Some sh \<longrightarrow> sget (network_shards s) (n, sh) \<noteq> None \<longrightarrow> tasks s i \<noteq> None \<longrightarrow>
        task_network s i = Some n)"

definition tasks_inv :: "(shard_id \<rightharpoonup> network_id) \<Rightarrow> task_id set \<Rightarrow> tasks_store \<Rightarrow> bool" where
  "tasks_inv net R s \<longleftrightarrow>
     assigned_ok s \<and> waiting_ok s \<and> reads_ok s \<and> ids_ok s \<and> shards_ok net s \<and> networks_ok s \<and> none_lost R s"

lemma waitingD:
  assumes "tasks_inv net R s"
  shows "queue_inv (ua_tasks s) n" "distinct (waiting s n)"
    "i \<in> set (waiting s m) \<Longrightarrow> i \<in> set (waiting s n) \<Longrightarrow> m = n"
    "i \<in> set (waiting s n) \<Longrightarrow> task_shard s i = None"
  using assms by (simp_all add: tasks_inv_def waiting_ok_def)

lemma readsD:
  assumes "tasks_inv net R s" and "sget (read_events_task s) m = Some i"
  shows "i \<notin> set (waiting s n)" "tasks s i \<noteq> Some (SubmitGatewayMessage b)"
    "sget (read_events_task s) n = Some i \<Longrightarrow> n = m"
  using assms by (simp_all add: tasks_inv_def reads_ok_def)

lemma idsD:
  assumes "tasks_inv net R s"
  shows "task_shard s i \<noteq> None \<Longrightarrow> i \<le> task_id_counter s" "i \<in> set (waiting s n) \<Longrightarrow> i \<le> task_id_counter s"
    "sget (read_events_task s) n = Some i \<Longrightarrow> i \<le> task_id_counter s" "tasks s i \<noteq> None \<Longrightarrow> i \<le> task_id_counter s"
  using assms unfolding tasks_inv_def ids_ok_def id_used_def by blast+

lemma serves_one:
  assumes "shards_ok net s" and "sget (network_shards s) (n, sh) \<noteq> None" and "sget (network_shards s) (m, sh) \<noteq> None"
  shows "m = n"
proof -
  have "net sh = Some n" "net sh = Some m" using assms unfolding shards_ok_def by blast+
  then show ?thesis by simp
qed

lemma networksD:
  assumes "tasks_inv net R s" and "tasks s i \<noteq> None"
  shows "i \<in> set (waiting s n) \<Longrightarrow> task_network s i = Some n"
    "sget (read_events_task s) n = Some i \<Longrightarrow> task_network s i = Some n"
    "task_shard s i = Some sh \<Longrightarrow> sget (network_shards s) (n, sh) \<noteq> None \<Longrightarrow> task_network s i = Some n"
  using assms unfolding tasks_inv_def networks_ok_def by blast+

lemma lostD:
  "tasks_inv net R s \<Longrightarrow> tasks s i = Some (SubmitGatewayMessage b) \<Longrightarrow> task_output s i = None \<Longrightarrow> i \<notin> R \<Longrightarrow>
    task_shard s i \<noteq> None \<or> (\<exists>n. i \<in> set (waiting s n))"
  unfolding tasks_inv_def none_lost_def by blast

text \<open>No 64-bit counter of the queue has reached its last value.\<close>

definition unsaturated :: "tasks_store \<Rightarrow> bool" where
  "unsaturated s \<longleftrightarrow> task_id_counter s \<noteq> - 1 \<and> (\<forall>n. queue_room (ua_tasks s) n)"

text \<open>
  What an operation promises: counters that have not saturated after it had not before, and then it
  keeps the invariant. The relation is reflexive and transitive, so that the promise of a composed
  operation follows from those of its parts.
\<close>

definition keeps :: "(shard_id \<rightharpoonup> network_id) \<Rightarrow> tasks_store \<Rightarrow> tasks_store \<Rightarrow> bool" where
  "keeps net s s' \<longleftrightarrow>
     (unsaturated s' \<longrightarrow> unsaturated s \<and> (\<forall>R. tasks_inv net R s \<longrightarrow> tasks_inv net R s'))"

lemma keeps_refl [simp]: "keeps net s s"
  by (simp add: keeps_def)

lemma keeps_trans [trans]: "keeps net s t \<Longrightarrow> keeps net t u \<Longrightarrow> keeps net s u"
  by (auto simp: keeps_def)

lemma keeps_fold: "(\<And>x s. x \<in> set xs \<Longrightarrow> keeps net s (f x s)) \<Longrightarrow> keeps net s (fold f xs s)"
proof (induction xs arbitrary: s)
  case (Cons x xs)
  have "keeps net s (f x s)" by (rule Cons.prems) simp
  also have "keeps net \<dots> (fold f xs (f x s))" by (rule Cons.IH) (simp add: Cons.prems)
  finally show ?case by simp
qed simp

lemmas inv_defs = tasks_inv_def assigned_ok_def waiting_ok_def reads_ok_def ids_ok_def id_used_def
  shards_ok_def networks_ok_def none_lost_def waiting_def

text \<open>The invariant reads ten fields; writes to the others keep it.\<close>

lemma keeps_frame [simp, intro]:
  "keeps net s (s\<lparr>ops_queued := a\<rparr>)" "keeps net s (s\<lparr>task_count := c\<rparr>)"
  "keeps net s (s\<lparr>executed_task_count := c\<rparr>)"
  "keeps net s (s\<lparr>shard_register_batch_id := e\<rparr>)" "keeps net s (s\<lparr>shard_unregister_batch_id := e\<rparr>)"
  "keeps net s (s\<lparr>shard_registered := f\<rparr>)" "keeps net s (s\<lparr>sync_height := g\<rparr>)"
  "keeps net s (s\<lparr>message_received_task_id := h\<rparr>)" "keeps net s (s\<lparr>message_executed_task_id := h\<rparr>)"
  "keeps net s (s\<lparr>message_batch_id := i\<rparr>)" "keeps net s (s\<lparr>batch_id_counter := j\<rparr>)"
  "keeps net s (s\<lparr>batch_message := k\<rparr>)" "keeps net s (s\<lparr>batch_task_id := l\<rparr>)"
  "keeps net s (s\<lparr>pending_batches := m\<rparr>)" "keeps net s (s\<lparr>failed_batch_ids := m\<rparr>)"
  "keeps net s (s\<lparr>batch_tx_hash := o'\<rparr>)" "keeps net s (s\<lparr>tasks_events := p\<rparr>)"
  by (simp_all add: keeps_def unsaturated_def inv_defs)

lemmas keeps_update = keeps_frame [THEN keeps_trans [rotated]]

lemma tasks_inv_empty: "tasks_inv net {} empty_tasks"
  by (simp add: inv_defs empty_tasks_def queue_list_def empty_queue_def insert_i_def remove_i_def
      queue_inv_def List.map_filter_simps)

section \<open>Creating and finishing\<close>

lemma sat_succ_unsaturated: "sat_succ a \<noteq> - 1 \<Longrightarrow> a \<noteq> - 1" for a :: "'a::len word"
  by (auto simp: sat_succ_def sat_add_def unat_max split: if_splits)

text \<open>A task id taken from the counter is new.\<close>

lemma next_id_new:
  assumes "ids_ok s" and "unsaturated s"
  shows "\<not> id_used s (sat_succ (task_id_counter s))"
proof
  assume "id_used s (sat_succ (task_id_counter s))"
  with assms(1) have "sat_succ (task_id_counter s) \<le> task_id_counter s" by (simp add: ids_ok_def)
  moreover from assms(2) have "unat (sat_succ (task_id_counter s)) = unat (task_id_counter s) + 1"
    by (simp add: unsaturated_def sat_succ_not_max unat_succ)
  ultimately show False by (simp add: word_le_nat_alt)
qed

lemma le_sat_succ: "a \<le> b \<Longrightarrow> a \<le> sat_succ b" for a b :: "'a::len word"
proof -
  have "unat a < 2 ^ LENGTH('a)" by (rule unsigned_less)
  then show "a \<le> b \<Longrightarrow> a \<le> sat_succ b" unfolding word_le_nat_alt unat_sat_succ by linarith
qed

lemma waiting_ua_push:
  "queue_inv (ua_tasks s) n \<Longrightarrow> queue_room (ua_tasks s) n \<Longrightarrow>
    queue_list (queue_push n i (ua_tasks s)) m = waiting s m @ (if m = n then [i] else [])"
  by (simp add: waiting_def queue_impl.push_contents queue_impl.push_other)

text \<open>What \<open>create_task\<close> does to the fields of the invariant, and to the rest of the storage.\<close>

definition with_new_task :: "network_id \<Rightarrow> task \<Rightarrow> tasks_store \<Rightarrow> tasks_store" where
  "with_new_task n t s =
     (let i = sat_succ (task_id_counter s)
      in if needs_registration t
         then s\<lparr>tasks := (tasks s)(i \<mapsto> t), task_network := (task_network s)(i \<mapsto> n), task_id_counter := i,
                ua_tasks := queue_push n i (ua_tasks s)\<rparr>
         else s\<lparr>tasks := (tasks s)(i \<mapsto> t), task_network := (task_network s)(i \<mapsto> n), task_id_counter := i,
                read_events_task := sput n i (read_events_task s)\<rparr>)"

lemma create_task_keeps_rest: "keeps net (with_new_task n t s) (snd (create_task n t s))"
proof -
  let ?i = "sat_succ (task_id_counter s)"
  have "snd (create_task n t s) = (with_new_task n t s)\<lparr>
      task_count := (task_count s)(n := sat_add (task_count s n) 1),
      tasks_events := tasks_events s @ [EvTaskCreated ?i]\<rparr>"
    by (simp add: create_task_def with_new_task_def deposit_event_def Let_def)
  then show ?thesis by (simp add: keeps_update)
qed

lemma with_new_task_unsaturated: "unsaturated (with_new_task n t s) \<Longrightarrow> unsaturated s"
  by (auto simp: unsaturated_def with_new_task_def Let_def split: if_splits
      dest: queue_impl.push_room sat_succ_unsaturated)

lemma with_new_task_inv:
  assumes inv: "tasks_inv net R s" and uns: "unsaturated s"
  shows "tasks_inv net R (with_new_task n t s)"
proof -
  let ?i = "sat_succ (task_id_counter s)"
  note new = next_id_new [of s, unfolded id_used_def]
  have ok: "ids_ok s" using inv by (simp add: tasks_inv_def)
  have new: "task_shard s ?i = None" "\<And>m. ?i \<notin> set (waiting s m)"
    "\<And>m. sget (read_events_task s) m \<noteq> Some ?i"
    using next_id_new [OF ok uns] by (auto simp: id_used_def)
  have q: "queue_inv (ua_tasks s) m" "queue_room (ua_tasks s) m" for m
    using inv uns by (simp_all add: tasks_inv_def waiting_ok_def unsaturated_def)
  show ?thesis
  proof (cases "needs_registration t")
    case True
    let ?s = "s\<lparr>tasks := (tasks s)(?i \<mapsto> t), task_network := (task_network s)(?i \<mapsto> n), task_id_counter := ?i,
      ua_tasks := queue_push n ?i (ua_tasks s)\<rparr>"
    have w: "waiting ?s m = waiting s m @ (if m = n then [?i] else [])" for m
      using waiting_ua_push [OF q] by (simp add: waiting_def)
    have "assigned_ok ?s" using inv by (simp add: tasks_inv_def assigned_ok_def)
    moreover have "waiting_ok ?s"
      using inv new q by (auto simp: tasks_inv_def waiting_ok_def w queue_impl.push_inv)
    moreover have "reads_ok ?s"
      using inv new by (auto simp: tasks_inv_def reads_ok_def w split: if_splits)
    moreover have "ids_ok ?s"
      using ok by (auto simp: ids_ok_def id_used_def w intro: le_sat_succ split: if_splits)
    moreover have "shards_ok net ?s"
      using inv new by (auto simp: tasks_inv_def shards_ok_def split: if_splits)
    moreover have "networks_ok ?s"
      using networksD [OF inv] new by (auto simp: networks_ok_def w split: if_splits)
    moreover have "none_lost R ?s"
      using inv by (auto simp: tasks_inv_def none_lost_def w)
    ultimately show ?thesis using True by (simp add: tasks_inv_def with_new_task_def Let_def)
  next
    case False
    let ?s = "s\<lparr>tasks := (tasks s)(?i \<mapsto> t), task_network := (task_network s)(?i \<mapsto> n), task_id_counter := ?i,
                read_events_task := sput n ?i (read_events_task s)\<rparr>"
    have t: "\<And>b. t \<noteq> SubmitGatewayMessage b" using False by auto
    have w: "waiting ?s m = waiting s m" for m by (simp add: waiting_def)
    have "assigned_ok ?s" using inv by (simp add: tasks_inv_def assigned_ok_def)
    moreover have "waiting_ok ?s"
      using inv by (simp add: tasks_inv_def waiting_ok_def w)
    moreover have "reads_ok ?s"
      using inv new t by (auto simp: tasks_inv_def reads_ok_def w split: if_splits)
    moreover have "ids_ok ?s"
      using ok by (auto simp: ids_ok_def id_used_def w intro: le_sat_succ split: if_splits)
    moreover have "shards_ok net ?s"
      using inv new by (auto simp: tasks_inv_def shards_ok_def split: if_splits)
    moreover have "networks_ok ?s"
      using networksD [OF inv] new by (auto simp: networks_ok_def w split: if_splits)
    moreover have "none_lost R ?s"
      using inv t by (auto simp: tasks_inv_def none_lost_def w)
    ultimately show ?thesis using False by (simp add: tasks_inv_def with_new_task_def Let_def)
  qed
qed

lemma create_task_keeps [simp, intro]: "keeps net s (snd (create_task n t s))"
proof -
  have "keeps net s (with_new_task n t s)"
    using with_new_task_unsaturated with_new_task_inv by (auto simp: keeps_def)
  then show ?thesis using create_task_keeps_rest by (rule keeps_trans)
qed

lemma finish_task_keeps [simp, intro]: "keeps net s (finish_task n i r s)"
proof (cases "task_output s i = None")
  case True
  let ?s1 = "s\<lparr>task_output := (task_output s)(i \<mapsto> r)\<rparr>"
  have 1: "keeps net s ?s1"
    by (auto simp: keeps_def unsaturated_def inv_defs)
  show ?thesis
  proof (cases "task_shard s i")
    case None
    with True 1 show ?thesis
      by (auto simp: finish_task_def deposit_event_def Let_def intro: keeps_update)
  next
    case (Some sh)
    let ?s2 = "?s1\<lparr>task_shard := (task_shard s)(i := None), shard_tasks := sdel (sh, i) (shard_tasks s),
      shard_task_count := (shard_task_count s)(sh := sat_sub (shard_task_count s sh) 1)\<rparr>"
    have "tasks_inv net R ?s2" if inv: "tasks_inv net R ?s1" for R
    proof -
      have w: "waiting ?s2 m = waiting ?s1 m" for m by (simp add: waiting_def)
      have mem: "sget (shard_tasks s) (sh, i) \<noteq> None" "swf (shard_tasks s)"
        using inv Some by (auto simp: tasks_inv_def assigned_ok_def)
      have "assigned_ok ?s2"
        using inv mem slen_sdel [OF mem(2,1)]
        by (auto simp: tasks_inv_def assigned_ok_def unat_sat_sub split: if_splits)
      moreover have "waiting_ok ?s2" using inv unfolding tasks_inv_def waiting_ok_def w by auto
      moreover have "reads_ok ?s2" using inv unfolding tasks_inv_def reads_ok_def w by auto
      moreover have "ids_ok ?s2"
        using inv unfolding tasks_inv_def ids_ok_def id_used_def w by (auto split: if_splits)
      moreover have "shards_ok net ?s2"
        using inv unfolding tasks_inv_def shards_ok_def by (auto split: if_splits)
      moreover have "networks_ok ?s2"
        using inv unfolding tasks_inv_def networks_ok_def w by (auto split: if_splits)
      moreover have "none_lost R ?s2"
        using inv unfolding tasks_inv_def none_lost_def w by (auto split: if_splits)
      ultimately show ?thesis by (simp add: tasks_inv_def)
    qed
    then have "keeps net ?s1 ?s2" by (simp add: keeps_def unsaturated_def)
    with 1 have "keeps net s ?s2" by (rule keeps_trans)
    then have "keeps net s (?s2\<lparr>executed_task_count := (executed_task_count s)(n := sat_add (executed_task_count s n) 1),
        tasks_events := tasks_events s @ [EvTaskResult i r]\<rparr>)"
      by (intro keeps_update)
    with True Some show ?thesis
      by (simp add: finish_task_def deposit_event_def Let_def)
  qed
qed (simp add: finish_task_def)

lemma read_gateway_events_keeps:
  "read_gateway_events nets n s = Some (i, s') \<Longrightarrow> keeps net s s'"
  by (auto simp: read_gateway_events_def Let_def split: option.splits) (metis create_task_keeps snd_conv)

section \<open>Events and dispatchables\<close>

lemma process_event_keeps: "keeps net s (process_event cfg n i e s)"
proof (cases e)
  case (BatchExecuted b h)
  let ?s1 = "s\<lparr>pending_batches := sdel b (pending_batches s)\<rparr>"
  let ?s2 = "case batch_task_id ?s1 b of None \<Rightarrow> ?s1 | Some j \<Rightarrow> finish_task n j (Inr ()) ?s1"
  have "keeps net ?s1 ?s2" by (simp split: option.split)
  moreover have "keeps net s ?s1" by simp
  ultimately have "keeps net s ?s2" by (rule keeps_trans [rotated])
  then show ?thesis by (auto simp: BatchExecuted Let_def split: option.split intro: keeps_update)
qed (auto simp: deposit_event_def Let_def intro: keeps_update)

lemma process_events_keeps: "keeps net s (process_events cfg n i es s)"
  unfolding process_events_def by (rule keeps_fold) (rule process_event_keeps)

text \<open>How a submission can succeed: the task was done already, or one of the two kinds of result is accepted.\<close>

lemma submit_task_result_cases:
  assumes "submit_task_result cfg nets shs orig i result s = Some (Inr s')"
  obtains (already) "task_output s i \<noteq> None" "s' = s"
  | (read) signer sh n start stop es sig s1 where
      "orig = Signed signer" "task_output s i = None" "task_shard s i = Some sh" "shard_network shs sh = Some n"
      "tasks s i = Some (ReadGatewayEvents start stop)" "result = ReadGatewayEventsResult es sig"
      "check_signature cfg shs sh (encode_gmp_events cfg i es) sig = Some (Inr ())"
      "continue_reading nets n (advance_sync_height n start stop s) = Some s1"
      "s' = (if length es = MAX_GMP_EVENTS then process_events cfg n i es s1
        else finish_task n i (Inr ()) (process_events cfg n i es s1))"
  | (submit) signer sh n b err where
      "orig = Signed signer" "task_output s i = None" "task_shard s i = Some sh" "shard_network shs sh = Some n"
      "tasks s i = Some (SubmitGatewayMessage b)" "result = SubmitGatewayMessageResult err"
      "signer \<in> set (shard_members cfg shs sh)"
      "s' = finish_task n i (Inl err) (s\<lparr>pending_batches := sdel b (pending_batches s),
        failed_batch_ids := sput b () (failed_batch_ids s)\<rparr>)"
proof -
  obtain signer where orig: "orig = Signed signer"
    using assms by (cases orig) (auto simp: submit_task_result_def)
  obtain t where t: "tasks s i = Some t"
    using assms by (cases "tasks s i") (auto simp: submit_task_result_def orig)
  show thesis
  proof (cases "task_output s i")
    case Some
    with assms show thesis by (intro already) (auto simp: submit_task_result_def orig t)
  next
    case None
    then obtain sh n where sh: "task_shard s i = Some sh" "shard_network shs sh = Some n"
      using assms by (auto simp: submit_task_result_def orig t split: option.splits)
    show thesis
    proof (cases t)
      case (ReadGatewayEvents start stop)
      with assms None sh obtain es sig where r: "result = ReadGatewayEventsResult es sig"
        by (cases result) (auto simp: submit_task_result_def orig t)
      with assms None sh ReadGatewayEvents
      obtain s1 where "check_signature cfg shs sh (encode_gmp_events cfg i es) sig = Some (Inr ())"
        "continue_reading nets n (advance_sync_height n start stop s) = Some s1"
        by (auto simp: submit_task_result_def orig t split: option.splits sum.splits)
      with assms None sh ReadGatewayEvents r show thesis
        by (intro read) (auto simp: submit_task_result_def orig t Let_def split: if_splits)
    next
      case (SubmitGatewayMessage b)
      with assms None sh obtain err where r: "result = SubmitGatewayMessageResult err"
        by (cases result) (auto simp: submit_task_result_def orig t)
      with assms None sh SubmitGatewayMessage show thesis
        by (intro submit) (auto simp: submit_task_result_def orig t Let_def split: if_splits)
    qed
  qed
qed

lemma advance_sync_height_keeps [simp]: "keeps net s (advance_sync_height n a b s)"
  by (simp add: advance_sync_height_def)

lemma continue_reading_keeps: "continue_reading nets n s = Some s' \<Longrightarrow> keeps net s s'"
  using read_gateway_events_keeps [of nets n s] by (auto simp: continue_reading_def split: if_splits)

lemma submit_task_result_keeps:
  assumes "submit_task_result cfg nets shs orig i result s = Some (Inr s')"
  shows "keeps net s s'"
  using assms
proof (cases rule: submit_task_result_cases)
  case (read signer sh n start stop es sig s1)
  have "keeps net s s1"
    using advance_sync_height_keeps continue_reading_keeps [OF read(8)] by (rule keeps_trans)
  then have "keeps net s (process_events cfg n i es s1)" using process_events_keeps by (rule keeps_trans)
  with keeps_trans [OF this finish_task_keeps] read(9) show ?thesis by simp
next
  case (submit signer sh n b err)
  show ?thesis
    unfolding submit(8) by (rule keeps_trans [OF _ finish_task_keeps]) (intro keeps_update keeps_refl)
qed simp

lemma restart_batch_keeps:
  assumes "restart_batch cfg orig b s = Some (Inr s')"
  shows "keeps net s s'"
  using assms create_task_keeps
  by (auto simp: restart_batch_def deposit_event_def Let_def split_beta split: if_splits option.splits
      intro!: keeps_update)

lemma sync_network_keeps: "sync_network cfg orig n h s = Some (Inr s') \<Longrightarrow> keeps net s s'"
  by (auto simp: sync_network_def split: if_splits)

lemma stop_network_keeps: "stop_network cfg orig n s = Some (Inr s') \<Longrightarrow> keeps net s s'"
proof -
  assume "stop_network cfg orig n s = Some (Inr s')"
  then have s': "s' = s\<lparr>read_events_task := sdel n (read_events_task s)\<rparr>"
    by (auto simp: stop_network_def split: if_splits)
  have w: "waiting s' m = waiting s m" for m by (simp add: s' waiting_def)
  have "tasks_inv net R s'" if "tasks_inv net R s" for R
    unfolding tasks_inv_def
  proof (intro conjI)
    show "reads_ok s'" using that unfolding tasks_inv_def reads_ok_def w by (auto simp: s' split: if_splits)
    show "ids_ok s'"
      using that unfolding tasks_inv_def ids_ok_def id_used_def w by (auto simp: s' split: if_splits)
    show "shards_ok net s'" using that unfolding tasks_inv_def shards_ok_def by (auto simp: s' split: if_splits)
    show "networks_ok s'" using that unfolding tasks_inv_def networks_ok_def w by (auto simp: s' split: if_splits)
  qed (use that in \<open>simp_all add: tasks_inv_def assigned_ok_def waiting_ok_def none_lost_def w\<close>,
      simp_all add: s')
  then show ?thesis by (simp add: keeps_def unsaturated_def s')
qed

lemma forget_message_keeps: "keeps net s (forget_message cfg op s)"
  by (cases op) (auto simp: forget_message_def Let_def intro: keeps_update)

lemma network_forgotten_keeps:
  "tasks s i = None \<Longrightarrow> keeps net s (s\<lparr>task_network := (task_network s)(i := None)\<rparr>)"
  by (auto simp: keeps_def unsaturated_def inv_defs)

lemma remove_task_keeps:
  assumes "remove_task cfg orig i s = Some (Inr s')"
  shows "keeps net s s'"
proof -
  let ?s1 = "s\<lparr>task_output := (task_output s)(i := None), tasks := (tasks s)(i := None)\<rparr>"
  have 1: "keeps net s ?s1"
    by (auto simp: keeps_def unsaturated_def inv_defs)
  have 2: "keeps net s (fold (forget_message cfg) ms (?s1\<lparr>batch_message := bm\<rparr>))" for ms bm
    using keeps_fold [of ms net "forget_message cfg", OF forget_message_keeps] keeps_update(12) [OF 1]
    by (rule keeps_trans [rotated])
  have 3: "tasks (fold (forget_message cfg) ms t) = tasks t" for ms t
    by (induction ms arbitrary: t) (simp_all add: forget_message_def Let_def split: gateway_op.split)
  define s2 where "s2 = (case tasks s i of
      Some (SubmitGatewayMessage b) \<Rightarrow>
        (let s' = (case batch_message ?s1 b of
                     None \<Rightarrow> ?s1
                   | Some m \<Rightarrow> fold (forget_message cfg) (msg_ops m) (?s1\<lparr>batch_message := (batch_message ?s1)(b := None)\<rparr>))
         in s'\<lparr>batch_task_id := (batch_task_id s')(b := None)\<rparr>)
    | _ \<Rightarrow> ?s1)"
  have s': "s' = s2\<lparr>task_network := (task_network s2)(i := None)\<rparr>"
    using assms by (simp add: remove_task_def s2_def Let_def split: if_splits)
  have "keeps net s s2" "tasks s2 i = None"
    using 1 2 by (auto simp: s2_def Let_def 3 split: option.split task.split intro: keeps_update)
  then show ?thesis unfolding s' using keeps_trans network_forgotten_keeps by blast
qed

text \<open>
  \<open>submit_gmp_events\<close> forgets the results of the executed batches and then finishes their tasks again.
\<close>

definition reset_tasks :: "gmp_event list \<Rightarrow> tasks_store \<Rightarrow> task_id set" where
  "reset_tasks es s = {j. \<exists>b h. BatchExecuted b h \<in> set es \<and> batch_task_id s b = Some j}"

lemma reset_batch_output_fields [simp]:
  "batch_task_id (reset_batch_output e s) = batch_task_id s"
  "unsaturated (reset_batch_output e s) = unsaturated s"
  by (auto simp: reset_batch_output_def Let_def unsaturated_def split: gmp_event.split option.split)

lemma reset_batch_output_inv:
  "tasks_inv net R s \<Longrightarrow> tasks_inv net (R \<union> reset_tasks [e] s) (reset_batch_output e s)"
  by (auto simp: reset_batch_output_def Let_def reset_tasks_def inv_defs
      split: gmp_event.split option.split)

lemma reset_batch_outputs_inv:
  "tasks_inv net R s \<Longrightarrow> tasks_inv net (R \<union> reset_tasks es s) (fold reset_batch_output es s) \<and>
    batch_task_id (fold reset_batch_output es s) = batch_task_id s \<and>
    unsaturated (fold reset_batch_output es s) = unsaturated s"
proof (induction es arbitrary: s R)
  case (Cons e es)
  have "R \<union> reset_tasks [e] s \<union> reset_tasks es (reset_batch_output e s) = R \<union> reset_tasks (e # es) s"
    by (auto simp: reset_tasks_def)
  with Cons.IH [OF reset_batch_output_inv [OF Cons.prems, of e]] show ?case by simp
qed (simp add: reset_tasks_def)

lemma finish_task_output [simp]:
  "task_output (finish_task n i r s) j =
    (if j = i \<and> task_output s i = None then Some r else task_output s j)"
  "batch_task_id (finish_task n i r s) = batch_task_id s"
  by (auto simp: finish_task_def deposit_event_def Let_def split: option.split)

lemma process_event_output:
  "batch_task_id (process_event cfg n i e s) = batch_task_id s"
  "task_output s j \<noteq> None \<Longrightarrow> task_output (process_event cfg n i e s) j \<noteq> None"
  by (cases e; auto simp: deposit_event_def Let_def split: option.split)+

lemma process_event_finishes:
  "batch_task_id s b = Some j \<Longrightarrow> task_output (process_event cfg n i (BatchExecuted b h) s) j \<noteq> None"
  by (auto simp: Let_def split: option.split)

lemma process_events_output:
  "task_output s j \<noteq> None \<or> j \<in> reset_tasks es s \<Longrightarrow> task_output (process_events cfg n i es s) j \<noteq> None"
proof (induction es arbitrary: s)
  case (Cons e es)
  have "task_output (process_event cfg n i e s) j \<noteq> None \<or> j \<in> reset_tasks es (process_event cfg n i e s)"
    using Cons.prems process_event_output(2) [of s j cfg n i e] process_event_finishes [of s _ j cfg n i]
    by (auto simp: reset_tasks_def process_event_output(1))
  then have "task_output (process_events cfg n i es (process_event cfg n i e s)) j \<noteq> None" by (rule Cons.IH)
  then show ?case by (simp add: process_events_def)
qed (simp add: process_events_def reset_tasks_def)

lemma tasks_inv_finished:
  assumes "tasks_inv net (R \<union> F) s" and "\<And>i. i \<in> F \<Longrightarrow> task_output s i \<noteq> None"
  shows "tasks_inv net R s"
  using assms unfolding tasks_inv_def none_lost_def by (meson UnE)

lemma submit_gmp_events_keeps:
  assumes "submit_gmp_events cfg orig n es s = Some (Inr s')"
  shows "keeps net s s'"
  unfolding keeps_def
proof (intro impI conjI allI)
  let ?r = "fold reset_batch_output es s"
  have s': "s' = process_events cfg n 0 es ?r"
    using assms by (auto simp: submit_gmp_events_def split: if_splits)
  have fr: "unsaturated ?r = unsaturated s" by (induction es arbitrary: s) simp_all
  assume uns: "unsaturated s'"
  with process_events_keeps [of net ?r cfg n 0 es, folded s'] have "unsaturated ?r" by (simp add: keeps_def)
  with fr show "unsaturated s" by simp
  fix R
  assume "tasks_inv net R s"
  note r = reset_batch_outputs_inv [OF this, of es]
  with uns process_events_keeps [of net ?r cfg n 0 es, folded s']
  have "tasks_inv net (R \<union> reset_tasks es s) s'" by (simp add: keeps_def)
  then show "tasks_inv net R s'"
    by (rule tasks_inv_finished) (use r process_events_output in \<open>simp add: s' reset_tasks_def\<close>)
qed

end
