(* ===== verification/Tasks_Schedule.thy ===== *)
theory Tasks_Schedule
  imports Tasks_Assignment
begin

text \<open>
  The block hook of the tasks pallet and the calls from the shards pallet: that scheduling, batching and
  shards going on- and offline keep the assignment invariant, and what scheduling assigns.
\<close>

section \<open>Assigning keeps the invariant\<close>

lemma network_shard_list_iff:
  "swf (network_shards s) \<Longrightarrow> sh \<in> set (network_shard_list cfg s n) \<longleftrightarrow> sget (network_shards s) (n, sh) \<noteq> None"
  using sprefix_iff [of "network_shards s" sh _ "id_order cfg" n]
  by (force simp: network_shard_list_def image_iff)

lemma netD:
  assumes "tasks_inv net R s" and "sh \<in> set (network_shard_list cfg s n)"
  shows "net sh = Some n" and "sget (network_shards s) (n, sh) \<noteq> None"
proof -
  have sok: "shards_ok net s" using assms(1) by (simp add: tasks_inv_def)
  with assms(2) show "sget (network_shards s) (n, sh) \<noteq> None"
    using network_shard_list_iff by (simp add: shards_ok_def)
  with sok show "net sh = Some n" unfolding shards_ok_def by blast
qed

lemma assign_task_inv:
  assumes inv: "tasks_inv net (R \<union> {i}) s"
    and free: "task_shard s i = None" "\<And>m. i \<notin> set (waiting s m)" and id: "i \<le> task_id_counter s"
    and sh: "sget (network_shards s) (n, sh) \<noteq> None"
    and read: "\<And>m. sget (read_events_task s) m = Some i \<Longrightarrow> m = n"
    and own: "tasks s i \<noteq> None \<Longrightarrow> task_network s i = Some n" and room: "shard_task_count s sh \<noteq> - 1"
  shows "tasks_inv net R (assign_task sh i s)"
  unfolding tasks_inv_def
proof (intro conjI)
  let ?s = "assign_task sh i s"
  have w: "waiting ?s m = waiting s m" for m by (simp add: waiting_def assign_task_def)
  have "sget (shard_tasks s) (sh, i) \<noteq> None \<longleftrightarrow> task_shard s i = Some sh"
    using inv by (simp add: tasks_inv_def assigned_ok_def)
  with free(1) have new: "sget (shard_tasks s) (sh, i) = None" by (metis option.distinct(1))
  have "unat (sat_add (shard_task_count s sh) 1) = Suc (unat (shard_task_count s sh))"
    using room sat_succ_not_max [OF room] unat_succ [OF room] by (simp add: sat_succ_def)
  with new show "assigned_ok ?s"
    using inv free(1) by (auto simp: tasks_inv_def assigned_ok_def assign_task_def slen_sput_new)
  show "waiting_ok ?s"
    using inv free(2) unfolding tasks_inv_def waiting_ok_def w by (auto simp: assign_task_def)
  show "reads_ok ?s" using inv unfolding tasks_inv_def reads_ok_def w by (auto simp: assign_task_def)
  show "ids_ok ?s"
    using inv id unfolding tasks_inv_def ids_ok_def id_used_def w by (auto simp: assign_task_def split: if_splits)
  show "shards_ok net ?s"
    using inv sh read unfolding tasks_inv_def shards_ok_def by (auto simp: assign_task_def split: if_splits)
  have "m = n" if "sget (network_shards s) (m, sh) \<noteq> None" for m
    by (rule serves_one [of net, OF _ sh that]) (use inv in \<open>simp add: tasks_inv_def\<close>)
  with own have new: "task_network s i = Some m" if "sget (network_shards s) (m, sh) \<noteq> None" "tasks s i \<noteq> None" for m
    using that by blast
  show "networks_ok ?s"
    unfolding networks_ok_def w
  proof (intro conjI allI impI)
    show "task_network ?s j = Some m" if "task_shard ?s j = Some x" "sget (network_shards ?s) (m, x) \<noteq> None" "tasks ?s j \<noteq> None" for m j x
      using that new [of m] networksD(3) [OF inv, of j x m] by (cases "j = i") (simp_all add: assign_task_def)
  qed (use networksD(1,2) [OF inv] in \<open>simp_all add: assign_task_def\<close>)
  show "none_lost R ?s"
    using inv unfolding tasks_inv_def none_lost_def w by (auto simp: assign_task_def)
qed

text \<open>Taking the oldest waiting task out of its queue.\<close>

lemma pop_waiting:
  assumes inv: "tasks_inv net R s" and pop: "queue_pop n (ua_tasks s) = (Some i, q)"
  shows "waiting s n = i # queue_list q n" and "m \<noteq> n \<Longrightarrow> queue_list q m = waiting s m"
    and "queue_inv q m"
proof -
  have qi: "queue_inv (ua_tasks s) m" for m using inv by (simp add: tasks_inv_def waiting_ok_def)
  have q: "q = snd (queue_pop n (ua_tasks s))" by (simp add: pop)
  show "waiting s n = i # queue_list q n"
    using queue_impl.pop_eq [OF qi pop] by (simp add: waiting_def)
  show "m \<noteq> n \<Longrightarrow> queue_list q m = waiting s m"
    unfolding q waiting_def by (rule queue_impl.pop_other)
  show "queue_inv q m" unfolding q by (rule queue_impl.pop_inv [OF qi qi])
qed

lemma popped_inv:
  assumes inv: "tasks_inv net R s" and pop: "queue_pop n (ua_tasks s) = (Some i, q)"
  shows "tasks_inv net (R \<union> {i}) (s\<lparr>ua_tasks := q\<rparr>)"
    and "i \<notin> set (waiting (s\<lparr>ua_tasks := q\<rparr>) m)" and "task_shard s i = None"
    and "i \<le> task_id_counter s" and "sget (read_events_task s) m \<noteq> Some i"
    and "tasks s i \<noteq> None \<Longrightarrow> task_network s i = Some n"
proof -
  let ?s = "s\<lparr>ua_tasks := q\<rparr>"
  note p = pop_waiting [OF assms]
  have w: "waiting ?s m = (if m = n then tl (waiting s n) else waiting s m)" for m
    using p(1,2) by (simp add: waiting_def)
  have i: "i \<in> set (waiting s n)" by (simp add: p(1))
  have "distinct (waiting s n)" using inv by (simp add: tasks_inv_def waiting_ok_def)
  then have d: "distinct (i # queue_list q n)" by (simp only: p(1))
  show "task_shard s i = None" "i \<le> task_id_counter s" "sget (read_events_task s) m \<noteq> Some i"
    using waitingD(4) [OF inv i] idsD(2) [OF inv i] readsD(1) [OF inv] i by blast+
  show "task_network s i = Some n" if "tasks s i \<noteq> None" by (rule networksD(1) [OF inv that i])
  have "i \<notin> set (waiting s m)" if "m \<noteq> n" for m
    using waitingD(3) [OF inv _ i] that by blast
  with d show "i \<notin> set (waiting ?s m)" by (simp add: w p(1))
  have sub: "set (waiting ?s m) \<subseteq> set (waiting s m)" for m by (simp add: w p(1) subset_iff)
  have rest: "j \<in> set (waiting ?s m)" if "j \<in> set (waiting s m)" "j \<noteq> i" for j m
    using that by (cases "m = n") (simp_all add: w p(1))
  show "tasks_inv net (R \<union> {i}) ?s"
    unfolding tasks_inv_def
  proof (intro conjI)
    show "assigned_ok ?s" "shards_ok net ?s"
      using inv by (simp_all add: tasks_inv_def assigned_ok_def shards_ok_def)
    show "waiting_ok ?s"
      unfolding waiting_ok_def
    proof (intro conjI allI ballI impI)
      show "queue_inv (ua_tasks ?s) m" for m using p(3) by simp
      show "distinct (waiting ?s m)" for m
        using inv by (simp add: w tasks_inv_def waiting_ok_def distinct_tl)
      show "m = k" if "j \<in> set (waiting ?s m)" "j \<in> set (waiting ?s k)" for j m k
        using waitingD(3) [OF inv] that sub [of m] sub [of k] by blast
      show "task_shard ?s j = None" if "j \<in> set (waiting ?s m)" for j m
        using waitingD(4) [OF inv] that sub [of m] by auto
    qed
    show "reads_ok ?s"
      using inv readsD(1) [OF inv] sub unfolding tasks_inv_def reads_ok_def by (simp add: subset_iff) blast
    show "ids_ok ?s" using idsD [OF inv] sub unfolding ids_ok_def id_used_def by (simp add: subset_iff) blast
    show "networks_ok ?s" using networksD [OF inv] sub unfolding networks_ok_def by (simp add: subset_iff)
    show "none_lost (R \<union> {i}) ?s"
      using lostD [OF inv] rest unfolding none_lost_def by simp blast
  qed
qed

lemma assign_popped_inv:
  assumes inv: "tasks_inv net R s" and pop: "queue_pop n (ua_tasks s) = (Some i, q)"
    and sh: "sh \<in> set (network_shard_list cfg s n)" and room: "shard_task_count s sh \<noteq> - 1"
  shows "tasks_inv net R (assign_task sh i (s\<lparr>ua_tasks := q\<rparr>))"
proof (rule assign_task_inv)
  note p = popped_inv [OF inv pop]
  show "tasks_inv net (R \<union> {i}) (s\<lparr>ua_tasks := q\<rparr>)" by (rule p(1))
  show "i \<notin> set (waiting (s\<lparr>ua_tasks := q\<rparr>) k)" for k by (rule p(2))
  show "sget (network_shards (s\<lparr>ua_tasks := q\<rparr>)) (n, sh) \<noteq> None"
    using netD(2) [OF inv sh] by simp
qed (use popped_inv [OF inv pop] room in simp_all)

lemma assign_read_inv:
  assumes inv: "tasks_inv net R s" and e: "(n, i) \<in> set (read_events_task s)" and free: "task_shard s i = None"
    and sh: "sh \<in> set (network_shard_list cfg s n)" and room: "shard_task_count s sh \<noteq> - 1"
  shows "tasks_inv net R (assign_task sh i s)"
proof (rule assign_task_inv)
  have r: "sget (read_events_task s) n = Some i"
    using inv e by (simp add: tasks_inv_def reads_ok_def sget_iff)
  show "tasks_inv net (R \<union> {i}) s" using inv by (auto simp: tasks_inv_def none_lost_def)
  show "i \<notin> set (waiting s m)" for m by (rule readsD(1) [OF inv r])
  show "i \<le> task_id_counter s" by (rule idsD(3) [OF inv r])
  show "task_network s i = Some n" if "tasks s i \<noteq> None" by (rule networksD(2) [OF inv that r])
  show "sget (network_shards s) (n, sh) \<noteq> None" by (rule netD(2) [OF inv sh])
  show "m = n" if "sget (read_events_task s) m = Some i" for m
    using readsD(3) [OF inv r that] .
qed (use free room in simp_all)

section \<open>What scheduling assigns\<close>

definition only_assignment :: "tasks_store \<Rightarrow> tasks_store \<Rightarrow> bool" where
  "only_assignment s s' \<longleftrightarrow>
     (\<exists>q st ts c. s' = s\<lparr>ua_tasks := q, shard_tasks := st, task_shard := ts, shard_task_count := c\<rparr>)"

text \<open>
  The storage \<open>s'\<close> results from \<open>s\<close> by assigning the tasks of \<open>ts\<close> to the shards beside them, in that
  order: none of them was assigned before, the waiting ones are the oldest of their queues, and nothing
  but the assignment has changed.
\<close>

definition assigned_by :: "tasks_store \<Rightarrow> (task_id \<times> shard_id) list \<Rightarrow> tasks_store \<Rightarrow> bool" where
  "assigned_by s ts s' \<longleftrightarrow>
     only_assignment s s' \<and>
     distinct (map fst ts) \<and> (\<forall>e\<in>set ts. task_shard s (fst e) = None) \<and>
     task_shard s' = task_shard s ++ map_of ts \<and>
     length (shard_tasks s') = length (shard_tasks s) + length ts \<and>
     (\<forall>sh. unat (shard_task_count s' sh) =
        unat (shard_task_count s sh) + length (filter (\<lambda>e. snd e = sh) ts)) \<and>
     (\<forall>n. waiting s n = filter (\<lambda>i. i \<in> set (waiting s n)) (map fst ts) @ waiting s' n)"

lemma assigned_by_frame:
  assumes "assigned_by s ts s'"
  shows "read_events_task s' = read_events_task s" "network_shards s' = network_shards s"
    "shard_registered s' = shard_registered s" "task_count s' = task_count s"
    "executed_task_count s' = executed_task_count s" "network_shard_list cfg s' = network_shard_list cfg s"
    "tasks s' = tasks s" "task_output s' = task_output s"
  using assms by (auto simp: assigned_by_def only_assignment_def network_shard_list_def fun_eq_iff)

lemma assigned_by_registered:
  "assigned_by s ts s' \<Longrightarrow> is_shard_registered shs s' sh = is_shard_registered shs s sh"
  unfolding is_shard_registered_def using assigned_by_frame(3) by metis

lemma only_assignment_refl [simp]: "only_assignment s s"
  by (cases s) (simp add: only_assignment_def)

lemma only_assignment_trans: "only_assignment s t \<Longrightarrow> only_assignment t u \<Longrightarrow> only_assignment s u"
  by (auto simp: only_assignment_def) (intro exI, rule refl)

lemma assigned_by_refl [simp]: "assigned_by s [] s"
  by (simp add: assigned_by_def)

lemma assigned_by_trans:
  assumes ts: "assigned_by s ts s'" and us: "assigned_by s' us s''"
  shows "assigned_by s (ts @ us) s''"
proof -
  have t: "task_shard s' = task_shard s ++ map_of ts" "task_shard s'' = task_shard s' ++ map_of us"
    using ts us by (simp_all add: assigned_by_def)
  have free: "task_shard s i = None \<and> i \<notin> fst ` set ts" if "i \<in> fst ` set us" for i
  proof -
    have "task_shard s' i = None" using us that by (auto simp: assigned_by_def)
    then show ?thesis by (simp add: t(1) map_of_eq_None_iff [symmetric] map_add_None)
  qed
  have dis: "fst ` set ts \<inter> fst ` set us = {}" using free by auto
  have "task_shard s'' = task_shard s ++ (map_of ts ++ map_of us)" by (simp add: t)
  also have "map_of ts ++ map_of us = map_of (ts @ us)"
    using dis map_add_comm [of "map_of ts" "map_of us"] by (simp add: dom_map_of_conv_image_fst)
  finally have task: "task_shard s'' = task_shard s ++ map_of (ts @ us)" .
  have wait: "waiting s n = filter (\<lambda>i. i \<in> set (waiting s n)) (map fst (ts @ us)) @ waiting s'' n" for n
  proof -
    have 1: "waiting s n = filter (\<lambda>i. i \<in> set (waiting s n)) (map fst ts) @ waiting s' n"
      and 2: "waiting s' n = filter (\<lambda>i. i \<in> set (waiting s' n)) (map fst us) @ waiting s'' n"
      using ts us unfolding assigned_by_def by blast+
    have "i \<in> set (waiting s n) \<longleftrightarrow> i \<in> set (waiting s' n)" if "i \<in> set (map fst us)" for i
    proof -
      have "i \<notin> set (filter (\<lambda>i. i \<in> set (waiting s n)) (map fst ts))" using that dis by auto
      moreover have "set (waiting s n) = set (filter (\<lambda>i. i \<in> set (waiting s n)) (map fst ts)) \<union> set (waiting s' n)"
        by (subst 1) (simp only: set_append)
      ultimately show ?thesis by blast
    qed
    then have "filter (\<lambda>i. i \<in> set (waiting s n)) (map fst us) = filter (\<lambda>i. i \<in> set (waiting s' n)) (map fst us)"
      by (rule filter_cong [OF refl])
    with 1 2 show ?thesis by simp
  qed
  have "only_assignment s s''"
    using ts us only_assignment_trans by (auto simp: assigned_by_def)
  moreover have "distinct (map fst (ts @ us))" using ts us dis by (simp add: assigned_by_def)
  moreover have "\<forall>e\<in>set (ts @ us). task_shard s (fst e) = None"
    using ts free by (auto simp: assigned_by_def)
  ultimately show ?thesis using task wait ts us by (simp add: assigned_by_def)
qed

text \<open>One assignment, of a waiting task or of a task a network reads with.\<close>

lemma assign_popped_by:
  assumes inv: "tasks_inv net R s" and pop: "queue_pop n (ua_tasks s) = (Some i, q)"
    and room: "shard_task_count s sh \<noteq> - 1"
  shows "assigned_by s [(i, sh)] (assign_task sh i (s\<lparr>ua_tasks := q\<rparr>))"
proof -
  let ?s = "assign_task sh i (s\<lparr>ua_tasks := q\<rparr>)"
  note w = pop_waiting [OF inv pop] and p = popped_inv [OF inv pop]
  have "sget (shard_tasks s) (sh, i) \<noteq> None \<longleftrightarrow> task_shard s i = Some sh"
    using inv by (simp add: tasks_inv_def assigned_ok_def)
  with p(3) have new: "sget (shard_tasks s) (sh, i) = None" by (metis option.distinct(1))
  have c: "unat (sat_add (shard_task_count s sh) 1) = Suc (unat (shard_task_count s sh))"
    using room sat_succ_not_max [OF room] unat_succ [OF room] by (simp add: sat_succ_def)
  have "only_assignment s ?s" unfolding only_assignment_def assign_task_def by (intro exI) simp
  moreover have "waiting s m = filter (\<lambda>j. j \<in> set (waiting s m)) [i] @ waiting ?s m" for m
    using w p(2) [of m] by (cases "m = n") (simp_all add: waiting_def assign_task_def)
  ultimately show ?thesis
    using p(3) new by (simp add: assigned_by_def assign_task_def c length_sput_new)
qed

lemma assign_read_by:
  assumes inv: "tasks_inv net R s" and e: "(n, i) \<in> set (read_events_task s)" and free: "task_shard s i = None"
    and room: "shard_task_count s sh \<noteq> - 1"
  shows "assigned_by s [(i, sh)] (assign_task sh i s)"
proof -
  let ?s = "assign_task sh i s"
  have r: "sget (read_events_task s) n = Some i"
    using inv e by (simp add: tasks_inv_def reads_ok_def sget_iff)
  have "sget (shard_tasks s) (sh, i) \<noteq> None \<longleftrightarrow> task_shard s i = Some sh"
    using inv by (simp add: tasks_inv_def assigned_ok_def)
  with free have new: "sget (shard_tasks s) (sh, i) = None" by (metis option.distinct(1))
  have c: "unat (sat_add (shard_task_count s sh) 1) = Suc (unat (shard_task_count s sh))"
    using room sat_succ_not_max [OF room] unat_succ [OF room] by (simp add: sat_succ_def)
  have "only_assignment s ?s"
    unfolding only_assignment_def assign_task_def by (cases s, intro exI) simp
  moreover have "waiting s m = filter (\<lambda>j. j \<in> set (waiting s m)) [i] @ waiting ?s m" for m
    using readsD(1) [OF inv r, of m] by (simp add: waiting_def assign_task_def)
  ultimately show ?thesis
    using free new by (simp add: assigned_by_def assign_task_def c length_sput_new)
qed

text \<open>
  \<open>schedule_tasks_shard\<close> takes the oldest waiting tasks of the network, as many as there are up to the
  capacity, and returns their number.
\<close>

lemma schedule_loop:
  assumes "tasks_inv net R s" and "sh \<in> set (network_shard_list cfg s n)"
    and "unat (shard_task_count s sh) + c < 2 ^ 32" and "unat k + c < 2 ^ 32"
  shows "let ts = map (\<lambda>i. (i, sh)) (take c (waiting s n)); r = schedule_tasks_shard_loop c n sh k s
    in assigned_by s ts (snd r) \<and> unat (fst r) = unat k + length ts \<and> tasks_inv net R (snd r)"
  using assms
proof (induction c arbitrary: k s)
  case (Suc c)
  show ?case
  proof (cases "queue_pop n (ua_tasks s)")
    case (Pair x q)
    show ?thesis
    proof (cases x)
      case None
      have "waiting s n = [] \<and> q = ua_tasks s"
        using queue_impl.pop_eq [OF waitingD(1) [OF Suc.prems(1)] Pair] None by (simp add: waiting_def)
      moreover have "s\<lparr>ua_tasks := ua_tasks s\<rparr> = s" by (cases s) simp
      ultimately show ?thesis using Pair None Suc.prems(1) by simp
    next
      case (Some i)
      let ?s = "assign_task sh i (s\<lparr>ua_tasks := q\<rparr>)"
      note pop = Pair [unfolded Some]
      have room: "shard_task_count s sh \<noteq> - 1" using Suc.prems(3) by (auto simp: unat_max)
      have k: "k \<noteq> - 1" using Suc.prems(4) by (auto simp: unat_max)
      note by1 = assign_popped_by [OF Suc.prems(1) pop room]
      have inv: "tasks_inv net R ?s" by (rule assign_popped_inv [OF Suc.prems(1) pop Suc.prems(2) room])
      have "unat (shard_task_count ?s sh) = unat (shard_task_count s sh) + 1"
        using by1 by (simp add: assigned_by_def)
      moreover have "sh \<in> set (network_shard_list cfg ?s n)"
        using Suc.prems(2) assigned_by_frame(6) [OF by1] by simp
      moreover have w: "waiting s n = i # waiting ?s n"
        using pop_waiting(1) [OF Suc.prems(1) pop] by (simp add: waiting_def assign_task_def)
      ultimately show ?thesis
        using Suc.IH [OF inv, of "sat_succ k"] Suc.prems(3,4) pop assigned_by_trans [OF by1]
        by (simp add: Let_def sat_succ_not_max [OF k] unat_succ [OF k])
    qed
  qed
qed simp

lemma schedule_tasks_shard_by:
  assumes "tasks_inv net R s" and "sh \<in> set (network_shard_list cfg s n)"
    and "unat (shard_task_count s sh) + unat capacity < 2 ^ 32"
  shows "let ts = map (\<lambda>i. (i, sh)) (take (unat capacity) (waiting s n)); r = schedule_tasks_shard n sh capacity s
    in assigned_by s ts (snd r) \<and> unat (fst r) = length ts \<and> tasks_inv net R (snd r)"
proof -
  have "unat (0 :: u32) + unat capacity < 2 ^ 32" using unsigned_less [of capacity] by simp
  from schedule_loop [OF assms this] show ?thesis by (simp add: schedule_tasks_shard_def)
qed

text \<open>
  Which assignments a block may make: a network's read task to a shard of the network, a waiting task
  to a shard of its network that is registered with the gateway and online.
\<close>

definition may_assign :: "config \<Rightarrow> shards_store \<Rightarrow> tasks_store \<Rightarrow> task_id \<times> shard_id \<Rightarrow> bool" where
  "may_assign cfg shs s e \<longleftrightarrow>
     (\<exists>n. snd e \<in> set (network_shard_list cfg s n) \<and>
        ((n, fst e) \<in> set (read_events_task s) \<or>
         fst e \<in> set (waiting s n) \<and> is_shard_registered shs s (snd e) = Some True \<and>
         is_shard_online shs (snd e)))"

text \<open>No shard is given more tasks than the limit of its network.\<close>

definition within_limits :: "config \<Rightarrow> networks_store \<Rightarrow> tasks_store \<Rightarrow> tasks_store \<Rightarrow> bool" where
  "within_limits cfg nets s s' \<longleftrightarrow>
     (\<forall>n sh. sh \<in> set (network_shard_list cfg s n) \<longrightarrow>
        unat (shard_task_count s' sh) \<le> max (unat (shard_task_count s sh)) (unat (shard_task_limit nets n)))"

definition scheduled ::
  "config \<Rightarrow> networks_store \<Rightarrow> shards_store \<Rightarrow> tasks_store \<Rightarrow> (task_id \<times> shard_id) list \<Rightarrow> tasks_store \<Rightarrow> bool" where
  "scheduled cfg nets shs s ts s' \<longleftrightarrow>
     assigned_by s ts s' \<and> (\<forall>e\<in>set ts. may_assign cfg shs s e) \<and> within_limits cfg nets s s'"

lemma scheduled_refl [simp]: "scheduled cfg nets shs s [] s"
  by (simp add: scheduled_def within_limits_def)

lemma scheduled_trans:
  assumes ts: "scheduled cfg nets shs s ts s'" and us: "scheduled cfg nets shs s' us s''"
  shows "scheduled cfg nets shs s (ts @ us) s''"
proof -
  have by1: "assigned_by s ts s'" using ts by (simp add: scheduled_def)
  note fr = assigned_by_frame [OF by1]
  have w: "set (waiting s' n) \<subseteq> set (waiting s n)" for n
  proof -
    have "waiting s n = filter (\<lambda>i. i \<in> set (waiting s n)) (map fst ts) @ waiting s' n"
      using by1 unfolding assigned_by_def by blast
    then show ?thesis by (metis Un_upper2 set_append)
  qed
  have reg: "is_shard_registered shs s' sh = is_shard_registered shs s sh" for sh
    by (rule assigned_by_registered [OF by1])
  have "may_assign cfg shs s e" if "may_assign cfg shs s' e" for e
    using that w unfolding may_assign_def reg fr(1) fr(6) [of cfg] by blast
  moreover have "within_limits cfg nets s s''"
    using ts us unfolding scheduled_def within_limits_def fr(6) [of cfg] by (meson le_max_iff_disj order_trans)
  ultimately show ?thesis
    using ts us assigned_by_trans [of s ts s' us s''] by (auto simp: scheduled_def)
qed

text \<open>A shard serves one network, so that an assignment within the limit of one network is within all.\<close>

lemma within_limits_single:
  assumes inv: "tasks_inv net R s" and sh: "sh \<in> set (network_shard_list cfg s n)"
    and same: "\<And>x. x \<noteq> sh \<Longrightarrow> shard_task_count s' x = shard_task_count s x"
    and le: "unat (shard_task_count s' sh) \<le> max (unat (shard_task_count s sh)) (unat (shard_task_limit nets n))"
  shows "within_limits cfg nets s s'"
  unfolding within_limits_def
proof (intro allI impI)
  fix m x
  assume x: "x \<in> set (network_shard_list cfg s m)"
  have "m = n" if "x = sh"
  proof -
    have "net sh = Some n" "net sh = Some m" using inv sh x that by (auto dest: netD)
    then show ?thesis by simp
  qed
  with same [of x] le show "unat (shard_task_count s' x) \<le>
      max (unat (shard_task_count s x)) (unat (shard_task_limit nets m))"
    by (cases "x = sh") auto
qed

lemma assign_read_task_scheduled:
  assumes inv: "tasks_inv net R s" and e: "(n, i) \<in> set (read_events_task s)" and free: "task_shard s i = None"
    and shards: "set shards \<subseteq> set (network_shard_list cfg s n)"
    and k: "k \<le> max_tasks_per_block cfg"
    and r: "assign_read_task cfg (shard_task_limit nets n) i shards k s = (stop, k', s')"
  shows "\<exists>ts. scheduled cfg nets shs s ts s' \<and> unat k + length ts \<le> unat (max_tasks_per_block cfg) \<and>
    (\<not> stop \<longrightarrow> unat k' = unat k + length ts) \<and> tasks_inv net R s'"
  using shards r
proof (induction shards)
  case Nil
  then show ?case using inv k by (intro exI [of _ "[]"]) (auto simp: word_le_nat_alt)
next
  case (Cons sh shards)
  show ?case
  proof (cases "shard_task_count s sh < shard_task_limit nets n")
    case False
    with Cons show ?thesis by simp
  next
    case True
    show ?thesis
    proof (cases "k = max_tasks_per_block cfg")
      case full: True
      with Cons.prems True inv show ?thesis by (intro exI [of _ "[]"]) auto
    next
      case False
      from True have room: "shard_task_count s sh \<noteq> - 1" by (rule less_not_max)
      from False k have less: "k < max_tasks_per_block cfg" by simp
      have s': "stop = False" "k' = sat_succ k" "s' = assign_task sh i s"
        using Cons.prems(2) True False by auto
      have sh: "sh \<in> set (network_shard_list cfg s n)" using Cons.prems(1) by simp
      note by1 = assign_read_by [OF inv e free room]
      have "unat (shard_task_count s' sh) = unat (shard_task_count s sh) + 1"
        using by1 by (simp add: assigned_by_def s')
      then have "within_limits cfg nets s s'"
        using True by (intro within_limits_single [OF inv sh]) (auto simp: s' assign_task_def word_less_nat_alt)
      moreover have "may_assign cfg shs s (i, sh)" using e sh by (auto simp: may_assign_def)
      ultimately have "scheduled cfg nets shs s [(i, sh)] s'" using by1 by (simp add: scheduled_def s')
      moreover have "unat k' = unat k + 1" unfolding s' by (rule unat_sat_succ_less [OF less])
      moreover have "tasks_inv net R s'" unfolding s' by (rule assign_read_inv [OF inv e free sh room])
      ultimately show ?thesis
        using less by (intro exI [of _ "[(i, sh)]"]) (auto simp: word_less_nat_alt)
    qed
  qed
qed

lemma schedule_shards_scheduled:
  assumes "tasks_inv net R s"
    and "\<And>sh. sh \<in> set shards \<Longrightarrow> sh \<in> set (network_shard_list cfg s n) \<and>
      is_shard_registered shs s sh = Some True \<and> is_shard_online shs sh"
    and tps: "tps \<le> shard_task_limit nets n" and "k \<le> max_tasks_per_block cfg"
    and "schedule_shards cfg n tps shards k s = (stop, k', s')"
  shows "\<exists>ts. scheduled cfg nets shs s ts s' \<and> unat k + length ts \<le> unat (max_tasks_per_block cfg) \<and>
    (\<not> stop \<longrightarrow> unat k' = unat k + length ts) \<and> tasks_inv net R s'"
  using assms(1,2,4,5)
proof (induction shards arbitrary: k s)
  case Nil
  then show ?case by (intro exI [of _ "[]"]) (auto simp: word_le_nat_alt)
next
  case (Cons sh shards)
  let ?max = "max_tasks_per_block cfg" and ?cap = "sat_sub tps (shard_task_count s sh)"
  have sh: "sh \<in> set (network_shard_list cfg s n)" "is_shard_registered shs s sh = Some True"
    "is_shard_online shs sh" using Cons.prems(2) [of sh] by auto
  have cap: "unat ?cap = unat tps - unat (shard_task_count s sh)" by (rule unat_sat_sub)
  have one: "scheduled cfg nets shs s (map (\<lambda>i. (i, sh)) (take (unat c) (waiting s n))) (snd (schedule_tasks_shard n sh c s)) \<and>
      unat (fst (schedule_tasks_shard n sh c s)) = length (take (unat c) (waiting s n)) \<and>
      tasks_inv net R (snd (schedule_tasks_shard n sh c s))" if c: "unat c \<le> unat ?cap" for c
  proof -
    let ?ts = "map (\<lambda>i. (i, sh)) (take (unat c) (waiting s n))"
    have "unat (shard_task_count s sh) + unat c < 2 ^ 32"
      using c cap unat_u32_less [of tps] unat_u32_less [of "shard_task_count s sh"] by simp
    note b = schedule_tasks_shard_by [OF Cons.prems(1) sh(1) this, unfolded Let_def]
    let ?s = "snd (schedule_tasks_shard n sh c s)"
    have cnt: "unat (shard_task_count ?s x) = unat (shard_task_count s x) +
        (if x = sh then length (take (unat c) (waiting s n)) else 0)" for x
      using b by (simp add: assigned_by_def filter_map o_def)
    have "within_limits cfg nets s ?s"
    proof (rule within_limits_single [OF Cons.prems(1) sh(1)])
      show "shard_task_count ?s x = shard_task_count s x" if "x \<noteq> sh" for x
        using cnt [of x] that by (simp add: word_unat_eq_iff)
      show "unat (shard_task_count ?s sh) \<le> max (unat (shard_task_count s sh)) (unat (shard_task_limit nets n))"
        using cnt [of sh] c cap tps by (auto simp: word_le_nat_alt)
    qed
    moreover have "may_assign cfg shs s e" if "e \<in> set ?ts" for e
      unfolding may_assign_def using that sh set_take_subset [of "unat c" "waiting s n"]
      by (intro exI [of _ n]) auto
    ultimately show ?thesis using b by (simp add: scheduled_def)
  qed
  show ?case
  proof (cases "?max > sat_add k ?cap")
    case True
    obtain a s1 where as: "schedule_tasks_shard n sh ?cap s = (a, s1)" by fastforce
    let ?ts = "map (\<lambda>i. (i, sh)) (take (unat ?cap) (waiting s n))"
    have o: "scheduled cfg nets shs s ?ts s1" "unat a = length ?ts" "tasks_inv net R s1"
      using one [of ?cap] as by auto
    have fits: "unat k + unat ?cap < unat ?max"
      using True unat_u32_less [of ?max] by (auto simp: word_less_nat_alt unat_sat_add)
    have ka: "unat (sat_add k a) = unat k + length ?ts" "length ?ts \<le> unat ?cap"
      using fits o(2) unat_u32_less [of ?max] by (auto simp: unat_sat_add)
    have by1: "assigned_by s ?ts s1" using o(1) by (simp add: scheduled_def)
    have "schedule_shards cfg n tps shards (sat_add k a) s1 = (stop, k', s')"
      using Cons.prems(4) True as by (simp add: Let_def)
    moreover have "x \<in> set (network_shard_list cfg s1 n) \<and> is_shard_registered shs s1 x = Some True \<and>
        is_shard_online shs x" if "x \<in> set shards" for x
      using Cons.prems(2) [of x] that assigned_by_frame(6) [OF by1] assigned_by_registered [OF by1] by simp
    moreover have "sat_add k a \<le> ?max" using ka fits by (simp add: word_le_nat_alt)
    ultimately obtain us where us: "scheduled cfg nets shs s1 us s'"
      "unat (sat_add k a) + length us \<le> unat ?max"
      "\<not> stop \<longrightarrow> unat k' = unat (sat_add k a) + length us" "tasks_inv net R s'"
      using Cons.IH [OF o(3)] by blast
    then show ?thesis
      using scheduled_trans [OF o(1) us(1)] ka by (intro exI [of _ "?ts @ us"]) auto
  next
    case False
    let ?c = "sat_sub ?max k"
    have "unat ?c \<le> unat ?cap"
      using False Cons.prems(3) by (auto simp: not_less word_le_nat_alt unat_sat_add unat_sat_sub)
    note o = one [OF this]
    have s': "stop = True" "s' = snd (schedule_tasks_shard n sh ?c s)"
      using Cons.prems(4) False by (auto simp: Let_def)
    have "unat ?c = unat ?max - unat k" by (rule unat_sat_sub)
    with o s' Cons.prems(3) show ?thesis
      by (intro exI [of _ "map (\<lambda>i. (i, sh)) (take (unat ?c) (waiting s n))"]) (auto simp: word_le_nat_alt)
  qed
qed

lemma registered_shards_iff:
  "registered_shards shs s shards = Some rs \<Longrightarrow>
    sh \<in> set rs \<longleftrightarrow> sh \<in> set shards \<and> is_shard_registered shs s sh = Some True \<and> is_shard_online shs sh"
  by (induction shards arbitrary: rs) (auto split: option.splits if_splits)

text \<open>The body of the loop, once the read task is handled.\<close>

lemma schedule_network_eq:
  assumes "(if task_shard s i = None
      then assign_read_task cfg (shard_task_limit nets n) i (network_shard_list cfg s n) k s
      else (False, k, s)) = (stop1, k1, s1)"
  shows "schedule_network cfg nets shs (n, i) k s =
    (if stop1 then Some (True, k1, s1)
     else (case registered_shards shs s1 (network_shard_list cfg s1 n) of
             None \<Rightarrow> None
           | Some [] \<Rightarrow> Some (False, k1, s1)
           | Some shards \<Rightarrow> Some (schedule_shards cfg n
               (tasks_per_shard_of (task_count s1 n) (executed_task_count s1 n) (length shards)
                 (shard_task_limit nets n)) shards k1 s1)))"
  unfolding schedule_network_def Let_def prod.case assms ..

lemma schedule_network_scheduled:
  assumes inv: "tasks_inv net R s" and e: "e \<in> set (read_events_task s)"
    and k: "k \<le> max_tasks_per_block cfg"
    and r: "schedule_network cfg nets shs e k s = Some (stop, k', s')"
  shows "\<exists>ts. scheduled cfg nets shs s ts s' \<and> unat k + length ts \<le> unat (max_tasks_per_block cfg) \<and>
    (\<not> stop \<longrightarrow> unat k' = unat k + length ts) \<and> tasks_inv net R s'"
proof -
  obtain n i where ni: "e = (n, i)" by fastforce
  obtain stop1 k1 s1 where a: "(if task_shard s i = None
      then assign_read_task cfg (shard_task_limit nets n) i (network_shard_list cfg s n) k s
      else (False, k, s)) = (stop1, k1, s1)"
    by (metis prod_cases3)
  note eq = schedule_network_eq [OF a, of shs, folded ni]
  have "\<exists>ts. scheduled cfg nets shs s ts s1 \<and> unat k + length ts \<le> unat (max_tasks_per_block cfg) \<and>
      (\<not> stop1 \<longrightarrow> unat k1 = unat k + length ts) \<and> tasks_inv net R s1"
  proof (cases "task_shard s i = None")
    case True
    with a have "assign_read_task cfg (shard_task_limit nets n) i (network_shard_list cfg s n) k s = (stop1, k1, s1)"
      by simp
    then show ?thesis by (rule assign_read_task_scheduled [OF inv e [unfolded ni] True subset_refl k])
  next
    case False
    with a inv k show ?thesis by (intro exI [of _ "[]"]) (simp add: word_le_nat_alt)
  qed
  then obtain ts where ts: "scheduled cfg nets shs s ts s1" "unat k + length ts \<le> unat (max_tasks_per_block cfg)"
    "\<not> stop1 \<longrightarrow> unat k1 = unat k + length ts" "tasks_inv net R s1" by blast
  show ?thesis
  proof (cases stop1)
    case True
    with r eq have "stop" "s' = s1" by auto
    with ts show ?thesis by blast
  next
    case False
    with r eq obtain shards where sh: "registered_shards shs s1 (network_shard_list cfg s1 n) = Some shards"
      by (auto split: option.splits)
    define tps where "tps = tasks_per_shard_of (task_count s1 n) (executed_task_count s1 n) (length shards)
      (shard_task_limit nets n)"
    have tps: "tps \<le> shard_task_limit nets n" by (simp add: tps_def tasks_per_shard_of_def)
    have k1: "k1 \<le> max_tasks_per_block cfg" using False ts by (simp add: word_le_nat_alt)
    have run: "schedule_shards cfg n tps shards k1 s1 = (stop, k', s')"
      using r eq False sh by (cases shards) (simp_all add: tps_def)
    have "\<exists>us. scheduled cfg nets shs s1 us s' \<and> unat k1 + length us \<le> unat (max_tasks_per_block cfg) \<and>
        (\<not> stop \<longrightarrow> unat k' = unat k1 + length us) \<and> tasks_inv net R s'"
      by (rule schedule_shards_scheduled [OF ts(4) _ tps k1 run]) (simp add: registered_shards_iff [OF sh])
    then obtain us where us: "scheduled cfg nets shs s1 us s'"
      "unat k1 + length us \<le> unat (max_tasks_per_block cfg)"
      "\<not> stop \<longrightarrow> unat k' = unat k1 + length us" "tasks_inv net R s'" by blast
    with ts False scheduled_trans [OF ts(1) us(1)] show ?thesis by (intro exI [of _ "ts @ us"]) simp
  qed
qed

lemma schedule_networks_scheduled:
  assumes "tasks_inv net R s" and "set es \<subseteq> set (read_events_task s)" and "k \<le> max_tasks_per_block cfg"
    and "schedule_networks cfg nets shs es k s = Some (k', s')"
  shows "\<exists>ts. scheduled cfg nets shs s ts s' \<and> unat k + length ts \<le> unat (max_tasks_per_block cfg) \<and>
    tasks_inv net R s'"
  using assms
proof (induction es arbitrary: k s)
  case Nil
  then show ?case by (intro exI [of _ "[]"]) (auto simp: word_le_nat_alt)
next
  case (Cons e es)
  from Cons.prems(4) obtain stop k1 s1 where n: "schedule_network cfg nets shs e k s = Some (stop, k1, s1)"
    by (auto split: option.splits)
  from schedule_network_scheduled [OF Cons.prems(1) _ Cons.prems(3) n] Cons.prems(2)
  obtain ts where ts: "scheduled cfg nets shs s ts s1" "unat k + length ts \<le> unat (max_tasks_per_block cfg)"
    "\<not> stop \<longrightarrow> unat k1 = unat k + length ts" "tasks_inv net R s1" by auto
  show ?case
  proof (cases stop)
    case True
    with Cons.prems(4) n ts show ?thesis by auto
  next
    case False
    have fr: "read_events_task s1 = read_events_task s"
      using ts(1) by (auto simp: scheduled_def dest: assigned_by_frame)
    have "k1 \<le> max_tasks_per_block cfg" using False ts by (simp add: word_le_nat_alt)
    from Cons.IH [OF ts(4) _ this] Cons.prems(2,4) False n fr
    obtain us where us: "scheduled cfg nets shs s1 us s'" "unat k1 + length us \<le> unat (max_tasks_per_block cfg)"
      "tasks_inv net R s'" by auto
    with ts False scheduled_trans [OF ts(1) us(1)] show ?thesis by (intro exI [of _ "ts @ us"]) auto
  qed
qed

lemma schedule_tasks_scheduled:
  assumes "tasks_inv net R s" and "schedule_tasks cfg nets shs s = Some (k, s')"
  shows "\<exists>ts. scheduled cfg nets shs s ts s' \<and> length ts \<le> unat (max_tasks_per_block cfg) \<and> tasks_inv net R s'"
  using schedule_networks_scheduled [OF assms(1) _ _ assms(2) [unfolded schedule_tasks_def]] by simp

text \<open>Scheduling panics only on a shard with an empty commitment.\<close>

lemma is_shard_registered_total: "commitments_ok shs \<Longrightarrow> \<exists>r. is_shard_registered shs s sh = Some r"
  using tss_public_key_total [of shs sh]
  by (auto simp: is_shard_registered_def split: option.split)

lemma registered_shards_total: "commitments_ok shs \<Longrightarrow> \<exists>rs. registered_shards shs s shards = Some rs"
proof (induction shards)
  case (Cons sh shards)
  then obtain rs r where "registered_shards shs s shards = Some rs" "is_shard_registered shs s sh = Some r"
    using is_shard_registered_total by blast
  then show ?case by simp
qed simp

lemma schedule_network_total:
  assumes "commitments_ok shs"
  shows "\<exists>r. schedule_network cfg nets shs e k s = Some r"
proof -
  obtain n i where ni: "e = (n, i)" by fastforce
  obtain stop1 k1 s1 where a: "(if task_shard s i = None
      then assign_read_task cfg (shard_task_limit nets n) i (network_shard_list cfg s n) k s
      else (False, k, s)) = (stop1, k1, s1)"
    by (metis prod_cases3)
  from registered_shards_total [OF assms]
  obtain rs where rs: "registered_shards shs s1 (network_shard_list cfg s1 n) = Some rs" by blast
  show ?thesis
    unfolding ni schedule_network_eq [OF a] rs
    by (cases stop1; cases rs; simp only: if_True if_False option.case list.case option.inject; blast)
qed

lemma schedule_tasks_total:
  assumes "commitments_ok shs"
  shows "\<exists>r. schedule_tasks cfg nets shs s = Some r"
proof -
  have "\<exists>r. schedule_networks cfg nets shs es k s = Some r" for es k s
  proof (induction es arbitrary: k s)
    case (Cons e es)
    from schedule_network_total [OF assms] obtain stop k1 s1 where
      "schedule_network cfg nets shs e k s = Some (stop, k1, s1)" by (metis prod_cases3)
    with Cons.IH [of k1 s1] show ?case by simp
  qed simp
  then show ?thesis by (simp add: schedule_tasks_def)
qed

section \<open>Scheduling and batching keep the invariant\<close>

lemma assign_task_unsaturated [simp]: "unsaturated (assign_task sh i s) = unsaturated s"
  by (simp add: unsaturated_def assign_task_def)

lemma pop_unsaturated: "queue_pop n (ua_tasks s) = (x, q) \<Longrightarrow> unsaturated (s\<lparr>ua_tasks := q\<rparr>) = unsaturated s"
  using queue_impl.pop_room [of n "ua_tasks s"] by (simp add: unsaturated_def)

lemma schedule_loop_unsaturated:
  "unsaturated (snd (schedule_tasks_shard_loop c n sh k s)) = unsaturated s"
proof (induction c arbitrary: k s)
  case (Suc c)
  show ?case
    by (cases "queue_pop n (ua_tasks s)") (auto simp: Suc.IH pop_unsaturated split: option.split)
qed simp

lemma assign_read_task_unsaturated:
  "unsaturated (snd (snd (assign_read_task cfg limit i shards k s))) = unsaturated s"
  by (induction shards) auto

lemma schedule_shards_unsaturated:
  "unsaturated (snd (snd (schedule_shards cfg n tps shards k s))) = unsaturated s"
proof (induction shards arbitrary: k s)
  case (Cons sh shards)
  show ?case
    by (simp add: Let_def split_beta Cons.IH schedule_tasks_shard_def schedule_loop_unsaturated)
qed simp

lemma schedule_network_unsaturated:
  assumes "schedule_network cfg nets shs e k s = Some (stop, k', s')"
  shows "unsaturated s' = unsaturated s"
proof -
  obtain n i where ni: "e = (n, i)" by fastforce
  obtain stop1 k1 s1 where a: "(if task_shard s i = None
      then assign_read_task cfg (shard_task_limit nets n) i (network_shard_list cfg s n) k s
      else (False, k, s)) = (stop1, k1, s1)"
    by (metis prod_cases3)
  have s1: "unsaturated s1 = unsaturated s"
    using a assign_read_task_unsaturated [of cfg "shard_task_limit nets n" i _ k s]
    by (metis (no_types, lifting) snd_conv)
  show ?thesis
  proof (cases stop1)
    case True
    with assms [unfolded ni schedule_network_eq [OF a]] s1 show ?thesis by simp
  next
    case False
    with assms [unfolded ni schedule_network_eq [OF a]]
    obtain rs where "registered_shards shs s1 (network_shard_list cfg s1 n) = Some rs"
      by (auto split: option.splits)
    with False assms [unfolded ni schedule_network_eq [OF a]] s1
      schedule_shards_unsaturated [of cfg n _ rs k1 s1] show ?thesis
      by (cases rs) (simp_all del: schedule_shards.simps, metis snd_conv)
  qed
qed

lemma schedule_networks_unsaturated:
  "schedule_networks cfg nets shs es k s = Some (k', s') \<Longrightarrow> unsaturated s' = unsaturated s"
proof (induction es arbitrary: k s)
  case (Cons e es)
  then show ?case
    using schedule_network_unsaturated [of cfg nets shs e k s]
    by (auto split: option.splits if_splits)
qed simp

lemma schedule_tasks_keeps: "schedule_tasks cfg nets shs s = Some (k, s') \<Longrightarrow> keeps net s s'"
  using schedule_tasks_scheduled [of net _ s cfg nets shs k s'] schedule_networks_unsaturated
  unfolding keeps_def schedule_tasks_def by blast

lemma index_op_keeps: "keeps net s (index_op cfg b op s)"
  by (cases op) (auto intro: keeps_update)

lemma start_batch_keeps: "keeps net s (start_batch cfg n msg s)"
proof -
  let ?b = "batch_id_counter s"
  let ?s2 = "fold (index_op cfg ?b) (msg_ops msg) (s\<lparr>batch_id_counter := sat_add ?b 1\<rparr>)"
  have "keeps net s (s\<lparr>batch_id_counter := sat_add ?b 1\<rparr>)" by simp
  also have "keeps net \<dots> ?s2" by (rule keeps_fold) (rule index_op_keeps)
  also have "keeps net \<dots> (?s2\<lparr>batch_message := (batch_message ?s2)(?b \<mapsto> msg)\<rparr>)" by simp
  also have "keeps net \<dots> (snd (create_task n (SubmitGatewayMessage ?b) \<dots>))" by simp
  finally show ?thesis by (auto simp: start_batch_def Let_def split_beta intro: keeps_update)
qed

lemma start_some_keeps: "keeps net (snd ks) (snd (start_some cfg n m ks))"
  by (simp add: start_some_def start_batch_keeps split: option.split)

lemma batch_loop_keeps: "keeps net s (snd (snd (batch_loop cfg n b k s)))"
proof (induction cfg n b k s rule: batch_loop.induct)
  case (1 cfg n b k s)
  obtain x q where pop: "queue_pop n (ops_queued s) = (x, q)" by fastforce
  show ?case
  proof (cases x)
    case None
    with pop show ?thesis by (simp add: batch_loop.simps [of cfg n b k s])
  next
    case (Some op)
    let ?p = "batch_push op b" and ?s = "s\<lparr>ops_queued := q\<rparr>"
    let ?ks = "start_some cfg n (fst ?p) (k, ?s)"
    have "keeps net s ?s" by simp
    also have "keeps net ?s (snd ?ks)" using start_some_keeps [of net "(k, ?s)"] by simp
    finally have ks: "keeps net s (snd ?ks)" .
    moreover have "keeps net (snd ?ks) (snd (snd (batch_loop cfg n (snd ?p) (fst ?ks) (snd ?ks))))"
      if "fst ?ks \<noteq> sat_pred (max_batches_per_block cfg)"
      using "1.IH" [OF pop [symmetric] Some refl refl that] .
    ultimately show ?thesis
      using pop Some keeps_trans by (auto simp: batch_loop.simps [of cfg n b k s] Let_def)
  qed
qed

lemma prepare_network_keeps: "keeps net (snd ks) (snd (prepare_network cfg nets n ks))"
proof -
  let ?r = "batch_loop cfg n (batch_builder_new (network_gas_limit nets n)) (fst ks) (snd ks)"
  have "keeps net (snd ks) (snd (snd ?r))" by (rule batch_loop_keeps)
  also have "keeps net (snd (snd ?r)) (snd (start_some cfg n (fst (take_batch (fst ?r))) (snd ?r)))"
    by (rule start_some_keeps)
  finally show ?thesis by (simp add: prepare_network_def split_beta Let_def)
qed

lemma prepare_batches_keeps: "keeps net s (snd (prepare_batches cfg nets s))"
proof -
  have "keeps net (snd ks) (snd (fold (\<lambda>e. prepare_network cfg nets (fst e)) es ks))"
    for ks and es :: "(network_id \<times> task_id) list"
  proof (induction es arbitrary: ks)
    case (Cons e es)
    show ?case using keeps_trans [OF prepare_network_keeps Cons.IH] by simp
  qed simp
  from this [of "(0, s)"] show ?thesis by (simp add: prepare_batches_def)
qed

lemma tasks_on_initialize_keeps:
  assumes "tasks_on_initialize cfg nets shs s = Some s'"
  shows "keeps net s s'"
proof -
  obtain k where "schedule_tasks cfg nets shs (snd (prepare_batches cfg nets s)) = Some (k, s')"
    using assms by (auto simp: tasks_on_initialize_def)
  from keeps_trans [OF prepare_batches_keeps schedule_tasks_keeps [OF this]] show ?thesis .
qed

end
