(* ===== verification/Tasks_Correct.thy ===== *)
theory Tasks_Correct
  imports Tasks_Schedule
begin

text \<open>
  The tasks pallet as a state machine, and its correctness: every state it reaches satisfies the
  assignment invariant, and what the single calls achieve.
\<close>

section \<open>Shards going on- and offline\<close>

lemma shard_online_keeps:
  assumes "shard_online nets shs sh n s = Some s'" and net: "net sh = Some n"
  shows "keeps net s s'"
proof -
  let ?s1 = "s\<lparr>network_shards := sput (n, sh) () (network_shards s)\<rparr>"
  have w: "waiting ?s1 m = waiting s m" for m by (simp add: waiting_def)
  have "shards_ok net ?s1" if "shards_ok net s"
    unfolding shards_ok_def
  proof (intro conjI allI impI)
    show "\<exists>m. sget (network_shards ?s1) (m, x) \<noteq> None" if "task_shard ?s1 i = Some x" for i x
      using that \<open>shards_ok net s\<close> by (fastforce simp: shards_ok_def)
  qed (use that net in \<open>auto simp: shards_ok_def split: if_splits\<close>)
  moreover have "networks_ok ?s1" if "shards_ok net s" "networks_ok s"
  proof -
    have "task_network s i = Some n" if t: "task_shard s i = Some sh" "tasks s i \<noteq> None" for i
    proof -
      obtain m where m: "sget (network_shards s) (m, sh) \<noteq> None"
        using \<open>shards_ok net s\<close> t(1) unfolding shards_ok_def by blast
      then have "net sh = Some m" using \<open>shards_ok net s\<close> unfolding shards_ok_def by blast
      then have "m = n" using net by simp
      with m t \<open>networks_ok s\<close> show ?thesis unfolding networks_ok_def by blast
    qed
    with that(2) show ?thesis unfolding networks_ok_def w by auto
  qed
  ultimately have 1: "keeps net s ?s1"
    by (simp add: keeps_def unsaturated_def tasks_inv_def assigned_ok_def waiting_ok_def reads_ok_def ids_ok_def
        id_used_def none_lost_def w)
  show ?thesis
    using assms(1) 1
    by (auto simp: shard_online_def Let_def split: if_splits option.splits intro: keeps_update)
qed

lemma unassign_tasks:
  "fold (unassign_task n read) is s = s\<lparr>
     task_shard := task_shard s |` (- set is),
     ua_tasks := fold (queue_push n) (filter (\<lambda>i. Some i \<noteq> read) is) (ua_tasks s)\<rparr>"
proof (induction "is" arbitrary: s)
  case (Cons i "is")
  have "(task_shard s)(i := None) |` (- set is) = task_shard s |` (- insert i (set is))"
    by (auto simp: restrict_map_def)
  moreover have "unassign_task n read i s = (if Some i \<noteq> read
      then s\<lparr>task_shard := (task_shard s)(i := None), ua_tasks := queue_push n i (ua_tasks s)\<rparr>
      else s\<lparr>task_shard := (task_shard s)(i := None)\<rparr>)"
    by (simp add: unassign_task_def Let_def)
  ultimately show ?case by (simp add: Cons.IH)
qed (simp add: restrict_map_def)

text \<open>The tasks of a shard, as \<open>drain_prefix\<close> visits them.\<close>

lemma get_shard_tasks_iff:
  assumes "assigned_ok s"
  shows "i \<in> set (get_shard_tasks cfg s sh) \<longleftrightarrow> task_shard s i = Some sh"
    and "distinct (get_shard_tasks cfg s sh)"
    and "length (get_shard_tasks cfg s sh) = unat (shard_task_count s sh)"
proof -
  have "i \<in> set (get_shard_tasks cfg s sh) \<longleftrightarrow> sget (shard_tasks s) (sh, i) \<noteq> None"
    using assms sprefix_iff [of "shard_tasks s" i _ "id_order cfg" sh]
    by (force simp: get_shard_tasks_def image_iff assigned_ok_def)
  also have "\<dots> \<longleftrightarrow> task_shard s i = Some sh"
    using assms unfolding assigned_ok_def by blast
  finally show "i \<in> set (get_shard_tasks cfg s sh) \<longleftrightarrow> task_shard s i = Some sh" .
  show "distinct (get_shard_tasks cfg s sh)"
    using assms distinct_sprefix by (auto simp: get_shard_tasks_def assigned_ok_def)
  show "length (get_shard_tasks cfg s sh) = unat (shard_task_count s sh)"
    using assms by (simp add: get_shard_tasks_def assigned_ok_def)
qed

text \<open>The storage after a shard went offline, up to the queued gateway operation.\<close>

definition without_shard :: "config \<Rightarrow> shard_id \<Rightarrow> network_id \<Rightarrow> tasks_store \<Rightarrow> tasks_store" where
  "without_shard cfg sh n s =
     (let drained = get_shard_tasks cfg s sh
      in s\<lparr>network_shards := sdel (n, sh) (network_shards s),
           shard_tasks := sclear_prefix sh (shard_tasks s),
           task_shard := task_shard s |` (- set drained),
           ua_tasks := fold (queue_push n) (filter (\<lambda>i. Some i \<noteq> sget (read_events_task s) n) drained) (ua_tasks s),
           shard_task_count := (shard_task_count s)(sh := 0)\<rparr>)"

lemma shard_offline_eq:
  "shard_offline cfg shs sh n s =
     (case tss_public_key shs sh of
        None \<Rightarrow> None
      | Some None \<Rightarrow> Some (without_shard cfg sh n s)
      | Some (Some k) \<Rightarrow> Some ((without_shard cfg sh n s)\<lparr>
          ops_queued := queue_push n (UnregisterShard k) (ops_queued s)\<rparr>))"
  by (simp add: shard_offline_def without_shard_def get_shard_tasks_def unassign_tasks Let_def
      split: option.split)

lemma without_shard_inv:
  assumes inv: "tasks_inv net R s" and net: "net sh = Some n" and uns: "unsaturated (without_shard cfg sh n s)"
  shows "tasks_inv net R (without_shard cfg sh n s)"
proof -
  let ?s = "without_shard cfg sh n s" and ?d = "get_shard_tasks cfg s sh"
  let ?p = "filter (\<lambda>i. Some i \<noteq> sget (read_events_task s) n) ?d"
  have a: "assigned_ok s" and sok: "shards_ok net s" using inv by (simp_all add: tasks_inv_def)
  note d = get_shard_tasks_iff [OF a, where cfg = cfg]
  have room: "queue_room (fold (queue_push n) ?p (ua_tasks s)) n"
    using uns by (simp add: unsaturated_def without_shard_def Let_def)
  note q = pushes_contents [OF waitingD(1) [OF inv] room]
  have w: "waiting ?s m = waiting s m @ (if m = n then ?p else [])" for m
    using q(1) by (simp add: waiting_def without_shard_def Let_def)
  have ts: "task_shard ?s i = (if task_shard s i = Some sh then None else task_shard s i)" for i
    by (simp add: without_shard_def Let_def d(1) restrict_map_def)
  have new: "i \<notin> set (waiting s m)" if "task_shard s i = Some sh" for i m
    using waitingD(4) [OF inv, of i m] that by auto
  have serves: "m = n" if "sget (network_shards s) (m, sh) \<noteq> None" for m
    using sok that net unfolding shards_ok_def by fastforce
  show ?thesis
    unfolding tasks_inv_def
  proof (intro conjI)
    have iff: "sget (shard_tasks s) (x, i) \<noteq> None \<longleftrightarrow> task_shard s i = Some x" for x i
      using a unfolding assigned_ok_def by blast
    show "assigned_ok ?s"
      unfolding assigned_ok_def ts
    proof (intro conjI allI)
      show "sget (shard_tasks ?s) (x, i) \<noteq> None \<longleftrightarrow>
          (if task_shard s i = Some sh then None else task_shard s i) = Some x" for x i
        using iff [of x i] by (simp add: without_shard_def Let_def)
    qed (use a in \<open>simp_all add: assigned_ok_def without_shard_def Let_def\<close>)
    show "waiting_ok ?s"
      unfolding waiting_ok_def w ts
    proof (intro conjI allI impI ballI)
      show "queue_inv (ua_tasks ?s) m" for m using q(2) by (simp add: without_shard_def Let_def)
      show "distinct (waiting s m @ (if m = n then ?p else []))" for m
        using waitingD(2) [OF inv, of m] d(2) [of sh] new d(1) by auto
      show "m = k" if "i \<in> set (waiting s m @ (if m = n then ?p else []))"
        "i \<in> set (waiting s k @ (if k = n then ?p else []))" for m k i
        using that waitingD(3) [OF inv, of i m k] new [of i] d(1) by (auto split: if_splits)
      show "(if task_shard s i = Some sh then None else task_shard s i) = None"
        if "i \<in> set (waiting s m @ (if m = n then ?p else []))" for i m
        using that waitingD(4) [OF inv, of i m] d(1) by (auto split: if_splits)
    qed
    have read: "m = n" if "sget (read_events_task s) m = Some i" "task_shard s i = Some sh" for m i
      using sok that net unfolding shards_ok_def by fastforce
    have re: "read_events_task ?s = read_events_task s" "tasks ?s = tasks s" "task_output ?s = task_output s"
      "task_id_counter ?s = task_id_counter s" "task_network ?s = task_network s"
      by (simp_all add: without_shard_def Let_def)
    show "reads_ok ?s"
      unfolding reads_ok_def w re
    proof (intro conjI allI impI)
      show "i \<notin> set (waiting s k @ (if k = n then ?p else []))" if "sget (read_events_task s) m = Some i" for m k i
        using that readsD(1) [OF inv that] read [OF that] d(1) by (auto split: if_splits)
    qed (use inv in \<open>auto simp: tasks_inv_def reads_ok_def\<close>)
    show "ids_ok ?s"
      unfolding ids_ok_def id_used_def w ts re
      using idsD [OF inv] d(1) by (auto split: if_splits)
    show "shards_ok net ?s"
      unfolding shards_ok_def ts re
    proof (intro conjI allI impI)
      show "\<exists>m. sget (network_shards ?s) (m, x) \<noteq> None"
        if "(if task_shard s i = Some sh then None else task_shard s i) = Some x" for i x
      proof -
        have x: "task_shard s i = Some x" "x \<noteq> sh" using that by (auto split: if_splits)
        then obtain m where "sget (network_shards s) (m, x) \<noteq> None" using sok unfolding shards_ok_def by blast
        with x(2) show ?thesis by (intro exI [of _ m]) (simp add: without_shard_def Let_def)
      qed
    qed (use sok in \<open>auto simp: shards_ok_def without_shard_def Let_def split: if_splits\<close>)
    have own: "task_network s i = Some n" if t: "task_shard s i = Some sh" "tasks s i \<noteq> None" for i
    proof -
      obtain m where m: "sget (network_shards s) (m, sh) \<noteq> None" using sok t(1) unfolding shards_ok_def by blast
      with networksD(3) [OF inv t(2,1) m] serves [OF m] show ?thesis by simp
    qed
    have ns: "sget (network_shards s) e \<noteq> None" if "sget (network_shards ?s) e \<noteq> None" for e
      using that by (auto simp: without_shard_def Let_def split: if_splits)
    show "networks_ok ?s"
      unfolding networks_ok_def w ts re
    proof (intro conjI allI impI)
      show "task_network s i = Some m" if "i \<in> set (waiting s m @ (if m = n then ?p else []))" "tasks s i \<noteq> None" for m i
        using that networksD(1) [OF inv that(2)] own d(1) by (auto split: if_splits)
      show "task_network s i = Some m" if "(if task_shard s i = Some sh then None else task_shard s i) = Some x"
        "sget (network_shards ?s) (m, x) \<noteq> None" "tasks s i \<noteq> None" for m i x
        using that(1) networksD(3) [OF inv that(3) _ ns [OF that(2)]] by (auto split: if_splits)
    qed (use networksD(2) [OF inv] in auto)
    show "none_lost R ?s"
      unfolding none_lost_def w ts re
    proof (intro allI impI)
      fix i b
      assume i: "tasks s i = Some (SubmitGatewayMessage b) \<and> task_output s i = None \<and> i \<notin> R"
      then have "Some i \<noteq> sget (read_events_task s) n" using readsD(2) [OF inv, of n i b] by force
      with i lostD [OF inv, of i b] d(1)
      show "(if task_shard s i = Some sh then None else task_shard s i) \<noteq> None \<or>
          (\<exists>m. i \<in> set (waiting s m @ (if m = n then ?p else [])))" by auto
    qed
  qed
qed

lemma shard_offline_keeps:
  assumes off: "shard_offline cfg shs sh n s = Some s'" and net: "net sh = Some n"
  shows "keeps net s s'"
proof -
  let ?w = "without_shard cfg sh n s"
  have "unsaturated s" if "unsaturated ?w"
    using that pushes_room by (fastforce simp: unsaturated_def without_shard_def Let_def)
  with without_shard_inv [of net _ s sh n cfg] net have "keeps net s ?w" by (auto simp: keeps_def)
  then show ?thesis
    using off by (auto simp: shard_offline_eq split: option.splits intro: keeps_update)
qed

lemma gateway_registered_keeps:
  assumes "gateway_registered nets n block s = Some s'"
  shows "keeps net s s'"
proof -
  obtain i where "read_gateway_events nets n (s\<lparr>sync_height := (sync_height s)(n := block)\<rparr>) = Some (i, s')"
    using assms by (auto simp: gateway_registered_def)
  from keeps_trans [OF _ read_gateway_events_keeps [OF this]] show ?thesis by simp
qed

section \<open>The pallet as a state machine\<close>

text \<open>
  One step of the pallet: a call that succeeds, a block, or a call from the shards and networks pallets.
  The networks and shards storage may be any at each step. The shards pallet calls with the network
  the shard was created for, \<open>net\<close>.
\<close>

inductive tasks_step :: "config \<Rightarrow> (shard_id \<rightharpoonup> network_id) \<Rightarrow> tasks_store \<Rightarrow> tasks_store \<Rightarrow> bool"
  for cfg net where
  result: "submit_task_result cfg nets shs orig i r s = Some (Inr s') \<Longrightarrow> tasks_step cfg net s s'"
| events: "submit_gmp_events cfg orig n es s = Some (Inr s') \<Longrightarrow> tasks_step cfg net s s'"
| sync: "sync_network cfg orig n b s = Some (Inr s') \<Longrightarrow> tasks_step cfg net s s'"
| stop: "stop_network cfg orig n s = Some (Inr s') \<Longrightarrow> tasks_step cfg net s s'"
| remove: "remove_task cfg orig i s = Some (Inr s') \<Longrightarrow> tasks_step cfg net s s'"
| restart: "restart_batch cfg orig b s = Some (Inr s') \<Longrightarrow> tasks_step cfg net s s'"
| block: "tasks_on_initialize cfg nets shs s = Some s' \<Longrightarrow> tasks_step cfg net s s'"
| online: "shard_online nets shs sh n s = Some s' \<Longrightarrow> net sh = Some n \<Longrightarrow> tasks_step cfg net s s'"
| offline: "shard_offline cfg shs sh n s = Some s' \<Longrightarrow> net sh = Some n \<Longrightarrow> tasks_step cfg net s s'"
| gateway: "gateway_registered nets n b s = Some s' \<Longrightarrow> tasks_step cfg net s s'"

text \<open>The states reached before one of the 64-bit counters runs out.\<close>

inductive tasks_reachable :: "config \<Rightarrow> (shard_id \<rightharpoonup> network_id) \<Rightarrow> tasks_store \<Rightarrow> bool"
  for cfg net where
  genesis: "tasks_reachable cfg net empty_tasks"
| step: "tasks_reachable cfg net s \<Longrightarrow> tasks_step cfg net s s' \<Longrightarrow> unsaturated s' \<Longrightarrow> tasks_reachable cfg net s'"

lemma tasks_step_keeps: "tasks_step cfg net s s' \<Longrightarrow> keeps net s s'"
  by (induction rule: tasks_step.induct)
    (auto intro: submit_task_result_keeps submit_gmp_events_keeps sync_network_keeps stop_network_keeps
      remove_task_keeps restart_batch_keeps tasks_on_initialize_keeps shard_online_keeps
      shard_offline_keeps gateway_registered_keeps)

lemma tasks_reachable_inv: "tasks_reachable cfg net s \<Longrightarrow> tasks_inv net {} s"
proof (induction rule: tasks_reachable.induct)
  case genesis
  show ?case by (rule tasks_inv_empty)
next
  case (step s s')
  then show ?case using tasks_step_keeps by (simp add: keeps_def)
qed

end
