(* ===== verification/Tasks_Run.thy ===== *)
theory Tasks_Run
  imports Tasks_Correct
begin

text \<open>
  A concrete run of the tasks pallet, evaluated step by step, for the witnesses: network 1 registers its
  gateway, shard 0 comes online, a block starts the batch that registers the shard and assigns the read
  task, the batch is reported as executed, and the next block assigns the finished batch task.
\<close>

lemmas tasks_eval = Let_def deposit_event_def sput_def sdel_def sget_def sat_add_def sat_succ_def
  sat_pred_def sat_sub_def split_beta siter_def sprefix_def queue_pop_def queue_remove_def insert_i_def
  remove_i_def skip_holes.simps queue_push_def empty_queue_def test_config_def
  prepare_batches_def prepare_network_def batch_loop.simps batch_push_def batch_builder_new_def
  network_gas_limit_def take_batch_def start_some_def start_batch_def create_task_def
  tasks_on_initialize_def schedule_tasks_def schedule_network_def network_shard_list_def
  shard_task_limit_def assign_task_def is_shard_registered_def tss_public_key_def is_shard_online_def
  tasks_per_shard_of_def schedule_tasks_shard_def submit_gmp_events_def process_events_def
  reset_batch_output_def finish_task_def gateway_registered_def read_gateway_events_def
  next_batch_size_def shard_online_def network_gateway_def

definition demo_net :: "shard_id \<rightharpoonup> network_id" where
  "demo_net = [0 \<mapsto> 1]"

definition demo_networks :: networks_store where
  "demo_networks = empty_networks\<lparr>network_gateway_address := [1 \<mapsto> []]\<rparr>"

definition demo_shards :: shards_store where
  "demo_shards = empty_shards\<lparr>shard_network := [0 \<mapsto> 1], shard_commitment := [0 \<mapsto> [[7]]],
     shard_state := [0 \<mapsto> SOnline], shard_member_status := [((0, 5), Ready)]\<rparr>"

definition demo_read :: tasks_store where
  "demo_read = empty_tasks\<lparr>tasks := [1 \<mapsto> ReadGatewayEvents 0 32], task_network := [1 \<mapsto> 1],
     task_id_counter := 1, read_events_task := [(1, 1)], task_count := (\<lambda>_. 0)(1 := 1),
     sync_height := (\<lambda>_. 0)(1 := 0), tasks_events := [EvTaskCreated 1]\<rparr>"

definition demo_online :: tasks_store where
  "demo_online = demo_read\<lparr>network_shards := [((1, 0), ())],
     ops_queued := \<lparr>insert_index = [1 \<mapsto> 1], remove_index = Map.empty, items = [(1, 0) \<mapsto> RegisterShard [7]]\<rparr>\<rparr>"

definition demo_block :: tasks_store where
  "demo_block = demo_online\<lparr>
     ua_tasks := \<lparr>insert_index = [1 \<mapsto> 1], remove_index = Map.empty, items = [(1, 0) \<mapsto> 2]\<rparr>,
     ops_queued := \<lparr>insert_index = [1 \<mapsto> 1], remove_index = [1 \<mapsto> 1], items = Map.empty\<rparr>,
     shard_tasks := [((0, 1), ())], task_shard := [1 \<mapsto> 0], task_id_counter := 2,
     task_count := (\<lambda>_. 0)(1 := 2), shard_task_count := (\<lambda>_. 0)(0 := 1),
     tasks := [1 \<mapsto> ReadGatewayEvents 0 32, 2 \<mapsto> SubmitGatewayMessage 0],
     task_network := [1 \<mapsto> 1, 2 \<mapsto> 1], shard_register_batch_id := [[7] \<mapsto> 0],
     batch_id_counter := 1, batch_message := [0 \<mapsto> GatewayMessage [RegisterShard [7]]],
     batch_task_id := [0 \<mapsto> 2], pending_batches := [(0, ())],
     tasks_events := [EvTaskCreated 1, EvTaskCreated 2]\<rparr>"

definition demo_executed :: tasks_store where
  "demo_executed = demo_block\<lparr>task_output := [2 \<mapsto> Inr ()], shard_registered := [[7] \<mapsto> ()],
     pending_batches := [], tasks_events := [EvTaskCreated 1, EvTaskCreated 2, EvTaskResult 2 (Inr ())]\<rparr>"

definition demo_next :: tasks_store where
  "demo_next = demo_executed\<lparr>
     ua_tasks := \<lparr>insert_index = [1 \<mapsto> 1], remove_index = [1 \<mapsto> 1], items = Map.empty\<rparr>,
     shard_tasks := [((0, 2), ()), ((0, 1), ())], task_shard := [1 \<mapsto> 0, 2 \<mapsto> 0],
     shard_task_count := (\<lambda>_. 0)(0 := 2)\<rparr>"

lemmas demo_defs = demo_networks_def demo_shards_def demo_read_def demo_online_def demo_block_def
  demo_executed_def demo_next_def empty_networks_def empty_shards_def empty_tasks_def

lemma demo_gateway: "gateway_registered demo_networks 1 0 empty_tasks = Some demo_read"
  by (simp add: demo_defs tasks_eval)

lemma demo_shard_online: "shard_online demo_networks demo_shards 0 1 demo_read = Some demo_online"
  by (simp add: demo_defs tasks_eval)

lemma demo_initialize: "tasks_on_initialize test_config demo_networks demo_shards demo_online = Some demo_block"
  by (simp add: demo_defs tasks_eval)

lemma demo_events:
  "submit_gmp_events test_config Root 1 [BatchExecuted 0 None, ShardRegistered [7]] demo_block =
    Some (Inr demo_executed)"
  by (simp add: demo_defs tasks_eval)

lemma demo_initialize_next:
  "tasks_on_initialize test_config demo_networks demo_shards demo_executed = Some demo_next"
  by (simp add: demo_defs tasks_eval)

lemma demo_unsaturated:
  "unsaturated demo_read" "unsaturated demo_online" "unsaturated demo_block" "unsaturated demo_executed"
  "unsaturated demo_next"
  by (simp_all add: unsaturated_def queue_room_def insert_i_def demo_defs empty_queue_def)

lemma demo_reachable:
  "tasks_reachable test_config demo_net demo_read" "tasks_reachable test_config demo_net demo_online"
  "tasks_reachable test_config demo_net demo_block" "tasks_reachable test_config demo_net demo_executed"
  "tasks_reachable test_config demo_net demo_next"
proof -
  show r: "tasks_reachable test_config demo_net demo_read"
    by (rule tasks_reachable.step [OF tasks_reachable.genesis tasks_step.gateway [OF demo_gateway] demo_unsaturated(1)])
  show o: "tasks_reachable test_config demo_net demo_online"
    by (rule tasks_reachable.step [OF r tasks_step.online [OF demo_shard_online] demo_unsaturated(2)])
      (simp add: demo_net_def)
  show b: "tasks_reachable test_config demo_net demo_block"
    by (rule tasks_reachable.step [OF o tasks_step.block [OF demo_initialize] demo_unsaturated(3)])
  show e: "tasks_reachable test_config demo_net demo_executed"
    by (rule tasks_reachable.step [OF b tasks_step.events [OF demo_events] demo_unsaturated(4)])
  show "tasks_reachable test_config demo_net demo_next"
    by (rule tasks_reachable.step [OF e tasks_step.block [OF demo_initialize_next] demo_unsaturated(5)])
qed

lemma demo_waiting: "waiting demo_block 1 = [2]"
  by (simp add: waiting_def queue_list_def demo_defs insert_i_def remove_i_def List.map_filter_simps)

lemma demo_commitments: "commitments_ok demo_shards"
  by (simp add: commitments_ok_def demo_defs)

end
