(* ===== verification/Tasks_Properties.thy ===== *)
theory Tasks_Properties
  imports Tasks_Run
begin

text \<open>
  The correctness properties of the tasks pallet, and the defects found in it.
\<close>

section \<open>Assignment\<close>

text \<open>
  C1. In every reachable state \<open>ShardTasks\<close> and \<open>TaskShard\<close> agree: the tasks a shard is told to work on
  are exactly those assigned to it, each listed once, so that no task is ever assigned to two shards;
  and \<open>ShardTaskCount\<close>, on which scheduling decides, is their number.
\<close>

theorem assignment_consistent:
  assumes "tasks_reachable cfg net s"
  shows "(i \<in> set (get_shard_tasks cfg s sh) \<longleftrightarrow> get_task_shard s i = Some sh) \<and>
    distinct (get_shard_tasks cfg s sh) \<and>
    unat (shard_task_count s sh) = length (get_shard_tasks cfg s sh)"
proof -
  have "assigned_ok s" using tasks_reachable_inv [OF assms] by (simp add: tasks_inv_def)
  from get_shard_tasks_iff [OF this] show ?thesis by (simp add: get_task_shard_def)
qed

theorem assignment_consistent_witness:
  "2 \<in> set (get_shard_tasks test_config demo_next 0) \<and> unat (shard_task_count demo_next 0) = 2"
proof -
  have "get_task_shard demo_next 2 = Some 0" by (simp add: get_task_shard_def demo_defs)
  with assignment_consistent [OF demo_reachable(5), of 2 0] show ?thesis by (simp add: demo_defs)
qed

text \<open>
  C2. No batch submission is ever lost: in every reachable state an unfinished \<open>SubmitGatewayMessage\<close>
  task is either assigned, to a shard that serves the network the task was created for and no other, or waits
  in the task queue of that network, exactly once, and in no other - and never both.
\<close>

theorem no_submission_lost:
  assumes reach: "tasks_reachable cfg net s" and task: "get_task s i = Some (SubmitGatewayMessage b)"
    and unfinished: "get_task_result s i = None"
  shows "\<exists>n. task_network s i = Some n \<and>
    (case get_task_shard s i of
      Some sh \<Rightarrow> net sh = Some n \<and> (\<forall>m. sget (network_shards s) (m, sh) \<noteq> None \<longleftrightarrow> m = n) \<and> (\<forall>m. i \<notin> set (waiting s m))
    | None \<Rightarrow> (\<forall>m. i \<in> set (waiting s m) \<longleftrightarrow> m = n) \<and> distinct (waiting s n))"
proof -
  note inv = tasks_reachable_inv [OF reach]
  have sok: "shards_ok net s" using inv by (simp add: tasks_inv_def)
  have some: "tasks s i \<noteq> None" using task by (simp add: get_task_def)
  show ?thesis
  proof (cases "task_shard s i")
    case None
    with lostD [OF inv, of i b] task unfinished obtain n where "i \<in> set (waiting s n)"
      by (auto simp: get_task_def get_task_result_def)
    moreover from this have "\<forall>m. i \<in> set (waiting s m) \<longleftrightarrow> m = n" using waitingD(3) [OF inv] by blast
    ultimately show ?thesis
      using None waitingD(2) [OF inv] networksD(1) [OF inv some, of n] by (intro exI [of _ n]) (simp add: get_task_shard_def)
  next
    case (Some sh)
    then obtain n where n: "sget (network_shards s) (n, sh) \<noteq> None" using sok unfolding shards_ok_def by blast
    then have "net sh = Some n" using sok unfolding shards_ok_def by blast
    moreover have "\<forall>m. i \<notin> set (waiting s m)" using Some waitingD(4) [OF inv] by fastforce
    moreover have "\<forall>m. sget (network_shards s) (m, sh) \<noteq> None \<longleftrightarrow> m = n"
      using n sok \<open>net sh = Some n\<close> unfolding shards_ok_def by fastforce
    ultimately show ?thesis
      using Some networksD(3) [OF inv some Some n] by (intro exI [of _ n]) (simp add: get_task_shard_def)
  qed
qed

theorem no_submission_lost_witness:
  "task_network demo_block 2 = Some 1 \<and> 2 \<in> set (waiting demo_block 1) \<and> 2 \<notin> set (waiting demo_block 3)"
proof -
  have "get_task demo_block 2 = Some (SubmitGatewayMessage 0)" "get_task_result demo_block 2 = None"
    by (simp_all add: get_task_def get_task_result_def demo_defs)
  from no_submission_lost [OF demo_reachable(3) this]
  have "\<exists>n. task_network demo_block 2 = Some n \<and> (\<forall>m. 2 \<in> set (waiting demo_block m) \<longleftrightarrow> m = n)"
    by (auto simp: get_task_shard_def demo_defs)
  moreover have "task_network demo_block 2 = Some 1" by (simp add: demo_defs)
  ultimately show ?thesis by auto
qed

section \<open>Scheduling\<close>

text \<open>
  C3. \<open>schedule_tasks\<close> returns (unless a stored group commitment is empty) and respects both limits: it
  assigns at most \<open>MaxTasksPerBlock\<close> tasks in a block, and gives no shard of a network more tasks than
  the network's shard task limit.
\<close>

theorem schedule_tasks_limits:
  assumes "tasks_reachable cfg net s" and "commitments_ok shs"
  shows "\<exists>k s'. schedule_tasks cfg nets shs s = Some (k, s') \<and>
    length (shard_tasks s') \<le> length (shard_tasks s) + unat (max_tasks_per_block cfg) \<and>
    (\<forall>n. \<forall>sh\<in>set (network_shard_list cfg s n). unat (shard_task_count s' sh) \<le>
       max (unat (shard_task_count s sh)) (unat (shard_task_limit nets n)))"
proof -
  from schedule_tasks_total [OF assms(2)] obtain k s' where r: "schedule_tasks cfg nets shs s = Some (k, s')"
    by force
  from schedule_tasks_scheduled [OF tasks_reachable_inv [OF assms(1)] r]
  obtain ts where "scheduled cfg nets shs s ts s'" "length ts \<le> unat (max_tasks_per_block cfg)" by blast
  with r show ?thesis by (auto simp: scheduled_def assigned_by_def within_limits_def)
qed

theorem schedule_tasks_limits_witness:
  "\<exists>k s'. schedule_tasks test_config demo_networks demo_shards demo_executed = Some (k, s') \<and>
    length (shard_tasks s') \<le> 51 \<and> unat (shard_task_count s' 0) \<le> 10"
proof -
  have "0 \<in> set (network_shard_list test_config demo_executed 1)"
    "length (shard_tasks demo_executed) = 1" "unat (max_tasks_per_block test_config) = 50"
    "unat (shard_task_count demo_executed 0) = 1" "unat (shard_task_limit demo_networks 1) = 10"
    by (simp_all add: demo_defs tasks_eval)
  note facts = this
  from schedule_tasks_limits [OF demo_reachable(4) demo_commitments, of demo_networks]
  obtain k s' where r: "schedule_tasks test_config demo_networks demo_shards demo_executed = Some (k, s')"
    "length (shard_tasks s') \<le> length (shard_tasks demo_executed) + unat (max_tasks_per_block test_config)"
    "\<And>n sh. sh \<in> set (network_shard_list test_config demo_executed n) \<Longrightarrow> unat (shard_task_count s' sh) \<le>
       max (unat (shard_task_count demo_executed sh)) (unat (shard_task_limit demo_networks n))" by blast
  from r(2) r(3) [OF facts(1)] have "length (shard_tasks s') \<le> 51 \<and> unat (shard_task_count s' 0) \<le> 10"
    by (simp add: facts)
  with r(1) show ?thesis by blast
qed

text \<open>
  C4. What \<open>schedule_tasks\<close> assigns: only tasks without a shard; a network's read task to a shard of
  that network, every other task to a shard of its network that is online and registered with the
  gateway; the waiting tasks of a network strictly in the order of their queue. Assigned tasks keep
  their shard, and nothing but the assignment changes.
\<close>

theorem schedule_tasks_assigns:
  assumes "tasks_reachable cfg net s" and "schedule_tasks cfg nets shs s = Some (k, s')"
  shows "\<exists>ts. only_assignment s s' \<and> distinct (map fst ts) \<and>
    task_shard s' = task_shard s ++ map_of ts \<and>
    (\<forall>(i, sh)\<in>set ts. task_shard s i = None \<and>
       (\<exists>n. sh \<in> set (network_shard_list cfg s n) \<and>
          ((n, i) \<in> set (read_events_task s) \<or>
           i \<in> set (waiting s n) \<and> is_shard_registered shs s sh = Some True \<and> is_shard_online shs sh))) \<and>
    (\<forall>n. waiting s n = filter (\<lambda>i. i \<in> set (waiting s n)) (map fst ts) @ waiting s' n)"
proof -
  from schedule_tasks_scheduled [OF tasks_reachable_inv [OF assms(1)] assms(2)]
  obtain ts where ts: "scheduled cfg nets shs s ts s'" by blast
  then show ?thesis
    by (intro exI [of _ ts]) (simp add: scheduled_def assigned_by_def may_assign_def split_beta)
qed

theorem schedule_tasks_assigns_witness:
  "\<exists>k s'. schedule_tasks test_config demo_networks demo_shards demo_executed = Some (k, s') \<and>
    task_shard s' 1 = Some 0 \<and> only_assignment demo_executed s'"
proof -
  obtain k s' where r: "schedule_tasks test_config demo_networks demo_shards demo_executed = Some (k, s')"
    using schedule_tasks_total [OF demo_commitments] by force
  from schedule_tasks_assigns [OF demo_reachable(4) r] obtain ts where
    ts: "only_assignment demo_executed s'" "task_shard s' = task_shard demo_executed ++ map_of ts"
      "\<forall>(i, sh)\<in>set ts. task_shard demo_executed i = None" by fast
  have one: "task_shard demo_executed 1 = Some 0" by (simp add: demo_defs)
  then have "map_of ts 1 = None" using ts(3) by (cases "map_of ts 1") (auto dest!: map_of_SomeD)
  with ts(2) one have "task_shard s' 1 = Some 0" by (simp add: map_add_def)
  with r ts(1) show ?thesis by blast
qed

section \<open>Task results\<close>

lemma check_signature_ok:
  "check_signature cfg shs sh data sig = Some (Inr ()) \<longleftrightarrow>
    (\<exists>k. tss_public_key shs sh = Some (Some k) \<and> verify_signature cfg k data sig)"
  by (auto simp: check_signature_def split: option.splits if_splits)

text \<open>
  C5. Who can change the storage with \<open>submit_task_result\<close>: a signed origin, for an unfinished task
  assigned to a shard; events read from a gateway only with a signature, over the task id and those
  events, that verifies under the public key of that shard; the failure of a submission only as a
  member of that shard.
\<close>

theorem submit_task_result_authorised:
  assumes "submit_task_result cfg nets shs orig i result s = Some (Inr s')" and "s' \<noteq> s"
  shows "\<exists>signer sh. orig = Signed signer \<and> get_task_result s i = None \<and> get_task_shard s i = Some sh \<and>
    (case result of
       ReadGatewayEventsResult es sig \<Rightarrow>
         (\<exists>k. tss_public_key shs sh = Some (Some k) \<and> verify_signature cfg k (encode_gmp_events cfg i es) sig)
     | SubmitGatewayMessageResult err \<Rightarrow> signer \<in> set (shard_members cfg shs sh))"
  using assms(1)
proof (cases rule: submit_task_result_cases)
  case already
  with assms(2) show ?thesis by simp
next
  case (read signer sh n start stop es sig s1)
  then show ?thesis by (simp add: check_signature_ok get_task_result_def get_task_shard_def)
next
  case (submit signer sh n b err)
  then show ?thesis by (simp add: get_task_result_def get_task_shard_def)
qed

definition demo_signed :: tasks_store where
  "demo_signed = finish_task 1 1 (Inr ()) (snd (create_task 1 (ReadGatewayEvents 32 64)
     (demo_block\<lparr>sync_height := (\<lambda>_. 0)(1 := 32)\<rparr>)))"

lemma demo_submit:
  "submit_task_result test_config demo_networks demo_shards (Signed 5) 1 (ReadGatewayEventsResult [] []) demo_block =
    Some (Inr demo_signed)"
  by (simp add: submit_task_result_def check_signature_def continue_reading_def advance_sync_height_def
      MAX_GMP_EVENTS_def verify_signature_def demo_signed_def demo_defs tasks_eval)

theorem submit_task_result_authorised_witness:
  "\<exists>k. tss_public_key demo_shards 0 = Some (Some k) \<and>
    verify_signature test_config k (encode_gmp_events test_config 1 []) []"
proof -
  have "get_task_result demo_signed 1 = Some (Inr ())" "get_task_result demo_block 1 = None"
    "get_task_shard demo_block 1 = Some 0"
    by (simp_all add: get_task_result_def get_task_shard_def demo_signed_def)
      (simp_all add: demo_defs create_task_def Let_def deposit_event_def)
  moreover from this have "demo_signed \<noteq> demo_block" by auto
  ultimately show ?thesis using submit_task_result_authorised [OF demo_submit] by simp
qed

text \<open>
  Results are final: once a submission that finishes a task has succeeded, every further submission
  for that task by a signed origin, of whatever result, is accepted and changes nothing.
\<close>

theorem submit_task_result_idempotent:
  assumes sub: "submit_task_result cfg nets shs orig i result s = Some (Inr s')"
    and fin: "get_task_result s' i \<noteq> None"
  shows "submit_task_result cfg nets' shs' (Signed a) i result' s' = Some (Inr s')"
proof -
  have "tasks s' i \<noteq> None"
    using sub
  proof (cases rule: submit_task_result_cases)
    case already
    then show ?thesis using sub
      by (auto simp: submit_task_result_def split: option.splits)
  next
    case (read signer sh n start stop es sig s1)
    have t: "tasks s1 i \<noteq> None"
      using read(5,8) by (auto simp: continue_reading_def advance_sync_height_def read_gateway_events_def
          create_task_def deposit_event_def Let_def split: if_splits option.splits)
    have fin_t: "tasks (finish_task m j r t) = tasks t" for m j r t
      by (simp add: finish_task_def deposit_event_def Let_def split: option.split)
    have "tasks (process_event cfg m j e t) = tasks t" for m j e t
      by (cases e) (simp_all add: deposit_event_def Let_def fin_t split: option.split)
    then have "tasks (process_events cfg n i es s1) = tasks s1"
      unfolding process_events_def by (induction es arbitrary: s1) simp_all
    with t read(9) show ?thesis by (simp add: fin_t)
  next
    case (submit signer sh n b err)
    then show ?thesis by (simp add: finish_task_def deposit_event_def Let_def)
  qed
  with fin show ?thesis by (auto simp: submit_task_result_def get_task_result_def)
qed

theorem submit_task_result_idempotent_witness:
  "submit_task_result test_config demo_networks demo_shards (Signed 9) 1 (SubmitGatewayMessageResult []) demo_signed =
    Some (Inr demo_signed)"
  by (rule submit_task_result_idempotent [OF demo_submit]) (simp add: demo_signed_def get_task_result_def)

section \<open>Shards\<close>

text \<open>
  C6. When a shard goes offline, all its tasks are released: none stays assigned to it, its task count
  is zero, the assignment of every other task is unchanged, and its tasks join the end of the queue of
  its network in order, except the network's read task, which the next block assigns anew.
\<close>

theorem shard_offline_releases:
  assumes reach: "tasks_reachable cfg net s"
    and off: "shard_offline cfg shs sh n s = Some s'" and uns: "unsaturated s'"
  shows "get_shard_tasks cfg s' sh = [] \<and> shard_task_count s' sh = 0 \<and>
    (\<forall>i. get_task_shard s' i = (if get_task_shard s i = Some sh then None else get_task_shard s i)) \<and>
    (\<forall>m. waiting s' m = waiting s m @ (if m = n
       then filter (\<lambda>i. sget (read_events_task s) n \<noteq> Some i) (get_shard_tasks cfg s sh) else []))"
proof -
  let ?w = "without_shard cfg sh n s"
  note inv = tasks_reachable_inv [OF reach]
  have a: "assigned_ok s" using inv by (simp add: tasks_inv_def)
  have eq: "s' = ?w \<or> (\<exists>q. s' = ?w\<lparr>ops_queued := q\<rparr>)"
    using off by (auto simp: shard_offline_eq split: option.splits)
  have f: "shard_tasks s' = sclear_prefix sh (shard_tasks s)" "shard_task_count s' sh = 0"
    "task_shard s' = task_shard s |` (- set (get_shard_tasks cfg s sh))"
    "ua_tasks s' = fold (queue_push n) (filter (\<lambda>i. Some i \<noteq> sget (read_events_task s) n)
      (get_shard_tasks cfg s sh)) (ua_tasks s)"
    using eq by (auto simp: without_shard_def Let_def)
  have "length (get_shard_tasks cfg s' sh) = 0" by (simp add: get_shard_tasks_def f(1))
  moreover have "queue_room (fold (queue_push n) (filter (\<lambda>i. Some i \<noteq> sget (read_events_task s) n)
      (get_shard_tasks cfg s sh)) (ua_tasks s)) n"
    using uns by (simp add: unsaturated_def f(4))
  from pushes_contents(1) [OF waitingD(1) [OF inv] this] have "waiting s' m = waiting s m @ (if m = n
      then filter (\<lambda>i. Some i \<noteq> sget (read_events_task s) n) (get_shard_tasks cfg s sh) else [])" for m
    by (simp add: waiting_def f(4))
  moreover have "(\<lambda>i. Some i \<noteq> sget (read_events_task s) n) = (\<lambda>i. sget (read_events_task s) n \<noteq> Some i)"
    by auto
  ultimately show ?thesis
    using f(2) get_shard_tasks_iff(1) [OF a, of _ cfg sh] by (simp add: f(3) get_task_shard_def restrict_map_def)
qed

definition demo_offline :: tasks_store where
  "demo_offline = demo_next\<lparr>network_shards := [], shard_tasks := [], task_shard := Map.empty,
     ua_tasks := \<lparr>insert_index = [1 \<mapsto> 2], remove_index = [1 \<mapsto> 1], items = [(1, 1) \<mapsto> 2]\<rparr>,
     shard_task_count := (\<lambda>_. 0)(0 := 0),
     ops_queued := \<lparr>insert_index = [1 \<mapsto> 2], remove_index = [1 \<mapsto> 1], items = [(1, 1) \<mapsto> UnregisterShard [7]]\<rparr>\<rparr>"

lemma demo_shard_offline: "shard_offline test_config demo_shards 0 1 demo_next = Some demo_offline"
  by (simp add: shard_offline_def unassign_task_def sclear_prefix_def demo_offline_def demo_defs tasks_eval)

theorem shard_offline_releases_witness:
  "waiting demo_offline 1 = waiting demo_next 1 @ [2] \<and> shard_task_count demo_offline 0 = 0"
proof -
  have "unsaturated demo_offline"
    by (simp add: unsaturated_def queue_room_def insert_i_def demo_offline_def demo_defs)
  moreover have "filter (\<lambda>i. sget (read_events_task demo_next) 1 \<noteq> Some i) (get_shard_tasks test_config demo_next 0) = [2]"
    by (simp add: get_shard_tasks_def demo_defs tasks_eval)
  ultimately show ?thesis
    using shard_offline_releases [OF demo_reachable(5) demo_shard_offline] by simp
qed

section \<open>Defects\<close>

text \<open>
  A task that already has a result keeps its slot once assigned: no submission and no further
  completion releases it, so \<open>ShardTaskCount\<close> of the shard stays too high until the shard goes offline.
  \<open>finish_task\<close> returns early for a task that has a result, and leaves a waiting task in the queue.
\<close>

theorem finished_task_keeps_slot:
  assumes "get_task_result s i \<noteq> None" and "get_task_shard s i = Some sh"
  shows "finish_task n i r s = s \<and>
    (\<forall>s'. submit_task_result cfg nets shs orig i result s = Some (Inr s') \<longrightarrow> s' = s)"
proof -
  have "s' = s" if "submit_task_result cfg nets shs orig i result s = Some (Inr s')" for s'
    using that by (cases rule: submit_task_result_cases) (use assms in \<open>auto simp: get_task_result_def\<close>)
  with assms(1) show ?thesis by (auto simp: finish_task_def get_task_result_def)
qed

theorem finished_task_keeps_slot_witness:
  "tasks_reachable test_config demo_net demo_next \<and> get_task_result demo_next 2 = Some (Inr ()) \<and>
   get_task_shard demo_next 2 = Some 0 \<and> finish_task 1 2 (Inr ()) demo_next = demo_next"
proof -
  have f: "get_task_result demo_next 2 = Some (Inr ())" "get_task_shard demo_next 2 = Some 0"
    by (simp_all add: get_task_result_def get_task_shard_def demo_defs)
  from finished_task_keeps_slot [of demo_next 2 0] f have "finish_task 1 2 (Inr ()) demo_next = demo_next" by simp
  with f demo_reachable(5) show ?thesis by simp
qed

text \<open>
  Removing the old, completed task of a restarted batch damages the restarted one: \<open>remove_task\<close>
  deletes the message and the task reference of the batch, although the new task for it is still to be
  done, and the batch stays pending with no message to submit.
\<close>

theorem remove_task_breaks_restarted_batch:
  assumes admin: "admin_origin cfg orig"
    and old: "batch_task_id s b = Some old" "task_network s old = Some n"
      "tasks s old = Some (SubmitGatewayMessage b)" "task_output s old \<noteq> None"
    and new: "new = sat_succ (task_id_counter s)" "new \<noteq> old" "task_output s new = None"
  shows "\<exists>s1 s2. restart_batch cfg orig b s = Some (Inr s1) \<and> remove_task cfg orig old s1 = Some (Inr s2) \<and>
    get_task s2 new = Some (SubmitGatewayMessage b) \<and> get_task_result s2 new = None \<and>
    sget (pending_batches s2) b \<noteq> None \<and> get_batch_message s2 b = None \<and> batch_task_id s2 b = None"
proof -
  obtain s1 where s1: "restart_batch cfg orig b s = Some (Inr s1)"
    using admin old by (auto simp: restart_batch_def split_beta Let_def)
  then have f: "batch_task_id s1 b = Some new" "tasks s1 = (tasks s)(new \<mapsto> SubmitGatewayMessage b)"
    "task_output s1 = task_output s" "sget (pending_batches s1) b \<noteq> None"
    using admin old new(1)
    by (auto simp: restart_batch_def create_task_def deposit_event_def split_beta Let_def)
  obtain s2 where s2: "remove_task cfg orig old s1 = Some (Inr s2)"
    using admin old f by (auto simp: remove_task_def Let_def)
  have fm: "tasks (fold (forget_message cfg) ms t) = tasks t" "task_output (fold (forget_message cfg) ms t) = task_output t"
    "pending_batches (fold (forget_message cfg) ms t) = pending_batches t"
    "batch_message (fold (forget_message cfg) ms t) = batch_message t" for ms t
    by (induction ms arbitrary: t) (simp_all add: forget_message_def Let_def split: gateway_op.split)
  have "tasks s2 = (tasks s1)(old := None)" "task_output s2 = (task_output s1)(old := None)"
    "pending_batches s2 = pending_batches s1" "batch_message s2 b = None" "batch_task_id s2 b = None"
    using s2 admin old f new
    by (auto simp: remove_task_def Let_def fm split: option.splits if_splits)
  with s1 s2 f new show ?thesis by (auto simp: get_task_def get_task_result_def get_batch_message_def)
qed

theorem remove_task_breaks_restarted_batch_witness:
  "\<exists>s1 s2. restart_batch test_config Root 0 demo_executed = Some (Inr s1) \<and>
    remove_task test_config Root 2 s1 = Some (Inr s2) \<and> get_task s2 3 = Some (SubmitGatewayMessage 0) \<and>
    get_task_result s2 3 = None \<and> sget (pending_batches s2) 0 \<noteq> None \<and> get_batch_message s2 0 = None"
proof -
  have "admin_origin test_config Root" "batch_task_id demo_executed 0 = Some 2" "task_network demo_executed 2 = Some 1"
    "tasks demo_executed 2 = Some (SubmitGatewayMessage 0)" "task_output demo_executed 2 \<noteq> None"
    "3 = sat_succ (task_id_counter demo_executed)" "(3 :: task_id) \<noteq> 2" "task_output demo_executed 3 = None"
    by (simp_all add: demo_defs tasks_eval)
  from remove_task_breaks_restarted_batch [OF this] show ?thesis by blast
qed

end
