(* ===== verification/Tasks_Batches.thy ===== *)
theory Tasks_Batches
  imports Tasks_Run
begin

text \<open>
  How \<open>prepare_batches\<close> turns queued gateway operations into batches: every operation taken from the
  queue of a network ends, in order, in exactly one batch, and every batch has its task.
\<close>

section \<open>Started batches\<close>

text \<open>The batch ids handed out between two states.\<close>

definition new_batch :: "tasks_store \<Rightarrow> nat \<Rightarrow> batch_id \<Rightarrow> bool" where
  "new_batch s k b \<longleftrightarrow> unat (batch_id_counter s) \<le> unat b \<and> unat b < unat (batch_id_counter s) + k"

text \<open>
  The storage \<open>s'\<close> results from \<open>s\<close> by starting the batches \<open>msgs\<close> for a network: the messages are
  stored under consecutive new ids, each batch is pending and has a task of the network that submits
  it, and older batches and tasks are unchanged.
\<close>

definition started :: "network_id \<Rightarrow> gateway_message list \<Rightarrow> tasks_store \<Rightarrow> tasks_store \<Rightarrow> bool" where
  "started n msgs s s' \<longleftrightarrow>
     unat (batch_id_counter s') = unat (batch_id_counter s) + length msgs \<and>
     unat (task_id_counter s') = unat (task_id_counter s) + length msgs \<and>
     (\<forall>b. batch_message s' b =
        (if new_batch s (length msgs) b then Some (msgs ! (unat b - unat (batch_id_counter s))) else batch_message s b)) \<and>
     (\<forall>b. new_batch s (length msgs) b \<longrightarrow> sget (pending_batches s') b \<noteq> None \<and>
        (\<exists>i. batch_task_id s' b = Some i \<and> tasks s' i = Some (SubmitGatewayMessage b) \<and>
           task_network s' i = Some n \<and> i \<le> task_id_counter s')) \<and>
     (\<forall>b. \<not> new_batch s (length msgs) b \<longrightarrow> batch_task_id s' b = batch_task_id s b) \<and>
     (\<forall>b. sget (pending_batches s) b \<noteq> None \<longrightarrow> sget (pending_batches s') b \<noteq> None) \<and>
     (\<forall>i. i \<le> task_id_counter s \<longrightarrow> tasks s' i = tasks s i \<and> task_network s' i = task_network s i)"

lemma new_batch_0 [simp]: "\<not> new_batch s 0 b"
  by (simp add: new_batch_def)

lemma started_Nil [simp]: "started n [] s s"
  by (simp add: started_def)

lemma started_append:
  assumes 1: "started n ms s t" and 2: "started n ns t u"
  shows "started n (ms @ ns) s u"
proof -
  let ?c = "unat (batch_id_counter s)"
  have c: "unat (batch_id_counter t) = ?c + length ms" "unat (task_id_counter t) = unat (task_id_counter s) + length ms"
    using 1 by (simp_all add: started_def)
  have new: "new_batch s (length (ms @ ns)) b \<longleftrightarrow> new_batch s (length ms) b \<or> new_batch t (length ns) b"
    and dis: "\<not> (new_batch s (length ms) b \<and> new_batch t (length ns) b)" for b
    by (auto simp: new_batch_def c)
  have le: "i \<le> task_id_counter t" if "i \<le> task_id_counter s" for i
    using that c(2) by (simp add: word_le_nat_alt)
  have le': "task_id_counter t \<le> task_id_counter u" using 2 by (simp add: started_def word_le_nat_alt)
  have "batch_message u b = (if new_batch s (length (ms @ ns)) b then Some ((ms @ ns) ! (unat b - ?c)) else batch_message s b)"
    for b
    using 1 2 new [of b] dis [of b] c
    by (auto simp: started_def new_batch_def nth_append)
  moreover have "sget (pending_batches u) b \<noteq> None \<and> (\<exists>i. batch_task_id u b = Some i \<and>
      tasks u i = Some (SubmitGatewayMessage b) \<and> task_network u i = Some n \<and> i \<le> task_id_counter u)"
    if b: "new_batch s (length (ms @ ns)) b" for b
  proof (cases "new_batch t (length ns) b")
    case True
    with 2 show ?thesis unfolding started_def by blast
  next
    case False
    with b new have s: "new_batch s (length ms) b" by blast
    with 1 obtain i where i: "sget (pending_batches t) b \<noteq> None" "batch_task_id t b = Some i"
      "tasks t i = Some (SubmitGatewayMessage b)" "task_network t i = Some n" "i \<le> task_id_counter t"
      unfolding started_def by blast
    from i(2) False 2 have "batch_task_id u b = Some i" unfolding started_def by simp
    moreover from i(1) 2 have "sget (pending_batches u) b \<noteq> None" unfolding started_def by blast
    moreover from i(3-5) 2 have "tasks u i = Some (SubmitGatewayMessage b)" "task_network u i = Some n"
      unfolding started_def by simp_all
    moreover from i(5) le' have "i \<le> task_id_counter u" by simp
    ultimately show ?thesis by blast
  qed
  moreover have "batch_task_id u b = batch_task_id s b" if "\<not> new_batch s (length (ms @ ns)) b" for b
    using that new [of b] 1 2 unfolding started_def by simp
  moreover have "sget (pending_batches u) b \<noteq> None" if "sget (pending_batches s) b \<noteq> None" for b
    using that 1 2 unfolding started_def by blast
  moreover have "tasks u i = tasks s i \<and> task_network u i = task_network s i" if "i \<le> task_id_counter s" for i
    using that le [OF that] 1 2 unfolding started_def by simp
  ultimately show ?thesis
    using 1 2 c unfolding started_def by (simp add: add.assoc)
qed

lemma index_ops_frame:
  "batch_id_counter (fold (index_op cfg b) xs s) = batch_id_counter s"
  "task_id_counter (fold (index_op cfg b) xs s) = task_id_counter s"
  "batch_message (fold (index_op cfg b) xs s) = batch_message s"
  "batch_task_id (fold (index_op cfg b) xs s) = batch_task_id s"
  "pending_batches (fold (index_op cfg b) xs s) = pending_batches s"
  "tasks (fold (index_op cfg b) xs s) = tasks s" "task_network (fold (index_op cfg b) xs s) = task_network s"
proof -
  have "batch_id_counter (index_op cfg b op t) = batch_id_counter t \<and>
      task_id_counter (index_op cfg b op t) = task_id_counter t \<and>
      batch_message (index_op cfg b op t) = batch_message t \<and> batch_task_id (index_op cfg b op t) = batch_task_id t \<and>
      pending_batches (index_op cfg b op t) = pending_batches t \<and> tasks (index_op cfg b op t) = tasks t \<and>
      task_network (index_op cfg b op t) = task_network t" for op t
    by (cases op) simp_all
  then show "batch_id_counter (fold (index_op cfg b) xs s) = batch_id_counter s"
    "task_id_counter (fold (index_op cfg b) xs s) = task_id_counter s"
    "batch_message (fold (index_op cfg b) xs s) = batch_message s"
    "batch_task_id (fold (index_op cfg b) xs s) = batch_task_id s"
    "pending_batches (fold (index_op cfg b) xs s) = pending_batches s"
    "tasks (fold (index_op cfg b) xs s) = tasks s" "task_network (fold (index_op cfg b) xs s) = task_network s"
    by (induction xs arbitrary: s) simp_all
qed

lemma start_batch_started:
  assumes b: "batch_id_counter s \<noteq> - 1" and t: "task_id_counter s \<noteq> - 1"
  shows "started n [msg] s (start_batch cfg n msg s)"
proof -
  let ?s = "start_batch cfg n msg s" and ?b = "batch_id_counter s" and ?i = "task_id_counter s + 1"
  have i: "sat_succ (task_id_counter s) = ?i" "sat_add ?b 1 = ?b + 1"
    using sat_succ_not_max [OF t] sat_succ_not_max [OF b] by (simp_all add: sat_succ_def)
  have f: "batch_id_counter ?s = ?b + 1" "task_id_counter ?s = ?i" "batch_message ?s = (batch_message s)(?b \<mapsto> msg)"
    "batch_task_id ?s = (batch_task_id s)(?b \<mapsto> ?i)" "pending_batches ?s = sput ?b () (pending_batches s)"
    "tasks ?s = (tasks s)(?i \<mapsto> SubmitGatewayMessage ?b)" "task_network ?s = (task_network s)(?i \<mapsto> n)"
    by (simp_all add: start_batch_def create_task_def deposit_event_def Let_def index_ops_frame i)
  have new: "new_batch s (length [msg]) b \<longleftrightarrow> b = ?b" for b
    by (auto simp: new_batch_def word_unat_eq_iff)
  have "?i \<noteq> j" if "j \<le> task_id_counter s" for j
    using that unat_succ [OF t] by (auto simp: word_le_nat_alt)
  then show ?thesis
    using unat_succ [OF t] unat_succ [OF b] unfolding started_def new by (auto simp: f)
qed

section \<open>The loops\<close>

text \<open>
  The loop for one network, started with the builder \<open>b\<close>: what the builder held and the queue contained
  is, in this order, in the started batches, in the builder left and in the queue left.
\<close>

lemma batch_loop_started:
  assumes "\<And>m. queue_inv (ops_queued s) m"
    and "unat (batch_id_counter s) + length (ops b) + length (queue_list (ops_queued s) n) < 2 ^ 64 - 1"
    and "unat (task_id_counter s) + length (ops b) + length (queue_list (ops_queued s) n) < 2 ^ 64 - 1"
    and "batch_loop cfg n b k s = (b', k', s')"
  shows "\<exists>msgs. started n msgs s s' \<and> (\<forall>m\<in>set msgs. msg_ops m \<noteq> []) \<and>
    ops b @ queue_list (ops_queued s) n = concat (map msg_ops msgs) @ ops b' @ queue_list (ops_queued s') n \<and>
    (\<forall>m. queue_inv (ops_queued s') m) \<and> (\<forall>m. m \<noteq> n \<longrightarrow> queue_list (ops_queued s') m = queue_list (ops_queued s) m)"
  using assms
proof (induction cfg n b k s rule: batch_loop.induct)
  case (1 cfg n b k s)
  obtain x q where pop: "queue_pop n (ops_queued s) = (x, q)" by fastforce
  note pe = queue_impl.pop_eq [OF "1.prems"(1) pop]
  show ?case
  proof (cases x)
    case None
    moreover have "s\<lparr>ops_queued := ops_queued s\<rparr> = s" by (cases s) simp
    ultimately show ?thesis
      using "1.prems"(1,4) pop pe by (intro exI [of _ "[]"]) (auto simp: batch_loop.simps [of cfg n b k s])
  next
    case (Some op)
    let ?s = "s\<lparr>ops_queued := q\<rparr>"
    obtain m b1 where p: "batch_push op b = (m, b1)" by fastforce
    let ?ks = "start_some cfg n m (k, ?s)"
    let ?ms = "case m of None \<Rightarrow> [] | Some g \<Rightarrow> [g]"
    have q: "q = snd (queue_pop n (ops_queued s))" by (simp add: pop)
    have list: "queue_list (ops_queued s) n = op # queue_list q n" using pe Some by simp
    have push: "concat (map msg_ops ?ms) @ ops b1 = ops b @ [op]"
      using batch_push_ops [OF p] by (simp split: option.splits)
    have inv: "queue_inv q j" for j unfolding q by (rule queue_impl.pop_inv [OF "1.prems"(1) "1.prems"(1)])
    have other: "queue_list q j = queue_list (ops_queued s) j" if "j \<noteq> n" for j
      unfolding q by (rule queue_impl.pop_other [OF that])
    have "batch_id_counter ?s \<noteq> - 1" "task_id_counter ?s \<noteq> - 1"
      using "1.prems"(2,3) by (auto simp: unat_max)
    from start_batch_started [OF this] have st1: "started n ?ms ?s (snd ?ks)"
      by (simp add: start_some_def split: option.split)
    have "started n [] s ?s" by (simp add: started_def)
    from started_append [OF this st1] have st: "started n ?ms s (snd ?ks)" by simp
    have oq: "ops_queued (snd ?ks) = q" by simp
    have ne: "\<forall>g\<in>set ?ms. msg_ops g \<noteq> []" using batch_push_nonempty p by (auto split: option.split)
    have cnt: "unat (batch_id_counter (snd ?ks)) = unat (batch_id_counter s) + length ?ms"
      "unat (task_id_counter (snd ?ks)) = unat (task_id_counter s) + length ?ms"
      using st by (simp_all add: started_def)
    have len: "length ?ms + length (ops b1) \<le> length (ops b) + 1"
    proof (cases m)
      case (Some g)
      then have "length (msg_ops g) + length (ops b1) = length (ops b) + 1"
        using push by (metis length_append length_Cons list.size(3) concat.simps append_Nil2 list.simps(8,9)
            option.case(2) One_nat_def)
      moreover have "1 \<le> length (msg_ops g)" using ne Some by (simp add: Suc_le_eq)
      ultimately show ?thesis using Some by simp
    qed (use push in auto)
    show ?thesis
    proof (cases "fst ?ks = sat_pred (max_batches_per_block cfg)")
      case True
      then have r: "b' = b1" "s' = snd ?ks"
        using "1.prems"(4) pop Some p by (auto simp: batch_loop.simps [of cfg n b k s] Let_def)
      show ?thesis
        using st ne push list inv other oq by (intro exI [of _ ?ms]) (auto simp: r append_assoc [symmetric] simp del: append_assoc)
    next
      case False
      then have run: "batch_loop cfg n b1 (fst ?ks) (snd ?ks) = (b', k', s')"
        using "1.prems"(4) pop Some p by (simp add: batch_loop.simps [of cfg n b k s] Let_def)
      have "\<exists>msgs. started n msgs (snd ?ks) s' \<and> (\<forall>m\<in>set msgs. msg_ops m \<noteq> []) \<and>
          ops b1 @ queue_list q n = concat (map msg_ops msgs) @ ops b' @ queue_list (ops_queued s') n \<and>
          (\<forall>m. queue_inv (ops_queued s') m) \<and> (\<forall>m. m \<noteq> n \<longrightarrow> queue_list (ops_queued s') m = queue_list q m)"
        using "1.IH" [OF pop [symmetric] Some refl refl, unfolded p fst_conv snd_conv, OF False _ _ _ run]
          inv cnt len list "1.prems"(2,3) oq by simp
      then obtain msgs where ms: "started n msgs (snd ?ks) s'" "\<forall>m\<in>set msgs. msg_ops m \<noteq> []"
        "ops b1 @ queue_list q n = concat (map msg_ops msgs) @ ops b' @ queue_list (ops_queued s') n"
        "\<forall>m. queue_inv (ops_queued s') m" "\<forall>m. m \<noteq> n \<longrightarrow> queue_list (ops_queued s') m = queue_list q m" by blast
      have "ops b @ queue_list (ops_queued s) n = (ops b @ [op]) @ queue_list q n" by (simp add: list)
      also have "\<dots> = concat (map msg_ops ?ms) @ (ops b1 @ queue_list q n)" by (simp only: push [symmetric] append_assoc)
      finally show ?thesis
        using started_append [OF st ms(1)] ne ms other by (intro exI [of _ "?ms @ msgs"]) auto
    qed
  qed
qed

section \<open>Properties\<close>

text \<open>
  C8. The pass of \<open>prepare_batches\<close> over one network, with well-formed queues and batch identifiers and task
  identifiers left, loses no gateway operation and reorders none: the operations the network's queue
  held before are those of the batches started for the network, in order, followed by those still
  queued. No batch is empty; each is stored under a new id, is pending, and has a new task of the
  network that submits it. The queues of the other networks are untouched.
\<close>

theorem prepare_network_conserves:
  assumes inv: "\<And>m. queue_inv (ops_queued s) m"
    and bids: "unat (batch_id_counter s) + length (queue_list (ops_queued s) n) < 2 ^ 64 - 1"
    and tids: "unat (task_id_counter s) + length (queue_list (ops_queued s) n) < 2 ^ 64 - 1"
    and run: "prepare_network cfg nets n (k, s) = (k', s')"
  shows "\<exists>msgs. started n msgs s s' \<and> (\<forall>m\<in>set msgs. msg_ops m \<noteq> []) \<and>
    queue_list (ops_queued s) n = concat (map msg_ops msgs) @ queue_list (ops_queued s') n \<and>
    (\<forall>m. m \<noteq> n \<longrightarrow> queue_list (ops_queued s') m = queue_list (ops_queued s) m)"
proof -
  let ?b = "batch_builder_new (network_gas_limit nets n)"
  obtain b1 k1 s1 where loop: "batch_loop cfg n ?b k s = (b1, k1, s1)" by (metis prod_cases3)
  have empty: "ops ?b = []" by (simp add: batch_builder_new_def)
  from batch_loop_started [OF inv _ _ loop] bids tids empty
  obtain msgs where ms: "started n msgs s s1" "\<forall>m\<in>set msgs. msg_ops m \<noteq> []"
    "queue_list (ops_queued s) n = concat (map msg_ops msgs) @ ops b1 @ queue_list (ops_queued s1) n"
    "\<forall>m. m \<noteq> n \<longrightarrow> queue_list (ops_queued s1) m = queue_list (ops_queued s) m" by auto
  have s': "(k', s') = start_some cfg n (fst (take_batch b1)) (k1, s1)"
    using run loop by (simp add: prepare_network_def)
  show ?thesis
  proof (cases "ops b1 = []")
    case True
    with s' have "s' = s1" by (simp add: take_batch_def start_some_def)
    with ms True show ?thesis by auto
  next
    case False
    let ?m = "GatewayMessage (ops b1)"
    have s'': "s' = start_batch cfg n ?m s1" using s' False by (simp add: take_batch_def start_some_def)
    have len: "length msgs \<le> length (concat (map msg_ops msgs))"
      using ms(2)
    proof (induction msgs)
      case (Cons m msgs)
      then have "1 \<le> length (msg_ops m)" by (simp add: Suc_le_eq)
      with Cons show ?case by simp
    qed simp
    have "length msgs + length (ops b1) \<le> length (queue_list (ops_queued s) n)"
      using len unfolding ms(3) by simp
    then have "unat (batch_id_counter s1) < 2 ^ 64 - 1" "unat (task_id_counter s1) < 2 ^ 64 - 1"
      using ms(1) bids tids by (simp_all add: started_def)
    then have "batch_id_counter s1 \<noteq> - 1" "task_id_counter s1 \<noteq> - 1" by (auto simp: unat_max)
    from started_append [OF ms(1) start_batch_started [OF this]] have "started n (msgs @ [?m]) s s'"
      by (simp add: s'')
    with ms False show ?thesis by (intro exI [of _ "msgs @ [?m]"]) (auto simp: s'')
  qed
qed

theorem prepare_network_conserves_witness:
  "\<exists>msgs. started 1 msgs demo_online (snd (prepare_network test_config demo_networks 1 (0, demo_online))) \<and>
    [RegisterShard [7]] = concat (map msg_ops msgs) @
      queue_list (ops_queued (snd (prepare_network test_config demo_networks 1 (0, demo_online)))) 1"
proof -
  have list: "queue_list (ops_queued demo_online) 1 = [RegisterShard [7]]"
    by (simp add: queue_list_def demo_defs insert_i_def remove_i_def List.map_filter_simps)
  have inv: "queue_inv (ops_queued demo_online) m" for m
    by (cases "m = 1") (auto simp: queue_inv_def demo_defs insert_i_def remove_i_def split: if_splits)
  have "unat (batch_id_counter demo_online) = 0" "unat (task_id_counter demo_online) = 1" by (simp_all add: demo_defs)
  then show ?thesis
    using prepare_network_conserves [OF inv, of 1 test_config demo_networks 0
        "fst (prepare_network test_config demo_networks 1 (0, demo_online))"
        "snd (prepare_network test_config demo_networks 1 (0, demo_online))"] by (auto simp: list)
qed

definition two_networks :: tasks_store where
  "two_networks = empty_tasks\<lparr>read_events_task := [(1, 1), (2, 2)], task_id_counter := 2,
     ops_queued := \<lparr>insert_index = [1 \<mapsto> 1, 2 \<mapsto> 1], remove_index = Map.empty,
       items = [(1, 0) \<mapsto> RegisterShard [7], (2, 0) \<mapsto> RegisterShard [8]]\<rparr>\<rparr>"

definition two_networks_half :: tasks_store where
  "two_networks_half = two_networks\<lparr>
     ua_tasks := \<lparr>insert_index = [1 \<mapsto> 1], remove_index = Map.empty, items = [(1, 0) \<mapsto> 3]\<rparr>,
     ops_queued := \<lparr>insert_index = [1 \<mapsto> 1, 2 \<mapsto> 1], remove_index = [1 \<mapsto> 1],
       items = [(2, 0) \<mapsto> RegisterShard [8]]\<rparr>,
     task_id_counter := 3, task_count := (\<lambda>_. 0)(1 := 1), tasks := [3 \<mapsto> SubmitGatewayMessage 0],
     task_network := [3 \<mapsto> 1], shard_register_batch_id := [[7] \<mapsto> 0], batch_id_counter := 1,
     batch_message := [0 \<mapsto> GatewayMessage [RegisterShard [7]]], batch_task_id := [0 \<mapsto> 3],
     pending_batches := [(0, ())], tasks_events := [EvTaskCreated 3]\<rparr>"

definition one_batch_config :: config where
  "one_batch_config = test_config\<lparr>max_batches_per_block := 1\<rparr>"

lemma prepare_first_network:
  "prepare_network one_batch_config empty_networks 1 (0, two_networks) = (1, two_networks_half)"
  by (simp add: one_batch_config_def two_networks_half_def two_networks_def empty_tasks_def empty_networks_def tasks_eval)

lemma prepare_second_network:
  "fst (prepare_network one_batch_config empty_networks 2 (1, two_networks_half)) = 2"
  "batch_id_counter (snd (prepare_network one_batch_config empty_networks 2 (1, two_networks_half))) = 2"
  by (simp_all add: one_batch_config_def two_networks_half_def two_networks_def empty_tasks_def empty_networks_def tasks_eval)

text \<open>
  \<open>prepare_batches\<close> does not respect \<open>MaxBatchesPerBlock\<close>: the limit is only tested for equality
  with the limit minus one, and the flush of the builder after the loop is not counted against it.
  With a limit of one batch per block and two networks, two batches are started in one block.
\<close>

theorem prepare_batches_exceeds_limit:
  "unat (max_batches_per_block one_batch_config) = 1 \<and>
   unat (fst (prepare_batches one_batch_config empty_networks two_networks)) = 2 \<and>
   unat (batch_id_counter (snd (prepare_batches one_batch_config empty_networks two_networks))) =
     unat (batch_id_counter two_networks) + 2"
proof -
  have "siter (network_order one_batch_config) (read_events_task two_networks) = [(1, 1), (2, 2)]"
    by (simp add: siter_def two_networks_def one_batch_config_def test_config_def)
  then have "prepare_batches one_batch_config empty_networks two_networks =
      prepare_network one_batch_config empty_networks 2 (1, two_networks_half)"
    by (simp add: prepare_batches_def prepare_first_network)
  then show ?thesis
    by (simp add: prepare_second_network) (simp add: one_batch_config_def two_networks_def empty_tasks_def)
qed

end
