(* ===== verification/Tasks_Frame.thy ===== *)
theory Tasks_Frame
  imports Tasks_Correct
begin

text \<open>
  Only \<open>shard_online\<close> and \<open>shard_offline\<close> change which shards serve which network: every call and the
  block hook of the tasks pallet leave \<open>NetworkShards\<close> as it is.
\<close>

named_theorems shards_frame \<open>operations that leave the shards of the networks alone\<close>

lemma network_shards_fold:
  "(\<And>x s. network_shards (f x s) = network_shards s) \<Longrightarrow> network_shards (fold f xs s) = network_shards s"
  by (induction xs arbitrary: s) simp_all

lemma create_task_shards [shards_frame]: "network_shards (snd (create_task n t s)) = network_shards s"
  by (simp add: create_task_def deposit_event_def Let_def)

lemma finish_task_shards [shards_frame]: "network_shards (finish_task n i r s) = network_shards s"
  by (simp add: finish_task_def deposit_event_def Let_def split: option.split)

lemma read_gateway_events_shards:
  "read_gateway_events nets n s = Some (i, s') \<Longrightarrow> network_shards s' = network_shards s"
  by (auto simp: read_gateway_events_def Let_def split: option.splits) (metis create_task_shards snd_conv)

lemma process_event_shards [shards_frame]: "network_shards (process_event cfg n i e s) = network_shards s"
  by (cases e) (auto simp: deposit_event_def Let_def shards_frame split: option.split)

lemma process_events_shards [shards_frame]: "network_shards (process_events cfg n i es s) = network_shards s"
  unfolding process_events_def by (rule network_shards_fold) (simp add: shards_frame)

lemma continue_reading_shards: "continue_reading nets n s = Some s' \<Longrightarrow> network_shards s' = network_shards s"
  by (auto simp: continue_reading_def split: if_splits dest: read_gateway_events_shards)

lemma submit_task_result_shards:
  assumes "submit_task_result cfg nets shs orig i r s = Some (Inr s')"
  shows "network_shards s' = network_shards s"
  using assms
proof (cases rule: submit_task_result_cases)
  case already
  then show ?thesis by simp
next
  case (read signer sh n start stop es sig s1)
  have "network_shards s1 = network_shards s"
    using continue_reading_shards [OF read(8)] by (simp add: advance_sync_height_def)
  with read(9) show ?thesis by (simp add: shards_frame)
next
  case (submit signer sh n b err)
  then show ?thesis by (simp add: shards_frame)
qed

lemma submit_gmp_events_shards:
  "submit_gmp_events cfg orig n es s = Some (Inr s') \<Longrightarrow> network_shards s' = network_shards s"
proof -
  have "network_shards (fold reset_batch_output es s) = network_shards s"
    by (rule network_shards_fold) (simp add: reset_batch_output_def Let_def split: gmp_event.split option.split)
  then show "submit_gmp_events cfg orig n es s = Some (Inr s') \<Longrightarrow> network_shards s' = network_shards s"
    by (auto simp: submit_gmp_events_def shards_frame split: if_splits)
qed

lemma sync_network_shards: "sync_network cfg orig n h s = Some (Inr s') \<Longrightarrow> network_shards s' = network_shards s"
  by (auto simp: sync_network_def split: if_splits)

lemma stop_network_shards: "stop_network cfg orig n s = Some (Inr s') \<Longrightarrow> network_shards s' = network_shards s"
  by (auto simp: stop_network_def split: if_splits)

lemma remove_task_shards:
  assumes "remove_task cfg orig i s = Some (Inr s')"
  shows "network_shards s' = network_shards s"
proof -
  have "network_shards (fold (forget_message cfg) xs t) = network_shards t" for xs t
    by (rule network_shards_fold) (simp add: forget_message_def Let_def split: gateway_op.split)
  with assms show ?thesis
    by (auto simp: remove_task_def Let_def split: if_splits option.splits task.splits)
qed

lemma restart_batch_shards:
  "restart_batch cfg orig b s = Some (Inr s') \<Longrightarrow> network_shards s' = network_shards s"
  by (auto simp: restart_batch_def deposit_event_def split_beta Let_def shards_frame
      split: if_splits option.splits)

lemma start_batch_shards [shards_frame]: "network_shards (start_batch cfg n msg s) = network_shards s"
proof -
  have "network_shards (fold (index_op cfg b) xs t) = network_shards t" for b xs t
  proof (rule network_shards_fold)
    show "network_shards (index_op cfg b x u) = network_shards u" for x u by (cases x) simp_all
  qed
  then show ?thesis by (simp add: start_batch_def Let_def split_beta shards_frame)
qed

lemma start_some_shards [shards_frame]:
  "network_shards (snd (start_some cfg n m ks)) = network_shards (snd ks)"
  by (simp add: start_some_def shards_frame split: option.split)

lemma batch_loop_shards [shards_frame]:
  "network_shards (snd (snd (batch_loop cfg n b k s))) = network_shards s"
proof (induction cfg n b k s rule: batch_loop.induct)
  case (1 cfg n b k s)
  show ?case
  proof (cases "queue_pop n (ops_queued s)")
    case (Pair x q)
    show ?thesis
    proof (cases x)
      case None
      with Pair show ?thesis by (subst batch_loop.simps) simp
    next
      case (Some op)
      with Pair 1 show ?thesis
        by (subst batch_loop.simps) (simp add: Let_def shards_frame)
    qed
  qed
qed

lemma prepare_batches_shards: "network_shards (snd (prepare_batches cfg nets s)) = network_shards s"
proof -
  have "network_shards (snd (prepare_network cfg nets n ks)) = network_shards (snd ks)" for n ks
    by (simp add: prepare_network_def split_beta Let_def shards_frame)
  then have "network_shards (snd (fold (\<lambda>e. prepare_network cfg nets (fst e)) es ks)) = network_shards (snd ks)"
    for es :: "(network_id \<times> task_id) list" and ks
    by (induction es arbitrary: ks) simp_all
  then show ?thesis by (simp add: prepare_batches_def)
qed

lemma schedule_loop_shards [shards_frame]:
  "network_shards (snd (schedule_tasks_shard_loop c n sh k s)) = network_shards s"
  by (induction c n sh k s rule: schedule_tasks_shard_loop.induct)
    (simp_all add: assign_task_def split: prod.split option.split)

lemma assign_read_task_shards [shards_frame]:
  "network_shards (snd (snd (assign_read_task cfg limit i shards k s))) = network_shards s"
  by (induction shards) (simp_all add: assign_task_def)

lemma schedule_shards_shards [shards_frame]:
  "network_shards (snd (snd (schedule_shards cfg n t shards k s))) = network_shards s"
  by (induction shards arbitrary: k s)
    (simp_all add: schedule_tasks_shard_def shards_frame Let_def split_beta)

lemma schedule_network_shards:
  assumes "schedule_network cfg nets shs (n, i) k s = Some r"
  shows "network_shards (snd (snd r)) = network_shards s"
proof -
  obtain stop1 k1 s1 where first: "(if task_shard s i = None
      then assign_read_task cfg (shard_task_limit nets n) i (network_shard_list cfg s n) k s
      else (False, k, s)) = (stop1, k1, s1)" by (metis prod_cases3)
  then have "network_shards s1 = network_shards s"
    by (metis assign_read_task_shards snd_conv)
  with assms show ?thesis
    unfolding schedule_network_eq [OF first]
    by (auto simp: schedule_shards_shards simp del: schedule_shards.simps split: if_splits option.splits list.splits)
qed

lemma schedule_networks_shards:
  "schedule_networks cfg nets shs es k s = Some r \<Longrightarrow> network_shards (snd r) = network_shards s"
proof (induction es arbitrary: k s)
  case (Cons e es)
  then show ?case
    using schedule_network_shards [of cfg nets shs "fst e" "snd e" k s]
    by (fastforce split: option.splits if_splits)
qed auto

lemma tasks_on_initialize_shards:
  "tasks_on_initialize cfg nets shs s = Some s' \<Longrightarrow> network_shards s' = network_shards s"
  using prepare_batches_shards [of cfg nets s]
  by (auto simp: tasks_on_initialize_def schedule_tasks_def dest: schedule_networks_shards)

lemma gateway_registered_shards:
  "gateway_registered nets n b s = Some s' \<Longrightarrow> network_shards s' = network_shards s"
  by (auto simp: gateway_registered_def dest: read_gateway_events_shards)

lemma shard_online_shards:
  "shard_online nets shs sh n s = Some s' \<Longrightarrow> network_shards s' = sput (n, sh) () (network_shards s)"
  by (auto simp: shard_online_def Let_def split: if_splits option.splits)

lemma shard_offline_shards:
  "shard_offline cfg shs sh n s = Some s' \<Longrightarrow> network_shards s' = sdel (n, sh) (network_shards s)"
  by (auto simp: shard_offline_eq without_shard_def Let_def split: option.splits)

end
