(* ===== verification/Runtime_State.thy ===== *)
theory Runtime_State
  imports Tasks
begin

text \<open>
  The storage of \<open>pallets/members\<close> and \<open>pallets/elections\<close>, the queries of \<open>MembersInterface\<close>, and the
  storage of the whole runtime: the members, shards, elections, tasks and networks pallets call each
  other, so that an operation of one changes the storage of the others.
\<close>

datatype members_event =
    RegisteredMember account_id network_id peer_id
  | HeartbeatReceived account_id
  | MemberOnlineEvent account_id
  | MembersOfflineEvent "account_id list"
  | UnRegisteredMember account_id network_id

datatype members_error = NotMember | NotRegistered | AlreadySubmittedHeartbeat

record members_store =
  member_network :: "account_id \<rightharpoonup> network_id"
  member_peer_ids :: "account_id \<rightharpoonup> peer_id"
  member_public_keys :: "account_id \<rightharpoonup> public_key"
  members_online :: "account_id \<rightharpoonup> unit"
  heartbeats :: "(account_id, unit) smap"
  timed_out :: "account_id list"
  member_registered :: "account_id \<rightharpoonup> unit"
  members_events :: "members_event list"

definition empty_members :: members_store where
  "empty_members = \<lparr>
     member_network = Map.empty, member_peer_ids = Map.empty, member_public_keys = Map.empty,
     members_online = Map.empty, heartbeats = [], timed_out = [], member_registered = Map.empty,
     members_events = []\<rparr>"

record elections_store =
  network_counter :: u32
  unassigned :: "network_id \<Rightarrow> account_id list"

definition empty_elections :: elections_store where
  "empty_elections = \<lparr>network_counter = 0, unassigned = (\<lambda>_. [])\<rparr>"

record runtime =
  block_of :: block_number
  members_of :: members_store
  shards_of :: shards_store
  elections_of :: elections_store
  tasks_of :: tasks_store
  networks_of :: networks_store

definition empty_runtime :: runtime where
  "empty_runtime = \<lparr>
     block_of = 0, members_of = empty_members, shards_of = empty_shards,
     elections_of = empty_elections, tasks_of = empty_tasks, networks_of = empty_networks\<rparr>"

section \<open>Members interface\<close>

definition member_peer_id :: "members_store \<Rightarrow> account_id \<Rightarrow> peer_id option" where
  "member_peer_id s a = member_peer_ids s a"

definition member_public_key :: "members_store \<Rightarrow> account_id \<Rightarrow> public_key option" where
  "member_public_key s a = member_public_keys s a"

definition is_member_online :: "members_store \<Rightarrow> account_id \<Rightarrow> bool" where
  "is_member_online s a \<longleftrightarrow> members_online s a \<noteq> None"

definition is_member_registered :: "members_store \<Rightarrow> account_id \<Rightarrow> bool" where
  "is_member_registered s a \<longleftrightarrow> member_registered s a \<noteq> None"

text \<open>A member leaves for good once it is in no shard.\<close>

definition do_unregister_member :: "shards_store \<Rightarrow> account_id \<Rightarrow> members_store \<Rightarrow> members_store" where
  "do_unregister_member shs a s =
     (if \<not> is_shard_member shs a
      then s\<lparr>member_network := (member_network s)(a := None),
             member_peer_ids := (member_peer_ids s)(a := None),
             member_public_keys := (member_public_keys s)(a := None)\<rparr>
      else s)"

section \<open>Elections interface\<close>

text \<open>\<open>sort_by(|a, b| a.cmp(b).reverse())\<close>. Equal accounts are the same value, so stability is no concern.\<close>

definition sort_desc :: "account_id list \<Rightarrow> account_id list" where
  "sort_desc as = rev (sort as)"

text \<open>The loop of \<open>shard_offline\<close> over the members of the shards that went offline.\<close>

definition member_returns ::
  "shards_store \<Rightarrow> account_id \<Rightarrow> account_id list \<times> members_store \<Rightarrow> account_id list \<times> members_store" where
  "member_returns shs a bm =
     (if \<not> is_member_registered (snd bm) a then (fst bm, do_unregister_member shs a (snd bm))
      else if is_member_online (snd bm) a then (fst bm @ [a], snd bm)
      else bm)"

definition elections_shard_offline :: "network_id \<Rightarrow> account_id list \<Rightarrow> runtime \<Rightarrow> runtime" where
  "elections_shard_offline n ms rt =
     (let (batch, mem) = fold (member_returns (shards_of rt)) ms ([], members_of rt);
          el = elections_of rt
      in rt\<lparr>members_of := mem,
            elections_of := el\<lparr>unassigned := (unassigned el)(n := sort_desc (unassigned el n @ batch))\<rparr>\<rparr>)"

section \<open>Ordered maps\<close>

text \<open>\<open>entry(k).or_default().extend(xs)\<close> on a \<open>BTreeMap\<close> with a vector per key.\<close>

definition bt_extend :: "'k \<Rightarrow> 'a list \<Rightarrow> ('k, 'a list) smap \<Rightarrow> ('k, 'a list) smap" where
  "bt_extend k xs m = sput k (value_or [] (sget m k) @ xs) m"

section \<open>Lemmas\<close>

lemma mset_sort_desc [simp]: "mset (sort_desc as) = mset as"
  by (simp add: sort_desc_def)

lemma set_sort_desc [simp]: "set (sort_desc as) = set as"
  by (simp add: sort_desc_def)

lemma distinct_sort_desc [simp]: "distinct (sort_desc as) = distinct as"
  by (simp add: sort_desc_def)

lemma sorted_sort_desc: "sorted_wrt (\<ge>) (sort_desc as)"
  by (simp add: sort_desc_def sorted_wrt_rev)

lemma swf_bt_extend [simp]: "swf m \<Longrightarrow> swf (bt_extend k xs m)"
  by (simp add: bt_extend_def)

lemma sget_bt_extend [simp]:
  "sget (bt_extend k xs m) k' = (if k' = k then Some (value_or [] (sget m k) @ xs) else sget m k')"
  by (simp add: bt_extend_def)

text \<open>What the loop returns: the members that are still registered and online, in order.\<close>

lemma member_returns_fold:
  "fold (member_returns shs) ms (b, m) =
     (b @ filter (\<lambda>a. is_member_registered m a \<and> is_member_online m a) ms,
      fold (do_unregister_member shs) (filter (\<lambda>a. \<not> is_member_registered m a) ms) m)"
proof (induction ms arbitrary: b m)
  case (Cons a ms)
  have "is_member_registered (do_unregister_member shs a m) = is_member_registered m"
    "is_member_online (do_unregister_member shs a m) = is_member_online m"
    by (simp_all add: fun_eq_iff is_member_registered_def is_member_online_def do_unregister_member_def)
  then show ?case by (simp add: member_returns_def [of shs a "(b, m)"] Cons.IH)
qed simp

lemma elections_shard_offline_frame [simp]:
  "shards_of (elections_shard_offline n ms rt) = shards_of rt"
  "tasks_of (elections_shard_offline n ms rt) = tasks_of rt"
  "networks_of (elections_shard_offline n ms rt) = networks_of rt"
  "block_of (elections_shard_offline n ms rt) = block_of rt"
  "network_counter (elections_of (elections_shard_offline n ms rt)) = network_counter (elections_of rt)"
  by (simp_all add: elections_shard_offline_def Let_def split_beta)

lemma elections_shard_offline_unassigned:
  "unassigned (elections_of (elections_shard_offline n ms rt)) m =
     (if m = n then sort_desc (unassigned (elections_of rt) n @
        filter (\<lambda>a. is_member_registered (members_of rt) a \<and> is_member_online (members_of rt) a) ms)
      else unassigned (elections_of rt) m)"
  by (simp add: elections_shard_offline_def Let_def member_returns_fold)

end
