(* ===== verification/Shards.thy ===== *)
theory Shards
  imports Runtime_State
begin

text \<open>
  The operations of \<open>pallets/shards\<close>: the calls of the distributed key generation (\<open>commit\<close>,
  \<open>ready\<close>), its timeouts, shards going offline, and the interface the elections pallet uses to create
  shards and to report members going on- and offline.
\<close>

section \<open>Taking shards offline\<close>

text \<open>
  The first pass of \<open>remove_shards_offline\<close> for one shard. \<open>ShardNetwork\<close> and \<open>ShardThreshold\<close> are
  cleared before the tasks pallet is told, the members are drained after.
\<close>

definition remove_shard ::
  "config \<Rightarrow> shard_id \<Rightarrow> (network_id, account_id list) smap \<times> runtime \<Rightarrow>
     ((network_id, account_id list) smap \<times> runtime) option" where
  "remove_shard cfg i ur =
     (let (ups, rt) = ur; s = shards_of rt;
          s1 = s\<lparr>shard_state := (shard_state s)(i \<mapsto> SOffline),
                  shard_threshold := (shard_threshold s)(i := None),
                  shard_network := (shard_network s)(i := None)\<rparr>
      in (case shard_network s i of
            None \<Rightarrow> Some (ups, rt\<lparr>shards_of := s1\<rparr>)
          | Some n \<Rightarrow>
              (case shard_offline cfg s1 i n (tasks_of rt) of
                 None \<Rightarrow> None
               | Some t \<Rightarrow>
                   (let ms = shard_members cfg s1 i;
                        s2 = s1\<lparr>shard_member_status := sclear_prefix i (shard_member_status s1),
                                member_shard := member_shard s1 |` (- set ms)\<rparr>
                    in Some (bt_extend n ms ups, rt\<lparr>shards_of := s2, tasks_of := t\<rparr>)))))"

definition emit_shards :: "shards_event \<Rightarrow> shards_store \<Rightarrow> shards_store" where
  "emit_shards e s = s\<lparr>shards_events := shards_events s @ [e]\<rparr>"

definition remove_shards_offline :: "config \<Rightarrow> shard_id list \<Rightarrow> runtime \<Rightarrow> runtime option" where
  "remove_shards_offline cfg is rt =
     (case ofold (remove_shard cfg) is ([], rt) of
        None \<Rightarrow> None
      | Some (ups, rt1) \<Rightarrow>
          (let rt2 = fold (\<lambda>e. elections_shard_offline (fst e) (snd e)) (siter unat ups) rt1
           in Some (rt2\<lparr>shards_of := emit_shards (ShardsOffline is) (shards_of rt2)\<rparr>)))"

section \<open>Distributed key generation\<close>

text \<open>
  The sum of two commitments, element by element over the shorter of the two. An element that does
  not parse or a sum that has no encoding panics.
\<close>

fun add_commitments :: "config \<Rightarrow> commitment \<Rightarrow> commitment \<Rightarrow> commitment option" where
  "add_commitments cfg (g # gs) (c # cs) =
     (if schnorr_key_ok cfg g \<and> schnorr_key_ok cfg c
      then (case schnorr_add cfg g c of
              None \<Rightarrow> None
            | Some k \<Rightarrow> map_option ((#) k) (add_commitments cfg gs cs))
      else None)"
| "add_commitments cfg gs [] = Some gs"
| "add_commitments cfg [] cs = Some []"

text \<open>\<open>Iterator::reduce\<close>: \<open>Some None\<close> when there is no commitment, \<open>None\<close> when an addition panics.\<close>

definition group_commitment :: "config \<Rightarrow> commitment list \<Rightarrow> commitment option option" where
  "group_commitment cfg cs =
     (case cs of
        [] \<Rightarrow> Some None
      | c # cs' \<Rightarrow> map_option Some (ofold (\<lambda>x g. add_commitments cfg g x) cs' c))"

definition execute_commit ::
  "config \<Rightarrow> account_id \<Rightarrow> shard_id \<Rightarrow> commitment \<Rightarrow> proof_of_knowledge \<Rightarrow> runtime \<Rightarrow>
     (shards_error + runtime) option" where
  "execute_commit cfg a i c pok rt =
     (let s = shards_of rt
      in if sget (shard_member_status s) (i, a) \<noteq> Some Added then Some (Inl UnexpectedCommit)
         else if length c \<noteq> unat (value_or 0 (shard_threshold s i))
           then Some (Inl CommitmentLenNotEqualToThreshold)
         else if \<not> list_all (schnorr_key_ok cfg) c then Some (Inl InvalidVerifyingKeyInCommitment)
         else (case member_peer_id (members_of rt) a of
            None \<Rightarrow> Some (Inl MemberPeerIdNotFound)
          | Some p \<Rightarrow>
              if \<not> schnorr_verify_pok cfg p c pok then Some (Inl InvalidProofOfKnowledge)
              else
                (let s1 = s\<lparr>shard_member_status := sput (i, a) (Committed c) (shard_member_status s)\<rparr>
                 in if list_all is_committed (map snd (get_shard_members cfg s1 i))
                    then (case group_commitment cfg
                              (List.map_filter (\<lambda>e. status_commitment (snd e)) (get_shard_members cfg s1 i)) of
                            None \<Rightarrow> None
                          | Some None \<Rightarrow> Some (Inl InvalidCommitment)
                          | Some (Some g) \<Rightarrow> Some (Inr (rt\<lparr>shards_of :=
                              emit_shards (ShardCommitted i g) (s1\<lparr>
                                shard_commitment := (shard_commitment s1)(i \<mapsto> g),
                                shard_state := (shard_state s1)(i \<mapsto> SCommitted)\<rparr>)\<rparr>)))
                    else Some (Inr (rt\<lparr>shards_of := s1\<rparr>)))))"

definition execute_ready ::
  "config \<Rightarrow> account_id \<Rightarrow> shard_id \<Rightarrow> runtime \<Rightarrow> (shards_error + runtime) option" where
  "execute_ready cfg a i rt =
     (let s = shards_of rt
      in case sget (shard_member_status s) (i, a) of
           Some (Committed _) \<Rightarrow>
             (case shard_network s i of
                None \<Rightarrow> Some (Inl UnknownShardNetwork)
              | Some n \<Rightarrow>
                  (case shard_commitment s i of
                     None \<Rightarrow> Some (Inl UnknownShardCommitment)
                   | Some g \<Rightarrow>
                       (let s1 = s\<lparr>shard_member_status := sput (i, a) Ready (shard_member_status s)\<rparr>
                        in if list_all (\<lambda>e. snd e = Ready) (get_shard_members cfg s1 i)
                           then (case g of
                                   [] \<Rightarrow> None
                                 | k # _ \<Rightarrow>
                                     (let s2 = emit_shards (ShardOnline i k)
                                            (s1\<lparr>shard_state := (shard_state s1)(i \<mapsto> SOnline)\<rparr>)
                                      in (case shard_online (networks_of rt) s2 i n (tasks_of rt) of
                                            None \<Rightarrow> None
                                          | Some t \<Rightarrow> Some (Inr (rt\<lparr>shards_of := s2, tasks_of := t\<rparr>)))))
                           else Some (Inr (rt\<lparr>shards_of := s1\<rparr>)))))
         | _ \<Rightarrow> Some (Inl UnexpectedReady))"

section \<open>Calls and hooks\<close>

definition commit ::
  "config \<Rightarrow> origin \<Rightarrow> shard_id \<Rightarrow> commitment \<Rightarrow> proof_of_knowledge \<Rightarrow> runtime \<Rightarrow>
     (shards_error, runtime) dispatch" where
  "commit cfg orig i c pok rt =
     (case ensure_signed orig of
        None \<Rightarrow> Some (Inl BadOrigin)
      | Some a \<Rightarrow> dispatch_of (execute_commit cfg a i c pok rt))"

definition ready :: "config \<Rightarrow> origin \<Rightarrow> shard_id \<Rightarrow> runtime \<Rightarrow> (shards_error, runtime) dispatch" where
  "ready cfg orig i rt =
     (case ensure_signed orig of
        None \<Rightarrow> Some (Inl BadOrigin)
      | Some a \<Rightarrow> dispatch_of (execute_ready cfg a i rt))"

definition force_shard_offline ::
  "config \<Rightarrow> origin \<Rightarrow> shard_id \<Rightarrow> runtime \<Rightarrow> (shards_error, runtime) dispatch" where
  "force_shard_offline cfg orig i rt =
     (if \<not> admin_origin cfg orig then Some (Inl BadOrigin)
      else map_option Inr (remove_shards_offline cfg [i] rt))"

text \<open>The shards whose key generation did not finish in time.\<close>

definition dkg_expired :: "shards_store \<Rightarrow> shard_id \<Rightarrow> bool" where
  "dkg_expired s i \<longleftrightarrow> shard_state s i = Some SCreated \<or> shard_state s i = Some SCommitted"

definition timeout_dkgs :: "config \<Rightarrow> block_number \<Rightarrow> runtime \<Rightarrow> runtime option" where
  "timeout_dkgs cfg n rt =
     (let s = shards_of rt;
          drained = map fst (sprefix (id_order cfg) n (dkg_timeouts s));
          rm = filter (dkg_expired s) drained;
          rt1 = rt\<lparr>shards_of := s\<lparr>dkg_timeouts := sclear_prefix n (dkg_timeouts s)\<rparr>\<rparr>
      in (case (if rm \<noteq> [] then remove_shards_offline cfg rm rt1 else Some rt1) of
            None \<Rightarrow> None
          | Some rt2 \<Rightarrow> Some (rt2\<lparr>shards_of := (shards_of rt2)\<lparr>
              dkg_timeout_counter := (dkg_timeout_counter (shards_of rt2))(n := 0)\<rparr>\<rparr>)))"

definition shards_on_initialize :: "config \<Rightarrow> block_number \<Rightarrow> runtime \<Rightarrow> runtime option" where
  "shards_on_initialize cfg n rt = timeout_dkgs cfg n rt"

section \<open>Members going on- and offline\<close>

definition shards_member_online :: "account_id \<Rightarrow> shards_store \<Rightarrow> shards_store" where
  "shards_member_online a s =
     (case member_shard s a of
        None \<Rightarrow> s
      | Some i \<Rightarrow>
          (case shard_state s i of
             None \<Rightarrow> s
           | Some st \<Rightarrow>
               (let s1 = s\<lparr>shard_members_online := (shard_members_online s)(i := sat_succ (shard_members_online s i))\<rparr>
                in if st = SCreated \<or> st = SCommitted
                   then s1\<lparr>shard_state := (shard_state s1)(i \<mapsto> SOffline)\<rparr> else s1)))"

text \<open>The status of a shard when one of its members leaves and \<open>online\<close> of them remain.\<close>

fun status_after_leave :: "u16 \<Rightarrow> u32 \<Rightarrow> shard_status \<Rightarrow> shard_status" where
  "status_after_leave t online SCreated = SOffline"
| "status_after_leave t online SCommitted = SOffline"
| "status_after_leave t online SOnline = (if online < ucast t then SOffline else SOnline)"
| "status_after_leave t online SOffline = SOffline"

text \<open>The first pass of \<open>members_offline\<close>: counts and states are collected per shard, nothing is written.\<close>

definition member_leaves ::
  "shards_store \<Rightarrow> account_id \<Rightarrow> (shard_id, u32 \<times> shard_status option) smap \<times> shard_id list \<Rightarrow>
     (shard_id, u32 \<times> shard_status option) smap \<times> shard_id list" where
  "member_leaves s a ur =
     (case member_shard s a of
        None \<Rightarrow> ur
      | Some i \<Rightarrow>
          (let (ups, rm) = ur;
               e = value_or (ucast (shard_members_online s i), shard_state s i) (sget ups i);
               online = sat_sub (fst e) 1
           in (case (snd e, shard_threshold s i) of
                 (Some old, Some t) \<Rightarrow>
                   (let new = status_after_leave t online old
                    in (sput i (online, Some new) ups,
                        if new = SOffline \<and> old \<noteq> SOffline then rm @ [i] else rm))
               | _ \<Rightarrow> (sput i (online, snd e) ups, rm))))"

text \<open>The second pass writes them. A count that does not fit 16 bits is written as zero.\<close>

definition write_update :: "shard_id \<times> u32 \<times> shard_status option \<Rightarrow> shards_store \<Rightarrow> shards_store" where
  "write_update e s =
     (let (i, online, st) = e;
          s1 = s\<lparr>shard_members_online := (shard_members_online s)(i :=
                  if unat online < 2 ^ 16 then ucast online else 0)\<rparr>
      in (case st of None \<Rightarrow> s1 | Some x \<Rightarrow> s1\<lparr>shard_state := (shard_state s1)(i \<mapsto> x)\<rparr>))"

definition shards_members_offline :: "config \<Rightarrow> account_id list \<Rightarrow> runtime \<Rightarrow> runtime option" where
  "shards_members_offline cfg ms rt =
     (let (ups, rm) = fold (member_leaves (shards_of rt)) ms ([], []);
          rt1 = rt\<lparr>shards_of := fold write_update (siter unat ups) (shards_of rt)\<rparr>
      in if rm \<noteq> [] then remove_shards_offline cfg rm rt1 else Some rt1)"

section \<open>Creating shards and choosing signers\<close>

definition add_member :: "shard_id \<Rightarrow> account_id \<Rightarrow> shards_store \<Rightarrow> shards_store" where
  "add_member i a s = s\<lparr>
     shard_member_status := sput (i, a) Added (shard_member_status s),
     member_shard := (member_shard s)(a \<mapsto> i)\<rparr>"

definition create_shard ::
  "config \<Rightarrow> block_number \<Rightarrow> network_id \<Rightarrow> account_id list \<Rightarrow> u16 \<Rightarrow> shards_store \<Rightarrow>
     shards_error + (shard_id \<times> shards_store)" where
  "create_shard cfg block n ms threshold s =
     (let timeout_block = sat_add block (dkg_timeout cfg);
          counter = dkg_timeout_counter s timeout_block
      in if \<not> counter < max_elections_per_block cfg then Inl MaxShardsCreatedThisBlock
         else
           (let i = shard_id_counter s;
                s1 = s\<lparr>
                  dkg_timeout_counter := (dkg_timeout_counter s)(timeout_block := sat_succ counter),
                  shard_id_counter := sat_succ i,
                  shard_network := (shard_network s)(i \<mapsto> n),
                  shard_state := (shard_state s)(i \<mapsto> SCreated),
                  dkg_timeouts := sput (timeout_block, i) () (dkg_timeouts s),
                  shard_threshold := (shard_threshold s)(i \<mapsto> threshold)\<rparr>;
                s2 = fold (add_member i) ms s1;
                s3 = s2\<lparr>shard_members_online := (shard_members_online s2)(i := of_nat (length ms))\<rparr>
            in Inr (i, emit_shards (ShardCreated i n) s3)))"

text \<open>\<open>None\<close>: the index is out of range, or the member has no public key.\<close>

definition next_signer ::
  "config \<Rightarrow> members_store \<Rightarrow> shard_id \<Rightarrow> shards_store \<Rightarrow> (public_key \<times> shards_store) option" where
  "next_signer cfg mem i s =
     (let ms = get_shard_members cfg s i;
          idx = unat (signer_index s i)
      in if \<not> idx < length ms then None
         else (case member_public_key mem (fst (ms ! idx)) of
                 None \<Rightarrow> None
               | Some k \<Rightarrow>
                   (let next = (if of_nat (length ms) = sat_succ (signer_index s i) then 0
                                else sat_succ (signer_index s i))
                    in Some (k, s\<lparr>signer_index := (signer_index s)(i := next)\<rparr>))))"

end
