(* ===== verification/Elections.thy ===== *)
theory Elections
  imports Shards
begin

text \<open>
  The operations of \<open>pallets/elections\<close>: in every block the unassigned members of the networks are
  grouped into new shards, network after network, from where the last block stopped.
\<close>

section \<open>Electing the shards of a network\<close>

text \<open>
  Shards are created from the chunks until one is refused. Its members and those of the chunks after
  it are returned, with the number of shards created.
\<close>

fun create_shards ::
  "config \<Rightarrow> block_number \<Rightarrow> network_id \<Rightarrow> u16 \<Rightarrow> account_id list list \<Rightarrow> u32 \<times> shards_store \<Rightarrow>
     account_id list \<times> u32 \<times> shards_store" where
  "create_shards cfg block n t [] ks = ([], ks)"
| "create_shards cfg block n t (ms # mss) ks =
     (case create_shard cfg block n ms t (snd ks) of
        Inl _ \<Rightarrow> (concat (ms # mss), ks)
      | Inr (_, s') \<Rightarrow> create_shards cfg block n t mss (fst ks + 1, s'))"

text \<open>\<open>None\<close>: the division by a shard size of zero panics.\<close>

definition try_elect_shards :: "config \<Rightarrow> network_id \<Rightarrow> u32 \<Rightarrow> runtime \<Rightarrow> (u32 \<times> runtime) option" where
  "try_elect_shards cfg n max_elections rt =
     (let size = shard_size (networks_of rt) n;
          threshold = shard_threshold_of (networks_of rt) n;
          el = elections_of rt;
          waiting = unassigned el n
      in if size = 0 then None
         else
           (let num_elected = min (of_nat (length waiting) div ucast size) max_elections * ucast size :: u32;
                members = take (unat num_elected) waiting;
                (refused, k, s) = create_shards cfg (block_of rt) n threshold
                   (chunks (unat size) members) (0, shards_of rt)
            in Some (k, rt\<lparr>
                 shards_of := s,
                 elections_of := el\<lparr>unassigned :=
                   (unassigned el)(n := drop (unat num_elected) waiting @ refused)\<rparr>\<rparr>)))"

section \<open>Every block\<close>

text \<open>
  The loop over the networks. It returns the network counter and whether every network had its turn;
  \<open>None\<close> is a panic, or that \<open>fuel\<close> rounds were not enough.
\<close>

fun elect_loop ::
  "nat \<Rightarrow> config \<Rightarrow> network_id list \<Rightarrow> u32 \<Rightarrow> u32 \<Rightarrow> u32 \<Rightarrow> runtime \<Rightarrow> (u32 \<times> u32 \<times> bool \<times> runtime) option" where
  "elect_loop 0 cfg nets c0 c k rt = None"
| "elect_loop (Suc fuel) cfg nets c0 c k rt =
     (if \<not> k < max_elections_per_block cfg then Some (k, c, False, rt)
      else if \<not> unat c < length nets then Some (k, 0, False, rt)
      else (case try_elect_shards cfg (nets ! unat c) (sat_sub (max_elections_per_block cfg) k) rt of
              None \<Rightarrow> None
            | Some (elected, rt') \<Rightarrow>
                (let c' = (c + 1) mod of_nat (length nets); k' = sat_add k elected
                 in if c' = c0 then Some (k', c', True, rt')
                    else elect_loop fuel cfg nets c0 c' k' rt')))"

text \<open>One round per network is enough, and one more to leave the loop.\<close>

definition elections_on_initialize :: "config \<Rightarrow> runtime \<Rightarrow> (u32 \<times> runtime) option" where
  "elections_on_initialize cfg rt =
     (let nets = get_networks cfg (networks_of rt);
          c0 = network_counter (elections_of rt)
      in (case elect_loop (Suc (length nets)) cfg nets c0 c0 0 rt of
            None \<Rightarrow> None
          | Some (k, c, all_elected, rt') \<Rightarrow>
              Some (k, if all_elected then rt'
                       else rt'\<lparr>elections_of := (elections_of rt')\<lparr>network_counter := c\<rparr>\<rparr>)))"

section \<open>The interface to the members pallet\<close>

definition elections_member_online :: "account_id \<Rightarrow> network_id \<Rightarrow> runtime \<Rightarrow> runtime" where
  "elections_member_online a n rt =
     (let el = elections_of rt;
          rt1 = (if \<not> is_shard_member (shards_of rt) a
                 then rt\<lparr>elections_of := el\<lparr>unassigned := (unassigned el)(n := sort_desc (unassigned el n @ [a]))\<rparr>\<rparr>
                 else rt)
      in rt1\<lparr>shards_of := shards_member_online a (shards_of rt1)\<rparr>)"

definition elections_members_offline ::
  "config \<Rightarrow> account_id list \<Rightarrow> network_id \<Rightarrow> runtime \<Rightarrow> runtime option" where
  "elections_members_offline cfg ms n rt =
     (let el = elections_of rt
      in shards_members_offline cfg ms (rt\<lparr>elections_of := el\<lparr>unassigned :=
           (unassigned el)(n := filter (\<lambda>a. a \<notin> set ms) (unassigned el n))\<rparr>\<rparr>))"

end
