(* ===== verification/Members.thy ===== *)
theory Members
  imports Elections
begin

text \<open>
  The operations of \<open>pallets/members\<close>: registration of the nodes that run chronicle, their heartbeats,
  and the timeouts of those that stopped sending them.
\<close>

section \<open>Going on- and offline\<close>

definition emit_members :: "members_event \<Rightarrow> members_store \<Rightarrow> members_store" where
  "emit_members e s = s\<lparr>members_events := members_events s @ [e]\<rparr>"

definition member_online :: "account_id \<Rightarrow> network_id \<Rightarrow> runtime \<Rightarrow> runtime" where
  "member_online a n rt =
     (let m = members_of rt
      in elections_member_online a n (rt\<lparr>members_of :=
           emit_members (MemberOnlineEvent a) (m\<lparr>members_online := (members_online m)(a \<mapsto> ())\<rparr>)\<rparr>))"

definition members_offline :: "config \<Rightarrow> account_id list \<Rightarrow> network_id \<Rightarrow> runtime \<Rightarrow> runtime option" where
  "members_offline cfg ms n rt =
     (let m = members_of rt
      in elections_members_offline cfg ms n (rt\<lparr>members_of :=
           emit_members (MembersOfflineEvent ms) (m\<lparr>members_online := members_online m |` (- set ms)\<rparr>)\<rparr>))"

section \<open>Calls\<close>

definition execute_register_member ::
  "config \<Rightarrow> network_id \<Rightarrow> public_key \<Rightarrow> peer_id \<Rightarrow> runtime \<Rightarrow> members_error + runtime" where
  "execute_register_member cfg n key peer rt =
     (let a = into_account cfg key; m = members_of rt
      in Inr (rt\<lparr>members_of := emit_members (RegisteredMember a n peer) (m\<lparr>
           member_network := (member_network m)(a \<mapsto> n),
           member_public_keys := (member_public_keys m)(a \<mapsto> key),
           member_peer_ids := (member_peer_ids m)(a \<mapsto> peer),
           member_registered := (member_registered m)(a \<mapsto> ())\<rparr>)\<rparr>))"

definition execute_send_heartbeat :: "account_id \<Rightarrow> runtime \<Rightarrow> members_error + runtime" where
  "execute_send_heartbeat a rt =
     (if sget (heartbeats (members_of rt)) a \<noteq> None then Inl AlreadySubmittedHeartbeat
      else (case member_network (members_of rt) a of
              None \<Rightarrow> Inl NotMember
            | Some n \<Rightarrow>
                (let rt1 = (if \<not> is_member_online (members_of rt) a then member_online a n rt else rt);
                     m = members_of rt1
                 in Inr (rt1\<lparr>members_of := emit_members (HeartbeatReceived a) (m\<lparr>
                      heartbeats := sput a () (heartbeats m),
                      timed_out := filter (\<lambda>b. b \<noteq> a) (timed_out m)\<rparr>)\<rparr>))))"

definition execute_unregister_member :: "account_id \<Rightarrow> runtime \<Rightarrow> members_error + runtime" where
  "execute_unregister_member a rt =
     (let m = members_of rt
      in case member_network m a of
           None \<Rightarrow> Inl NotMember
         | Some n \<Rightarrow>
             if member_registered m a = None then Inl NotRegistered
             else Inr (rt\<lparr>members_of := emit_members (UnRegisteredMember a n)
                    (do_unregister_member (shards_of rt) a
                      (m\<lparr>member_registered := (member_registered m)(a := None)\<rparr>))\<rparr>))"

definition register_member ::
  "config \<Rightarrow> origin \<Rightarrow> network_id \<Rightarrow> public_key \<Rightarrow> peer_id \<Rightarrow> runtime \<Rightarrow> (members_error, runtime) dispatch" where
  "register_member cfg orig n key peer rt =
     (if \<not> admin_origin cfg orig then Some (Inl BadOrigin)
      else dispatch_of (Some (execute_register_member cfg n key peer rt)))"

definition unregister_member ::
  "config \<Rightarrow> origin \<Rightarrow> account_id \<Rightarrow> runtime \<Rightarrow> (members_error, runtime) dispatch" where
  "unregister_member cfg orig a rt =
     (if \<not> admin_origin cfg orig then Some (Inl BadOrigin)
      else dispatch_of (Some (execute_unregister_member a rt)))"

definition send_heartbeat :: "origin \<Rightarrow> runtime \<Rightarrow> (members_error, runtime) dispatch" where
  "send_heartbeat orig rt =
     (case ensure_signed orig of
        None \<Rightarrow> Some (Inl BadOrigin)
      | Some a \<Rightarrow> dispatch_of (Some (execute_send_heartbeat a rt)))"

section \<open>Timeouts\<close>

text \<open>
  The loop over the members that sent no heartbeat in the last period: the first
  \<open>MaxTimeoutsPerBlock\<close> of them that have a network go offline, the others wait.
\<close>

definition sort_timeout ::
  "config \<Rightarrow> members_store \<Rightarrow> account_id \<Rightarrow>
     u32 \<times> (network_id, account_id list) smap \<times> account_id list \<Rightarrow>
     u32 \<times> (network_id, account_id list) smap \<times> account_id list" where
  "sort_timeout cfg m a kcn =
     (let (k, current, next) = kcn
      in if k \<ge> max_timeouts_per_block cfg then (k, current, next @ [a])
         else (case member_network m a of
                 Some n \<Rightarrow> (k + 1, bt_extend n [a] current, next)
               | None \<Rightarrow> (k, current, next @ [a])))"

definition timeout_heartbeats :: "config \<Rightarrow> runtime \<Rightarrow> runtime option" where
  "timeout_heartbeats cfg rt =
     (let m = members_of rt;
          (k, current, next) = fold (sort_timeout cfg m) (timed_out m) (0, [], []);
          rt1 = rt\<lparr>members_of := m\<lparr>timed_out := []\<rparr>\<rparr>
      in (case ofold (\<lambda>e. members_offline cfg (snd e) (fst e)) (siter unat current) rt1 of
            None \<Rightarrow> None
          | Some rt2 \<Rightarrow>
              (let m2 = members_of rt2
               in Some (rt2\<lparr>members_of := m2\<lparr>
                    heartbeats := [],
                    timed_out := next @ map fst (siter (account_order cfg) (heartbeats m2))\<rparr>\<rparr>))))"

text \<open>\<open>None\<close> is also the remainder by a heartbeat timeout of zero.\<close>

definition members_on_initialize :: "config \<Rightarrow> block_number \<Rightarrow> runtime \<Rightarrow> runtime option" where
  "members_on_initialize cfg n rt =
     (if heartbeat_timeout cfg = 0 then None
      else if n mod heartbeat_timeout cfg = 0 then timeout_heartbeats cfg rt
      else Some rt)"

definition get_heartbeat_timeout :: "config \<Rightarrow> block_number" where
  "get_heartbeat_timeout cfg = heartbeat_timeout cfg"

section \<open>The runtime\<close>

text \<open>
  The hooks of a block, in the order in which \<open>runtime/src/lib.rs\<close> declares the pallets, after the
  system pallet has set the block number.
\<close>

definition initialize_block :: "config \<Rightarrow> block_number \<Rightarrow> runtime \<Rightarrow> runtime option" where
  "initialize_block cfg n rt =
     do {
       rt1 \<leftarrow> members_on_initialize cfg n (rt\<lparr>block_of := n\<rparr>);
       rt2 \<leftarrow> shards_on_initialize cfg n rt1;
       (k, rt3) \<leftarrow> elections_on_initialize cfg rt2;
       t \<leftarrow> tasks_on_initialize cfg (networks_of rt3) (shards_of rt3) (tasks_of rt3);
       Some (rt3\<lparr>tasks_of := t\<rparr>)
     }"

end
