(* ===== verification/Registration.thy ===== *)
theory Registration
  imports Runtime_State
begin

text \<open>
  The calls of \<open>pallets/networks\<close> that register a network: they tell the tasks pallet to read the
  events of its gateway.
\<close>

definition emit_networks :: "networks_event \<Rightarrow> networks_store \<Rightarrow> networks_store" where
  "emit_networks e s = s\<lparr>networks_events := networks_events s @ [e]\<rparr>"

definition insert_network :: "network_info \<Rightarrow> runtime \<Rightarrow> (networks_error + runtime) option" where
  "insert_network net rt =
     (let n = network_info_id net; s = networks_of rt
      in if known_networks s n \<noteq> None then Some (Inl NetworkExists)
         else
           (let s1 = s\<lparr>known_networks := (known_networks s)(n \<mapsto> n),
                       network_name := sput n (chain_name net) (network_name s)\<rparr>;
                configure = (\<lambda>rt'. case insert_network_config n (network_info_config net) (networks_of rt') of
                    Inl e \<Rightarrow> Some (Inl e)
                  | Inr s' \<Rightarrow> Some (Inr (rt'\<lparr>networks_of := s'\<rparr>)))
            in if Some (info_gateway net) \<noteq> network_gateway_address s1 n
               then (let s2 = s1\<lparr>
                           network_gateway_address := (network_gateway_address s1)(n \<mapsto> info_gateway net),
                           network_gateway_block := (network_gateway_block s1)(n \<mapsto> gateway_block net)\<rparr>
                     in (case gateway_registered s2 n (gateway_block net) (tasks_of rt) of
                           None \<Rightarrow> None
                         | Some t \<Rightarrow> configure (rt\<lparr>tasks_of := t, networks_of :=
                             emit_networks (NetworkRegistered n (info_gateway net) (gateway_block net)) s2\<rparr>)))
               else configure (rt\<lparr>networks_of := s1\<rparr>)))"

definition register_network ::
  "config \<Rightarrow> origin \<Rightarrow> network_info \<Rightarrow> runtime \<Rightarrow> (networks_error, runtime) dispatch" where
  "register_network cfg orig net rt =
     (if \<not> admin_origin cfg orig then Some (Inl BadOrigin)
      else dispatch_of (insert_network net rt))"

text \<open>At genesis a network that cannot be inserted panics.\<close>

definition genesis_networks :: "network_info list \<Rightarrow> runtime \<Rightarrow> runtime option" where
  "genesis_networks nets rt =
     ofold (\<lambda>net rt. case insert_network net rt of Some (Inr rt') \<Rightarrow> Some rt' | _ \<Rightarrow> None) nets rt"

end
