(* ===== verification/Runtime_Inv.thy ===== *)
theory Runtime_Inv
  imports Tasks_Frame Members Registration
begin

text \<open>
  The invariant of the runtime: what the pallets keep of their own storage, and that the storage of
  one pallet agrees with that of another. The shards that serve a network in the tasks pallet are
  exactly the online shards of that network in the shards pallet.
\<close>

section \<open>The invariant\<close>

text \<open>
  The shards storage on its own. \<open>members_ok\<close>: every account with a shard is a member of it, members and
  thresholds exist for shards with a network only, and shard ids come from the counter.
\<close>

definition members_ok :: "shards_store \<Rightarrow> bool" where
  "members_ok s \<longleftrightarrow>
     swf (shard_member_status s) \<and>
     (\<forall>i. shard_network s i \<noteq> None \<longrightarrow> i < shard_id_counter s) \<and>
     (\<forall>i. shard_network s i \<noteq> None \<longrightarrow> shard_threshold s i \<noteq> None) \<and>
     (\<forall>i. shard_threshold s i \<noteq> None \<longrightarrow> shard_network s i \<noteq> None) \<and>
     (\<forall>i a. sget (shard_member_status s) (i, a) \<noteq> None \<longrightarrow> shard_network s i \<noteq> None) \<and>
     (\<forall>i a. member_shard s a = Some i \<longrightarrow> sget (shard_member_status s) (i, a) \<noteq> None)"

text \<open>
  \<open>keys_ok\<close>: what the members and the shard committed to has the length of the threshold, only a shard with a
  group commitment has members that are ready, and every member of an online shard is.
\<close>

definition keys_ok :: "config \<Rightarrow> shards_store \<Rightarrow> bool" where
  "keys_ok cfg s \<longleftrightarrow>
     (\<forall>i. shard_commitment s i \<noteq> None \<longrightarrow> i < shard_id_counter s) \<and>
     (\<forall>i a c. sget (shard_member_status s) (i, a) = Some (Committed c) \<longrightarrow>
        shard_threshold s i = Some (of_nat (length c)) \<and> length c < 2 ^ 16 \<and> list_all (schnorr_key_ok cfg) c) \<and>
     (\<forall>i g. shard_network s i \<noteq> None \<longrightarrow> shard_commitment s i = Some g \<longrightarrow>
        shard_threshold s i = Some (of_nat (length g)) \<and> length g < 2 ^ 16) \<and>
     (\<forall>i a. sget (shard_member_status s) (i, a) = Some Ready \<longrightarrow> shard_commitment s i \<noteq> None) \<and>
     (\<forall>i. shard_network s i \<noteq> None \<longrightarrow> shard_state s i = Some SOnline \<longrightarrow>
        shard_commitment s i \<noteq> None \<and>
        (\<forall>a st. sget (shard_member_status s) (i, a) = Some st \<longrightarrow> st = Ready))"

text \<open>
  The two pallets agree, except for shards \<open>P\<close> that are about to be removed.
\<close>

definition serves_ok :: "shard_id set \<Rightarrow> shards_store \<Rightarrow> tasks_store \<Rightarrow> bool" where
  "serves_ok P s t \<longleftrightarrow>
     (\<forall>n i. i \<notin> P \<longrightarrow>
        (sget (network_shards t) (n, i) \<noteq> None \<longleftrightarrow> shard_network s i = Some n \<and> shard_state s i = Some SOnline))"

definition runtime_inv :: "config \<Rightarrow> shard_id set \<Rightarrow> runtime \<Rightarrow> bool" where
  "runtime_inv cfg P rt \<longleftrightarrow>
     members_ok (shards_of rt) \<and> keys_ok cfg (shards_of rt) \<and> networks_inv (networks_of rt) \<and>
     tasks_inv (shard_network (shards_of rt)) {} (tasks_of rt) \<and>
     serves_ok P (shards_of rt) (tasks_of rt)"

text \<open>No 64-bit counter has reached its last value.\<close>

definition in_range :: "runtime \<Rightarrow> bool" where
  "in_range rt \<longleftrightarrow> unsaturated (tasks_of rt) \<and> shard_id_counter (shards_of rt) \<noteq> - 1"

text \<open>
  What an operation promises, as for the tasks pallet alone: it starts with the shards \<open>P\<close> excepted and
  ends with \<open>Q\<close> excepted.
\<close>

definition rkeeps :: "config \<Rightarrow> shard_id set \<Rightarrow> runtime \<Rightarrow> shard_id set \<Rightarrow> runtime \<Rightarrow> bool" where
  "rkeeps cfg P rt Q rt' \<longleftrightarrow>
     (in_range rt' \<longrightarrow> in_range rt \<and> (runtime_inv cfg P rt \<longrightarrow> runtime_inv cfg Q rt'))"

lemma rkeeps_refl [simp]: "rkeeps cfg P rt P rt"
  by (simp add: rkeeps_def)

lemma rkeeps_trans [trans]: "rkeeps cfg P a Q b \<Longrightarrow> rkeeps cfg Q b R c \<Longrightarrow> rkeeps cfg P a R c"
  by (auto simp: rkeeps_def)

lemma runtime_inv_empty: "runtime_inv cfg {} empty_runtime"
  using networks_inv_empty tasks_inv_empty
  by (auto simp: runtime_inv_def empty_runtime_def members_ok_def keys_ok_def serves_ok_def empty_shards_def
      empty_tasks_def)

text \<open>The members and elections storage are not part of the invariant.\<close>

lemma rkeeps_frame [simp]:
  "rkeeps cfg P rt P (rt\<lparr>members_of := m\<rparr>)" "rkeeps cfg P rt P (rt\<lparr>elections_of := e\<rparr>)"
  "rkeeps cfg P rt P (rt\<lparr>block_of := b\<rparr>)"
  by (simp_all add: rkeeps_def runtime_inv_def in_range_def)

lemmas rkeeps_update = rkeeps_frame [THEN rkeeps_trans [rotated]]

text \<open>Nor are these fields of the shards storage.\<close>

lemma shards_frame_fields [simp]:
  "members_ok (s\<lparr>shards_events := ev\<rparr>) = members_ok s" "keys_ok cfg (s\<lparr>shards_events := ev\<rparr>) = keys_ok cfg s"
  "serves_ok P (s\<lparr>shards_events := ev\<rparr>) t = serves_ok P s t"
  "members_ok (s\<lparr>dkg_timeouts := d\<rparr>) = members_ok s" "keys_ok cfg (s\<lparr>dkg_timeouts := d\<rparr>) = keys_ok cfg s"
  "serves_ok P (s\<lparr>dkg_timeouts := d\<rparr>) t = serves_ok P s t"
  "members_ok (s\<lparr>dkg_timeout_counter := c\<rparr>) = members_ok s" "keys_ok cfg (s\<lparr>dkg_timeout_counter := c\<rparr>) = keys_ok cfg s"
  "serves_ok P (s\<lparr>dkg_timeout_counter := c\<rparr>) t = serves_ok P s t"
  "members_ok (s\<lparr>shard_members_online := o'\<rparr>) = members_ok s" "keys_ok cfg (s\<lparr>shard_members_online := o'\<rparr>) = keys_ok cfg s"
  "serves_ok P (s\<lparr>shard_members_online := o'\<rparr>) t = serves_ok P s t"
  "members_ok (s\<lparr>signer_index := k\<rparr>) = members_ok s" "keys_ok cfg (s\<lparr>signer_index := k\<rparr>) = keys_ok cfg s"
  "serves_ok P (s\<lparr>signer_index := k\<rparr>) t = serves_ok P s t"
  by (simp_all add: members_ok_def keys_ok_def serves_ok_def)

lemma rkeeps_shards_frame [simp]:
  "rkeeps cfg P rt P (rt\<lparr>shards_of := (shards_of rt)\<lparr>shards_events := ev\<rparr>\<rparr>)"
  "rkeeps cfg P rt P (rt\<lparr>shards_of := (shards_of rt)\<lparr>dkg_timeouts := d\<rparr>\<rparr>)"
  "rkeeps cfg P rt P (rt\<lparr>shards_of := (shards_of rt)\<lparr>dkg_timeout_counter := c\<rparr>\<rparr>)"
  "rkeeps cfg P rt P (rt\<lparr>shards_of := (shards_of rt)\<lparr>shard_members_online := o'\<rparr>\<rparr>)"
  by (simp_all add: rkeeps_def runtime_inv_def in_range_def)

lemmas rkeeps_shards_update = rkeeps_shards_frame [THEN rkeeps_trans [rotated]]

text \<open>The tasks invariant reads the network of the shards that serve one.\<close>

lemma tasks_inv_net:
  assumes "tasks_inv net R t" and "\<And>n i. sget (network_shards t) (n, i) \<noteq> None \<Longrightarrow> net' i = net i"
  shows "tasks_inv net' R t"
proof -
  have ok: "shards_ok net t" using assms(1) by (simp add: tasks_inv_def)
  have "shards_ok net' t"
    unfolding shards_ok_def
  proof (intro conjI allI impI)
    fix m i sh
    assume m: "sget (read_events_task t) m = Some i" and sh: "task_shard t i = Some sh"
    from ok sh obtain n where "sget (network_shards t) (n, sh) \<noteq> None" unfolding shards_ok_def by blast
    with assms(2) have "net' sh = net sh" by blast
    with ok m sh show "net' sh = Some m" unfolding shards_ok_def by metis
  qed (use ok assms(2) in \<open>auto simp: shards_ok_def\<close>)
  with assms(1) show ?thesis by (simp add: tasks_inv_def)
qed

lemma tasks_inv_serves:
  "tasks_inv net R t \<Longrightarrow> sget (network_shards t) (n, i) \<noteq> None \<Longrightarrow> net i = Some n"
  by (auto simp: tasks_inv_def shards_ok_def)

end
