(* ===== verification/Runtime_Keeps.thy ===== *)
theory Runtime_Keeps
  imports Runtime_Inv
begin

text \<open>Every operation of the shards, elections, members and networks pallets keeps the invariant of the runtime.\<close>

lemma membersD:
  assumes "members_ok s"
  shows "swf (shard_member_status s)" "shard_network s i \<noteq> None \<Longrightarrow> i < shard_id_counter s"
    "shard_network s i \<noteq> None \<Longrightarrow> shard_threshold s i \<noteq> None"
    "shard_threshold s i \<noteq> None \<Longrightarrow> shard_network s i \<noteq> None"
    "sget (shard_member_status s) (i, a) \<noteq> None \<Longrightarrow> shard_network s i \<noteq> None"
    "member_shard s a = Some i \<Longrightarrow> sget (shard_member_status s) (i, a) \<noteq> None"
  using assms unfolding members_ok_def by blast+

lemma keysD:
  assumes "keys_ok cfg s"
  shows "shard_commitment s i \<noteq> None \<Longrightarrow> i < shard_id_counter s"
    "sget (shard_member_status s) (i, a) = Some (Committed c) \<Longrightarrow>
      shard_threshold s i = Some (of_nat (length c)) \<and> length c < 2 ^ 16 \<and> list_all (schnorr_key_ok cfg) c"
    "shard_network s i \<noteq> None \<Longrightarrow> shard_commitment s i = Some g \<Longrightarrow>
      shard_threshold s i = Some (of_nat (length g)) \<and> length g < 2 ^ 16"
    "sget (shard_member_status s) (i, a) = Some Ready \<Longrightarrow> shard_commitment s i \<noteq> None"
    "shard_network s i \<noteq> None \<Longrightarrow> shard_state s i = Some SOnline \<Longrightarrow> shard_commitment s i \<noteq> None"
    "shard_network s i \<noteq> None \<Longrightarrow> shard_state s i = Some SOnline \<Longrightarrow>
      sget (shard_member_status s) (i, a) = Some st \<Longrightarrow> st = Ready"
  using assms unfolding keys_ok_def by blast+

lemma servesD: "serves_ok P s t \<Longrightarrow> i \<notin> P \<Longrightarrow>
    sget (network_shards t) (n, i) \<noteq> None \<longleftrightarrow> shard_network s i = Some n \<and> shard_state s i = Some SOnline"
  unfolding serves_ok_def by blast

lemma servesI:
  "(\<And>n i. i \<notin> P \<Longrightarrow> sget (network_shards t) (n, i) \<noteq> None \<longleftrightarrow>
      shard_network s i = Some n \<and> shard_state s i = Some SOnline) \<Longrightarrow> serves_ok P s t"
  unfolding serves_ok_def by blast

section \<open>Shards going offline\<close>

text \<open>The two stores of \<open>remove_shard\<close>.\<close>

definition marked_offline :: "shard_id \<Rightarrow> shards_store \<Rightarrow> shards_store" where
  "marked_offline i s = s\<lparr>shard_state := (shard_state s)(i \<mapsto> SOffline),
     shard_threshold := (shard_threshold s)(i := None), shard_network := (shard_network s)(i := None)\<rparr>"

definition without_members :: "config \<Rightarrow> shard_id \<Rightarrow> shards_store \<Rightarrow> shards_store" where
  "without_members cfg i s = (marked_offline i s)\<lparr>
     shard_member_status := sclear_prefix i (shard_member_status s),
     member_shard := member_shard s |` (- set (shard_members cfg s i))\<rparr>"

lemma remove_shard_cases:
  assumes "remove_shard cfg i (ups, rt) = Some (ups', rt')"
  obtains (unknown) "shard_network (shards_of rt) i = None" "ups' = ups"
      "rt' = rt\<lparr>shards_of := marked_offline i (shards_of rt)\<rparr>"
  | (known) n t where "shard_network (shards_of rt) i = Some n"
      "shard_offline cfg (marked_offline i (shards_of rt)) i n (tasks_of rt) = Some t"
      "ups' = bt_extend n (shard_members cfg (shards_of rt) i) ups"
      "rt' = rt\<lparr>shards_of := without_members cfg i (shards_of rt), tasks_of := t\<rparr>"
  using assms
  by (auto simp: remove_shard_def Let_def marked_offline_def [symmetric] without_members_def split: option.splits)
    (auto simp: marked_offline_def shard_members_def)

lemma marked_offline_ok:
  assumes "shard_network s i = None" "members_ok s" "keys_ok cfg s"
  shows "members_ok (marked_offline i s)" "keys_ok cfg (marked_offline i s)"
proof -
  have t: "shard_threshold s i = None" using membersD(4) [OF assms(2), of i] assms(1) by blast
  have n: "(shard_network s)(i := None) = shard_network s" "(shard_threshold s)(i := None) = shard_threshold s"
    using assms(1) t by auto
  show "members_ok (marked_offline i s)" using assms(2) by (simp add: marked_offline_def n members_ok_def)
  show "keys_ok cfg (marked_offline i s)"
    using assms(3,1) by (auto simp: marked_offline_def n keys_ok_def)
qed

lemma without_members_ok:
  assumes m: "members_ok s" and k: "keys_ok cfg s"
  shows "members_ok (without_members cfg i s)" "keys_ok cfg (without_members cfg i s)"
proof -
  note swf = membersD(1) [OF m]
  let ?s = "without_members cfg i s"
  have f: "shard_network ?s = (shard_network s)(i := None)" "shard_threshold ?s = (shard_threshold s)(i := None)"
    "shard_id_counter ?s = shard_id_counter s" "shard_commitment ?s = shard_commitment s"
    "shard_state ?s = (shard_state s)(i \<mapsto> SOffline)"
    "shard_member_status ?s = sclear_prefix i (shard_member_status s)"
    by (simp_all add: without_members_def marked_offline_def)
  have ms: "member_shard ?s a = Some j \<longleftrightarrow> member_shard s a = Some j \<and> a \<notin> set (shard_members cfg s i)" for a j
    by (auto simp: without_members_def restrict_map_def)
  show "members_ok ?s"
    unfolding members_ok_def
  proof (intro conjI allI impI)
    fix j a
    show "sget (shard_member_status ?s) (j, a) \<noteq> None" if "member_shard ?s a = Some j"
      using that membersD(6) [OF m, of a j] set_shard_members [OF swf, of cfg i] by (auto simp: ms f)
    show "shard_network ?s j \<noteq> None" if "sget (shard_member_status ?s) (j, a) \<noteq> None"
      using that membersD(5) [OF m, of j a] by (auto simp: f split: if_splits)
  next
    fix j
    show "shard_threshold ?s j \<noteq> None" if "shard_network ?s j \<noteq> None"
      using that membersD(3) [OF m, of j] by (auto simp: f split: if_splits)
    show "shard_network ?s j \<noteq> None" if "shard_threshold ?s j \<noteq> None"
      using that membersD(4) [OF m, of j] by (auto simp: f split: if_splits)
    show "j < shard_id_counter ?s" if "shard_network ?s j \<noteq> None"
      using that membersD(2) [OF m, of j] by (auto simp: f split: if_splits)
  qed (simp add: f swf)
  show "keys_ok cfg ?s"
    using k unfolding keys_ok_def f by (auto split: if_splits)
qed

lemma remove_shard_keeps:
  assumes "remove_shard cfg i (ups, rt) = Some (ups', rt')"
  shows "rkeeps cfg P rt (P - {i}) rt'"
  using assms
proof (cases rule: remove_shard_cases)
  case unknown
  have "runtime_inv cfg (P - {i}) rt'" if inv: "runtime_inv cfg P rt"
  proof -
    have n: "shard_network (marked_offline i (shards_of rt)) = shard_network (shards_of rt)"
      using unknown(1) by (auto simp: marked_offline_def)
    have t: "tasks_inv (shard_network (shards_of rt)) {} (tasks_of rt)" using inv by (simp add: runtime_inv_def)
    have no: "sget (network_shards (tasks_of rt)) (m, i) = None" for m
      using tasks_inv_serves [OF t, of m i] unknown(1) by (metis option.distinct(1))
    have "serves_ok (P - {i}) (marked_offline i (shards_of rt)) (tasks_of rt)"
    proof (rule servesI)
      fix m j
      assume "j \<notin> P - {i}"
      then show "sget (network_shards (tasks_of rt)) (m, j) \<noteq> None \<longleftrightarrow>
          shard_network (marked_offline i (shards_of rt)) j = Some m \<and>
          shard_state (marked_offline i (shards_of rt)) j = Some SOnline"
        using inv no servesD [of P "shards_of rt" "tasks_of rt" j m]
        by (cases "j = i") (auto simp: runtime_inv_def n marked_offline_def)
    qed
    with inv marked_offline_ok [where cfg = cfg, OF unknown(1)] show ?thesis by (simp add: unknown(3) runtime_inv_def n)
  qed
  then show ?thesis by (simp add: rkeeps_def unknown(3) in_range_def marked_offline_def)
next
  case (known n t)
  let ?s = "without_members cfg i (shards_of rt)"
  have k: "keeps (shard_network (shards_of rt)) (tasks_of rt) t"
    by (rule shard_offline_keeps [where net = "shard_network (shards_of rt)", OF known(2,1)])
  have sh: "network_shards t = sdel (n, i) (network_shards (tasks_of rt))"
    by (rule shard_offline_shards [OF known(2)])
  have f: "shard_network ?s = (shard_network (shards_of rt))(i := None)"
    "shard_state ?s = (shard_state (shards_of rt))(i \<mapsto> SOffline)"
    "shard_id_counter ?s = shard_id_counter (shards_of rt)"
    by (simp_all add: without_members_def marked_offline_def)
  have "runtime_inv cfg (P - {i}) rt'" if inv: "runtime_inv cfg P rt" and uns: "unsaturated t"
  proof -
    have t: "tasks_inv (shard_network (shards_of rt)) {} t" using k uns inv by (simp add: keeps_def runtime_inv_def)
    have no: "sget (network_shards t) (m, i) = None" for m
    proof (cases "m = n")
      case False
      then have "shard_network (shards_of rt) i \<noteq> Some m" using known(1) by simp
      then show ?thesis using tasks_inv_serves [OF t, of m i] by blast
    qed (simp add: sh)
    have "tasks_inv (shard_network ?s) {} t"
      by (rule tasks_inv_net [OF t]) (use no in \<open>auto simp: f\<close>)
    moreover have "serves_ok (P - {i}) ?s t"
    proof (rule servesI)
      fix m j
      assume "j \<notin> P - {i}"
      then show "sget (network_shards t) (m, j) \<noteq> None \<longleftrightarrow> shard_network ?s j = Some m \<and> shard_state ?s j = Some SOnline"
        using inv no servesD [of P "shards_of rt" "tasks_of rt" j m]
        by (cases "j = i") (auto simp: runtime_inv_def f sh)
    qed
    moreover have "members_ok ?s" "keys_ok cfg ?s"
      using inv without_members_ok by (auto simp: runtime_inv_def)
    ultimately show ?thesis using inv by (simp add: known(4) runtime_inv_def)
  qed
  with k show ?thesis by (auto simp: rkeeps_def in_range_def known(4) f keeps_def)
qed

lemma remove_loop_keeps:
  "ofold (remove_shard cfg) is ur = Some ur' \<Longrightarrow> rkeeps cfg P (snd ur) (P - set is) (snd ur')"
proof (induction "is" arbitrary: ur P)
  case (Cons i "is")
  obtain v where v: "remove_shard cfg i ur = Some v" "ofold (remove_shard cfg) is v = Some ur'"
    using Cons.prems by (auto split: option.splits)
  have "rkeeps cfg P (snd ur) (P - {i}) (snd v)"
    using remove_shard_keeps [of cfg i "fst ur" "snd ur" "fst v" "snd v"] v(1) by simp
  also have "rkeeps cfg (P - {i}) (snd v) (P - {i} - set is) (snd ur')" by (rule Cons.IH [OF v(2)])
  finally show ?case by (simp add: Diff_insert2 [symmetric])
qed simp

lemma elections_shard_offline_keeps [simp]: "rkeeps cfg P rt P (elections_shard_offline n ms rt)"
  by (auto simp: elections_shard_offline_def Let_def split: prod.split intro: rkeeps_update)

lemma rkeeps_fold: "(\<And>x rt. rkeeps cfg P rt P (f x rt)) \<Longrightarrow> rkeeps cfg P rt P (fold f xs rt)"
proof (induction xs arbitrary: rt)
  case (Cons x xs)
  have "rkeeps cfg P rt P (f x rt)" by (rule Cons.prems)
  also have "rkeeps cfg P (f x rt) P (fold f xs (f x rt))" by (rule Cons.IH [OF Cons.prems])
  finally show ?case by simp
qed simp

lemma remove_shards_offline_keeps:
  assumes "remove_shards_offline cfg is rt = Some rt'"
  shows "rkeeps cfg P rt (P - set is) rt'"
proof -
  obtain ups rt1 where 1: "ofold (remove_shard cfg) is ([], rt) = Some (ups, rt1)"
    using assms by (auto simp: remove_shards_offline_def split: option.splits)
  let ?rt2 = "fold (\<lambda>e. elections_shard_offline (fst e) (snd e)) (siter unat ups) rt1"
  have rt': "rt' = ?rt2\<lparr>shards_of := (shards_of ?rt2)\<lparr>shards_events := shards_events (shards_of ?rt2) @ [ShardsOffline is]\<rparr>\<rparr>"
    using assms 1 by (simp add: remove_shards_offline_def emit_shards_def Let_def)
  from remove_loop_keeps [OF 1, of P] have "rkeeps cfg P rt (P - set is) rt1" by simp
  also have "rkeeps cfg (P - set is) rt1 (P - set is) ?rt2" by (rule rkeeps_fold) simp
  also have "rkeeps cfg (P - set is) ?rt2 (P - set is) rt'" by (simp add: rt')
  finally show ?thesis .
qed

section \<open>Key generation\<close>

lemma execute_commit_cases:
  assumes "execute_commit cfg a i c pok rt = Some (Inr rt')"
  obtains s1 p where
    "sget (shard_member_status (shards_of rt)) (i, a) = Some Added"
    "length c = unat (value_or 0 (shard_threshold (shards_of rt) i))"
    "list_all (schnorr_key_ok cfg) c"
    "member_peer_id (members_of rt) a = Some p" "schnorr_verify_pok cfg p c pok"
    "s1 = (shards_of rt)\<lparr>shard_member_status := sput (i, a) (Committed c) (shard_member_status (shards_of rt))\<rparr>"
    "if list_all is_committed (map snd (get_shard_members cfg s1 i))
     then \<exists>g. group_commitment cfg
           (List.map_filter (\<lambda>e. status_commitment (snd e)) (get_shard_members cfg s1 i)) = Some (Some g) \<and>
         rt' = rt\<lparr>shards_of := emit_shards (ShardCommitted i g) (s1\<lparr>
           shard_commitment := (shard_commitment s1)(i \<mapsto> g), shard_state := (shard_state s1)(i \<mapsto> SCommitted)\<rparr>)\<rparr>
     else rt' = rt\<lparr>shards_of := s1\<rparr>"
  using assms
  by (auto simp: execute_commit_def Let_def split: if_splits option.splits)

lemma execute_ready_cases:
  assumes "execute_ready cfg a i rt = Some (Inr rt')"
  obtains c n g s1 where
    "sget (shard_member_status (shards_of rt)) (i, a) = Some (Committed c)"
    "shard_network (shards_of rt) i = Some n" "shard_commitment (shards_of rt) i = Some g"
    "s1 = (shards_of rt)\<lparr>shard_member_status := sput (i, a) Ready (shard_member_status (shards_of rt))\<rparr>"
    "if list_all (\<lambda>e. snd e = Ready) (get_shard_members cfg s1 i)
     then \<exists>k gs s2 t. g = k # gs \<and>
       s2 = emit_shards (ShardOnline i k) (s1\<lparr>shard_state := (shard_state s1)(i \<mapsto> SOnline)\<rparr>) \<and>
       shard_online (networks_of rt) s2 i n (tasks_of rt) = Some t \<and>
       rt' = rt\<lparr>shards_of := s2, tasks_of := t\<rparr>
     else rt' = rt\<lparr>shards_of := s1\<rparr>"
  using assms
  by (auto simp: execute_ready_def Let_def split: if_splits option.splits member_status.splits list.splits)

lemma add_commitments_length: "add_commitments cfg g c = Some r \<Longrightarrow> length r = length g"
  by (induction cfg g c arbitrary: r rule: add_commitments.induct) (auto split: if_splits option.splits)

lemma group_commitment_length:
  assumes "group_commitment cfg cs = Some (Some g)" and "\<And>c. c \<in> set cs \<Longrightarrow> length c = l"
  shows "length g = l" "cs \<noteq> []"
proof -
  obtain c cs' where cs: "cs = c # cs'" and f: "ofold (\<lambda>x g. add_commitments cfg g x) cs' c = Some g"
    using assms(1) by (auto simp: group_commitment_def split: list.splits)
  show "length g = l"
    by (rule ofold_invariant [OF f]) (use assms(2) cs add_commitments_length in auto)
  show "cs \<noteq> []" by (simp add: cs)
qed

lemma get_shard_members_iff: "swf (shard_member_status s) \<Longrightarrow>
    (a, st) \<in> set (get_shard_members cfg s i) \<longleftrightarrow> sget (shard_member_status s) (i, a) = Some st"
  by (simp add: get_shard_members_def sprefix_iff)

text \<open>A member that committed, or is ready, in a shard that is not online yet.\<close>

lemma set_status_ok:
  assumes m: "members_ok s" and old: "sget (shard_member_status s) (i, a) \<noteq> None"
  shows "members_ok (s\<lparr>shard_member_status := sput (i, a) st (shard_member_status s)\<rparr>)"
  using m membersD(5) [OF m old] unfolding members_ok_def by (auto; blast)

lemma commit_status_ok:
  assumes m: "members_ok s" and k: "keys_ok cfg s"
    and old: "sget (shard_member_status s) (i, a) = Some Added"
    and len: "length c = unat (value_or 0 (shard_threshold s i))" and ok: "list_all (schnorr_key_ok cfg) c"
  shows "keys_ok cfg (s\<lparr>shard_member_status := sput (i, a) (Committed c) (shard_member_status s)\<rparr>)"
proof -
  have net: "shard_network s i \<noteq> None" using membersD(5) [OF m, of i a] old by simp
  then obtain t where t: "shard_threshold s i = Some t" using membersD(3) [OF m, of i] by auto
  then have l: "shard_threshold s i = Some (of_nat (length c))" "length c < 2 ^ 16"
    using len unat_u16_less [of t] by auto
  have "shard_state s i \<noteq> Some SOnline" using keysD(6) [OF k net _ old] by blast
  with k l ok show ?thesis unfolding keys_ok_def by auto
qed

lemma execute_commit_keeps:
  assumes "execute_commit cfg a i c pok rt = Some (Inr rt')"
  shows "rkeeps cfg {} rt {} rt'"
  using assms
proof (cases rule: execute_commit_cases)
  case (1 s1 p)
  let ?s = "shards_of rt"
  have "runtime_inv cfg {} rt'" if inv: "runtime_inv cfg {} rt"
  proof -
    have m: "members_ok ?s" and k: "keys_ok cfg ?s" and sv: "serves_ok {} ?s (tasks_of rt)"
      using inv by (simp_all add: runtime_inv_def)
    have m1: "members_ok s1" unfolding 1(6) by (rule set_status_ok [OF m]) (simp add: 1(1))
    have k1: "keys_ok cfg s1" unfolding 1(6) by (rule commit_status_ok [OF m k 1(1-3)])
    have sv1: "serves_ok {} s1 (tasks_of rt)" using sv by (simp add: serves_ok_def 1(6))
    have net: "shard_network s1 = shard_network ?s" by (simp add: 1(6))
    have live: "shard_network s1 i \<noteq> None" using membersD(5) [OF m, of i a] 1(1) by (simp add: 1(6))
    show ?thesis
    proof (cases "list_all is_committed (map snd (get_shard_members cfg s1 i))")
      case False
      with 1(7) inv m1 k1 sv1 show ?thesis by (simp add: runtime_inv_def net)
    next
      case True
      let ?cs = "List.map_filter (\<lambda>e. status_commitment (snd e)) (get_shard_members cfg s1 i)"
      obtain g where g: "group_commitment cfg ?cs = Some (Some g)" and
        rt': "rt' = rt\<lparr>shards_of := emit_shards (ShardCommitted i g) (s1\<lparr>
           shard_commitment := (shard_commitment s1)(i \<mapsto> g), shard_state := (shard_state s1)(i \<mapsto> SCommitted)\<rparr>)\<rparr>"
        using 1(7) True by auto
      obtain t where t: "shard_threshold s1 i = Some t" using membersD(3) [OF m1 live] by auto
      have "length c' = unat t" if "c' \<in> set ?cs" for c'
      proof -
        from that obtain b st where "(b, st) \<in> set (get_shard_members cfg s1 i)" "status_commitment st = Some c'"
          by (auto simp: List.map_filter_def)
        then have "sget (shard_member_status s1) (i, b) = Some (Committed c')"
          using get_shard_members_iff [OF membersD(1) [OF m1]] by (cases st) auto
        from keysD(2) [OF k1 this] t show ?thesis by (auto simp: unat_of_nat take_bit_nat_eq_self)
      qed
      from group_commitment_length(1) [OF g this] have l: "length g = unat t" by blast
      have b: "i < shard_id_counter s1" using membersD(2) [OF m1 live] .
      have no_online: "shard_state s1 i \<noteq> Some SOnline"
        using keysD(6) [OF k, of i a Added] live 1(1) by (auto simp: 1(6))
      have "keys_ok cfg (shards_of rt')"
        using k1 l b t unat_u16_less [of t] by (auto simp: keys_ok_def rt' emit_shards_def)
      moreover have "members_ok (shards_of rt')"
        using m1 by (simp add: members_ok_def rt' emit_shards_def)
      moreover have "serves_ok {} (shards_of rt') (tasks_of rt')"
        using sv1 no_online by (auto simp: serves_ok_def rt' emit_shards_def)
      moreover have "shard_network (shards_of rt') = shard_network ?s" by (simp add: rt' emit_shards_def net)
      ultimately show ?thesis using inv by (simp add: runtime_inv_def) (simp add: rt')
    qed
  qed
  moreover have "in_range rt' = in_range rt"
    using 1(6,7) by (auto simp: in_range_def emit_shards_def split: if_splits)
  ultimately show ?thesis by (simp add: rkeeps_def)
qed

lemma execute_ready_keeps:
  assumes "execute_ready cfg a i rt = Some (Inr rt')"
  shows "rkeeps cfg {} rt {} rt'"
  using assms
proof (cases rule: execute_ready_cases)
  case (1 c n g s1)
  let ?s = "shards_of rt"
  have net: "shard_network s1 = shard_network ?s" by (simp add: 1(4))
  have first: "members_ok s1 \<and> keys_ok cfg s1 \<and> serves_ok {} s1 (tasks_of rt) \<and> shard_state ?s i \<noteq> Some SOnline"
    if inv: "runtime_inv cfg {} rt"
  proof -
    have m: "members_ok ?s" and k: "keys_ok cfg ?s" and sv: "serves_ok {} ?s (tasks_of rt)"
      using inv by (simp_all add: runtime_inv_def)
    have "members_ok s1" unfolding 1(4) by (rule set_status_ok [OF m]) (simp add: 1(1))
    moreover have off: "shard_state ?s i \<noteq> Some SOnline" using keysD(6) [OF k _ _ 1(1)] 1(2) by auto
    moreover have "keys_ok cfg s1" using k 1(3) off unfolding keys_ok_def 1(4) by auto
    moreover have "serves_ok {} s1 (tasks_of rt)" using sv by (simp add: serves_ok_def 1(4))
    ultimately show ?thesis by blast
  qed
  show ?thesis
  proof (cases "list_all (\<lambda>e. snd e = Ready) (get_shard_members cfg s1 i)")
    case False
    then have rt': "rt' = rt\<lparr>shards_of := s1\<rparr>" using 1(5) by simp
    show ?thesis using first by (simp add: rkeeps_def rt' in_range_def runtime_inv_def net) (simp add: 1(4))
  next
    case True
    obtain k gs s2 t where g: "g = k # gs"
      and s2: "s2 = emit_shards (ShardOnline i k) (s1\<lparr>shard_state := (shard_state s1)(i \<mapsto> SOnline)\<rparr>)"
      and t: "shard_online (networks_of rt) s2 i n (tasks_of rt) = Some t"
      and rt': "rt' = rt\<lparr>shards_of := s2, tasks_of := t\<rparr>" using 1(5) True by auto
    have kt: "keeps (shard_network ?s) (tasks_of rt) t" using t by (rule shard_online_keeps) (simp add: 1(2))
    have sh: "network_shards t = sput (n, i) () (network_shards (tasks_of rt))" by (rule shard_online_shards [OF t])
    have net2: "shard_network s2 = shard_network ?s" by (simp add: s2 emit_shards_def net)
    have "runtime_inv cfg {} rt'" if inv: "runtime_inv cfg {} rt" and uns: "unsaturated t"
    proof -
      note f = first [OF inv]
      have all: "st = Ready" if "sget (shard_member_status s1) (i, b) = Some st" for b st
        using True that f get_shard_members_iff [OF membersD(1), of s1 b st cfg i] by (auto simp: list_all_iff)
      have "members_ok s2" using f by (simp add: members_ok_def s2 emit_shards_def)
      moreover have "keys_ok cfg s2"
        using f all 1(3) by (auto simp: keys_ok_def s2 emit_shards_def 1(4))
      moreover have "serves_ok {} s2 t"
      proof (rule servesI)
        fix m j
        show "sget (network_shards t) (m, j) \<noteq> None \<longleftrightarrow> shard_network s2 j = Some m \<and> shard_state s2 j = Some SOnline"
          using f servesD [of "{}" s1 "tasks_of rt" j m] 1(2)
          by (auto simp: sh s2 emit_shards_def 1(4) split: if_splits)
      qed
      moreover have "tasks_inv (shard_network s2) {} t"
        using kt uns inv by (simp add: keeps_def runtime_inv_def net2)
      ultimately show ?thesis using inv by (simp add: runtime_inv_def rt')
    qed
    moreover have "shard_id_counter s2 = shard_id_counter ?s" by (simp add: s2 emit_shards_def 1(4))
    ultimately show ?thesis using kt by (auto simp: rkeeps_def in_range_def rt' keeps_def)
  qed
qed

end
