(* ===== verification/Runtime_Steps.thy ===== *)
theory Runtime_Steps
  imports Runtime_Keeps
begin

text \<open>
  The rest of the operations keep the invariant: timeouts, elections, heartbeats, registrations and the
  calls of the tasks pallet. Then the runtime as a state machine.
\<close>

section \<open>Timeouts and members of a shard\<close>

lemma timeout_dkgs_keeps:
  assumes "timeout_dkgs cfg n rt = Some rt'"
  shows "rkeeps cfg {} rt {} rt'"
proof -
  let ?rm = "filter (dkg_expired (shards_of rt)) (map fst (sprefix (id_order cfg) n (dkg_timeouts (shards_of rt))))"
  let ?rt1 = "rt\<lparr>shards_of := (shards_of rt)\<lparr>dkg_timeouts := sclear_prefix n (dkg_timeouts (shards_of rt))\<rparr>\<rparr>"
  obtain rt2 where rt2: "(if ?rm \<noteq> [] then remove_shards_offline cfg ?rm ?rt1 else Some ?rt1) = Some rt2"
    and rt': "rt' = rt2\<lparr>shards_of := (shards_of rt2)\<lparr>
      dkg_timeout_counter := (dkg_timeout_counter (shards_of rt2))(n := 0)\<rparr>\<rparr>"
    using assms unfolding timeout_dkgs_def Let_def by (auto split: option.splits)
  have "rkeeps cfg {} rt {} ?rt1" by simp
  also have "rkeeps cfg {} ?rt1 {} rt2"
    using rt2 remove_shards_offline_keeps [of cfg ?rm ?rt1 rt2 "{}"] by (auto split: if_splits)
  also have "rkeeps cfg {} rt2 {} rt'" by (simp add: rt')
  finally show ?thesis .
qed

text \<open>Writing the state of shards that were not online, or that are about to be removed.\<close>

lemma set_state_keeps:
  assumes "\<And>i. st' i = shard_state (shards_of rt) i \<or> st' i = Some SOffline \<and>
      (shard_state (shards_of rt) i \<noteq> Some SOnline \<or> i \<in> P)"
  shows "rkeeps cfg {} rt P (rt\<lparr>shards_of := (shards_of rt)\<lparr>shard_state := st'\<rparr>\<rparr>)"
proof -
  let ?s = "shards_of rt" and ?s' = "(shards_of rt)\<lparr>shard_state := st'\<rparr>"
  have on: "shard_state ?s i = Some SOnline" if "st' i = Some SOnline" for i
    using assms [of i] that by auto
  have off: "st' i = Some SOnline" if "shard_state ?s i = Some SOnline" "i \<notin> P" for i
    using assms [of i] that by auto
  have "members_ok ?s' = members_ok ?s" by (simp add: members_ok_def)
  moreover have "keys_ok cfg ?s \<Longrightarrow> keys_ok cfg ?s'" using on by (auto simp: keys_ok_def)
  moreover have "serves_ok {} ?s (tasks_of rt) \<Longrightarrow> serves_ok P ?s' (tasks_of rt)"
    using on off by (auto simp: serves_ok_def)
  ultimately show ?thesis by (simp add: rkeeps_def runtime_inv_def in_range_def)
qed

lemma shards_member_online_keeps: "rkeeps cfg {} rt {} (rt\<lparr>shards_of := shards_member_online a (shards_of rt)\<rparr>)"
proof -
  let ?s = "shards_of rt"
  have "rkeeps cfg {} rt {} (rt\<lparr>shards_of := ?s\<lparr>shard_members_online := f\<rparr>\<rparr>)" for f by simp
  moreover have "rkeeps cfg {} rt {} (rt\<lparr>shards_of := ?s\<lparr>shard_members_online := f,
      shard_state := (shard_state ?s)(i \<mapsto> SOffline)\<rparr>\<rparr>)"
    if "shard_state ?s i \<noteq> Some SOnline" for f i
  proof -
    let ?rt1 = "rt\<lparr>shards_of := ?s\<lparr>shard_members_online := f\<rparr>\<rparr>"
    have "rkeeps cfg {} rt {} ?rt1" by simp
    also have "rkeeps cfg {} ?rt1 {} (?rt1\<lparr>shards_of := (shards_of ?rt1)\<lparr>
        shard_state := (shard_state (shards_of ?rt1))(i \<mapsto> SOffline)\<rparr>\<rparr>)"
      by (rule set_state_keeps) (use that in auto)
    finally show ?thesis by simp
  qed
  ultimately show ?thesis by (auto simp: shards_member_online_def Let_def split: option.split)
qed

text \<open>
  The first pass of \<open>members_offline\<close>: a collected state is the stored one, or offline for a shard that
  will be removed.
\<close>

definition updates_ok ::
  "shards_store \<Rightarrow> (shard_id, u32 \<times> shard_status option) smap \<times> shard_id list \<Rightarrow> bool" where
  "updates_ok s ur \<longleftrightarrow> swf (fst ur) \<and>
     (\<forall>i k st. sget (fst ur) i = Some (k, st) \<longrightarrow>
        st = shard_state s i \<and> i \<notin> set (snd ur) \<or> st = Some SOffline \<and> i \<in> set (snd ur)) \<and>
     (\<forall>i\<in>set (snd ur). sget (fst ur) i \<noteq> None) \<and> distinct (snd ur)"

lemma member_leaves_ok:
  assumes "updates_ok s ur"
  shows "updates_ok s (member_leaves s a ur)"
proof (cases "member_shard s a")
  case None
  with assms show ?thesis by (simp add: member_leaves_def)
next
  case (Some i)
  obtain ups rm where ur: "ur = (ups, rm)" by fastforce
  let ?e = "value_or (ucast (shard_members_online s i), shard_state s i) (sget ups i)"
  let ?on = "sat_sub (fst ?e) 1"
  have ok: "swf ups" "distinct rm" "\<And>j k st. sget ups j = Some (k, st) \<Longrightarrow>
      st = shard_state s j \<and> j \<notin> set rm \<or> st = Some SOffline \<and> j \<in> set rm"
    "\<And>j. j \<in> set rm \<Longrightarrow> sget ups j \<noteq> None"
    using assms by (auto simp: updates_ok_def ur)
  have e: "snd ?e = shard_state s i \<and> i \<notin> set rm \<or> snd ?e = Some SOffline \<and> i \<in> set rm"
    using ok(3) [of i] ok(4) [of i] by (cases "sget ups i") auto
  have off: "status_after_leave t on SOffline = SOffline" for t on by simp
  have on: "status_after_leave t k old = SOffline \<or> status_after_leave t k old = old" for t k old
    by (cases old) auto
  show ?thesis
  proof (cases "(snd ?e, shard_threshold s i)")
    case (Pair x y)
    show ?thesis
    proof (cases "\<exists>old t. x = Some old \<and> y = Some t")
      case True
      then obtain old t where old: "snd ?e = Some old" "shard_threshold s i = Some t" using Pair by auto
      let ?new = "status_after_leave t ?on old"
      have leaves: "member_leaves s a ur = (sput i (?on, Some ?new) ups,
          if ?new = SOffline \<and> old \<noteq> SOffline then rm @ [i] else rm)"
        using Some old by (simp add: member_leaves_def ur Let_def)
      show ?thesis
        unfolding leaves using ok e old on [of t ?on old]
        by (auto simp: updates_ok_def split: if_splits)
    next
      case False
      then have "member_leaves s a ur = (sput i (?on, snd ?e) ups, rm)"
        using Some Pair by (auto simp: member_leaves_def ur Let_def split: option.split)
      then show ?thesis using ok e by (auto simp: updates_ok_def)
    qed
  qed
qed

lemma members_leave_ok: "updates_ok s (fold (member_leaves s) ms ([], []))"
proof (rule fold_invariant_set)
  show "updates_ok s ([], [])" by (simp add: updates_ok_def)
qed (rule member_leaves_ok)

lemma write_updates:
  "distinct (map fst es) \<Longrightarrow>
    fold write_update es s = s\<lparr>
      shard_members_online := (\<lambda>i. case map_of es i of
        None \<Rightarrow> shard_members_online s i | Some (k, st) \<Rightarrow> if unat k < 2 ^ 16 then ucast k else 0),
      shard_state := (\<lambda>i. case map_of es i of Some (k, Some st) \<Rightarrow> Some st | _ \<Rightarrow> shard_state s i)\<rparr>"
proof (induction es arbitrary: s)
  case (Cons e es)
  obtain i k st where e: "e = (i, k, st)" by (metis prod_cases3)
  have i: "map_of es i = None" using Cons.prems by (simp add: e map_of_eq_None_iff)
  show ?case
    using Cons i by (cases st) (auto simp: e write_update_def Let_def fun_eq_iff split: option.split)
qed simp

lemma map_of_siter: "swf m \<Longrightarrow> map_of (siter ord m) = sget m"
proof (rule ext)
  fix k
  assume wf: "swf m"
  then have "distinct (map fst (siter ord m))" by (rule distinct_siter)
  then have "map_of (siter ord m) k = Some v \<longleftrightarrow> sget m k = Some v" for v
    using siter_iff [OF wf, of k v ord] by simp
  then show "map_of (siter ord m) k = sget m k" by (metis option.exhaust)
qed

lemma shards_members_offline_keeps:
  assumes "shards_members_offline cfg ms rt = Some rt'"
  shows "rkeeps cfg {} rt {} rt'"
proof -
  let ?s = "shards_of rt"
  obtain ups rm where f: "fold (member_leaves ?s) ms ([], []) = (ups, rm)" by fastforce
  let ?rt1 = "rt\<lparr>shards_of := fold write_update (siter unat ups) ?s\<rparr>"
  have rt': "(if rm \<noteq> [] then remove_shards_offline cfg rm ?rt1 else Some ?rt1) = Some rt'"
    using assms by (simp add: shards_members_offline_def f Let_def)
  have ok: "updates_ok ?s (ups, rm)" using members_leave_ok [of ?s ms] by (simp add: f)
  then have wf: "swf ups" by (simp add: updates_ok_def)
  let ?on = "\<lambda>i. case sget ups i of None \<Rightarrow> shard_members_online ?s i
    | Some (k, st) \<Rightarrow> if unat k < 2 ^ 16 then ucast k else 0"
  let ?st = "\<lambda>i. case sget ups i of Some (k, Some st) \<Rightarrow> Some st | _ \<Rightarrow> shard_state ?s i"
  have w: "fold write_update (siter unat ups) ?s = ?s\<lparr>shard_members_online := ?on, shard_state := ?st\<rparr>"
    using write_updates [OF distinct_siter [OF wf]] by (simp add: map_of_siter [OF wf])
  let ?rt0 = "rt\<lparr>shards_of := ?s\<lparr>shard_members_online := ?on\<rparr>\<rparr>"
  have "rkeeps cfg {} rt {} ?rt0" by simp
  also have "rkeeps cfg {} ?rt0 (set rm) (?rt0\<lparr>shards_of := (shards_of ?rt0)\<lparr>shard_state := ?st\<rparr>\<rparr>)"
  proof (rule set_state_keeps)
    show "?st i = shard_state (shards_of ?rt0) i \<or>
        ?st i = Some SOffline \<and> (shard_state (shards_of ?rt0) i \<noteq> Some SOnline \<or> i \<in> set rm)" for i
      using ok by (auto simp: updates_ok_def split: option.split)
  qed
  also have "rkeeps cfg (set rm) (?rt0\<lparr>shards_of := (shards_of ?rt0)\<lparr>shard_state := ?st\<rparr>\<rparr>) {} rt'"
    using rt' remove_shards_offline_keeps [of cfg rm ?rt1 rt' "set rm"] by (auto simp: w split: if_splits)
  finally show ?thesis .
qed

section \<open>Creating shards\<close>

lemma add_members_fold:
  "fold (add_member i) ms s = s\<lparr>
     shard_member_status := fold (\<lambda>a. sput (i, a) Added) ms (shard_member_status s),
     member_shard := (\<lambda>a. if a \<in> set ms then Some i else member_shard s a)\<rparr>"
proof (induction ms arbitrary: s)
  case (Cons a ms)
  have "fold (add_member i) (a # ms) s = fold (add_member i) ms (add_member i a s)" by simp
  also have "\<dots> = (add_member i a s)\<lparr>
      shard_member_status := fold (\<lambda>a. sput (i, a) Added) ms (shard_member_status (add_member i a s)),
      member_shard := (\<lambda>b. if b \<in> set ms then Some i else member_shard (add_member i a s) b)\<rparr>" by (rule Cons.IH)
  also have "(\<lambda>b. if b \<in> set ms then Some i else member_shard (add_member i a s) b) =
      (\<lambda>b. if b \<in> set (a # ms) then Some i else member_shard s b)"
    by (auto simp: add_member_def)
  finally show ?case by (simp add: add_member_def [of i a s] del: fold_simps)
qed (simp add: fun_eq_iff)

lemma sget_add_members:
  "sget (fold (\<lambda>a. sput (i, a) v) ms m) (j, b) = (if j = i \<and> b \<in> set ms then Some v else sget m (j, b))"
  by (induction ms arbitrary: m) auto

lemma swf_add_members [simp]: "swf m \<Longrightarrow> swf (fold (\<lambda>a. sput (i, a) v) ms m)"
  by (induction ms arbitrary: m) auto

lemma create_shard_fields:
  assumes "create_shard cfg block n ms t s = Inr (i, s')"
  shows "i = shard_id_counter s" "shard_id_counter s' = sat_succ i"
    "shard_network s' = (shard_network s)(i \<mapsto> n)" "shard_state s' = (shard_state s)(i \<mapsto> SCreated)"
    "shard_threshold s' = (shard_threshold s)(i \<mapsto> t)" "shard_commitment s' = shard_commitment s"
    "member_shard s' = (\<lambda>a. if a \<in> set ms then Some i else member_shard s a)"
    "shard_member_status s' = fold (\<lambda>a. sput (i, a) Added) ms (shard_member_status s)"
    "shard_members_online s' = (shard_members_online s)(i := of_nat (length ms))"
    "dkg_timeouts s' = sput (sat_add block (dkg_timeout cfg), i) () (dkg_timeouts s)"
    "dkg_timeout_counter s' = (dkg_timeout_counter s)(sat_add block (dkg_timeout cfg) :=
       sat_succ (dkg_timeout_counter s (sat_add block (dkg_timeout cfg))))"
    "dkg_timeout_counter s (sat_add block (dkg_timeout cfg)) < max_elections_per_block cfg"
  using assms by (auto simp: create_shard_def Let_def add_members_fold emit_shards_def split: if_splits)

lemma create_shard_members_ok:
  assumes "create_shard cfg block n ms t s = Inr (i, s')" and m: "members_ok s" and r: "shard_id_counter s \<noteq> - 1"
  shows "members_ok s'"
proof -
  note f = create_shard_fields [OF assms(1)] and g = sget_add_members
  have less: "j < sat_succ i" if "j \<le> i" for j
    using that r by (simp add: f(1) sat_succ_not_max word_less_nat_alt word_le_nat_alt unat_succ)
  show ?thesis
    unfolding members_ok_def f(2-8) g
  proof (intro conjI allI impI)
    fix j
    show "((shard_threshold s)(i \<mapsto> t)) j \<noteq> None" if "((shard_network s)(i \<mapsto> n)) j \<noteq> None"
      using that membersD(3) [OF m, of j] by auto
    show "((shard_network s)(i \<mapsto> n)) j \<noteq> None" if "((shard_threshold s)(i \<mapsto> t)) j \<noteq> None"
      using that membersD(4) [OF m, of j] by auto
    show "j < sat_succ i" if "((shard_network s)(i \<mapsto> n)) j \<noteq> None"
      using that membersD(2) [OF m, of j] less f(1) by (auto split: if_splits)
    fix a
    show "((shard_network s)(i \<mapsto> n)) j \<noteq> None"
      if "(if j = i \<and> a \<in> set ms then Some Added else sget (shard_member_status s) (j, a)) \<noteq> None"
      using that membersD(5) [OF m, of j a] by (auto split: if_splits)
    show "(if j = i \<and> a \<in> set ms then Some Added else sget (shard_member_status s) (j, a)) \<noteq> None"
      if "(if a \<in> set ms then Some i else member_shard s a) = Some j"
      using that membersD(6) [OF m, of a j] by (auto split: if_splits)
  qed (use membersD(1) [OF m] in simp)
qed

lemma create_shard_keeps:
  assumes "create_shard cfg block n ms t (shards_of rt) = Inr (i, s')"
  shows "rkeeps cfg {} rt {} (rt\<lparr>shards_of := s'\<rparr>)"
proof -
  let ?s = "shards_of rt"
  note f = create_shard_fields [OF assms]
  have i: "i = shard_id_counter ?s" by (rule f(1))
  have "runtime_inv cfg {} (rt\<lparr>shards_of := s'\<rparr>)" if inv: "runtime_inv cfg {} rt" and r: "i \<noteq> - 1"
  proof -
    have m: "members_ok ?s" and k: "keys_ok cfg ?s" and sv: "serves_ok {} ?s (tasks_of rt)"
      and t: "tasks_inv (shard_network ?s) {} (tasks_of rt)" using inv by (simp_all add: runtime_inv_def)
    have less: "j < sat_succ i" if "j \<le> i" for j
      using that r by (simp add: sat_succ_not_max word_less_nat_alt word_le_nat_alt unat_succ)
    have new: "shard_network ?s i = None" using membersD(2) [OF m, of i] i by (metis order_less_irrefl)
    have no_members: "sget (shard_member_status ?s) (i, a) = None" for a
      using membersD(5) [OF m, of i a] new by blast
    have no_key: "shard_commitment ?s i = None" using keysD(1) [OF k, of i] i by (metis order_less_irrefl)
    have no_serve: "sget (network_shards (tasks_of rt)) (l, i) = None" for l
      using servesD [OF sv, of i l] new by (metis empty_iff option.distinct(1))
    note g = sget_add_members
    have "members_ok s'" using create_shard_members_ok [OF assms m] r i by simp
    moreover have "keys_ok cfg s'"
      unfolding keys_ok_def f(2-) g
    proof (intro conjI allI impI)
      fix j
      show "j < sat_succ i" if "shard_commitment ?s j \<noteq> None" using keysD(1) [OF k that] less i by auto
      {
        fix h
        assume "((shard_network ?s)(i \<mapsto> n)) j \<noteq> None" "shard_commitment ?s j = Some h"
        with keysD(3) [OF k, of j h] no_key
        show "((shard_threshold ?s)(i \<mapsto> t)) j = Some (of_nat (length h))" "length h < 2 ^ 16"
          by (cases "j = i"; simp)+
      next
        fix a c
        assume "(if j = i \<and> a \<in> set ms then Some Added else sget (shard_member_status ?s) (j, a)) = Some (Committed c)"
        with keysD(2) [OF k, of j a c] no_members
        show "((shard_threshold ?s)(i \<mapsto> t)) j = Some (of_nat (length c))" "length c < 2 ^ 16"
          "list_all (schnorr_key_ok cfg) c"
          by (cases "j = i"; simp split: if_splits)+
      next
        fix a
        assume "(if j = i \<and> a \<in> set ms then Some Added else sget (shard_member_status ?s) (j, a)) = Some Ready"
        with keysD(4) [OF k, of j a] show "shard_commitment ?s j \<noteq> None" by (auto split: if_splits)
      next
        assume "((shard_network ?s)(i \<mapsto> n)) j \<noteq> None" "((shard_state ?s)(i \<mapsto> SCreated)) j = Some SOnline"
        then have j: "j \<noteq> i" "shard_network ?s j \<noteq> None" "shard_state ?s j = Some SOnline"
          by (auto split: if_splits)
        show "shard_commitment ?s j \<noteq> None" using keysD(5) [OF k j(2,3)] .
        show "st = Ready"
          if "(if j = i \<and> a \<in> set ms then Some Added else sget (shard_member_status ?s) (j, a)) = Some st" for a st
          using keysD(6) [OF k j(2,3), of a st] that j(1) by simp
      }
    qed
    moreover have "tasks_inv (shard_network s') {} (tasks_of rt)"
      by (rule tasks_inv_net [OF t]) (use no_serve in \<open>auto simp: f\<close>)
    moreover have "serves_ok {} s' (tasks_of rt)"
    proof (rule servesI)
      fix l j
      show "sget (network_shards (tasks_of rt)) (l, j) \<noteq> None \<longleftrightarrow>
          shard_network s' j = Some l \<and> shard_state s' j = Some SOnline"
        using servesD [OF sv, of j l] no_serve by (cases "j = i") (simp_all add: f(3,4))
    qed
    ultimately show ?thesis using inv by (simp add: runtime_inv_def)
  qed
  moreover have "i \<noteq> - 1" if "shard_id_counter s' \<noteq> - 1" using that f(2) sat_succ_unsaturated by metis
  ultimately show ?thesis by (auto simp: rkeeps_def in_range_def i)
qed

section \<open>Elections\<close>

lemma create_shards_keeps:
  "create_shards cfg block n t mss (k, shards_of rt) = (refused, k', s') \<Longrightarrow>
    rkeeps cfg {} rt {} (rt\<lparr>shards_of := s'\<rparr>)"
proof (induction mss arbitrary: k rt)
  case (Cons ms mss)
  show ?case
  proof (cases "create_shard cfg block n ms t (shards_of rt)")
    case (Inr r)
    obtain i s1 where r: "r = (i, s1)" by fastforce
    have "rkeeps cfg {} rt {} (rt\<lparr>shards_of := s1\<rparr>)" using Inr unfolding r by (rule create_shard_keeps)
    also have "rkeeps cfg {} (rt\<lparr>shards_of := s1\<rparr>) {} (rt\<lparr>shards_of := s1\<rparr>\<lparr>shards_of := s'\<rparr>)"
      by (rule Cons.IH) (use Cons.prems Inr r in simp)
    finally show ?thesis by simp
  qed (use Cons.prems in auto)
qed auto

lemma try_elect_shards_keeps:
  assumes "try_elect_shards cfg n l rt = Some (k, rt')"
  shows "rkeeps cfg {} rt {} rt'"
proof -
  obtain t mss refused s' e where "create_shards cfg (block_of rt) n t mss (0, shards_of rt) = (refused, k, s')"
    and rt': "rt' = rt\<lparr>shards_of := s', elections_of := e\<rparr>"
    using assms by (auto simp: try_elect_shards_def Let_def split: if_splits prod.splits)
  from create_shards_keeps [OF this(1)] show ?thesis
    unfolding rt' by (rule rkeeps_update(2))
qed

lemma elect_loop_keeps: "elect_loop fuel cfg nets c0 c k rt = Some (k', c', b, rt') \<Longrightarrow> rkeeps cfg {} rt {} rt'"
proof (induction fuel arbitrary: c k rt)
  case (Suc fuel)
  show ?case
  proof (cases "k < max_elections_per_block cfg \<and> unat c < length nets")
    case True
    then obtain e rt1 where 1: "try_elect_shards cfg (nets ! unat c) (sat_sub (max_elections_per_block cfg) k) rt = Some (e, rt1)"
      using Suc.prems by (auto split: option.splits)
    have "rkeeps cfg {} rt {} rt1" by (rule try_elect_shards_keeps [OF 1])
    also have "rkeeps cfg {} rt1 {} rt'"
      using Suc.prems True 1 Suc.IH by (auto simp: Let_def split: if_splits)
    finally show ?thesis .
  qed (use Suc.prems in \<open>auto split: if_splits\<close>)
qed simp

lemma elections_on_initialize_keeps:
  "elections_on_initialize cfg rt = Some (k, rt') \<Longrightarrow> rkeeps cfg {} rt {} rt'"
  by (auto simp: elections_on_initialize_def Let_def simp del: elect_loop.simps split: option.splits if_splits
      dest!: elect_loop_keeps intro: rkeeps_update)

section \<open>Members\<close>

lemma member_online_keeps: "rkeeps cfg {} rt {} (member_online a n rt)"
proof -
  have "rkeeps cfg {} rt {} (elections_member_online a n rt)" for rt
  proof -
    let ?e = "(elections_of rt)\<lparr>unassigned := (unassigned (elections_of rt))(n := sort_desc (unassigned (elections_of rt) n @ [a]))\<rparr>"
    let ?rt1 = "if \<not> is_shard_member (shards_of rt) a then rt\<lparr>elections_of := ?e\<rparr> else rt"
    have "rkeeps cfg {} rt {} ?rt1" by simp
    also have "rkeeps cfg {} ?rt1 {} (?rt1\<lparr>shards_of := shards_member_online a (shards_of ?rt1)\<rparr>)"
      by (rule shards_member_online_keeps)
    finally show ?thesis by (simp add: elections_member_online_def Let_def)
  qed
  from rkeeps_trans [OF _ this] show ?thesis by (simp add: member_online_def Let_def)
qed

lemma members_offline_keeps: "members_offline cfg ms n rt = Some rt' \<Longrightarrow> rkeeps cfg {} rt {} rt'"
  unfolding members_offline_def elections_members_offline_def Let_def
  by (drule shards_members_offline_keeps, erule rkeeps_trans [rotated], intro rkeeps_update rkeeps_refl)

lemma rkeeps_ofold:
  "(\<And>x rt rt'. f x rt = Some rt' \<Longrightarrow> rkeeps cfg P rt P rt') \<Longrightarrow> ofold f xs rt = Some rt' \<Longrightarrow> rkeeps cfg P rt P rt'"
proof (induction xs arbitrary: rt)
  case (Cons x xs)
  obtain u where u: "f x rt = Some u" "ofold f xs u = Some rt'" using Cons.prems(2) by (auto split: option.splits)
  have "rkeeps cfg P rt P u" by (rule Cons.prems(1) [OF u(1)])
  also have "rkeeps cfg P u P rt'" by (rule Cons.IH [OF Cons.prems(1) u(2)])
  finally show ?case .
qed simp

lemma timeout_heartbeats_keeps:
  assumes "timeout_heartbeats cfg rt = Some rt'"
  shows "rkeeps cfg {} rt {} rt'"
proof -
  obtain k current nxt where f: "fold (sort_timeout cfg (members_of rt)) (timed_out (members_of rt)) (0, [], []) = (k, current, nxt)"
    by (metis prod_cases3)
  let ?rt1 = "rt\<lparr>members_of := (members_of rt)\<lparr>timed_out := []\<rparr>\<rparr>"
  obtain rt2 m where 2: "ofold (\<lambda>e. members_offline cfg (snd e) (fst e)) (siter unat current) ?rt1 = Some rt2"
    and rt': "rt' = rt2\<lparr>members_of := m\<rparr>"
    using assms by (auto simp: timeout_heartbeats_def f Let_def split: option.splits)
  have "rkeeps cfg {} rt {} ?rt1" by simp
  also have "rkeeps cfg {} ?rt1 {} rt2" by (rule rkeeps_ofold [OF _ 2]) (rule members_offline_keeps)
  also have "rkeeps cfg {} rt2 {} rt'" by (simp add: rt')
  finally show ?thesis .
qed

lemma execute_send_heartbeat_keeps: "execute_send_heartbeat a rt = Inr rt' \<Longrightarrow> rkeeps cfg {} rt {} rt'"
  by (auto simp: execute_send_heartbeat_def Let_def split: if_splits option.splits
      intro: rkeeps_update member_online_keeps)

lemma execute_register_member_keeps: "execute_register_member cfg' n key peer rt = Inr rt' \<Longrightarrow> rkeeps cfg {} rt {} rt'"
  by (auto simp: execute_register_member_def Let_def)

lemma execute_unregister_member_keeps: "execute_unregister_member a rt = Inr rt' \<Longrightarrow> rkeeps cfg {} rt {} rt'"
  by (auto simp: execute_unregister_member_def Let_def split: if_splits option.splits)

section \<open>Networks and tasks\<close>

lemma set_networks_keeps:
  "(networks_inv (networks_of rt) \<Longrightarrow> networks_inv s') \<Longrightarrow> rkeeps cfg P rt P (rt\<lparr>networks_of := s'\<rparr>)"
  by (simp add: rkeeps_def runtime_inv_def in_range_def)

lemma set_tasks_keeps:
  "keeps (shard_network (shards_of rt)) (tasks_of rt) t \<Longrightarrow> network_shards t = network_shards (tasks_of rt) \<Longrightarrow>
    rkeeps cfg P rt P (rt\<lparr>tasks_of := t\<rparr>)"
  by (auto simp: rkeeps_def runtime_inv_def in_range_def keeps_def serves_ok_def)

lemma insert_network_keeps:
  assumes "insert_network net rt = Some (Inr rt')"
  shows "rkeeps cfg {} rt {} rt'"
proof -
  let ?n = "network_info_id net" and ?s = "networks_of rt"
  let ?s1 = "?s\<lparr>known_networks := (known_networks ?s)(?n \<mapsto> ?n), network_name := sput ?n (chain_name net) (network_name ?s)\<rparr>"
  have inv1: "networks_inv ?s1" if "networks_inv ?s"
    using that by (auto simp: networks_inv_def shard_size_def shard_threshold_of_def)
  have conf: "rkeeps cfg {} r {} rt'"
    if "insert_network_config ?n (network_info_config net) (networks_of r) = Inr s'" "rt' = r\<lparr>networks_of := s'\<rparr>" for r s'
    unfolding that(2) by (rule set_networks_keeps) (rule insert_network_config_inv [OF that(1)])
  show ?thesis
  proof (cases "Some (info_gateway net) \<noteq> network_gateway_address ?s1 ?n")
    case True
    let ?s2 = "?s1\<lparr>network_gateway_address := (network_gateway_address ?s1)(?n \<mapsto> info_gateway net),
      network_gateway_block := (network_gateway_block ?s1)(?n \<mapsto> gateway_block net)\<rparr>"
    let ?s3 = "emit_networks (NetworkRegistered ?n (info_gateway net) (gateway_block net)) ?s2"
    obtain t s' where t: "gateway_registered ?s2 ?n (gateway_block net) (tasks_of rt) = Some t"
      and s': "insert_network_config ?n (network_info_config net) ?s3 = Inr s'"
      and rt': "rt' = rt\<lparr>tasks_of := t, networks_of := s'\<rparr>"
      using assms True by (auto simp: insert_network_def Let_def split: if_splits option.splits sum.splits)
    have inv3: "networks_inv ?s3" if "networks_inv ?s"
      using inv1 [OF that] by (simp add: networks_inv_def shard_size_def shard_threshold_of_def emit_networks_def)
    have "rkeeps cfg {} rt {} (rt\<lparr>tasks_of := t\<rparr>)"
      by (rule set_tasks_keeps [OF gateway_registered_keeps [OF t] gateway_registered_shards [OF t]])
    also have "rkeeps cfg {} (rt\<lparr>tasks_of := t\<rparr>) {} (rt\<lparr>tasks_of := t\<rparr>\<lparr>networks_of := ?s3\<rparr>)"
      by (rule set_networks_keeps) (use inv3 in simp)
    also have "rkeeps cfg {} (rt\<lparr>tasks_of := t\<rparr>\<lparr>networks_of := ?s3\<rparr>) {} rt'"
      by (rule conf) (use s' in simp, simp add: rt')
    finally show ?thesis .
  next
    case False
    then obtain s' where s': "insert_network_config ?n (network_info_config net) ?s1 = Inr s'"
      and rt': "rt' = rt\<lparr>networks_of := s'\<rparr>"
      using assms by (auto simp: insert_network_def Let_def split: if_splits sum.splits)
    have "rkeeps cfg {} rt {} (rt\<lparr>networks_of := ?s1\<rparr>)" by (rule set_networks_keeps) (rule inv1)
    also have "rkeeps cfg {} (rt\<lparr>networks_of := ?s1\<rparr>) {} rt'" by (rule conf) (use s' in simp, simp add: rt')
    finally show ?thesis .
  qed
qed

end
