(* ===== verification/Runtime_Reach.thy ===== *)
theory Runtime_Reach
  imports Runtime_Steps
begin

text \<open>
  The runtime as a state machine over the calls and block hooks of the five pallets, and the facts that
  hold in every state it reaches.
\<close>

section \<open>Steps\<close>

inductive runtime_step :: "config \<Rightarrow> runtime \<Rightarrow> runtime \<Rightarrow> bool" for cfg where
  register: "register_member cfg orig n key peer rt = Some (Inr rt') \<Longrightarrow> runtime_step cfg rt rt'"
| unregister: "unregister_member cfg orig a rt = Some (Inr rt') \<Longrightarrow> runtime_step cfg rt rt'"
| heartbeat: "send_heartbeat orig rt = Some (Inr rt') \<Longrightarrow> runtime_step cfg rt rt'"
| commit: "commit cfg orig i c pok rt = Some (Inr rt') \<Longrightarrow> runtime_step cfg rt rt'"
| ready: "ready cfg orig i rt = Some (Inr rt') \<Longrightarrow> runtime_step cfg rt rt'"
| force_offline: "force_shard_offline cfg orig i rt = Some (Inr rt') \<Longrightarrow> runtime_step cfg rt rt'"
| result: "submit_task_result cfg (networks_of rt) (shards_of rt) orig j r (tasks_of rt) = Some (Inr t) \<Longrightarrow>
    runtime_step cfg rt (rt\<lparr>tasks_of := t\<rparr>)"
| events: "submit_gmp_events cfg orig n es (tasks_of rt) = Some (Inr t) \<Longrightarrow> runtime_step cfg rt (rt\<lparr>tasks_of := t\<rparr>)"
| sync: "sync_network cfg orig n h (tasks_of rt) = Some (Inr t) \<Longrightarrow> runtime_step cfg rt (rt\<lparr>tasks_of := t\<rparr>)"
| stop: "stop_network cfg orig n (tasks_of rt) = Some (Inr t) \<Longrightarrow> runtime_step cfg rt (rt\<lparr>tasks_of := t\<rparr>)"
| remove: "remove_task cfg orig j (tasks_of rt) = Some (Inr t) \<Longrightarrow> runtime_step cfg rt (rt\<lparr>tasks_of := t\<rparr>)"
| restart: "restart_batch cfg orig b (tasks_of rt) = Some (Inr t) \<Longrightarrow> runtime_step cfg rt (rt\<lparr>tasks_of := t\<rparr>)"
| add_network: "register_network cfg orig net rt = Some (Inr rt') \<Longrightarrow> runtime_step cfg rt rt'"
| configure: "set_network_config cfg orig n c (networks_of rt) = Some (Inr s) \<Longrightarrow>
    runtime_step cfg rt (rt\<lparr>networks_of := s\<rparr>)"
| remove_net: "remove_network cfg orig n (networks_of rt) = Some (Inr s) \<Longrightarrow>
    runtime_step cfg rt (rt\<lparr>networks_of := s\<rparr>)"
| block: "initialize_block cfg b rt = Some rt' \<Longrightarrow> runtime_step cfg rt rt'"

lemma members_on_initialize_keeps: "members_on_initialize cfg n rt = Some rt' \<Longrightarrow> rkeeps cfg {} rt {} rt'"
  by (auto simp: members_on_initialize_def split: if_splits dest: timeout_heartbeats_keeps)

lemma initialize_block_keeps:
  assumes "initialize_block cfg n rt = Some rt'"
  shows "rkeeps cfg {} rt {} rt'"
proof -
  obtain rt1 rt2 k rt3 t where
    1: "members_on_initialize cfg n (rt\<lparr>block_of := n\<rparr>) = Some rt1" and
    2: "shards_on_initialize cfg n rt1 = Some rt2" and
    3: "elections_on_initialize cfg rt2 = Some (k, rt3)" and
    4: "tasks_on_initialize cfg (networks_of rt3) (shards_of rt3) (tasks_of rt3) = Some t" and
    rt': "rt' = rt3\<lparr>tasks_of := t\<rparr>"
    using assms by (auto simp: initialize_block_def bind_eq_Some_conv)
  have "rkeeps cfg {} rt {} (rt\<lparr>block_of := n\<rparr>)" by simp
  also have "rkeeps cfg {} (rt\<lparr>block_of := n\<rparr>) {} rt1" by (rule members_on_initialize_keeps [OF 1])
  also have "rkeeps cfg {} rt1 {} rt2" using 2 unfolding shards_on_initialize_def by (rule timeout_dkgs_keeps)
  also have "rkeeps cfg {} rt2 {} rt3" by (rule elections_on_initialize_keeps [OF 3])
  also have "rkeeps cfg {} rt3 {} rt'"
    unfolding rt' by (rule set_tasks_keeps [OF tasks_on_initialize_keeps [OF 4] tasks_on_initialize_shards [OF 4]])
  finally show ?thesis .
qed

lemma runtime_step_keeps: "runtime_step cfg rt rt' \<Longrightarrow> rkeeps cfg {} rt {} rt'"
proof (induction rule: runtime_step.induct)
  case (register orig n key peer rt rt')
  then show ?case by (auto simp: register_member_def split: if_splits intro: execute_register_member_keeps)
next
  case (unregister orig a rt rt')
  then show ?case by (auto simp: unregister_member_def split: if_splits intro: execute_unregister_member_keeps)
next
  case (heartbeat orig rt rt')
  then show ?case by (auto simp: send_heartbeat_def split: option.splits intro: execute_send_heartbeat_keeps)
next
  case (commit orig i c pok rt rt')
  then show ?case by (auto simp: commit_def split: option.splits intro: execute_commit_keeps)
next
  case (ready orig i rt rt')
  then show ?case by (auto simp: ready_def split: option.splits intro: execute_ready_keeps)
next
  case (force_offline orig i rt rt')
  then show ?case
    using remove_shards_offline_keeps [of cfg "[i]" rt rt' "{}"] by (auto simp: force_shard_offline_def split: if_splits)
next
  case (add_network orig net rt rt')
  then show ?case by (auto simp: register_network_def split: if_splits intro: insert_network_keeps)
next
  case (configure orig n c rt s)
  then have "insert_network_config n c (networks_of rt) = Inr s"
    by (auto simp: set_network_config_def split: if_splits sum.splits)
  from insert_network_config_inv [OF this] show ?case by (rule set_networks_keeps)
next
  case (remove_net orig n rt s)
  from remove_network_inv [OF this] show ?case by (rule set_networks_keeps)
next
  case (block b rt rt')
  then show ?case by (rule initialize_block_keeps)
qed (blast intro: set_tasks_keeps submit_task_result_keeps submit_gmp_events_keeps sync_network_keeps
    stop_network_keeps remove_task_keeps restart_batch_keeps submit_task_result_shards submit_gmp_events_shards
    sync_network_shards stop_network_shards remove_task_shards restart_batch_shards)+

section \<open>Reachable states\<close>

text \<open>
  The states reached from a genesis before one of the 64-bit counters runs out, as long as the
  configured networks satisfy \<open>adm\<close>.
\<close>

inductive runtime_reachable :: "config \<Rightarrow> (networks_store \<Rightarrow> bool) \<Rightarrow> runtime \<Rightarrow> bool" for cfg adm where
  genesis: "genesis_networks nets empty_runtime = Some rt \<Longrightarrow> in_range rt \<Longrightarrow> adm (networks_of rt) \<Longrightarrow>
    runtime_reachable cfg adm rt"
| step: "runtime_reachable cfg adm rt \<Longrightarrow> runtime_step cfg rt rt' \<Longrightarrow> in_range rt' \<Longrightarrow> adm (networks_of rt') \<Longrightarrow>
    runtime_reachable cfg adm rt'"

lemma genesis_networks_keeps: "genesis_networks nets rt = Some rt' \<Longrightarrow> rkeeps cfg {} rt {} rt'"
  unfolding genesis_networks_def
  by (erule rkeeps_ofold [rotated]) (auto split: option.splits sum.splits intro: insert_network_keeps)

lemma runtime_reachable_inv: "runtime_reachable cfg adm rt \<Longrightarrow> runtime_inv cfg {} rt \<and> in_range rt \<and> adm (networks_of rt)"
proof (induction rule: runtime_reachable.induct)
  case (genesis nets rt)
  then show ?case using genesis_networks_keeps runtime_inv_empty by (auto simp: rkeeps_def)
next
  case (step rt rt')
  then show ?case using runtime_step_keeps by (auto simp: rkeeps_def)
qed

end
