(* ===== verification/Runtime_Total.thy ===== *)
theory Runtime_Total
  imports Runtime_Reach
begin

text \<open>
  The block hooks return. What can panic in them is the key of a shard with an empty commitment and
  the division by the size of a shard; neither happens while every network has a positive threshold.
\<close>

section \<open>Every commitment has a first element\<close>

definition keyed :: "shards_store \<Rightarrow> bool" where
  "keyed s \<longleftrightarrow> commitments_ok s \<and> (\<forall>i. shard_threshold s i \<noteq> Some 0)"

definition positive_thresholds :: "networks_store \<Rightarrow> bool" where
  "positive_thresholds s \<longleftrightarrow> (\<forall>n. shard_threshold_of s n \<noteq> 0)"

text \<open>Nothing but a commitment or a new shard changes what \<open>keyed\<close> reads.\<close>

lemma keyed_frame [simp]:
  "keyed (s\<lparr>shards_events := a\<rparr>) = keyed s" "keyed (s\<lparr>dkg_timeouts := b\<rparr>) = keyed s"
  "keyed (s\<lparr>dkg_timeout_counter := c\<rparr>) = keyed s" "keyed (s\<lparr>shard_members_online := d\<rparr>) = keyed s"
  "keyed (s\<lparr>shard_state := e\<rparr>) = keyed s" "keyed (s\<lparr>shard_member_status := f\<rparr>) = keyed s"
  "keyed (s\<lparr>member_shard := g\<rparr>) = keyed s" "keyed (s\<lparr>shard_network := h\<rparr>) = keyed s"
  by (simp_all add: keyed_def commitments_ok_def)

lemma keyed_marked [simp]: "keyed s \<Longrightarrow> keyed (marked_offline i s)" "keyed s \<Longrightarrow> keyed (without_members cfg i s)"
  by (simp_all add: keyed_def commitments_ok_def marked_offline_def without_members_def)

text \<open>A run of an operation that keeps \<open>keyed\<close> and the networks.\<close>

definition kkeeps :: "runtime \<Rightarrow> runtime \<Rightarrow> bool" where
  "kkeeps rt rt' \<longleftrightarrow> networks_of rt' = networks_of rt \<and> (keyed (shards_of rt) \<longrightarrow> keyed (shards_of rt'))"

lemma kkeeps_refl [simp]: "kkeeps rt rt"
  by (simp add: kkeeps_def)

lemma kkeeps_trans [trans]: "kkeeps a b \<Longrightarrow> kkeeps b c \<Longrightarrow> kkeeps a c"
  by (simp add: kkeeps_def)

lemma remove_shard_total:
  assumes "keyed (shards_of rt)"
  shows "\<exists>ups' rt'. remove_shard cfg i (ups, rt) = Some (ups', rt') \<and> kkeeps rt rt'"
proof -
  have "commitments_ok (marked_offline i (shards_of rt))" using assms keyed_marked by (auto simp: keyed_def)
  from tss_public_key_total [OF this] obtain k where "tss_public_key (marked_offline i (shards_of rt)) i = Some k" by blast
  then have t: "\<exists>t. shard_offline cfg (marked_offline i (shards_of rt)) i n (tasks_of rt) = Some t" for n
    by (auto simp: shard_offline_eq split: option.split)
  have "\<exists>ups' rt'. remove_shard cfg i (ups, rt) = Some (ups', rt')"
  proof (cases "shard_network (shards_of rt) i")
    case (Some n)
    from t [of n] obtain u where "shard_offline cfg (marked_offline i (shards_of rt)) i n (tasks_of rt) = Some u" by blast
    with Some show ?thesis by (simp add: remove_shard_def Let_def marked_offline_def)
  qed (simp add: remove_shard_def Let_def)
  then obtain ups' rt' where r: "remove_shard cfg i (ups, rt) = Some (ups', rt')" by blast
  moreover have "kkeeps rt rt'"
    using r by (cases rule: remove_shard_cases) (simp_all add: kkeeps_def)
  ultimately show ?thesis by blast
qed

lemma remove_shards_offline_total:
  assumes "keyed (shards_of rt)"
  shows "\<exists>rt'. remove_shards_offline cfg is rt = Some rt' \<and> kkeeps rt rt'"
proof -
  have "\<exists>ur. ofold (remove_shard cfg) is ([], rt) = Some ur \<and> (keyed (shards_of (snd ur)) \<and> kkeeps rt (snd ur))"
  proof (rule ofold_total)
    show "keyed (shards_of (snd ([], rt))) \<and> kkeeps rt (snd ([], rt))" using assms by simp
    show "\<exists>t. remove_shard cfg i ur = Some t \<and> keyed (shards_of (snd t)) \<and> kkeeps rt (snd t)"
      if "keyed (shards_of (snd ur)) \<and> kkeeps rt (snd ur)" for i ur
      using that remove_shard_total [of "snd ur" cfg i "fst ur"] by (fastforce simp: kkeeps_def)
  qed
  then obtain ups rt1 where 1: "ofold (remove_shard cfg) is ([], rt) = Some (ups, rt1)" "kkeeps rt rt1" by auto
  have "kkeeps rt1 (fold (\<lambda>e. elections_shard_offline (fst e) (snd e)) es rt1)"
    for es :: "(network_id \<times> account_id list) list"
    by (rule fold_invariant_set) (auto simp: kkeeps_def)
  with 1 show ?thesis
    by (auto simp: remove_shards_offline_def Let_def emit_shards_def kkeeps_def)
qed

lemma timeout_dkgs_total:
  assumes "keyed (shards_of rt)"
  shows "\<exists>rt'. timeout_dkgs cfg n rt = Some rt' \<and> kkeeps rt rt'"
proof -
  let ?rm = "filter (dkg_expired (shards_of rt)) (map fst (sprefix (id_order cfg) n (dkg_timeouts (shards_of rt))))"
  let ?rt1 = "rt\<lparr>shards_of := (shards_of rt)\<lparr>dkg_timeouts := sclear_prefix n (dkg_timeouts (shards_of rt))\<rparr>\<rparr>"
  have k: "keyed (shards_of ?rt1)" "kkeeps rt ?rt1" using assms by (simp_all add: kkeeps_def)
  obtain rt2 where "(if ?rm \<noteq> [] then remove_shards_offline cfg ?rm ?rt1 else Some ?rt1) = Some rt2" "kkeeps rt rt2"
    using remove_shards_offline_total [OF k(1), of cfg ?rm] kkeeps_trans [OF k(2)] k(2)
    by (cases "?rm = []") (simp_all del: filter_empty_conv, blast)
  then show ?thesis
    unfolding timeout_dkgs_def Let_def by (simp add: kkeeps_def)
qed

lemma keyed_write_updates: "keyed (fold write_update es s) = keyed s"
proof (induction es arbitrary: s)
  case (Cons e es)
  have "keyed (write_update e s) = keyed s" by (simp add: write_update_def Let_def split_beta split: option.split)
  with Cons show ?case by simp
qed simp

lemma shards_members_offline_total:
  assumes "keyed (shards_of rt)"
  shows "\<exists>rt'. shards_members_offline cfg ms rt = Some rt' \<and> kkeeps rt rt'"
proof -
  obtain ups rm where f: "fold (member_leaves (shards_of rt)) ms ([], []) = (ups, rm)" by fastforce
  let ?rt1 = "rt\<lparr>shards_of := fold write_update (siter unat ups) (shards_of rt)\<rparr>"
  have k: "kkeeps rt ?rt1" "keyed (shards_of ?rt1)" using assms by (simp_all add: kkeeps_def keyed_write_updates)
  obtain rt' where "remove_shards_offline cfg rm ?rt1 = Some rt'" "kkeeps ?rt1 rt'"
    using remove_shards_offline_total [OF k(2)] by blast
  then show ?thesis using k(1) kkeeps_trans by (auto simp: shards_members_offline_def f Let_def)
qed

lemma members_offline_total:
  "keyed (shards_of rt) \<Longrightarrow> \<exists>rt'. members_offline cfg ms n rt = Some rt' \<and> kkeeps rt rt'"
proof -
  let ?m = "members_of rt" and ?e = "elections_of rt"
  let ?rt1 = "rt\<lparr>members_of := emit_members (MembersOfflineEvent ms) (?m\<lparr>members_online := members_online ?m |` (- set ms)\<rparr>),
    elections_of := ?e\<lparr>unassigned := (unassigned ?e)(n := filter (\<lambda>a. a \<notin> set ms) (unassigned ?e n))\<rparr>\<rparr>"
  assume "keyed (shards_of rt)"
  then have k: "keyed (shards_of ?rt1)" "kkeeps rt ?rt1" by (simp_all add: kkeeps_def)
  obtain rt' where "shards_members_offline cfg ms ?rt1 = Some rt'" "kkeeps ?rt1 rt'"
    using shards_members_offline_total [OF k(1)] by blast
  with k(2) show ?thesis
    unfolding members_offline_def elections_members_offline_def Let_def by (auto intro: kkeeps_trans [OF k(2)])
qed

lemma timeout_heartbeats_total:
  assumes "keyed (shards_of rt)"
  shows "\<exists>rt'. timeout_heartbeats cfg rt = Some rt' \<and> kkeeps rt rt'"
proof -
  obtain k current nxt where f: "fold (sort_timeout cfg (members_of rt)) (timed_out (members_of rt)) (0, [], []) = (k, current, nxt)"
    by (metis prod_cases3)
  let ?rt1 = "rt\<lparr>members_of := (members_of rt)\<lparr>timed_out := []\<rparr>\<rparr>"
  have "\<exists>rt2. ofold (\<lambda>e. members_offline cfg (snd e) (fst e)) (siter unat current) ?rt1 = Some rt2 \<and>
      (keyed (shards_of rt2) \<and> kkeeps rt rt2)"
  proof (rule ofold_total)
    show "keyed (shards_of ?rt1) \<and> kkeeps rt ?rt1" using assms by (simp add: kkeeps_def)
    show "\<exists>t. members_offline cfg (snd e) (fst e) s = Some t \<and> keyed (shards_of t) \<and> kkeeps rt t"
      if "keyed (shards_of s) \<and> kkeeps rt s" for e s
      using that members_offline_total [of s cfg "snd e" "fst e"] by (auto simp: kkeeps_def)
  qed
  then show ?thesis by (auto simp: timeout_heartbeats_def f Let_def kkeeps_def)
qed

section \<open>Elections return\<close>

lemma create_shard_keyed:
  "create_shard cfg block n ms t s = Inr (i, s') \<Longrightarrow> t \<noteq> 0 \<Longrightarrow> keyed s \<Longrightarrow> keyed s'"
  using create_shard_fields(5,6) [of cfg block n ms t s i s'] by (auto simp: keyed_def commitments_ok_def)

lemma create_shards_keyed:
  "create_shards cfg block n t mss (k, s) = (refused, k', s') \<Longrightarrow> t \<noteq> 0 \<Longrightarrow> keyed s \<Longrightarrow> keyed s'"
proof (induction mss arbitrary: k s)
  case (Cons ms mss)
  then show ?case
    by (cases "create_shard cfg block n ms t s") (auto dest: create_shard_keyed)
qed simp

text \<open>Networks in which a shard has members, and needs some to sign.\<close>

definition electable :: "networks_store \<Rightarrow> bool" where
  "electable s \<longleftrightarrow> positive_thresholds s \<and> (\<forall>n. shard_size s n \<noteq> 0)"

lemma positive_electable: "networks_inv s \<Longrightarrow> positive_thresholds s \<Longrightarrow> electable s"
proof -
  assume inv: "networks_inv s" and pos: "positive_thresholds s"
  have "shard_size s n \<noteq> 0" for n
    using inv pos by (metis networks_inv_def positive_thresholds_def word_le_0_iff)
  with pos show ?thesis by (simp add: electable_def)
qed

lemma try_elect_shards_total:
  assumes "keyed (shards_of rt)" "electable (networks_of rt)"
  shows "\<exists>k rt'. try_elect_shards cfg n l rt = Some (k, rt') \<and> kkeeps rt rt'"
  using assms create_shards_keyed
  by (fastforce simp: try_elect_shards_def Let_def electable_def positive_thresholds_def kkeeps_def split: prod.split)

lemma elect_next:
  assumes "unat c < L" "unat c0 < L" "L < 2 ^ 32" and c': "c' = (c + 1) mod of_nat L" "c' \<noteq> c0"
  shows "unat (c' :: u32) < L" "(unat c0 + L - unat c' - 1) mod L < (unat c0 + L - unat c - 1) mod L"
proof -
  have "unat (of_nat L :: u32) = L" using assms(3) by (simp add: unat_of_nat take_bit_nat_eq_self)
  moreover have "unat (c + 1) = unat c + 1" using assms(1,3) by (simp add: unat_word_ariths)
  ultimately have u: "unat c' = (unat c + 1) mod L" by (simp add: c'(1) unat_mod)
  have neq: "unat c' \<noteq> unat c0" using c'(2) by (simp add: word_unat_eq_iff)
  from u assms(1) show "unat c' < L" by simp
  show "(unat c0 + L - unat c' - 1) mod L < (unat c0 + L - unat c - 1) mod L"
  proof (cases "unat c + 1 = L")
    case True
    then have "unat c' = 0" using u by simp
    moreover from True have "(unat c0 + L - unat c - 1) mod L = unat c0" using assms(2) by simp
    moreover have "(unat c0 + L - 1) mod L = unat c0 - 1"
      using neq \<open>unat c' = 0\<close> assms(2) by (cases "unat c0") simp_all
    ultimately show ?thesis using neq by simp
  next
    case False
    then have c1: "unat c' = unat c + 1" using u assms(1) by simp
    show ?thesis
    proof (cases "unat c < unat c0")
      case True
      then have "unat c0 + L - unat c - 1 = (unat c0 - unat c - 1) + L" "unat c0 - unat c - 1 < L"
        "unat c0 + L - unat c' - 1 = (unat c0 - unat c - 2) + L" "unat c0 - unat c - 2 < L"
        using c1 neq assms(2) by auto
      then have "(unat c0 + L - unat c - 1) mod L = unat c0 - unat c - 1"
        "(unat c0 + L - unat c' - 1) mod L = unat c0 - unat c - 2" by (metis mod_add_self2 mod_less)+
      with True c1 neq show ?thesis by simp
    next
      case False
      then have "unat c0 + L - unat c - 1 < L" "unat c0 + L - unat c' - 1 < L" using assms(1) c1 by auto
      then have "(unat c0 + L - unat c - 1) mod L = unat c0 + L - unat c - 1"
        "(unat c0 + L - unat c' - 1) mod L = unat c0 + L - unat c' - 1" by (metis mod_less)+
      then show ?thesis using c1 assms(1) \<open>unat c' < L\<close> by linarith
    qed
  qed
qed

lemma elect_loop_total:
  assumes "keyed (shards_of rt)" "electable (networks_of rt)" "length nets < 2 ^ 32"
    and "unat c < length nets" "unat c0 < length nets"
    and "(unat c0 + length nets - unat c - 1) mod length nets < fuel"
  shows "\<exists>k' c' b rt'. elect_loop fuel cfg nets c0 c k rt = Some (k', c', b, rt') \<and> kkeeps rt rt'"
  using assms
proof (induction fuel arbitrary: c k rt)
  case (Suc fuel)
  show ?case
  proof (cases "k < max_elections_per_block cfg")
    case True
    obtain e rt1 where 1: "try_elect_shards cfg (nets ! unat c) (sat_sub (max_elections_per_block cfg) k) rt = Some (e, rt1)"
      and k1: "kkeeps rt rt1" using try_elect_shards_total [OF Suc.prems(1,2)] by blast
    let ?c' = "(c + 1) mod of_nat (length nets)" and ?k' = "sat_add k e"
    show ?thesis
    proof (cases "?c' = c0")
      case True
      with \<open>k < _\<close> 1 k1 Suc.prems(4) show ?thesis by auto
    next
      case False
      note n = elect_next [OF Suc.prems(4,5,3) refl False]
      have "\<exists>k'' c'' b rt'. elect_loop fuel cfg nets c0 ?c' ?k' rt1 = Some (k'', c'', b, rt') \<and> kkeeps rt1 rt'"
        by (rule Suc.IH) (use k1 Suc.prems n in \<open>auto simp: kkeeps_def\<close>)
      then obtain k'' c'' b rt' where "elect_loop fuel cfg nets c0 ?c' ?k' rt1 = Some (k'', c'', b, rt')" "kkeeps rt1 rt'"
        by blast
      with \<open>k < _\<close> 1 k1 Suc.prems(4) False kkeeps_trans show ?thesis by (auto simp: Let_def)
    qed
  qed auto
qed simp

text \<open>Networks have 16-bit ids, so their number fits 32 bits.\<close>

lemma length_get_networks: "swf (network_name s) \<Longrightarrow> length (get_networks cfg s) < 2 ^ 32"
proof -
  assume "swf (network_name s)"
  then have "distinct (get_networks cfg s)" by (simp add: get_networks_def distinct_siter)
  then have "length (get_networks cfg s) = card (set (get_networks cfg s))" by (simp add: distinct_card)
  also have "\<dots> \<le> card (UNIV :: u16 set)" by (rule card_mono) simp_all
  finally show ?thesis by (simp add: card_word)
qed

lemma elections_on_initialize_total:
  assumes "keyed (shards_of rt)" "electable (networks_of rt)" "swf (network_name (networks_of rt))"
  shows "\<exists>k rt'. elections_on_initialize cfg rt = Some (k, rt') \<and> kkeeps rt rt'"
proof -
  let ?nets = "get_networks cfg (networks_of rt)" and ?c0 = "network_counter (elections_of rt)"
  have "\<exists>k' c' b rt'. elect_loop (Suc (length ?nets)) cfg ?nets ?c0 ?c0 0 rt = Some (k', c', b, rt') \<and> kkeeps rt rt'"
  proof (cases "unat ?c0 < length ?nets")
    case True
    then have "(unat ?c0 + length ?nets - unat ?c0 - 1) mod length ?nets < length ?nets" by (intro mod_less_divisor) auto
    then have "(unat ?c0 + length ?nets - unat ?c0 - 1) mod length ?nets < Suc (length ?nets)" by (rule less_SucI)
    then show ?thesis
      by (rule elect_loop_total [OF assms(1,2) length_get_networks [OF assms(3)] True True])
  qed (cases "0 < max_elections_per_block cfg"; auto)
  then show ?thesis
    by (auto simp: elections_on_initialize_def Let_def kkeeps_def simp del: elect_loop.simps)
qed

section \<open>Every step keeps the commitments keyed\<close>

lemma kkeeps_frame [simp]:
  "kkeeps rt (rt\<lparr>members_of := m\<rparr>)" "kkeeps rt (rt\<lparr>elections_of := e\<rparr>)" "kkeeps rt (rt\<lparr>block_of := b\<rparr>)"
  "kkeeps rt (rt\<lparr>tasks_of := t\<rparr>)"
  by (simp_all add: kkeeps_def)

lemma execute_commit_keyed:
  assumes c: "execute_commit cfg a i c pok rt = Some (Inr rt')" and inv: "runtime_inv cfg {} rt'"
    and k: "keyed (shards_of rt)"
  shows "kkeeps rt rt'"
  using c
proof (cases rule: execute_commit_cases)
  case (1 s1 p)
  have net: "shard_network (shards_of rt') = shard_network (shards_of rt)"
    "shard_threshold (shards_of rt') = shard_threshold (shards_of rt)"
    "networks_of rt' = networks_of rt"
    using 1(6,7) by (auto simp: emit_shards_def split: if_splits)
  have mem: "sget (shard_member_status (shards_of rt')) (i, a) \<noteq> None"
    using 1(6,7) by (auto simp: emit_shards_def split: if_splits)
  have m: "members_ok (shards_of rt')" and ko: "keys_ok cfg (shards_of rt')" using inv by (simp_all add: runtime_inv_def)
  have "shard_commitment (shards_of rt') j \<noteq> Some []" for j
  proof (cases "j = i")
    case True
    show ?thesis
    proof
      assume e: "shard_commitment (shards_of rt') j = Some []"
      from keysD(3) [OF ko membersD(5) [OF m mem]] e True
      have "shard_threshold (shards_of rt) i = Some 0" by (simp add: net)
      with k show False by (simp add: keyed_def)
    qed
  next
    case False
    then have "shard_commitment (shards_of rt') j = shard_commitment (shards_of rt) j"
      using 1(6,7) by (auto simp: emit_shards_def split: if_splits)
    with k show ?thesis by (simp add: keyed_def commitments_ok_def)
  qed
  with k net show ?thesis by (auto simp: kkeeps_def keyed_def commitments_ok_def)
qed

lemma execute_ready_keyed: "execute_ready cfg a i rt = Some (Inr rt') \<Longrightarrow> kkeeps rt rt'"
  by (erule execute_ready_cases) (auto simp: kkeeps_def emit_shards_def split: if_splits)

lemma member_online_keyed: "kkeeps rt (member_online a n rt)"
  by (auto simp: member_online_def elections_member_online_def shards_member_online_def Let_def kkeeps_def
      split: option.split)

lemma execute_send_heartbeat_keyed: "execute_send_heartbeat a rt = Inr rt' \<Longrightarrow> kkeeps rt rt'"
  using member_online_keyed [of rt a]
  by (auto simp: execute_send_heartbeat_def Let_def kkeeps_def split: if_splits option.splits)

lemma insert_network_shards: "insert_network net rt = Some (Inr rt') \<Longrightarrow> shards_of rt' = shards_of rt"
  by (auto simp: insert_network_def Let_def split: if_splits option.splits sum.splits)

lemma initialize_block_total:
  assumes k: "keyed (shards_of rt)" and el: "electable (networks_of rt)"
    and wf: "swf (network_name (networks_of rt))" and h: "heartbeat_timeout cfg \<noteq> 0"
  shows "\<exists>rt'. initialize_block cfg n rt = Some rt' \<and> kkeeps rt rt'"
proof -
  obtain rt1 where 1: "members_on_initialize cfg n (rt\<lparr>block_of := n\<rparr>) = Some rt1" "kkeeps rt rt1"
    using timeout_heartbeats_total [of "rt\<lparr>block_of := n\<rparr>" cfg] k h
    by (cases "n mod heartbeat_timeout cfg = 0") (auto simp: members_on_initialize_def kkeeps_def)
  have k1: "keyed (shards_of rt1)" "networks_of rt1 = networks_of rt" using 1(2) k by (simp_all add: kkeeps_def)
  obtain rt2 where 2: "shards_on_initialize cfg n rt1 = Some rt2" "kkeeps rt1 rt2"
    using timeout_dkgs_total [OF k1(1)] by (auto simp: shards_on_initialize_def)
  have k2: "keyed (shards_of rt2)" "networks_of rt2 = networks_of rt" using 2(2) k1 by (simp_all add: kkeeps_def)
  obtain j rt3 where 3: "elections_on_initialize cfg rt2 = Some (j, rt3)" "kkeeps rt2 rt3"
    using elections_on_initialize_total [of rt2 cfg] k2 el wf by auto
  have "commitments_ok (shards_of rt3)" using 3(2) k2 by (simp add: kkeeps_def keyed_def)
  then obtain t where "tasks_on_initialize cfg (networks_of rt3) (shards_of rt3) (tasks_of rt3) = Some t"
    using schedule_tasks_total by (fastforce simp: tasks_on_initialize_def)
  with 1 2 3 show ?thesis by (auto simp: initialize_block_def kkeeps_def)
qed

lemma runtime_step_keyed:
  assumes "runtime_step cfg rt rt'" and "keyed (shards_of rt)" "runtime_inv cfg {} rt" "runtime_inv cfg {} rt'"
    and "positive_thresholds (networks_of rt)" "heartbeat_timeout cfg \<noteq> 0"
  shows "keyed (shards_of rt')"
  using assms
proof (induction rule: runtime_step.induct)
  case (register orig n key peer rt rt')
  then show ?case by (auto simp: register_member_def execute_register_member_def Let_def split: if_splits)
next
  case (unregister orig a rt rt')
  then show ?case
    by (auto simp: unregister_member_def execute_unregister_member_def Let_def split: if_splits option.splits)
next
  case (heartbeat orig rt rt')
  then show ?case
    using execute_send_heartbeat_keyed by (auto simp: send_heartbeat_def kkeeps_def split: option.splits)
next
  case (commit orig i c pok rt rt')
  then show ?case using execute_commit_keyed by (auto simp: commit_def kkeeps_def split: option.splits)
next
  case (ready orig i rt rt')
  then show ?case using execute_ready_keyed by (auto simp: ready_def kkeeps_def split: option.splits)
next
  case (force_offline orig i rt rt')
  then show ?case
    using remove_shards_offline_total [of rt cfg "[i]"] by (auto simp: force_shard_offline_def kkeeps_def split: if_splits)
next
  case (add_network orig net rt rt')
  then show ?case using insert_network_shards by (auto simp: register_network_def split: if_splits)
next
  case (block b rt rt')
  then have "electable (networks_of rt)" "swf (network_name (networks_of rt))"
    using positive_electable by (auto simp: runtime_inv_def networks_inv_def)
  with block initialize_block_total [of rt cfg b] show ?case by (auto simp: kkeeps_def)
qed simp_all

lemma runtime_reachable_keyed:
  assumes "runtime_reachable cfg positive_thresholds rt" and "heartbeat_timeout cfg \<noteq> 0"
  shows "keyed (shards_of rt)"
  using assms
proof (induction rule: runtime_reachable.induct)
  case (genesis nets rt)
  have "shards_of rt = shards_of empty_runtime"
    using genesis(1) unfolding genesis_networks_def
    by (rule ofold_invariant) (auto dest: insert_network_shards split: option.splits sum.splits)
  then show ?case by (simp add: empty_runtime_def empty_shards_def keyed_def commitments_ok_def)
next
  case (step rt rt')
  then have "runtime_inv cfg {} rt" "positive_thresholds (networks_of rt)" "runtime_inv cfg {} rt'"
    using runtime_reachable_inv runtime_reachable.step by blast+
  with step show ?case using runtime_step_keyed by blast
qed

end
