(* ===== verification/Runtime_Run.thy ===== *)
theory Runtime_Run
  imports Runtime_Total Tasks_Run
begin

text \<open>
  A concrete run of the runtime, evaluated step by step, for the witnesses: network 1 is registered at
  genesis with shards of one member, account 7 registers and sends a heartbeat, a block elects it into
  shard 0, it commits and reports ready, and the next block assigns the task that reads the gateway.
\<close>

lemmas runtime_eval = tasks_eval bt_extend_def value_or_def dispatch_of_def ensure_signed_def
  emit_members_def emit_shards_def emit_networks_def
  genesis_networks_def insert_network_def insert_network_config_def MAX_SHARD_SIZE_def
  register_member_def execute_register_member_def from_be_def send_heartbeat_def execute_send_heartbeat_def
  is_member_online_def member_online_def elections_member_online_def shards_member_online_def
  is_shard_member_def sort_desc_def initialize_block_def members_on_initialize_def shards_on_initialize_def
  timeout_dkgs_def elections_on_initialize_def get_networks_def try_elect_shards_def shard_size_def
  shard_threshold_of_def create_shard_def add_member_def sclear_prefix_def
  commit_def execute_commit_def member_peer_id_def get_shard_members_def is_committed_def group_commitment_def
  List.map_filter_simps ready_def execute_ready_def

definition run_config :: network_config where
  "run_config = \<lparr>batch_size = 32, batch_offset = 0, cfg_batch_gas_limit = 10000,
     cfg_shard_task_limit = 10, cfg_shard_size = 1, cfg_shard_threshold = 1,
     cctp_contracts = None, cctp_url = None\<rparr>"

definition run_network :: network_info where
  "run_network = \<lparr>network_info_id = 1, chain_name = [], info_gateway = [], gateway_block = 0,
     network_info_config = run_config\<rparr>"

definition run_networks :: networks_store where
  "run_networks = \<lparr>
     known_networks = [1 \<mapsto> 1], network_name = [(1, [])], network_gateway_address = [1 \<mapsto> []],
     network_gateway_block = [1 \<mapsto> 0], network_batch_size = [1 \<mapsto> 32],
     network_batch_offset = [1 \<mapsto> 0], network_batch_gas_limit = [1 \<mapsto> 10000],
     network_shard_task_limit = [1 \<mapsto> 10], network_shard_size = [1 \<mapsto> 1],
     network_shard_threshold = [1 \<mapsto> 1], network_cctp_contracts = Map.empty,
     network_cctp_url = Map.empty,
     networks_events = [NetworkRegistered 1 [] 0, NetworkConfigChanged 1 run_config]\<rparr>"

definition run_genesis :: runtime where
  "run_genesis = empty_runtime\<lparr>networks_of := run_networks, tasks_of := demo_read\<rparr>"

definition run_registered :: runtime where
  "run_registered = run_genesis\<lparr>members_of := empty_members\<lparr>
     member_network := [7 \<mapsto> 1], member_public_keys := [7 \<mapsto> [7]], member_peer_ids := [7 \<mapsto> [3]],
     member_registered := [7 \<mapsto> ()], members_events := [RegisteredMember 7 1 [3]]\<rparr>\<rparr>"

definition run_alive :: runtime where
  "run_alive = run_registered\<lparr>
     members_of := (members_of run_registered)\<lparr>members_online := [7 \<mapsto> ()], heartbeats := [(7, ())],
       members_events := [RegisteredMember 7 1 [3], MemberOnlineEvent 7, HeartbeatReceived 7]\<rparr>,
     elections_of := \<lparr>network_counter = 0, unassigned = (\<lambda>_. [])(1 := [7])\<rparr>\<rparr>"

definition run_elected :: runtime where
  "run_elected = run_alive\<lparr>
     block_of := 1,
     elections_of := \<lparr>network_counter = 0, unassigned = (\<lambda>_. [])(1 := [])\<rparr>,
     shards_of := empty_shards\<lparr>
       shard_id_counter := 1, shard_network := [0 \<mapsto> 1], shard_state := [0 \<mapsto> SCreated],
       dkg_timeout_counter := (\<lambda>_. 0)(1 := 0, 11 := 1), dkg_timeouts := [((11, 0), ())],
       shard_threshold := [0 \<mapsto> 1], member_shard := [7 \<mapsto> 0],
       shard_member_status := [((0, 7), Added)], shard_members_online := (\<lambda>_. 0)(0 := 1),
       shards_events := [ShardCreated 0 1]\<rparr>\<rparr>"

definition run_committed :: runtime where
  "run_committed = run_elected\<lparr>shards_of := (shards_of run_elected)\<lparr>
     shard_state := [0 \<mapsto> SCommitted], shard_commitment := [0 \<mapsto> [[7]]],
     shard_member_status := [((0, 7), Committed [[7]])],
     shards_events := [ShardCreated 0 1, ShardCommitted 0 [[7]]]\<rparr>\<rparr>"

definition run_online :: runtime where
  "run_online = run_committed\<lparr>
     tasks_of := demo_online,
     shards_of := (shards_of run_committed)\<lparr>
       shard_state := [0 \<mapsto> SOnline], shard_member_status := [((0, 7), Ready)],
       shards_events := [ShardCreated 0 1, ShardCommitted 0 [[7]], ShardOnline 0 [7]]\<rparr>\<rparr>"

definition run_assigned :: runtime where
  "run_assigned = run_online\<lparr>block_of := 2, tasks_of := demo_block,
     shards_of := (shards_of run_online)\<lparr>dkg_timeout_counter := (\<lambda>_. 0)(1 := 0, 11 := 1, 2 := 0)\<rparr>\<rparr>"

lemmas run_defs = run_config_def run_network_def run_networks_def run_genesis_def run_registered_def
  run_alive_def run_elected_def run_committed_def run_online_def run_assigned_def demo_defs
  empty_runtime_def empty_members_def empty_elections_def

lemma run_genesis_step: "genesis_networks [run_network] empty_runtime = Some run_genesis"
  by (simp add: run_defs runtime_eval)

lemma run_register: "register_member test_config Root 1 [7] [3] run_genesis = Some (Inr run_registered)"
  by (simp add: run_defs runtime_eval)

lemma run_heartbeat: "send_heartbeat (Signed 7) run_registered = Some (Inr run_alive)"
  by (simp add: run_defs runtime_eval)

lemma run_elect: "initialize_block test_config 1 run_alive = Some run_elected"
  by (simp add: run_defs runtime_eval)

lemma run_commit: "commit test_config (Signed 7) 0 [[7]] [] run_elected = Some (Inr run_committed)"
  by (simp add: run_defs runtime_eval)

lemma run_ready: "ready test_config (Signed 7) 0 run_committed = Some (Inr run_online)"
  by (simp add: run_defs runtime_eval)

lemma run_assign: "initialize_block test_config 2 run_online = Some run_assigned"
  by (simp add: run_defs runtime_eval)

end
