(* ===== verification/Runtime_Properties.thy ===== *)
theory Runtime_Properties
  imports Runtime_Run
begin

text \<open>What holds of the runtime as a whole, in every state it reaches, and that its block hooks return.\<close>

lemma run_in_range:
  "in_range run_genesis" "in_range run_registered" "in_range run_alive" "in_range run_elected"
  "in_range run_committed" "in_range run_online" "in_range run_assigned"
  by (simp_all add: in_range_def unsaturated_def queue_room_def insert_i_def run_defs empty_queue_def)

lemma run_positive:
  "positive_thresholds (networks_of run_genesis)" "networks_of run_registered = networks_of run_genesis"
  "networks_of run_alive = networks_of run_genesis" "networks_of run_elected = networks_of run_genesis"
  "networks_of run_committed = networks_of run_genesis" "networks_of run_online = networks_of run_genesis"
  "networks_of run_assigned = networks_of run_genesis"
  by (simp_all add: positive_thresholds_def shard_threshold_of_def run_genesis_def run_networks_def
      run_registered_def run_alive_def run_elected_def run_committed_def run_online_def run_assigned_def)

lemma run_reachable:
  "runtime_reachable test_config positive_thresholds run_elected"
  "runtime_reachable test_config positive_thresholds run_committed"
  "runtime_reachable test_config positive_thresholds run_online"
  "runtime_reachable test_config positive_thresholds run_assigned"
  "runtime_reachable test_config positive_thresholds run_alive"
proof -
  note r = runtime_reachable.step [where adm = positive_thresholds]
  note p = run_positive
  have "runtime_reachable test_config positive_thresholds run_genesis"
    by (rule runtime_reachable.genesis [OF run_genesis_step run_in_range(1)]) (rule p(1))
  then have "runtime_reachable test_config positive_thresholds run_registered"
    by (rule r [OF _ runtime_step.register [OF run_register] run_in_range(2)]) (simp add: p)
  then show a: "runtime_reachable test_config positive_thresholds run_alive"
    by (rule r [OF _ runtime_step.heartbeat [OF run_heartbeat] run_in_range(3)]) (simp add: p)
  then show e: "runtime_reachable test_config positive_thresholds run_elected"
    by (rule r [OF _ runtime_step.block [OF run_elect] run_in_range(4)]) (simp add: p)
  then show c: "runtime_reachable test_config positive_thresholds run_committed"
    by (rule r [OF _ runtime_step.commit [OF run_commit] run_in_range(5)]) (simp add: p)
  then show o: "runtime_reachable test_config positive_thresholds run_online"
    by (rule r [OF _ runtime_step.ready [OF run_ready] run_in_range(6)]) (simp add: p)
  then show "runtime_reachable test_config positive_thresholds run_assigned"
    by (rule r [OF _ runtime_step.block [OF run_assign] run_in_range(7)]) (simp add: p)
qed

section \<open>The pallets agree\<close>

text \<open>
  C12. In every state the runtime reaches, a task is assigned to an online shard only: \<open>TaskShard\<close> of the
  tasks pallet names a shard that the shards pallet has as online, with the network for which the tasks
  pallet lists it in \<open>NetworkShards\<close>.
\<close>

theorem assigned_shards_online:
  assumes "runtime_reachable cfg adm rt" and "task_shard (tasks_of rt) i = Some sh"
  shows "is_shard_online (shards_of rt) sh \<and>
    (\<exists>n. shard_network (shards_of rt) sh = Some n \<and> sget (network_shards (tasks_of rt)) (n, sh) \<noteq> None)"
proof -
  have inv: "runtime_inv cfg {} rt" using runtime_reachable_inv [OF assms(1)] by simp
  then obtain n where n: "sget (network_shards (tasks_of rt)) (n, sh) \<noteq> None"
    using assms(2) unfolding runtime_inv_def tasks_inv_def shards_ok_def by blast
  with inv servesD [of "{}" "shards_of rt" "tasks_of rt" sh n] show ?thesis
    by (auto simp: runtime_inv_def is_shard_online_def)
qed

theorem assigned_shards_online_witness:
  "task_shard (tasks_of run_assigned) 1 = Some 0 \<and> is_shard_online (shards_of run_assigned) 0 \<and>
   (\<exists>n. shard_network (shards_of run_assigned) 0 = Some n \<and>
      sget (network_shards (tasks_of run_assigned)) (n, 0) \<noteq> None)"
proof -
  have "task_shard (tasks_of run_assigned) 1 = Some 0" by (simp add: run_defs)
  with assigned_shards_online [OF run_reachable(4) this] show ?thesis by blast
qed

text \<open>
  C14. In every state the runtime reaches, an online shard with a network has finished its key generation:
  it has a group commitment with as many elements as the shard's threshold, and every one of its members
  has reported ready.
\<close>

theorem online_shards_ready:
  assumes "runtime_reachable cfg adm rt" and "shard_network (shards_of rt) i = Some n"
    and "is_shard_online (shards_of rt) i"
  shows "(\<exists>g. get_shard_commitment (shards_of rt) i = Some g \<and>
      length g = unat (get_shard_threshold (shards_of rt) i)) \<and>
    (\<forall>(a, st) \<in> set (get_shard_members cfg (shards_of rt) i). st = Ready)"
proof -
  have inv: "members_ok (shards_of rt)" "keys_ok cfg (shards_of rt)"
    using runtime_reachable_inv [OF assms(1)] by (simp_all add: runtime_inv_def)
  have on: "shard_network (shards_of rt) i \<noteq> None" "shard_state (shards_of rt) i = Some SOnline"
    using assms by (simp_all add: is_shard_online_def)
  obtain g where g: "shard_commitment (shards_of rt) i = Some g" using keysD(5) [OF inv(2) on] by auto
  from keysD(3) [OF inv(2) on(1) g] have "length g = unat (get_shard_threshold (shards_of rt) i)"
    by (auto simp: get_shard_threshold_def unat_of_nat take_bit_nat_eq_self)
  moreover have "st = Ready" if "(a, st) \<in> set (get_shard_members cfg (shards_of rt) i)" for a st
    using keysD(6) [OF inv(2) on] that get_shard_members_iff [OF membersD(1) [OF inv(1)]] by blast
  ultimately show ?thesis using g by (auto simp: get_shard_commitment_def)
qed

theorem online_shards_ready_witness:
  "(\<exists>g. get_shard_commitment (shards_of run_online) 0 = Some g \<and>
      length g = unat (get_shard_threshold (shards_of run_online) 0)) \<and>
    map snd (get_shard_members test_config (shards_of run_online) 0) = [Ready]"
proof -
  have "shard_network (shards_of run_online) 0 = Some 1" "is_shard_online (shards_of run_online) 0"
    by (simp_all add: run_defs is_shard_online_def)
  note r = online_shards_ready [OF run_reachable(3) this]
  have "length (get_shard_members test_config (shards_of run_online) 0) = 1"
    by (simp add: get_shard_members_def run_defs slen_def)
  then obtain a st where "get_shard_members test_config (shards_of run_online) 0 = [(a, st)]"
    by (auto simp: length_Suc_conv)
  with r show ?thesis by simp
qed

text \<open>
  C15. In every state the runtime reaches, \<open>MemberShard\<close> agrees with \<open>ShardMembers\<close>: an account that is
  recorded as a member of a shard is among the members of that shard, and the shard exists, with a
  network, a threshold and an id below the counter.
\<close>

theorem member_shard_consistent:
  assumes "runtime_reachable cfg adm rt" and "member_shard (shards_of rt) a = Some i"
  shows "a \<in> set (shard_members cfg (shards_of rt) i) \<and> i \<in> set (get_shards cfg (shards_of rt) a) \<and>
    shard_network (shards_of rt) i \<noteq> None \<and> shard_threshold (shards_of rt) i \<noteq> None \<and>
    i < shard_id_counter (shards_of rt)"
proof -
  have m: "members_ok (shards_of rt)" using runtime_reachable_inv [OF assms(1)] by (simp add: runtime_inv_def)
  note wf = membersD(1) [OF m]
  have a: "sget (shard_member_status (shards_of rt)) (i, a) \<noteq> None" by (rule membersD(6) [OF m assms(2)])
  note n = membersD(5) [OF m a]
  from a have "a \<in> set (shard_members cfg (shards_of rt) i)" using set_shard_members [OF wf] by blast
  with get_shards_iff [OF wf] n membersD(2,3) [OF m n] show ?thesis by blast
qed

theorem member_shard_consistent_witness:
  "7 \<in> set (shard_members test_config (shards_of run_elected) 0) \<and> 0 \<in> set (get_shards test_config (shards_of run_elected) 7) \<and>
   shard_network (shards_of run_elected) 0 \<noteq> None \<and> shard_threshold (shards_of run_elected) 0 \<noteq> None \<and>
   0 < shard_id_counter (shards_of run_elected)"
proof -
  have "member_shard (shards_of run_elected) 7 = Some 0" by (simp add: run_defs)
  from member_shard_consistent [OF run_reachable(1) this] show ?thesis .
qed

section \<open>Blocks\<close>

text \<open>
  C13. As long as every network is configured with a positive threshold, the block hooks of the members,
  shards, elections and tasks pallets return in every state the runtime reaches: no shard key is taken
  from an empty commitment, no division by a shard size of zero happens, and the loop over the networks
  in the elections pallet ends. What the theorem assumes of the constants is that the heartbeat timeout
  is not zero.
\<close>

theorem blocks_never_panic:
  assumes "runtime_reachable cfg positive_thresholds rt" and "heartbeat_timeout cfg \<noteq> 0"
  shows "\<exists>rt'. initialize_block cfg n rt = Some rt'"
proof -
  have inv: "networks_inv (networks_of rt)" "positive_thresholds (networks_of rt)"
    using runtime_reachable_inv [OF assms(1)] by (simp_all add: runtime_inv_def)
  have "swf (network_name (networks_of rt))" using inv(1) by (simp add: networks_inv_def)
  with initialize_block_total [OF runtime_reachable_keyed [OF assms] positive_electable [OF inv] _ assms(2)]
  show ?thesis by blast
qed

theorem blocks_never_panic_witness: "\<exists>rt'. initialize_block test_config 300 run_assigned = Some rt'"
  by (rule blocks_never_panic [OF run_reachable(4)]) (simp add: test_config_def)

text \<open>
  \<open>insert_network_config\<close> bounds the shard size from above only. A configuration with a shard size and
  threshold of zero passes every check it makes on a known network, and from then on the block hook of
  the elections pallet panics whenever it is the turn of that network: it divides by the shard size.
\<close>

theorem zero_shard_size_halts:
  assumes "known_networks (networks_of rt) n \<noteq> None"
    and "cfg_shard_size c = 0" and "cfg_shard_threshold c = 0"
    and "unat (network_counter (elections_of rt)) < length (get_networks cfg (networks_of rt))"
    and "get_networks cfg (networks_of rt) ! unat (network_counter (elections_of rt)) = n"
    and "0 < max_elections_per_block cfg"
  shows "\<exists>s'. insert_network_config n c (networks_of rt) = Inr s' \<and>
    elections_on_initialize cfg (rt\<lparr>networks_of := s'\<rparr>) = None"
proof -
  obtain s' where s': "insert_network_config n c (networks_of rt) = Inr s'"
    using assms(1-3) by (auto simp: insert_network_config_def MAX_SHARD_SIZE_def)
  note f = insert_network_config_fields [OF s']
  have "get_networks cfg s' = get_networks cfg (networks_of rt)" by (simp add: get_networks_def f)
  moreover have "try_elect_shards cfg n l (rt\<lparr>networks_of := s'\<rparr>) = None" for l
    using f(7) [of n] assms(2) by (simp add: try_elect_shards_def)
  ultimately show ?thesis using s' assms(4-6) by (simp add: elections_on_initialize_def)
qed

theorem zero_shard_size_halts_witness:
  "\<exists>s'. insert_network_config 1 (run_config\<lparr>cfg_shard_size := 0, cfg_shard_threshold := 0\<rparr>) (networks_of run_alive) = Inr s' \<and>
    elections_on_initialize test_config (run_alive\<lparr>networks_of := s'\<rparr>) = None"
  by (rule zero_shard_size_halts) (simp_all add: run_defs get_networks_def siter_def test_config_def)

end
