(* ===== verification/Elections_Properties.thy ===== *)
theory Elections_Properties
  imports Runtime_Properties
begin

text \<open>What an election does with the unassigned members, and how many shards a block creates.\<close>

section \<open>A row of new shards\<close>

text \<open>Shard \<open>i\<close> is new, in network \<open>n\<close>, with the members \<open>ms\<close>, one row for each account among them.\<close>

definition new_shard :: "config \<Rightarrow> network_id \<Rightarrow> u16 \<Rightarrow> shard_id \<Rightarrow> account_id list \<Rightarrow> shards_store \<Rightarrow> bool" where
  "new_shard cfg n t i ms s \<longleftrightarrow>
     shard_network s i = Some n \<and> shard_state s i = Some SCreated \<and> shard_threshold s i = Some t \<and>
     mset (shard_members cfg s i) = mset (remdups ms) \<and> (\<forall>a\<in>set ms. sget (shard_member_status s) (i, a) = Some Added)"

lemma create_shard_new:
  assumes "create_shard cfg block n ms t s = Inr (i, s')" and m: "members_ok s" and r: "shard_id_counter s \<noteq> - 1"
  shows "new_shard cfg n t i ms s'" "members_ok s'"
    "new_shard cfg n' t' j ms' s \<Longrightarrow> j \<noteq> i \<Longrightarrow> new_shard cfg n' t' j ms' s'"
proof -
  note f = create_shard_fields [OF assms(1)] and g = sget_add_members
  have swf: "swf (shard_member_status s)" "swf (shard_member_status s')" using membersD(1) [OF m] by (simp_all add: f)
  have none: "shard_network s i = None" using membersD(2) [OF m, of i] f(1) by (metis order_less_irrefl)
  then have no: "sget (shard_member_status s) (i, a) = None" for a using membersD(5) [OF m, of i a] by blast
  show "new_shard cfg n t i ms s'"
  proof -
    have "set (shard_members cfg s' i) = set (remdups ms)"
      using set_shard_members [OF swf(2), of cfg i] no by (auto simp: f(8) g)
    from set_eq_iff_mset_eq_distinct [THEN iffD1, OF distinct_shard_members [OF swf(2)] distinct_remdups this]
    show ?thesis using no by (auto simp: new_shard_def f(3-8) g)
  qed
  show "new_shard cfg n' t' j ms' s'" if "new_shard cfg n' t' j ms' s" "j \<noteq> i"
  proof -
    have "mset (shard_members cfg s' j) = mset (shard_members cfg s j)"
      by (rule mset_shard_members [OF swf(2,1)]) (use that(2) in \<open>simp add: f(8) g\<close>)
    with that show ?thesis by (simp add: new_shard_def f(3-5,8) g)
  qed
  show "members_ok s'" by (rule create_shard_members_ok [OF assms])
qed

lemma create_shards_row:
  assumes "create_shards cfg block n t mss (k, s) = (refused, k', s')" and "members_ok s"
    and "unat (shard_id_counter s) + length mss < 2 ^ 64 - 1"
  shows "\<exists>made rest. mss = made @ rest \<and> refused = concat rest \<and> k' = k + of_nat (length made) \<and>
    unat (shard_id_counter s') = unat (shard_id_counter s) + length made \<and>
    (\<forall>j<length made. new_shard cfg n t (shard_id_counter s + of_nat j) (made ! j) s') \<and>
    (\<forall>i n' t' ms. i < shard_id_counter s \<longrightarrow> new_shard cfg n' t' i ms s \<longrightarrow> new_shard cfg n' t' i ms s') \<and>
    (rest = [] \<or> max_elections_per_block cfg \<le> dkg_timeout_counter s' (sat_add block (dkg_timeout cfg)))"
  using assms
proof (induction mss arbitrary: k s)
  case (Cons ms mss)
  show ?case
  proof (cases "create_shard cfg block n ms t s")
    case (Inl e)
    then have "max_elections_per_block cfg \<le> dkg_timeout_counter s (sat_add block (dkg_timeout cfg))"
      by (auto simp: create_shard_def Let_def split: if_splits)
    with Inl Cons.prems(1) show ?thesis by (intro exI [of _ "[]"] exI [of _ "ms # mss"]) auto
  next
    case (Inr r)
    obtain i s1 where c: "create_shard cfg block n ms t s = Inr (i, s1)" using Inr by (cases r) simp
    have room: "shard_id_counter s \<noteq> - 1" using Cons.prems(3) by (auto simp: unat_max)
    note new = create_shard_new [OF c Cons.prems(2) room]
    have i: "i = shard_id_counter s" and c1: "shard_id_counter s1 = shard_id_counter s + 1"
      using create_shard_fields(1,2) [OF c] room by (simp_all add: sat_succ_not_max)
    have u1: "unat (shard_id_counter s1) = unat (shard_id_counter s) + 1" by (simp add: c1 unat_succ [OF room])
    have "unat (shard_id_counter s1) + length mss < 2 ^ 64 - 1" using Cons.prems(3) u1 by simp
    from Cons.IH [OF _ new(2) this, of "k + 1"] Cons.prems(1) c
    obtain made rest where h: "mss = made @ rest" "refused = concat rest" "k' = k + 1 + of_nat (length made)"
      "unat (shard_id_counter s') = unat (shard_id_counter s1) + length made"
      "\<forall>j<length made. new_shard cfg n t (shard_id_counter s1 + of_nat j) (made ! j) s'"
      "\<forall>i n' t' ms. i < shard_id_counter s1 \<longrightarrow> new_shard cfg n' t' i ms s1 \<longrightarrow> new_shard cfg n' t' i ms s'"
      "rest = [] \<or> max_elections_per_block cfg \<le> dkg_timeout_counter s' (sat_add block (dkg_timeout cfg))"
      by auto
    have less: "i < shard_id_counter s1" using u1 i by (simp add: word_less_nat_alt)
    have first: "new_shard cfg n t (shard_id_counter s) ms s'" using h(6) less new(1) i by blast
    have "new_shard cfg n t (shard_id_counter s + of_nat j) ((ms # made) ! j) s'" if "j < length (ms # made)" for j
      using that first h(5) by (cases j) (auto simp: c1 add.assoc)
    moreover have "new_shard cfg n' t' l ms' s'" if "l < shard_id_counter s" "new_shard cfg n' t' l ms' s" for l n' t' ms'
    proof -
      have "l < shard_id_counter s1" using that(1) u1 by (simp add: word_less_nat_alt)
      moreover have "new_shard cfg n' t' l ms' s1" using new(3) [OF that(2)] that(1) i by simp
      ultimately show ?thesis using h(6) by blast
    qed
    ultimately show ?thesis
      using h u1 by (intro exI [of _ "ms # made"] exI [of _ rest]) (simp add: add.assoc)
  qed
qed auto

section \<open>Elections\<close>

text \<open>
  C18. An election for a network takes members from the front of its unassigned members and groups them,
  in order, into \<open>k\<close> groups of exactly the configured size. Each becomes a new shard whose members are the accounts of
  the group, as many as the configured size unless an account is among the unassigned twice, with the configured threshold, in the
  created state and with consecutive ids from the shard counter. At most the allowed number of shards is
  made, as many as there are members for unless the limit on pending key generations is reached, and no
  member is lost or duplicated: the rest stays unassigned. The other networks are not touched.
\<close>

theorem try_elect_shards_partition:
  assumes "runtime_reachable cfg adm rt" and run: "try_elect_shards cfg n l rt = Some (k, rt')"
    and fits: "length (unassigned (elections_of rt) n) < 2 ^ 32"
    and room: "unat (shard_id_counter (shards_of rt)) + unat l < 2 ^ 64 - 1"
  shows "\<exists>made. length made = unat k \<and> unat k \<le> unat l \<and>
    (\<forall>ms\<in>set made. length ms = unat (shard_size (networks_of rt) n)) \<and>
    concat made = take (unat k * unat (shard_size (networks_of rt) n)) (unassigned (elections_of rt) n) \<and>
    mset (unassigned (elections_of rt) n) = mset (concat made) + mset (unassigned (elections_of rt') n) \<and>
    (\<forall>j<unat k. new_shard cfg n (shard_threshold_of (networks_of rt) n)
       (shard_id_counter (shards_of rt) + of_nat j) (made ! j) (shards_of rt')) \<and>
    (distinct (unassigned (elections_of rt) n) \<longrightarrow> (\<forall>j<unat k.
       length (shard_members cfg (shards_of rt') (shard_id_counter (shards_of rt) + of_nat j)) = unat (shard_size (networks_of rt) n))) \<and>
    (unat k = min (length (unassigned (elections_of rt) n) div unat (shard_size (networks_of rt) n)) (unat l) \<or>
     max_elections_per_block cfg \<le>
       dkg_timeout_counter (shards_of rt') (sat_add (block_of rt) (dkg_timeout cfg))) \<and>
    (\<forall>m. m \<noteq> n \<longrightarrow> unassigned (elections_of rt') m = unassigned (elections_of rt) m)"
proof -
  let ?sz = "shard_size (networks_of rt) n" and ?w = "unassigned (elections_of rt) n"
  define c where "c = min (length ?w div unat ?sz) (unat l)"
  have cl: "c \<le> unat l" by (simp add: c_def)
  have m: "members_ok (shards_of rt)" using runtime_reachable_inv [OF assms(1)] by (simp add: runtime_inv_def)
  have nz: "?sz \<noteq> 0" using run by (auto simp: try_elect_shards_def Let_def split: if_splits)
  then have pos: "unat ?sz \<noteq> 0" by (simp add: unat_eq_0)
  have u: "unat (of_nat (length ?w) :: u32) = length ?w" "unat (ucast ?sz :: u32) = unat ?sz"
    using fits by (simp_all add: unat_of_nat take_bit_nat_eq_self unat_ucast_up)
  have "unat (min (of_nat (length ?w) div ucast ?sz) l) = c"
    by (simp add: c_def min_def word_le_nat_alt unat_div u)
  moreover have le: "c * unat ?sz \<le> length ?w"
  proof -
    have "c * unat ?sz \<le> length ?w div unat ?sz * unat ?sz" by (rule mult_le_mono1) (simp add: c_def)
    also have "\<dots> \<le> length ?w" by (rule div_times_less_eq_dividend)
    finally show ?thesis .
  qed
  ultimately have num: "unat (min (of_nat (length ?w) div ucast ?sz) l * ucast ?sz :: u32) = c * unat ?sz"
    using fits by (simp add: unat_word_ariths u)
  define mss where "mss = chunks (unat ?sz) (take (c * unat ?sz) ?w)"
  obtain refused s' where cs: "create_shards cfg (block_of rt) n (shard_threshold_of (networks_of rt) n) mss (0, shards_of rt) = (refused, k, s')"
    and rt': "rt' = rt\<lparr>shards_of := s', elections_of := (elections_of rt)\<lparr>unassigned :=
      (unassigned (elections_of rt))(n := drop (c * unat ?sz) ?w @ refused)\<rparr>\<rparr>"
    using run nz by (auto simp: try_elect_shards_def Let_def num mss_def split: prod.splits)
  have len: "length mss = c" "\<forall>c\<in>set mss. length c = unat ?sz"
    using length_chunks [OF pos, of "take (c * unat ?sz) ?w" c] unfolding mss_def length_take min_absorb2 [OF le] by blast+
  have "unat (shard_id_counter (shards_of rt)) + length mss < 2 ^ 64 - 1" using room len(1) cl by linarith
  from create_shards_row [OF cs m this, unfolded add_0] obtain made rest where h: "mss = made @ rest" "refused = concat rest"
    "k = of_nat (length made)" "\<forall>j<length made. new_shard cfg n (shard_threshold_of (networks_of rt) n)
       (shard_id_counter (shards_of rt) + of_nat j) (made ! j) s'"
    "rest = [] \<or> max_elections_per_block cfg \<le> dkg_timeout_counter s' (sat_add (block_of rt) (dkg_timeout cfg))" by blast
  have lm: "length made + length rest = c" using h(1) len(1) by (metis length_append)
  then have "length made < 2 ^ 32" using unat_u32_less [of l] cl by linarith
  then have k: "unat k = length made" by (simp add: h(3) unat_of_nat take_bit_nat_eq_self)
  have sizes: "\<forall>ms\<in>set made. length ms = unat ?sz" using len(2) by (simp add: h(1))
  have all: "take (c * unat ?sz) ?w = concat made @ concat rest"
    using concat_chunks [OF pos, of "take (c * unat ?sz) ?w"] h(1) by (simp add: mss_def)
  have lc: "length (concat made) = length made * unat ?sz"
    using sizes by (induction made) simp_all
  have "concat made = take (length made * unat ?sz) (take (c * unat ?sz) ?w)" unfolding all using lc by simp
  also have "\<dots> = take (length made * unat ?sz) ?w"
  proof -
    have "length made * unat ?sz \<le> c * unat ?sz" using lm by (intro mult_le_mono1) simp
    then show ?thesis unfolding take_take by (simp only: min_absorb1)
  qed
  finally have front: "concat made = take (unat k * unat ?sz) ?w" by (simp add: k)
  have "mset ?w = mset (take (c * unat ?sz) ?w) + mset (drop (c * unat ?sz) ?w)"
    by (metis append_take_drop_id mset_append)
  then have "mset ?w = mset (concat made) + mset (unassigned (elections_of rt') n)"
    by (simp add: all rt' h(2) ac_simps)
  moreover have "unat k = min (length ?w div unat ?sz) (unat l) \<or>
      max_elections_per_block cfg \<le> dkg_timeout_counter (shards_of rt') (sat_add (block_of rt) (dkg_timeout cfg))"
    using h(5) lm k by (auto simp: c_def rt')
  moreover have "length (shard_members cfg s' (shard_id_counter (shards_of rt) + of_nat j)) = unat ?sz"
    if d: "distinct ?w" and j: "j < unat k" for j
  proof -
    have "distinct (concat made)" unfolding front using d by (rule distinct_take)
    then have "distinct (made ! j)" using j k by (simp add: distinct_concat_iff)
    then have "mset (shard_members cfg s' (shard_id_counter (shards_of rt) + of_nat j)) = mset (made ! j)"
      using h(4) j k by (simp add: new_shard_def distinct_remdups_id)
    then show ?thesis using sizes j k mset_eq_length nth_mem by metis
  qed
  ultimately show ?thesis
    using sizes front h(4) lm k cl by (intro exI [of _ made]) (simp add: rt')
qed

theorem try_elect_shards_partition_witness:
  "try_elect_shards test_config 1 25 run_alive \<noteq> None \<and>
   (\<exists>made. length made = 1 \<and>
     mset (unassigned (elections_of run_alive) 1) = mset (concat made) +
       mset (unassigned (elections_of (snd (the (try_elect_shards test_config 1 25 run_alive)))) 1))"
proof -
  have k: "fst (the (try_elect_shards test_config 1 25 run_alive)) = 1" and nn: "try_elect_shards test_config 1 25 run_alive \<noteq> None"
    by (simp_all add: run_defs runtime_eval)
  then have r: "try_elect_shards test_config 1 25 run_alive = Some (1, snd (the (try_elect_shards test_config 1 25 run_alive)))"
    by (metis option.collapse prod.collapse)
  have "length (unassigned (elections_of run_alive) 1) < 2 ^ 32" "unat (shard_id_counter (shards_of run_alive)) + unat (25 :: u32) < 2 ^ 64 - 1"
    by (simp_all add: run_defs)
  from try_elect_shards_partition [OF run_reachable(5) r this] nn show ?thesis by auto
qed

section \<open>Shards per block\<close>

text \<open>The new shards of one network are counted, and are no more than the chunks.\<close>

lemma create_shards_bound:
  "create_shards cfg block n t mss (k, s) = (refused, k', s') \<Longrightarrow> unat k + length mss < 2 ^ 32 \<Longrightarrow>
    unat k' \<le> unat k + length mss"
proof (induction mss arbitrary: k s)
  case (Cons ms mss)
  have uk: "unat (k + 1) = unat k + 1" using Cons.prems(2) by (simp add: unat_word_ariths)
  show ?case
  proof (cases "create_shard cfg block n ms t s")
    case (Inr r)
    then have "create_shards cfg block n t mss (k + 1, snd r) = (refused, k', s')"
      using Cons.prems(1) by (cases r) simp
    from Cons.IH [OF this] Cons.prems(2) uk show ?thesis by simp
  qed (use Cons.prems in auto)
qed auto

lemma create_shards_counted:
  assumes "create_shards cfg block n t mss (k, s) = (refused, k', s')" and "shard_id_counter s' \<noteq> - 1"
    and "unat k + length mss < 2 ^ 32"
  shows "shard_id_counter s \<noteq> - 1 \<and>
    unat (shard_id_counter s') + unat k = unat (shard_id_counter s) + unat k'"
  using assms
proof (induction mss arbitrary: k s)
  case (Cons ms mss)
  show ?case
  proof (cases "create_shard cfg block n ms t s")
    case (Inr r)
    obtain i s1 where c: "create_shard cfg block n ms t s = Inr (i, s1)" using Inr by (cases r) simp
    have uk: "unat (k + 1) = unat k + 1" using Cons.prems(3) by (simp add: unat_word_ariths)
    have h: "shard_id_counter s1 \<noteq> - 1 \<and>
        unat (shard_id_counter s') + unat (k + 1) = unat (shard_id_counter s1) + unat k'"
      by (rule Cons.IH) (use Cons.prems c uk in auto)
    then have room: "shard_id_counter s \<noteq> - 1"
      using create_shard_fields(1,2) [OF c] sat_succ_unsaturated by metis
    then have "unat (shard_id_counter s1) = unat (shard_id_counter s) + 1"
      using create_shard_fields(1,2) [OF c] by (simp add: sat_succ_not_max unat_succ)
    with h uk room show ?thesis by auto
  qed (use Cons.prems in auto)
qed auto

text \<open>Whatever the number of unassigned members, the chunks are no more than allowed.\<close>

lemma elected_chunks:
  fixes sz :: u16
  assumes "sz \<noteq> 0"
  shows "length (chunks (unat sz) (take (unat (min (of_nat (length w) div ucast sz) l * ucast sz :: u32)) w)) \<le> unat l"
proof -
  let ?m = "min (of_nat (length w) div ucast sz) l :: u32"
  have pos: "unat sz \<noteq> 0" using assms by (simp add: unat_eq_0)
  have u: "unat (ucast sz :: u32) = unat sz" by (simp add: unat_ucast_up)
  have len: "unat (of_nat (length w) :: u32) \<le> length w" by (simp add: unat_of_nat)
  have m1: "unat ?m \<le> unat (of_nat (length w) :: u32) div unat sz" "unat ?m \<le> unat l"
    by (simp_all add: min_def word_le_nat_alt unat_div u)
  then have "unat ?m * unat sz \<le> unat (of_nat (length w) :: u32) div unat sz * unat sz" by (intro mult_le_mono1)
  also have "\<dots> \<le> unat (of_nat (length w) :: u32)" by (rule div_times_less_eq_dividend)
  finally have le: "unat ?m * unat sz \<le> unat (of_nat (length w) :: u32)" .
  then have "unat ?m * unat sz < 2 ^ 32" using unat_u32_less [of "of_nat (length w)"] by linarith
  then have num: "unat (?m * ucast sz) = unat ?m * unat sz" by (simp add: unat_word_ariths u)
  from le len have "unat ?m * unat sz \<le> length w" by linarith
  then have "length (take (unat (?m * ucast sz)) w) = unat ?m * unat sz" unfolding num length_take by (simp only: min_absorb2)
  from length_chunks [OF pos this] have c: "length (chunks (unat sz) (take (unat (?m * ucast sz)) w)) = unat ?m" by blast
  show ?thesis unfolding c by (rule m1(2))
qed

lemma try_elect_shards_counted:
  assumes "try_elect_shards cfg n l rt = Some (k, rt')"
  shows "unat k \<le> unat l"
    "shard_id_counter (shards_of rt') \<noteq> - 1 \<Longrightarrow> shard_id_counter (shards_of rt) \<noteq> - 1 \<and>
      unat (shard_id_counter (shards_of rt')) = unat (shard_id_counter (shards_of rt)) + unat k"
proof -
  let ?sz = "shard_size (networks_of rt) n" and ?w = "unassigned (elections_of rt) n"
  define mss where "mss = chunks (unat ?sz) (take (unat (min (of_nat (length ?w) div ucast ?sz) l * ucast ?sz :: u32)) ?w)"
  have sz: "?sz \<noteq> 0" using assms by (auto simp: try_elect_shards_def Let_def split: if_splits)
  obtain t refused s' where cs: "create_shards cfg (block_of rt) n t mss (0, shards_of rt) = (refused, k, s')"
    and s': "shards_of rt' = s'"
    using assms sz by (auto simp: try_elect_shards_def Let_def mss_def split: prod.splits)
  have le: "length mss \<le> unat l" unfolding mss_def by (rule elected_chunks [OF sz])
  then have "unat (0 :: u32) + length mss < 2 ^ 32" using unat_u32_less [of l] by simp
  note b = create_shards_bound [OF cs this] create_shards_counted [OF cs _ this]
  from b(1) le show "unat k \<le> unat l" by simp
  show "shard_id_counter (shards_of rt') \<noteq> - 1 \<Longrightarrow> shard_id_counter (shards_of rt) \<noteq> - 1 \<and>
      unat (shard_id_counter (shards_of rt')) = unat (shard_id_counter (shards_of rt)) + unat k"
    using b(2) s' by simp
qed

lemma elect_loop_counted:
  assumes "elect_loop fuel cfg nets c0 c k rt = Some (k', c', b, rt')" and "shard_id_counter (shards_of rt') \<noteq> - 1"
    and "k \<le> max_elections_per_block cfg"
  shows "k' \<le> max_elections_per_block cfg \<and> shard_id_counter (shards_of rt) \<noteq> - 1 \<and>
    unat (shard_id_counter (shards_of rt')) + unat k = unat (shard_id_counter (shards_of rt)) + unat k'"
  using assms
proof (induction fuel arbitrary: c k rt)
  case (Suc fuel)
  let ?max = "max_elections_per_block cfg"
  show ?case
  proof (cases "k < ?max \<and> unat c < length nets")
    case True
    then obtain e rt1 where t: "try_elect_shards cfg (nets ! unat c) (sat_sub ?max k) rt = Some (e, rt1)"
      using Suc.prems(1) by (auto split: option.splits)
    let ?k1 = "sat_add k e"
    have next_k: "?k1 \<le> ?max \<and> unat ?k1 = unat k + unat e" if "unat e \<le> unat (sat_sub ?max k)"
    proof -
      have "unat k + unat e \<le> unat ?max" using that Suc.prems(3) by (simp add: unat_sat_sub word_le_nat_alt)
      moreover have "unat ?max < 2 ^ 32" by (rule unat_u32_less)
      ultimately show ?thesis by (simp add: unat_sat_add word_le_nat_alt)
    qed
    have rest: "k' \<le> ?max \<and> shard_id_counter (shards_of rt1) \<noteq> - 1 \<and>
        unat (shard_id_counter (shards_of rt')) + unat ?k1 = unat (shard_id_counter (shards_of rt1)) + unat k'"
      if "?k1 \<le> ?max"
      using Suc.prems(1,2) True t that Suc.IH [of "(c + 1) mod of_nat (length nets)" ?k1 rt1]
      by (auto simp: Let_def split: if_splits)
    have "unat e \<le> unat (sat_sub ?max k)" by (rule try_elect_shards_counted(1) [OF t])
    then show ?thesis using rest next_k try_elect_shards_counted(2) [OF t] by auto
  qed (use Suc.prems in \<open>auto split: if_splits\<close>)
qed simp

text \<open>
  One block creates at most \<open>MaxElectionsPerBlock\<close> shards, over all networks together, and the number the
  block hook reports is the number of ids it took from the shard counter.
\<close>

theorem elections_block_bound:
  assumes "elections_on_initialize cfg rt = Some (k, rt')" and "shard_id_counter (shards_of rt') \<noteq> - 1"
  shows "unat k \<le> unat (max_elections_per_block cfg) \<and>
    unat (shard_id_counter (shards_of rt')) = unat (shard_id_counter (shards_of rt)) + unat k"
proof -
  let ?nets = "get_networks cfg (networks_of rt)" and ?c = "network_counter (elections_of rt)"
  obtain c' b rt1 where l: "elect_loop (Suc (length ?nets)) cfg ?nets ?c ?c 0 rt = Some (k, c', b, rt1)"
    and s: "shards_of rt' = shards_of rt1"
    using assms(1) by (auto simp: elections_on_initialize_def Let_def simp del: elect_loop.simps
        split: option.splits if_splits)
  from elect_loop_counted [OF l] assms(2) s show ?thesis by (simp add: word_le_nat_alt)
qed

theorem elections_block_bound_witness:
  "\<exists>k rt'. elections_on_initialize test_config run_alive = Some (k, rt') \<and> unat k \<le> 25 \<and>
     unat (shard_id_counter (shards_of rt')) = unat (shard_id_counter (shards_of run_alive)) + unat k"
proof -
  obtain k rt' where r: "elections_on_initialize test_config run_alive = Some (k, rt')"
    and c: "shard_id_counter (shards_of rt') = 1"
    by (simp add: run_defs runtime_eval)
  have "shard_id_counter (shards_of rt') \<noteq> - 1" by (simp add: c)
  from elections_block_bound [OF r this] r show ?thesis by (auto simp: test_config_def)
qed

end
