(* ===== verification/Members_Properties.thy ===== *)
theory Members_Properties
  imports Runtime_Properties
begin

text \<open>Heartbeats and their timeouts, the rotation of signers, and what a registration leaves behind.\<close>

section \<open>What taking shards offline does to the members\<close>

text \<open>The fields that \<open>do_unregister_member\<close> does not touch.\<close>

definition same_liveness :: "members_store \<Rightarrow> members_store \<Rightarrow> bool" where
  "same_liveness m m' \<longleftrightarrow> members_online m' = members_online m \<and> heartbeats m' = heartbeats m \<and>
     timed_out m' = timed_out m \<and> member_registered m' = member_registered m"

lemma same_liveness_refl [simp]: "same_liveness m m"
  by (simp add: same_liveness_def)

lemma same_liveness_trans [trans]: "same_liveness a b \<Longrightarrow> same_liveness b c \<Longrightarrow> same_liveness a c"
  by (simp add: same_liveness_def)

lemma elections_shard_offline_liveness: "same_liveness (members_of rt) (members_of (elections_shard_offline n ms rt))"
proof -
  have "same_liveness m (fold (do_unregister_member shs) xs m)" for shs xs and m :: members_store
  proof (induction xs arbitrary: m)
    case (Cons a xs)
    have "same_liveness m (do_unregister_member shs a m)" by (simp add: same_liveness_def do_unregister_member_def)
    also have "same_liveness \<dots> (fold (do_unregister_member shs) xs (do_unregister_member shs a m))" by (rule Cons.IH)
    finally show ?case by simp
  qed simp
  then show ?thesis by (simp add: elections_shard_offline_def Let_def member_returns_fold)
qed

text \<open>
  Taking shards offline leaves the liveness of members alone, and puts no member that is offline back
  among the unassigned.
\<close>

definition offline_step :: "runtime \<Rightarrow> runtime \<Rightarrow> bool" where
  "offline_step rt rt' \<longleftrightarrow> same_liveness (members_of rt) (members_of rt') \<and>
     (\<forall>a n. a \<in> set (unassigned (elections_of rt') n) \<longrightarrow>
        a \<in> set (unassigned (elections_of rt) n) \<or> is_member_online (members_of rt) a)"

lemma offline_step_refl [simp]: "offline_step rt rt"
  by (simp add: offline_step_def)

lemma offline_step_trans: "offline_step a b \<Longrightarrow> offline_step b c \<Longrightarrow> offline_step a c"
  by (auto simp: offline_step_def is_member_online_def same_liveness_def)

lemma remove_loop_members:
  assumes "ofold (remove_shard cfg) is ur = Some ur'"
  shows "members_of (snd ur') = members_of (snd ur) \<and> elections_of (snd ur') = elections_of (snd ur)"
  using assms
proof (rule ofold_invariant)
  fix i v v'
  assume "members_of (snd v) = members_of (snd ur) \<and> elections_of (snd v) = elections_of (snd ur)"
    and "remove_shard cfg i v = Some v'"
  then show "members_of (snd v') = members_of (snd ur) \<and> elections_of (snd v') = elections_of (snd ur)"
    by (cases v; cases v') (auto elim: remove_shard_cases)
qed simp

lemma remove_shards_offline_step:
  assumes "remove_shards_offline cfg is rt = Some rt'"
  shows "offline_step rt rt'"
proof -
  obtain ups rt1 where 1: "ofold (remove_shard cfg) is ([], rt) = Some (ups, rt1)"
    using assms by (auto simp: remove_shards_offline_def split: option.splits)
  from remove_loop_members [OF 1] have rt1: "offline_step rt rt1" by (simp add: offline_step_def)
  have one: "offline_step r (elections_shard_offline n ms r)" for n ms r
    using elections_shard_offline_liveness [of r n ms]
    by (auto simp: offline_step_def elections_shard_offline_unassigned split: if_splits)
  let ?rt2 = "fold (\<lambda>e. elections_shard_offline (fst e) (snd e)) (siter unat ups) rt1"
  have "offline_step rt ?rt2"
    by (rule fold_invariant_set [of "offline_step rt"]) (use rt1 one offline_step_trans in blast)+
  moreover have "members_of rt' = members_of ?rt2" "elections_of rt' = elections_of ?rt2"
    using assms 1 by (auto simp: remove_shards_offline_def Let_def)
  ultimately show ?thesis by (simp add: offline_step_def)
qed

lemma shards_members_offline_step:
  assumes "shards_members_offline cfg ms rt = Some rt'"
  shows "offline_step rt rt'"
proof -
  obtain s rm where "(if rm \<noteq> [] then remove_shards_offline cfg rm (rt\<lparr>shards_of := s\<rparr>) else Some (rt\<lparr>shards_of := s\<rparr>)) = Some rt'"
    using assms by (auto simp: shards_members_offline_def Let_def split: prod.splits)
  then show ?thesis
    using remove_shards_offline_step [of cfg rm "rt\<lparr>shards_of := s\<rparr>" rt'] by (auto simp: offline_step_def split: if_splits)
qed

text \<open>A group of members of one network goes offline.\<close>

lemma members_offline_effect:
  assumes "members_offline cfg ms n rt = Some rt'"
  shows "members_online (members_of rt') = members_online (members_of rt) |` (- set ms)"
    "heartbeats (members_of rt') = heartbeats (members_of rt)" "timed_out (members_of rt') = timed_out (members_of rt)"
    "a \<in> set (unassigned (elections_of rt') m) \<Longrightarrow>
      a \<in> set (unassigned (elections_of rt) m) \<and> \<not> (m = n \<and> a \<in> set ms) \<or>
      is_member_online (members_of rt) a \<and> a \<notin> set ms"
proof -
  let ?m = "members_of rt" and ?e = "elections_of rt"
  let ?rt1 = "rt\<lparr>members_of := emit_members (MembersOfflineEvent ms) (?m\<lparr>members_online := members_online ?m |` (- set ms)\<rparr>),
    elections_of := ?e\<lparr>unassigned := (unassigned ?e)(n := filter (\<lambda>a. a \<notin> set ms) (unassigned ?e n))\<rparr>\<rparr>"
  have "shards_members_offline cfg ms ?rt1 = Some rt'"
    using assms by (simp add: members_offline_def elections_members_offline_def Let_def)
  note s = shards_members_offline_step [OF this]
  show "members_online (members_of rt') = members_online (members_of rt) |` (- set ms)"
    "heartbeats (members_of rt') = heartbeats (members_of rt)" "timed_out (members_of rt') = timed_out (members_of rt)"
    using s by (simp_all add: offline_step_def same_liveness_def emit_members_def)
  show "a \<in> set (unassigned (elections_of rt') m) \<Longrightarrow>
      a \<in> set (unassigned (elections_of rt) m) \<and> \<not> (m = n \<and> a \<in> set ms) \<or>
      is_member_online (members_of rt) a \<and> a \<notin> set ms"
    using s by (auto simp: offline_step_def is_member_online_def emit_members_def restrict_map_def split: if_splits)
qed

section \<open>Timeouts\<close>

text \<open>
  The members that time out: the first \<open>k\<close> that have a network; and those that are kept for the next time.
\<close>

fun split_timeouts :: "nat \<Rightarrow> (account_id \<rightharpoonup> network_id) \<Rightarrow> account_id list \<Rightarrow> account_id list \<times> account_id list" where
  "split_timeouts k net [] = ([], [])"
| "split_timeouts k net (a # as) =
     (if k = 0 then ([], a # as)
      else if net a \<noteq> None then let (t, r) = split_timeouts (k - 1) net as in (a # t, r)
      else let (t, r) = split_timeouts k net as in (t, a # r))"

lemma split_timeouts_0: "split_timeouts 0 net as = ([], as)"
  by (cases as) simp_all

lemma split_timeouts_all: "length as \<le> k \<Longrightarrow> fst (split_timeouts k net as) = filter (\<lambda>a. net a \<noteq> None) as"
  by (induction k net as rule: split_timeouts.induct) (auto simp: split_beta Let_def)

lemma split_timeouts_set: "set (fst (split_timeouts k net as)) \<subseteq> set as" "length (fst (split_timeouts k net as)) \<le> k"
  by (induction k net as rule: split_timeouts.induct) (auto simp: split_beta Let_def)

text \<open>The loop groups them by network.\<close>

definition grouped :: "(account_id \<rightharpoonup> network_id) \<Rightarrow> account_id list \<Rightarrow> (network_id, account_id list) smap \<Rightarrow> bool" where
  "grouped net as cur \<longleftrightarrow> swf cur \<and> (\<forall>n ms. sget cur n = Some ms \<longrightarrow> (\<forall>a\<in>set ms. net a = Some n)) \<and>
     set as = (\<Union>e\<in>set cur. set (snd e))"

lemma grouped_add:
  assumes "grouped net as cur" and "net a = Some n"
  shows "grouped net (as @ [a]) (bt_extend n [a] cur)"
proof -
  have wf: "swf cur" "swf (bt_extend n [a] cur)" using assms(1) by (auto simp: grouped_def)
  have u: "(\<Union>e\<in>set m. set (snd e)) = {x. \<exists>k ms. sget m k = Some ms \<and> x \<in> set ms}" if "swf m"
    for m :: "(network_id, account_id list) smap"
    using that by (force simp: sget_iff)
  have old: "\<forall>n ms. sget cur n = Some ms \<longrightarrow> (\<forall>a\<in>set ms. net a = Some n)"
    "set as = {x. \<exists>k ms. sget cur k = Some ms \<and> x \<in> set ms}"
    using assms(1) u [OF wf(1)] by (simp_all add: grouped_def)
  have "set (as @ [a]) = {x. \<exists>k ms. sget (bt_extend n [a] cur) k = Some ms \<and> x \<in> set ms}"
  proof (intro set_eqI iffI)
    fix x
    assume "x \<in> set (as @ [a])"
    then consider "x = a" | k ms where "sget cur k = Some ms" "x \<in> set ms" using old(2) by auto
    then show "x \<in> {x. \<exists>k ms. sget (bt_extend n [a] cur) k = Some ms \<and> x \<in> set ms}"
    proof cases
      case 1
      then show ?thesis by (auto intro: exI [of _ n])
    next
      case (2 k ms)
      then show ?thesis by (cases "k = n") (auto intro: exI [of _ k])
    qed
  next
    fix x
    assume "x \<in> {x. \<exists>k ms. sget (bt_extend n [a] cur) k = Some ms \<and> x \<in> set ms}"
    then show "x \<in> set (as @ [a])" using old(2) by (cases "sget cur n") (auto split: if_splits)
  qed
  moreover have "\<forall>l ms. sget (bt_extend n [a] cur) l = Some ms \<longrightarrow> (\<forall>a\<in>set ms. net a = Some l)"
    using old(1) assms(2) by (cases "sget cur n") auto
  ultimately show ?thesis using wf(2) u [OF wf(2)] by (simp add: grouped_def)
qed

lemma sort_timeouts:
  assumes "fold (sort_timeout cfg m) as (k, cur, nxt) = (k', cur', nxt')" and "grouped (member_network m) done_as cur"
    and "k \<le> max_timeouts_per_block cfg"
    and "split_timeouts (unat (max_timeouts_per_block cfg) - unat k) (member_network m) as = (taken, kept)"
  shows "grouped (member_network m) (done_as @ taken) cur' \<and> nxt' = nxt @ kept"
  using assms
proof (induction as arbitrary: k cur nxt done_as taken kept)
  case (Cons a as)
  let ?max = "max_timeouts_per_block cfg"
  show ?case
  proof (cases "k < ?max")
    case False
    then have z: "unat ?max - unat k = 0" using Cons.prems(3) by (simp add: word_less_nat_alt)
    have "sort_timeout cfg m a (k, cur, nxt) = (k, cur, nxt @ [a])" using False by (simp add: sort_timeout_def not_less)
    moreover have "split_timeouts (unat ?max - unat k) (member_network m) as = ([], as)" unfolding z by (rule split_timeouts_0)
    ultimately have "grouped (member_network m) (done_as @ []) cur' \<and> nxt' = (nxt @ [a]) @ as"
      using Cons.IH [of k cur "nxt @ [a]" done_as "[]" as] Cons.prems by simp
    with z Cons.prems(4) show ?thesis by simp
  next
    case True
    then have pos: "unat ?max - unat k \<noteq> 0" by (simp add: word_less_nat_alt)
    have k1: "unat (k + 1) = unat k + 1" using True by (simp add: less_not_max unat_succ)
    show ?thesis
    proof (cases "member_network m a")
      case None
      have st: "sort_timeout cfg m a (k, cur, nxt) = (k, cur, nxt @ [a])" using True None by (simp add: sort_timeout_def)
      obtain t r where tr: "split_timeouts (unat ?max - unat k) (member_network m) as = (t, r)" by fastforce
      have "grouped (member_network m) (done_as @ t) cur' \<and> nxt' = (nxt @ [a]) @ r"
        by (rule Cons.IH [OF _ Cons.prems(2,3) tr]) (use Cons.prems(1) st in simp)
      with Cons.prems(4) pos None tr show ?thesis by simp
    next
      case (Some n)
      have st: "sort_timeout cfg m a (k, cur, nxt) = (k + 1, bt_extend n [a] cur, nxt)"
        using True Some by (simp add: sort_timeout_def)
      obtain t r where tr: "split_timeouts (unat ?max - unat (k + 1)) (member_network m) as = (t, r)" by fastforce
      have le: "k + 1 \<le> ?max" using True k1 by (simp add: word_le_nat_alt word_less_nat_alt)
      have "grouped (member_network m) ((done_as @ [a]) @ t) cur' \<and> nxt' = nxt @ r"
        by (rule Cons.IH [OF _ grouped_add [OF Cons.prems(2) Some] le tr]) (use Cons.prems(1) st in simp)
      with Cons.prems(4) pos Some tr k1 show ?thesis by simp
    qed
  qed
qed simp

lemma timeout_heartbeats_effect:
  assumes run: "timeout_heartbeats cfg rt = Some rt'"
    and split: "split_timeouts (unat (max_timeouts_per_block cfg)) (member_network (members_of rt)) (timed_out (members_of rt)) =
      (taken, kept)"
  shows "members_online (members_of rt') = members_online (members_of rt) |` (- set taken) \<and>
    (\<forall>a n. a \<in> set taken \<longrightarrow> member_network (members_of rt) a = Some n \<longrightarrow> a \<notin> set (unassigned (elections_of rt') n)) \<and>
    length taken \<le> unat (max_timeouts_per_block cfg) \<and>
    timed_out (members_of rt') = kept @ map fst (siter (account_order cfg) (heartbeats (members_of rt))) \<and>
    heartbeats (members_of rt') = []"
proof -
  let ?m = "members_of rt"
  obtain k cur nxt where f: "fold (sort_timeout cfg ?m) (timed_out ?m) (0, [], []) = (k, cur, nxt)" by (metis prod_cases3)
  have g0: "grouped (member_network ?m) [] []" by (simp add: grouped_def)
  have "split_timeouts (unat (max_timeouts_per_block cfg) - unat (0 :: u32)) (member_network ?m) (timed_out ?m) = (taken, kept)"
    using split by simp
  from sort_timeouts [OF f g0 _ this] have g: "grouped (member_network ?m) taken cur" "nxt = kept" by simp_all
  let ?rt1 = "rt\<lparr>members_of := ?m\<lparr>timed_out := []\<rparr>\<rparr>"
  obtain rt2 where 2: "ofold (\<lambda>e. members_offline cfg (snd e) (fst e)) (siter unat cur) ?rt1 = Some rt2"
    and rt': "rt' = rt2\<lparr>members_of := (members_of rt2)\<lparr>heartbeats := [],
      timed_out := nxt @ map fst (siter (account_order cfg) (heartbeats (members_of rt2)))\<rparr>\<rparr>"
    using run by (auto simp: timeout_heartbeats_def f Let_def split: option.splits)
  have loop: "members_online (members_of r') = members_online (members_of r) |` (- (\<Union>e\<in>set es. set (snd e))) \<and>
      heartbeats (members_of r') = heartbeats (members_of r) \<and>
      (\<forall>a n. a \<notin> set (unassigned (elections_of r) n) \<and> \<not> is_member_online (members_of r) a \<or>
        (\<exists>ms. (n, ms) \<in> set es \<and> a \<in> set ms) \<longrightarrow> a \<notin> set (unassigned (elections_of r') n))"
    if "ofold (\<lambda>e. members_offline cfg (snd e) (fst e)) es r = Some r'" for es r r'
    using that
  proof (induction es arbitrary: r)
    case (Cons e es)
    obtain u where u: "members_offline cfg (snd e) (fst e) r = Some u"
      "ofold (\<lambda>e. members_offline cfg (snd e) (fst e)) es u = Some r'"
      using Cons.prems by (auto split: option.splits)
    note ih = Cons.IH [OF u(2)] and eff = members_offline_effect [OF u(1)]
    have off: "\<not> is_member_online (members_of u) a" if "\<not> is_member_online (members_of r) a \<or> a \<in> set (snd e)" for a
      using that eff(1) by (auto simp: is_member_online_def restrict_map_def)
    have "a \<notin> set (unassigned (elections_of r') n)"
      if "a \<notin> set (unassigned (elections_of r) n) \<and> \<not> is_member_online (members_of r) a \<or>
        (\<exists>ms. (n, ms) \<in> set (e # es) \<and> a \<in> set ms)" for a n
    proof (cases "\<exists>ms. (n, ms) \<in> set es \<and> a \<in> set ms")
      case False
      then have "a \<notin> set (unassigned (elections_of r) n) \<and> \<not> is_member_online (members_of r) a \<or>
          n = fst e \<and> a \<in> set (snd e)" using that by auto
      then have "a \<notin> set (unassigned (elections_of u) n)" "\<not> is_member_online (members_of u) a"
        using eff(4) [of a n] off [of a] by auto
      with ih show ?thesis by blast
    qed (use ih in blast)
    moreover have "members_online (members_of r') = members_online (members_of r) |` (- (\<Union>e\<in>set (e # es). set (snd e)))"
      using ih eff(1) by (auto simp: restrict_map_def fun_eq_iff)
    ultimately show ?case using ih eff(2) by simp
  qed (simp add: restrict_map_def)
  have taken: "set taken = (\<Union>e\<in>set (siter unat cur). set (snd e))" using g(1) by (simp add: grouped_def)
  have "a \<notin> set (unassigned (elections_of rt') n)" if "a \<in> set taken" "member_network ?m a = Some n" for a n
  proof -
    from that(1) taken obtain l ms where e: "(l, ms) \<in> set (siter unat cur)" "a \<in> set ms" by auto
    then have "sget cur l = Some ms" using g(1) sget_iff [of cur l ms] by (simp add: grouped_def)
    then have "member_network ?m a = Some l" using g(1) e(2) by (auto simp: grouped_def)
    with that(2) e have "\<exists>ms. (n, ms) \<in> set (siter unat cur) \<and> a \<in> set ms" by auto
    with loop [OF 2] show ?thesis by (simp add: rt')
  qed
  moreover have "length taken \<le> unat (max_timeouts_per_block cfg)"
    using split_timeouts_set(2) [of "unat (max_timeouts_per_block cfg)" "member_network ?m" "timed_out ?m"] split by simp
  ultimately show ?thesis using loop [OF 2] taken g(2) by (simp add: rt')
qed

text \<open>
  C19. What a heartbeat timeout does: of the members that sent no heartbeat in the last period, the first
  \<open>MaxTimeoutsPerBlock\<close> that have a network go offline, and no one else; each of them is no longer
  among the unassigned of its network; the others of them, and the members that did send a heartbeat,
  are what the next timeout will look at; and every member may send a heartbeat again.
\<close>

theorem timeout_heartbeats_exact:
  assumes run: "timeout_heartbeats cfg rt = Some rt'"
    and split: "split_timeouts (unat (max_timeouts_per_block cfg)) (member_network (members_of rt)) (timed_out (members_of rt)) =
      (taken, kept)"
  shows "members_online (members_of rt') = members_online (members_of rt) |` (- set taken) \<and>
    (\<forall>a n. a \<in> set taken \<longrightarrow> member_network (members_of rt) a = Some n \<longrightarrow> a \<notin> set (unassigned (elections_of rt') n)) \<and>
    length taken \<le> unat (max_timeouts_per_block cfg) \<and>
    timed_out (members_of rt') = kept @ map fst (siter (account_order cfg) (heartbeats (members_of rt))) \<and>
    heartbeats (members_of rt') = []"
  by (rule timeout_heartbeats_effect [OF run split])

definition run_silent :: runtime where
  "run_silent = run_alive\<lparr>members_of := (members_of run_alive)\<lparr>heartbeats := [], timed_out := [7]\<rparr>\<rparr>"

theorem timeout_heartbeats_exact_witness:
  "\<exists>rt'. timeout_heartbeats test_config run_silent = Some rt' \<and> is_member_online (members_of run_silent) 7 \<and>
     \<not> is_member_online (members_of rt') 7 \<and> 7 \<in> set (unassigned (elections_of run_silent) 1) \<and>
     7 \<notin> set (unassigned (elections_of rt') 1) \<and> timed_out (members_of rt') = []"
proof -
  have "keyed (shards_of run_silent)" by (simp add: run_silent_def run_defs keyed_def commitments_ok_def)
  then obtain rt' where r: "timeout_heartbeats test_config run_silent = Some rt'" using timeout_heartbeats_total by blast
  have s: "split_timeouts (unat (max_timeouts_per_block test_config)) (member_network (members_of run_silent))
      (timed_out (members_of run_silent)) = ([7], [])"
    by (simp add: run_silent_def run_defs test_config_def)
  have "member_network (members_of run_silent) 7 = Some 1" "heartbeats (members_of run_silent) = []"
    "is_member_online (members_of run_silent) 7" "7 \<in> set (unassigned (elections_of run_silent) 1)"
    by (simp_all add: run_silent_def run_defs is_member_online_def)
  with timeout_heartbeats_exact [OF r s] r show ?thesis
    by (auto simp: is_member_online_def siter_def)
qed

section \<open>Who sent a heartbeat stays online\<close>

text \<open>No member that sent a heartbeat in this period waits to time out.\<close>

definition alive_ok :: "members_store \<Rightarrow> bool" where
  "alive_ok m \<longleftrightarrow> (\<forall>a. sget (heartbeats m) a \<noteq> None \<longrightarrow> a \<notin> set (timed_out m))"

lemma alive_ok_same: "same_liveness m m' \<Longrightarrow> alive_ok m' = alive_ok m"
  by (simp add: alive_ok_def same_liveness_def)

lemma execute_send_heartbeat_alive: "execute_send_heartbeat a rt = Inr rt' \<Longrightarrow> alive_ok (members_of rt) \<Longrightarrow> alive_ok (members_of rt')"
  by (auto simp: execute_send_heartbeat_def Let_def alive_ok_def emit_members_def member_online_def
      elections_member_online_def split: if_splits option.splits)

lemma timeout_heartbeats_alive: "timeout_heartbeats cfg rt = Some rt' \<Longrightarrow> alive_ok (members_of rt')"
  by (auto simp: timeout_heartbeats_def Let_def alive_ok_def split: option.splits prod.splits)

lemma elect_members: "elections_on_initialize cfg rt = Some (k, rt') \<Longrightarrow> members_of rt' = members_of rt"
proof -
  have t: "members_of r' = members_of r" if "try_elect_shards cfg n l r = Some (e, r')" for n l r e r'
    using that by (auto simp: try_elect_shards_def Let_def split: if_splits prod.splits)
  have "members_of r' = members_of r" if "elect_loop fuel cfg nets c0 c j r = Some (j', c', b, r')" for fuel nets c0 c j r j' c' b r'
    using that
  proof (induction fuel arbitrary: c j r)
    case (Suc fuel)
    then show ?case using t by (fastforce simp: Let_def split: if_splits option.splits)
  qed simp
  then show "elections_on_initialize cfg rt = Some (k, rt') \<Longrightarrow> members_of rt' = members_of rt"
    by (auto simp: elections_on_initialize_def Let_def simp del: elect_loop.simps split: option.splits if_splits)
qed

lemma timeout_dkgs_liveness: "timeout_dkgs cfg n rt = Some rt' \<Longrightarrow> same_liveness (members_of rt) (members_of rt')"
  unfolding timeout_dkgs_def Let_def
  by (auto split: option.splits if_splits dest!: remove_shards_offline_step simp: offline_step_def)

lemma initialize_block_alive:
  assumes "initialize_block cfg n rt = Some rt'" and "alive_ok (members_of rt)"
  shows "alive_ok (members_of rt')"
proof -
  obtain rt1 rt2 k rt3 t where
    1: "members_on_initialize cfg n (rt\<lparr>block_of := n\<rparr>) = Some rt1" and
    2: "shards_on_initialize cfg n rt1 = Some rt2" and
    3: "elections_on_initialize cfg rt2 = Some (k, rt3)" and rt': "rt' = rt3\<lparr>tasks_of := t\<rparr>"
    using assms(1) by (auto simp: initialize_block_def bind_eq_Some_conv)
  have "alive_ok (members_of rt1)"
    using 1 assms(2) by (auto simp: members_on_initialize_def split: if_splits dest: timeout_heartbeats_alive)
  moreover have "same_liveness (members_of rt1) (members_of rt2)"
    using 2 unfolding shards_on_initialize_def by (rule timeout_dkgs_liveness)
  ultimately show ?thesis using alive_ok_same elect_members [OF 3] by (simp add: rt')
qed

lemma runtime_step_alive: "runtime_step cfg rt rt' \<Longrightarrow> alive_ok (members_of rt) \<Longrightarrow> alive_ok (members_of rt')"
proof (induction rule: runtime_step.induct)
  case (register orig n key peer rt rt')
  then show ?case
    by (auto simp: register_member_def execute_register_member_def Let_def emit_members_def alive_ok_def split: if_splits)
next
  case (unregister orig a rt rt')
  then show ?case
    by (auto simp: unregister_member_def execute_unregister_member_def do_unregister_member_def Let_def emit_members_def
        alive_ok_def split: if_splits option.splits)
next
  case (heartbeat orig rt rt')
  then show ?case by (auto simp: send_heartbeat_def split: option.splits intro: execute_send_heartbeat_alive)
next
  case (commit orig i c pok rt rt')
  then show ?case
    by (auto simp: commit_def split: option.splits if_splits elim!: execute_commit_cases)
next
  case (ready orig i rt rt')
  then show ?case by (auto simp: ready_def split: option.splits if_splits elim!: execute_ready_cases)
next
  case (force_offline orig i rt rt')
  then show ?case
    by (auto simp: force_shard_offline_def offline_step_def alive_ok_same split: if_splits dest!: remove_shards_offline_step)
next
  case (add_network orig net rt rt')
  then show ?case
    by (auto simp: register_network_def insert_network_def Let_def split: if_splits option.splits sum.splits)
next
  case (block b rt rt')
  then show ?case by (rule initialize_block_alive)
qed simp_all

lemma runtime_reachable_alive: "runtime_reachable cfg adm rt \<Longrightarrow> alive_ok (members_of rt)"
proof (induction rule: runtime_reachable.induct)
  case (genesis nets rt)
  have "members_of rt = members_of empty_runtime"
    using genesis(1) unfolding genesis_networks_def
    by (rule ofold_invariant) (auto simp: insert_network_def Let_def split: if_splits option.splits sum.splits)
  then show ?case by (simp add: empty_runtime_def empty_members_def alive_ok_def)
next
  case (step rt rt')
  then show ?case using runtime_step_alive by blast
qed

text \<open>What the start of a block does to one member: a timeout clears the heartbeats and spares the members that sent one.\<close>

lemma initialize_block_members:
  assumes "initialize_block cfg n rt = Some rt'" and "runtime_reachable cfg adm rt"
  shows "if n mod heartbeat_timeout cfg = 0
    then sget (heartbeats (members_of rt')) a = None \<and>
      (sget (heartbeats (members_of rt)) a \<noteq> None \<longrightarrow> is_member_online (members_of rt') a = is_member_online (members_of rt) a)
    else sget (heartbeats (members_of rt')) a = sget (heartbeats (members_of rt)) a \<and>
      is_member_online (members_of rt') a = is_member_online (members_of rt) a"
proof -
  obtain rt1 rt2 k rt3 t where
    1: "members_on_initialize cfg n (rt\<lparr>block_of := n\<rparr>) = Some rt1" and
    2: "shards_on_initialize cfg n rt1 = Some rt2" and
    3: "elections_on_initialize cfg rt2 = Some (k, rt3)" and rt': "rt' = rt3\<lparr>tasks_of := t\<rparr>"
    using assms(1) by (auto simp: initialize_block_def bind_eq_Some_conv)
  have "same_liveness (members_of rt1) (members_of rt2)"
    using 2 unfolding shards_on_initialize_def by (rule timeout_dkgs_liveness)
  then have same: "sget (heartbeats (members_of rt')) a = sget (heartbeats (members_of rt1)) a"
    "is_member_online (members_of rt') a = is_member_online (members_of rt1) a"
    using elect_members [OF 3] by (simp_all add: rt' same_liveness_def is_member_online_def)
  show ?thesis
  proof (cases "n mod heartbeat_timeout cfg = 0")
    case True
    then have t: "timeout_heartbeats cfg (rt\<lparr>block_of := n\<rparr>) = Some rt1"
      using 1 by (simp add: members_on_initialize_def split: if_splits)
    obtain taken kept where s: "split_timeouts (unat (max_timeouts_per_block cfg)) (member_network (members_of (rt\<lparr>block_of := n\<rparr>)))
        (timed_out (members_of (rt\<lparr>block_of := n\<rparr>))) = (taken, kept)" by fastforce
    have "a \<notin> set taken" if "sget (heartbeats (members_of rt)) a \<noteq> None"
    proof -
      have "a \<notin> set (timed_out (members_of rt))"
        using runtime_reachable_alive [OF assms(2)] that by (simp add: alive_ok_def)
      then show ?thesis
        using split_timeouts_set(1) [of "unat (max_timeouts_per_block cfg)" "member_network (members_of rt)" "timed_out (members_of rt)"] s
        by auto
    qed
    with timeout_heartbeats_effect [OF t s] same True show ?thesis
      by (simp add: is_member_online_def restrict_map_def)
  next
    case False
    with 1 have "rt1 = rt\<lparr>block_of := n\<rparr>" by (simp add: members_on_initialize_def split: if_splits)
    with same False show ?thesis by (simp add: is_member_online_def)
  qed
qed

text \<open>
  A member that sent a heartbeat since the last timeout is not taken offline by the next one, in any
  state the runtime reaches: its online status is the same before and after the block.
\<close>

theorem alive_members_stay_online:
  assumes "runtime_reachable cfg adm rt" and "sget (heartbeats (members_of rt)) a \<noteq> None"
    and run: "initialize_block cfg n rt = Some rt'"
  shows "is_member_online (members_of rt') a = is_member_online (members_of rt) a"
  using initialize_block_members [OF run assms(1), of a] assms(2) by (simp split: if_splits)

theorem alive_members_stay_online_witness:
  "is_member_online (members_of run_elected) 7 \<and>
   (\<exists>rt'. initialize_block test_config 300 run_elected = Some rt' \<and> is_member_online (members_of rt') 7)"
proof -
  have on: "is_member_online (members_of run_elected) 7" "sget (heartbeats (members_of run_elected)) 7 \<noteq> None"
    by (simp_all add: run_defs is_member_online_def sget_def)
  have "heartbeat_timeout test_config \<noteq> 0" by (simp add: test_config_def)
  then have k: "keyed (shards_of run_elected)" using runtime_reachable_keyed [OF run_reachable(1)] by blast
  have inv: "networks_inv (networks_of run_elected)" "positive_thresholds (networks_of run_elected)"
    using runtime_reachable_inv [OF run_reachable(1)] by (simp_all add: runtime_inv_def)
  have "swf (network_name (networks_of run_elected))" using inv(1) by (simp add: networks_inv_def)
  from initialize_block_total [OF k positive_electable [OF inv] this \<open>heartbeat_timeout test_config \<noteq> 0\<close>]
  obtain rt' where r: "initialize_block test_config 300 run_elected = Some rt'" by blast
  with alive_members_stay_online [OF run_reachable(1) on(2) r] on(1) show ?thesis by blast
qed

end
