(* ===== verification/Shards_Properties.thy ===== *)
theory Shards_Properties
  imports Members_Properties
begin

text \<open>Signers in turn, shards taken offline, and the key generation of a shard.\<close>

section \<open>Signers\<close>

text \<open>\<open>k\<close> calls of \<open>next_signer\<close> in a row, with the keys they return.\<close>

fun next_signers ::
  "config \<Rightarrow> members_store \<Rightarrow> shard_id \<Rightarrow> nat \<Rightarrow> shards_store \<Rightarrow> (public_key list \<times> shards_store) option" where
  "next_signers cfg mem i 0 s = Some ([], s)"
| "next_signers cfg mem i (Suc k) s =
     (case next_signer cfg mem i s of
        None \<Rightarrow> None
      | Some (key, s1) \<Rightarrow> map_option (\<lambda>(keys, s2). (key # keys, s2)) (next_signers cfg mem i k s1))"

lemma next_signer_step:
  assumes "unat (signer_index s i) < length (get_shard_members cfg s i)" and "length (get_shard_members cfg s i) < 2 ^ 32"
    and "member_public_key mem (fst (get_shard_members cfg s i ! unat (signer_index s i))) = Some key"
  obtains s' where "next_signer cfg mem i s = Some (key, s')" "get_shard_members cfg s' i = get_shard_members cfg s i"
    "unat (signer_index s' i) = (unat (signer_index s i) + 1) mod length (get_shard_members cfg s i)"
proof -
  let ?L = "length (get_shard_members cfg s i)" and ?x = "signer_index s i"
  have u: "unat (of_nat ?L :: u32) = ?L" using assms(2) by (simp add: unat_of_nat take_bit_nat_eq_self)
  have x1: "unat (sat_succ ?x) = unat ?x + 1" using assms(1,2) by (simp add: unat_sat_succ)
  let ?next = "if of_nat ?L = sat_succ ?x then 0 else sat_succ ?x"
  let ?s = "s\<lparr>signer_index := (signer_index s)(i := ?next)\<rparr>"
  have "of_nat ?L = sat_succ ?x \<longleftrightarrow> ?L = unat ?x + 1" unfolding word_unat_eq_iff u x1 ..
  then have idx: "unat ?next = (unat ?x + 1) mod ?L" using assms(1) x1 by auto
  have call: "next_signer cfg mem i s = Some (key, ?s)" using assms(1,3) by (simp add: next_signer_def Let_def)
  have same: "get_shard_members cfg ?s i = get_shard_members cfg s i" by (simp add: get_shard_members_def)
  have "unat (signer_index ?s i) = (unat ?x + 1) mod ?L" using idx by simp
  with call same show thesis by (rule that)
qed

lemma next_signers_from:
  assumes "unat (signer_index s i) < length (get_shard_members cfg s i)" and "length (get_shard_members cfg s i) < 2 ^ 32"
    and "\<forall>e\<in>set (get_shard_members cfg s i). member_public_key mem (fst e) = Some (key (fst e))"
  shows "\<exists>s'. next_signers cfg mem i k s = Some (map (\<lambda>j. key (fst (get_shard_members cfg s i !
      ((unat (signer_index s i) + j) mod length (get_shard_members cfg s i))))) [0..<k], s') \<and>
    unat (signer_index s' i) = (unat (signer_index s i) + k) mod length (get_shard_members cfg s i)"
  using assms
proof (induction k arbitrary: s)
  case (Suc k)
  let ?ms = "get_shard_members cfg s i" and ?x = "unat (signer_index s i)"
  have "member_public_key mem (fst (?ms ! ?x)) = Some (key (fst (?ms ! ?x)))" using Suc.prems(1,3) by simp
  then obtain s1 where s1: "next_signer cfg mem i s = Some (key (fst (?ms ! ?x)), s1)"
    "get_shard_members cfg s1 i = ?ms" "unat (signer_index s1 i) = (?x + 1) mod length ?ms"
    using next_signer_step [OF Suc.prems(1,2)] by metis
  have pos: "0 < length ?ms" using Suc.prems(1) by linarith
  have "unat (signer_index s1 i) < length (get_shard_members cfg s1 i)" unfolding s1(2,3) using pos by simp
  from Suc.IH [OF this] Suc.prems(2,3) obtain s' where h: "next_signers cfg mem i k s1 =
      Some (map (\<lambda>j. key (fst (?ms ! (((?x + 1) mod length ?ms + j) mod length ?ms)))) [0..<k], s')"
    "unat (signer_index s' i) = ((?x + 1) mod length ?ms + k) mod length ?ms"
    unfolding s1(2,3) by blast
  have m: "((?x + 1) mod length ?ms + j) mod length ?ms = (?x + Suc j) mod length ?ms" for j
    by (simp add: mod_add_left_eq)
  have cons: "map f [0..<Suc k] = f 0 # map (\<lambda>j. f (Suc j)) [0..<k]" for f :: "nat \<Rightarrow> public_key"
    by (simp add: upt_conv_Cons map_Suc_upt [symmetric] del: upt_Suc)
  have "?x mod length ?ms = ?x" using Suc.prems(1) by simp
  then have "map (\<lambda>j. key (fst (?ms ! ((?x + j) mod length ?ms)))) [0..<Suc k] =
      key (fst (?ms ! ?x)) # map (\<lambda>j. key (fst (?ms ! (((?x + 1) mod length ?ms + j) mod length ?ms)))) [0..<k]"
    unfolding m cons by simp
  then show ?case using s1(1) h m [of k] by (simp del: upt_Suc)
qed simp

text \<open>
  Signers take turns: for a shard whose members all have a public key, as many calls of \<open>next_signer\<close>
  as the shard has members return the key of every member exactly once, in the order of the members from the
  current index on, none of the calls panics, and the index is back where it was.
\<close>

theorem next_signer_rotates:
  assumes "unat (signer_index s i) < length (get_shard_members cfg s i)" and "length (get_shard_members cfg s i) < 2 ^ 32"
    and "\<forall>e\<in>set (get_shard_members cfg s i). member_public_key mem (fst e) = Some (key (fst e))"
  shows "\<exists>s'. next_signers cfg mem i (length (get_shard_members cfg s i)) s =
      Some (map (\<lambda>e. key (fst e)) (rotate (unat (signer_index s i)) (get_shard_members cfg s i)), s') \<and>
    signer_index s' i = signer_index s i"
proof -
  let ?ms = "get_shard_members cfg s i" and ?x = "unat (signer_index s i)"
  obtain s' where s': "next_signers cfg mem i (length ?ms) s =
      Some (map (\<lambda>j. key (fst (?ms ! ((?x + j) mod length ?ms)))) [0..<length ?ms], s')"
    "unat (signer_index s' i) = (?x + length ?ms) mod length ?ms"
    using next_signers_from [OF assms] by blast
  have "map (\<lambda>j. key (fst (?ms ! ((?x + j) mod length ?ms)))) [0..<length ?ms] = map (\<lambda>e. key (fst e)) (rotate ?x ?ms)"
    by (rule nth_equalityI) (simp_all add: nth_rotate)
  moreover have "signer_index s' i = signer_index s i" using s'(2) assms(1) by (simp add: word_unat_eq_iff)
  ultimately show ?thesis using s'(1) by auto
qed

definition signing_shard :: shards_store where
  "signing_shard = empty_shards\<lparr>shard_member_status := [((0, 7), Ready), ((0, 8), Ready)],
     signer_index := (\<lambda>_. 0)(0 := 1)\<rparr>"

definition signing_members :: members_store where
  "signing_members = empty_members\<lparr>member_public_keys := [7 \<mapsto> [7], 8 \<mapsto> [8]]\<rparr>"

theorem next_signer_rotates_witness:
  "\<exists>s'. next_signers test_config signing_members 0 2 signing_shard = Some ([[8], [7]], s') \<and>
    signer_index s' 0 = signer_index signing_shard 0"
proof -
  have ms: "get_shard_members test_config signing_shard 0 = [(7, Ready), (8, Ready)]"
    by (simp add: get_shard_members_def signing_shard_def sprefix_def test_config_def)
  have x: "unat (signer_index signing_shard 0) = 1" by (simp add: signing_shard_def)
  have "\<forall>e\<in>set (get_shard_members test_config signing_shard 0).
      member_public_key signing_members (fst e) = Some ((\<lambda>a. if a = 7 then [7] else [8]) (fst e))"
    by (simp add: ms member_public_key_def signing_members_def)
  from next_signer_rotates [OF _ _ this] have "\<exists>s'. next_signers test_config signing_members 0 (length [(7 :: account_id, Ready), (8, Ready)]) signing_shard =
      Some ([[8], [7]], s') \<and> signer_index s' 0 = signer_index signing_shard 0"
    by (simp add: ms x rotate_def del: next_signers.simps)
  moreover have "length [(7 :: account_id, Ready), (8, Ready)] = 2" by simp
  ultimately show ?thesis by metis
qed

section \<open>Key generation succeeds\<close>

text \<open>The calls of the members, one after the other; \<open>None\<close> if one of them fails.\<close>

definition commits ::
  "config \<Rightarrow> shard_id \<Rightarrow> (account_id \<times> commitment \<times> proof_of_knowledge) list \<Rightarrow> runtime \<Rightarrow> runtime option" where
  "commits cfg i cs rt =
     ofold (\<lambda>(a, c, p) rt. case commit cfg (Signed a) i c p rt of Some (Inr rt') \<Rightarrow> Some rt' | _ \<Rightarrow> None) cs rt"

definition readies :: "config \<Rightarrow> shard_id \<Rightarrow> account_id list \<Rightarrow> runtime \<Rightarrow> runtime option" where
  "readies cfg i as rt =
     ofold (\<lambda>a rt. case ready cfg (Signed a) i rt of Some (Inr rt') \<Rightarrow> Some rt' | _ \<Rightarrow> None) as rt"

text \<open>What the members send: a commitment of the threshold's length to keys that parse, with its proof.\<close>

definition commit_ok ::
  "config \<Rightarrow> members_store \<Rightarrow> u16 \<Rightarrow> account_id \<times> commitment \<times> proof_of_knowledge \<Rightarrow> bool" where
  "commit_ok cfg m t e \<longleftrightarrow> length (fst (snd e)) = unat t \<and> list_all (schnorr_key_ok cfg) (fst (snd e)) \<and>
     (\<exists>peer. member_peer_id m (fst e) = Some peer \<and> schnorr_verify_pok cfg peer (fst (snd e)) (snd (snd e)))"

text \<open>The shard while its members commit to \<open>D\<close>: those in \<open>A\<close> still have to.\<close>

definition committing ::
  "config \<Rightarrow> shard_id \<Rightarrow> network_id \<Rightarrow> u16 \<Rightarrow> (account_id \<Rightarrow> commitment) \<Rightarrow> account_id set \<Rightarrow> runtime \<Rightarrow> bool" where
  "committing cfg i n t D A rt \<longleftrightarrow>
     swf (shard_member_status (shards_of rt)) \<and>
     shard_network (shards_of rt) i = Some n \<and> shard_threshold (shards_of rt) i = Some t \<and>
     (\<forall>a\<in>A. sget (shard_member_status (shards_of rt)) (i, a) = Some Added) \<and>
     (\<forall>a st. sget (shard_member_status (shards_of rt)) (i, a) = Some st \<longrightarrow> a \<in> A \<or> st = Committed (D a))"

lemma committing_cong:
  assumes "shard_member_status (shards_of rt') = shard_member_status (shards_of rt)"
    "shard_network (shards_of rt') = shard_network (shards_of rt)" "shard_threshold (shards_of rt') = shard_threshold (shards_of rt)"
  shows "committing cfg i n t D A rt' = committing cfg i n t D A rt"
  by (simp add: committing_def assms)

text \<open>A commit that is not the last one: only the status of the member changes.\<close>

lemma commit_more:
  assumes c: "committing cfg i n t D (insert a A) rt" and a: "a \<notin> A" and more: "A \<noteq> {}"
    and ok: "commit_ok cfg (members_of rt) t (a, D a, p)"
  shows "\<exists>rt'. commit cfg (Signed a) i (D a) p rt = Some (Inr rt') \<and> committing cfg i n t D A rt' \<and>
    members_of rt' = members_of rt \<and>
    (\<forall>b. sget (shard_member_status (shards_of rt')) (i, b) = None \<longleftrightarrow> sget (shard_member_status (shards_of rt)) (i, b) = None)"
proof -
  let ?s = "shards_of rt"
  let ?s1 = "?s\<lparr>shard_member_status := sput (i, a) (Committed (D a)) (shard_member_status ?s)\<rparr>"
  have st: "sget (shard_member_status ?s) (i, a) = Some Added" and th: "shard_threshold ?s i = Some t"
    and wf: "swf (shard_member_status ?s1)" using c by (simp_all add: committing_def)
  have "committing cfg i n t D A (rt\<lparr>shards_of := ?s1\<rparr>)" using c a by (auto simp: committing_def)
  moreover obtain b where "b \<in> A" using more by auto
  then have "sget (shard_member_status ?s1) (i, b) = Some Added" using c a by (auto simp: committing_def)
  then have "(b, Added) \<in> set (get_shard_members cfg ?s1 i)" unfolding get_shard_members_iff [OF wf] .
  then have "\<not> list_all is_committed (map snd (get_shard_members cfg ?s1 i))"
    by (force simp: list_all_iff is_committed_def)
  then have "commit cfg (Signed a) i (D a) p rt = Some (Inr (rt\<lparr>shards_of := ?s1\<rparr>))"
    using st th ok by (auto simp: commit_ok_def commit_def execute_commit_def Let_def dispatch_of_def)
  ultimately show ?thesis using st by (intro exI [of _ "rt\<lparr>shards_of := ?s1\<rparr>"]) auto
qed

text \<open>
  The last commit: the commitments of all members are added up, in the order in which the storage has them. It succeeds if their
  sum can be encoded, and panics if not.
\<close>

lemma commit_last:
  assumes c: "committing cfg i n t D {a} rt" and ok: "commit_ok cfg (members_of rt) t (a, D a, p)"
  shows "\<exists>gs. mset gs = mset (map D (shard_members cfg (shards_of rt) i)) \<and> (case group_commitment cfg gs of
      None \<Rightarrow> commit cfg (Signed a) i (D a) p rt = None
    | Some g \<Rightarrow> \<exists>rt' k. g = Some k \<and> commit cfg (Signed a) i (D a) p rt = Some (Inr rt') \<and> committing cfg i n t D {} rt' \<and>
        get_shard_status (shards_of rt') i = SCommitted \<and> shard_commitment (shards_of rt') i = Some k \<and>
        (\<forall>b. sget (shard_member_status (shards_of rt')) (i, b) = None \<longleftrightarrow>
             sget (shard_member_status (shards_of rt)) (i, b) = None))"
proof -
  let ?s = "shards_of rt"
  let ?s1 = "?s\<lparr>shard_member_status := sput (i, a) (Committed (D a)) (shard_member_status ?s)\<rparr>"
  let ?gs = "map D (shard_members cfg ?s1 i)"
  let ?ms = "get_shard_members cfg ?s1 i"
  let ?cs = "List.map_filter (\<lambda>e. status_commitment (snd e)) ?ms"
  have st: "sget (shard_member_status ?s) (i, a) = Some Added" and th: "shard_threshold ?s i = Some t"
    and wf: "swf (shard_member_status ?s1)" using c by (simp_all add: committing_def)
  have c1: "committing cfg i n t D {} (rt\<lparr>shards_of := ?s1\<rparr>)" using c by (auto simp: committing_def)
  have com: "x = Committed (D b)" if "(b, x) \<in> set ?ms" for b x
    using that c1 unfolding get_shard_members_iff [OF wf] by (auto simp: committing_def split: if_splits)
  then have all: "list_all is_committed (map snd ?ms)" by (force simp: list_all_iff is_committed_def)
  have "List.map_filter (\<lambda>e. status_commitment (snd e)) ms = map D (map fst ms)"
    if "list_all (\<lambda>e. snd e = Committed (D (fst e))) ms" for ms :: "(account_id \<times> member_status) list"
    using that by (induction ms) (simp_all add: List.map_filter_simps)
  moreover have "list_all (\<lambda>e. snd e = Committed (D (fst e))) ?ms" using com by (auto simp: list_all_iff)
  ultimately have cs: "?cs = ?gs" by (simp add: shard_members_def get_shard_members_def)
  have "(a, Committed (D a)) \<in> set ?ms" unfolding get_shard_members_iff [OF wf] by simp
  then have ne: "?gs \<noteq> []" by (auto simp: shard_members_def get_shard_members_def)
  have "mset (shard_members cfg ?s1 i) = mset (shard_members cfg ?s i)"
    by (rule mset_shard_members [OF wf]) (use c st in \<open>auto simp: committing_def\<close>)
  then have gs: "mset ?gs = mset (map D (shard_members cfg ?s i))" by simp
  have run: "commit cfg (Signed a) i (D a) p rt = (case group_commitment cfg ?gs of
      None \<Rightarrow> None | Some None \<Rightarrow> Some (Inl (ModuleError InvalidCommitment))
    | Some (Some g) \<Rightarrow> Some (Inr (rt\<lparr>shards_of := emit_shards (ShardCommitted i g) (?s1\<lparr>
        shard_commitment := (shard_commitment ?s1)(i \<mapsto> g), shard_state := (shard_state ?s1)(i \<mapsto> SCommitted)\<rparr>)\<rparr>)))"
    using st th ok all cs
    by (auto simp: commit_ok_def commit_def execute_commit_def Let_def dispatch_of_def split: option.split)
  show ?thesis
  proof (cases "group_commitment cfg ?gs")
    case None
    with run gs show ?thesis by (intro exI [of _ ?gs]) simp
  next
    case (Some g)
    with ne obtain k where k: "g = Some k" by (auto simp: group_commitment_def split: list.splits)
    let ?rt' = "rt\<lparr>shards_of := emit_shards (ShardCommitted i k) (?s1\<lparr>
        shard_commitment := (shard_commitment ?s1)(i \<mapsto> k), shard_state := (shard_state ?s1)(i \<mapsto> SCommitted)\<rparr>)\<rparr>"
    have "committing cfg i n t D {} ?rt' = committing cfg i n t D {} (rt\<lparr>shards_of := ?s1\<rparr>)"
      by (rule committing_cong) (simp_all add: emit_shards_def)
    then have "committing cfg i n t D {} ?rt'" using c1 by blast
    moreover have "get_shard_status (shards_of ?rt') i = SCommitted" "shard_commitment (shards_of ?rt') i = Some k"
      "\<forall>b. sget (shard_member_status (shards_of ?rt')) (i, b) = None \<longleftrightarrow> sget (shard_member_status ?s) (i, b) = None"
      using st by (auto simp: emit_shards_def get_shard_status_def)
    moreover have "commit cfg (Signed a) i (D a) p rt = Some (Inr ?rt')" using run Some k by simp
    ultimately have "case group_commitment cfg ?gs of
        None \<Rightarrow> commit cfg (Signed a) i (D a) p rt = None
      | Some g \<Rightarrow> \<exists>rt' k. g = Some k \<and> commit cfg (Signed a) i (D a) p rt = Some (Inr rt') \<and> committing cfg i n t D {} rt' \<and>
          get_shard_status (shards_of rt') i = SCommitted \<and> shard_commitment (shards_of rt') i = Some k \<and>
          (\<forall>b. sget (shard_member_status (shards_of rt')) (i, b) = None \<longleftrightarrow> sget (shard_member_status ?s) (i, b) = None)"
      unfolding Some k option.case by blast
    with gs show ?thesis by blast
  qed
qed

lemma commits_some:
  assumes "committing cfg i n t D (set (map fst cs) \<union> B) rt" "distinct (map fst cs)" "set (map fst cs) \<inter> B = {}" "B \<noteq> {}"
    and "\<forall>e\<in>set cs. commit_ok cfg (members_of rt) t e \<and> fst (snd e) = D (fst e)"
  shows "\<exists>rt'. commits cfg i cs rt = Some rt' \<and> committing cfg i n t D B rt' \<and> members_of rt' = members_of rt \<and>
    (\<forall>b. sget (shard_member_status (shards_of rt')) (i, b) = None \<longleftrightarrow> sget (shard_member_status (shards_of rt)) (i, b) = None)"
  using assms
proof (induction cs arbitrary: rt)
  case (Cons e cs)
  obtain a p where e: "e = (a, D a, p)" using Cons.prems(5) by (cases e) auto
  have "committing cfg i n t D (insert a (set (map fst cs) \<union> B)) rt" "a \<notin> set (map fst cs) \<union> B" "set (map fst cs) \<union> B \<noteq> {}"
    "commit_ok cfg (members_of rt) t (a, D a, p)" using Cons.prems by (auto simp: e)
  from commit_more [OF this] obtain rt1 where
    1: "commit cfg (Signed a) i (D a) p rt = Some (Inr rt1)" "committing cfg i n t D (set (map fst cs) \<union> B) rt1"
    "members_of rt1 = members_of rt"
    "\<forall>b. sget (shard_member_status (shards_of rt1)) (i, b) = None \<longleftrightarrow> sget (shard_member_status (shards_of rt)) (i, b) = None" by blast
  have step: "commits cfg i (e # cs) rt = commits cfg i cs rt1" by (simp add: commits_def e 1(1))
  from Cons.IH [OF 1(2)] Cons.prems(2-5) 1(3,4) show ?case unfolding step by simp
qed (simp add: commits_def)

text \<open>The shard while its members report ready: those in \<open>A\<close> still have to.\<close>

definition readying :: "shard_id \<Rightarrow> network_id \<Rightarrow> account_id set \<Rightarrow> runtime \<Rightarrow> bool" where
  "readying i n A rt \<longleftrightarrow>
     swf (shard_member_status (shards_of rt)) \<and> shard_network (shards_of rt) i = Some n \<and>
     (\<exists>k gs. shard_commitment (shards_of rt) i = Some (k # gs)) \<and>
     (\<forall>a\<in>A. \<exists>c. sget (shard_member_status (shards_of rt)) (i, a) = Some (Committed c)) \<and>
     (\<forall>a st. sget (shard_member_status (shards_of rt)) (i, a) = Some st \<longrightarrow> a \<in> A \<or> st = Ready)"

lemma committed_readying:
  assumes c: "committing cfg i n t D {} rt" and k: "shard_commitment (shards_of rt) i = Some (k # ks)"
    and as: "\<And>b. sget (shard_member_status (shards_of rt)) (i, b) \<noteq> None \<longleftrightarrow> b \<in> A"
  shows "readying i n A rt"
  unfolding readying_def
proof (intro conjI ballI allI impI)
  have com: "st = Committed (D b)" if "sget (shard_member_status (shards_of rt)) (i, b) = Some st" for b st
    using c that by (simp add: committing_def)
  show "\<exists>c. sget (shard_member_status (shards_of rt)) (i, b) = Some (Committed c)" if "b \<in> A" for b
    using as [of b] com [of b] that by auto
  show "b \<in> A \<or> st = Ready" if "sget (shard_member_status (shards_of rt)) (i, b) = Some st" for b st
    using as [of b] that by simp
qed (use c k in \<open>simp_all add: committing_def\<close>)

lemma added_committing:
  assumes "swf (shard_member_status (shards_of rt))" "shard_network (shards_of rt) i = Some n" "shard_threshold (shards_of rt) i = Some t"
    and dom: "\<And>b. sget (shard_member_status (shards_of rt)) (i, b) \<noteq> None \<longleftrightarrow> b \<in> A"
    and added: "\<forall>e\<in>set (get_shard_members cfg (shards_of rt) i). snd e = Added"
  shows "committing cfg i n t D A rt"
  unfolding committing_def
proof (intro conjI ballI allI impI)
  have added: "st = Added" if "sget (shard_member_status (shards_of rt)) (i, b) = Some st" for b st
    using added get_shard_members_iff [OF assms(1), of b st cfg i] that by force
  show "sget (shard_member_status (shards_of rt)) (i, b) = Some Added" if "b \<in> A" for b
    using dom [of b] added [of b] that by auto
  show "b \<in> A \<or> st = Committed (D b)" if "sget (shard_member_status (shards_of rt)) (i, b) = Some st" for b st
    using dom [of b] that by simp
qed (use assms(1-3) in simp_all)

lemma shard_online_total: "tss_public_key shs i = Some k \<Longrightarrow> \<exists>t. shard_online nets shs i n s = Some t"
  by (auto simp: shard_online_def Let_def split: option.split)

lemma ready_one:
  assumes r: "readying i n (insert a A) rt" and a: "a \<notin> A"
  shows "\<exists>rt'. ready cfg (Signed a) i rt = Some (Inr rt') \<and> readying i n A rt' \<and>
    (A = {} \<longrightarrow> is_shard_online (shards_of rt') i \<and> sget (network_shards (tasks_of rt')) (n, i) \<noteq> None)"
proof -
  let ?s = "shards_of rt"
  let ?s1 = "?s\<lparr>shard_member_status := sput (i, a) Ready (shard_member_status ?s)\<rparr>"
  obtain c k gs where st: "sget (shard_member_status ?s) (i, a) = Some (Committed c)" and n: "shard_network ?s i = Some n"
    and g: "shard_commitment ?s i = Some (k # gs)" and wf: "swf (shard_member_status ?s1)"
    using r by (auto simp: readying_def)
  have r1: "readying i n A (rt\<lparr>shards_of := ?s1\<rparr>)" using r a by (auto simp: readying_def)
  have mem: "(b, x) \<in> set (get_shard_members cfg ?s1 i) \<longleftrightarrow> sget (shard_member_status ?s1) (i, b) = Some x" for b x
    by (rule get_shard_members_iff [OF wf])
  show ?thesis
  proof (cases "A = {}")
    case True
    have all: "list_all (\<lambda>e. snd e = Ready) (get_shard_members cfg ?s1 i)"
      using r1 True mem by (auto simp: list_all_iff readying_def split: if_splits)
    let ?s2 = "emit_shards (ShardOnline i k) (?s1\<lparr>shard_state := (shard_state ?s1)(i \<mapsto> SOnline)\<rparr>)"
    have key: "tss_public_key ?s2 i = Some (Some k)" using g by (simp add: tss_public_key_def emit_shards_def)
    then obtain t where t: "shard_online (networks_of rt) ?s2 i n (tasks_of rt) = Some t"
      using shard_online_total by blast
    let ?rt' = "rt\<lparr>shards_of := ?s2, tasks_of := t\<rparr>"
    have "ready cfg (Signed a) i rt = Some (Inr ?rt')"
      using st n g all t by (simp add: ready_def execute_ready_def Let_def dispatch_of_def)
    moreover have "readying i n A ?rt'" using r1 by (simp add: readying_def emit_shards_def)
    moreover have "is_shard_online (shards_of ?rt') i" by (simp add: is_shard_online_def emit_shards_def)
    moreover have "sget (network_shards (tasks_of ?rt')) (n, i) \<noteq> None" by (simp add: shard_online_shards [OF t])
    ultimately show ?thesis by blast
  next
    case False
    then obtain b where b: "b \<in> A" by auto
    then obtain d where "sget (shard_member_status ?s) (i, b) = Some (Committed d)"
      using r unfolding readying_def by blast
    then have "(b, Committed d) \<in> set (get_shard_members cfg ?s1 i)" unfolding mem using a b by auto
    then have "\<not> list_all (\<lambda>e. snd e = Ready) (get_shard_members cfg ?s1 i)" by (force simp: list_all_iff)
    then have "ready cfg (Signed a) i rt = Some (Inr (rt\<lparr>shards_of := ?s1\<rparr>))"
      using st n g by (simp add: ready_def execute_ready_def Let_def dispatch_of_def)
    with False r1 show ?thesis by blast
  qed
qed

lemma readies_all:
  "readying i n (set as) rt \<Longrightarrow> distinct as \<Longrightarrow> as \<noteq> [] \<Longrightarrow>
    \<exists>rt'. readies cfg i as rt = Some rt' \<and> is_shard_online (shards_of rt') i \<and>
      sget (network_shards (tasks_of rt')) (n, i) \<noteq> None"
proof (induction as arbitrary: rt)
  case (Cons a as)
  from ready_one [of i n a "set as" rt cfg] Cons.prems obtain rt1 where
    1: "ready cfg (Signed a) i rt = Some (Inr rt1)" "readying i n (set as) rt1"
    "set as = {} \<longrightarrow> is_shard_online (shards_of rt1) i \<and> sget (network_shards (tasks_of rt1)) (n, i) \<noteq> None" by auto
  have step: "readies cfg i (a # as) rt = readies cfg i as rt1" by (simp add: readies_def 1(1))
  show ?case
  proof (cases "as = []")
    case True
    with 1 step show ?thesis by (simp add: readies_def)
  next
    case False
    with Cons.IH [OF 1(2)] Cons.prems 1 step show ?thesis by simp
  qed
qed simp

text \<open>
  C16. Key generation, in whatever order the members act: every member of a newly created shard
  commits to as many valid keys as the threshold, with a proof of knowledge. All of these calls but the last succeed.
  If the sum of the commitments can be encoded the last one succeeds too and leaves the shard committed to
  this sum; and when after that every member reports ready, in any order, those calls succeed and the last one
  leaves the shard online and serving its network. If it cannot, as when the keys of one position add up to the
  identity, the last commit panics. The threshold is positive.
\<close>

theorem dkg_brings_shard_online:
  assumes "runtime_reachable cfg adm rt" and "shard_network (shards_of rt) i = Some n"
    and "shard_threshold (shards_of rt) i = Some t" and "t \<noteq> 0"
    and "\<forall>e\<in>set (get_shard_members cfg (shards_of rt) i). snd e = Added"
    and "set (map fst cs) = set (shard_members cfg (shards_of rt) i)" and "distinct (map fst cs)" and "cs \<noteq> []"
    and "\<forall>e\<in>set cs. commit_ok cfg (members_of rt) t e"
    and "set as = set (shard_members cfg (shards_of rt) i)" and "distinct as"
  shows "\<exists>gs rt0. mset gs = mset (map (\<lambda>e. fst (snd e)) cs) \<and> commits cfg i (butlast cs) rt = Some rt0 \<and>
    (case group_commitment cfg gs of
       None \<Rightarrow> commit cfg (Signed (fst (last cs))) i (fst (snd (last cs))) (snd (snd (last cs))) rt0 = None
     | Some g \<Rightarrow> \<exists>rt1 rt2. commits cfg i cs rt = Some rt1 \<and> get_shard_status (shards_of rt1) i = SCommitted \<and>
         shard_commitment (shards_of rt1) i = g \<and> readies cfg i as rt1 = Some rt2 \<and> is_shard_online (shards_of rt2) i \<and>
         sget (network_shards (tasks_of rt2)) (n, i) \<noteq> None)"
proof -
  define D where "D = (\<lambda>a. the (map_of (map (\<lambda>e. (fst e, fst (snd e))) cs) a))"
  have D: "fst (snd e) = D (fst e)" if "e \<in> set cs" for e
  proof -
    have "map_of (map (\<lambda>e. (fst e, fst (snd e))) cs) (fst e) = Some (fst (snd e))"
      by (rule map_of_is_SomeI) (use that assms(7) in \<open>auto simp: o_def\<close>)
    then show ?thesis by (simp add: D_def)
  qed
  obtain bs a p where cs: "cs = bs @ [(a, D a, p)]"
    using assms(8) D [of "last cs"] by (metis append_butlast_last_id last_in_set prod.collapse)
  have m: "members_ok (shards_of rt)" using runtime_reachable_inv [OF assms(1)] by (simp add: runtime_inv_def)
  note wf = membersD(1) [OF m]
  have mem: "b \<in> set (shard_members cfg (shards_of rt) i) \<longleftrightarrow> sget (shard_member_status (shards_of rt)) (i, b) \<noteq> None" for b
    using set_shard_members [OF wf] by blast
  have dom: "sget (shard_member_status (shards_of rt)) (i, b) \<noteq> None \<longleftrightarrow> b \<in> set (map fst bs) \<union> {a}" for b
    using mem [of b] assms(6) by (auto simp: cs)
  have "committing cfg i n t D (set (map fst bs) \<union> {a}) rt" by (rule added_committing [OF wf assms(2,3) dom assms(5)])
  from commits_some [OF this] obtain rt0 where
    0: "commits cfg i bs rt = Some rt0" "committing cfg i n t D {a} rt0" "members_of rt0 = members_of rt"
    "\<forall>b. sget (shard_member_status (shards_of rt0)) (i, b) = None \<longleftrightarrow> sget (shard_member_status (shards_of rt)) (i, b) = None"
    using assms(7,9) D by (auto simp: cs)
  have swf0: "swf (shard_member_status (shards_of rt0))" using 0(2) by (simp add: committing_def)
  have "mset (shard_members cfg (shards_of rt0) i) = mset (shard_members cfg (shards_of rt) i)"
    by (rule mset_shard_members [OF swf0 wf]) (use 0(4) in blast)
  also have "\<dots> = mset (map fst cs)"
    by (rule set_eq_iff_mset_eq_distinct [THEN iffD1, OF distinct_shard_members [OF wf] assms(7) assms(6) [symmetric]])
  finally have "mset (map D (shard_members cfg (shards_of rt0) i)) = mset (map D (map fst cs))" by (metis mset_map)
  also have "map D (map fst cs) = map (\<lambda>e. fst (snd e)) cs" using D by simp
  finally have all: "mset (map D (shard_members cfg (shards_of rt0) i)) = mset (map (\<lambda>e. fst (snd e)) cs)" .
  have "commit_ok cfg (members_of rt0) t (a, D a, p)" using assms(9) by (simp add: cs 0(3))
  from commit_last [OF 0(2) this, unfolded all] obtain gs where gs: "mset gs = mset (map (\<lambda>e. fst (snd e)) cs)" and
    last: "case group_commitment cfg gs of
      None \<Rightarrow> commit cfg (Signed a) i (D a) p rt0 = None
    | Some g \<Rightarrow> \<exists>rt' k. g = Some k \<and> commit cfg (Signed a) i (D a) p rt0 = Some (Inr rt') \<and> committing cfg i n t D {} rt' \<and>
        get_shard_status (shards_of rt') i = SCommitted \<and> shard_commitment (shards_of rt') i = Some k \<and>
        (\<forall>b. sget (shard_member_status (shards_of rt')) (i, b) = None \<longleftrightarrow>
             sget (shard_member_status (shards_of rt0)) (i, b) = None)" by blast
  have step: "commits cfg i cs rt = (case commit cfg (Signed a) i (D a) p rt0 of Some (Inr rt') \<Rightarrow> Some rt' | _ \<Rightarrow> None)"
    using 0(1) by (simp add: cs commits_def ofold_append split: option.split sum.split)
  show ?thesis
  proof (cases "group_commitment cfg gs")
    case None
    with last gs 0(1) show ?thesis by (intro exI [of _ gs] exI [of _ rt0]) (simp add: cs)
  next
    case (Some g)
    with last obtain rt1 k where 1: "g = Some k" "commit cfg (Signed a) i (D a) p rt0 = Some (Inr rt1)"
      "committing cfg i n t D {} rt1" "get_shard_status (shards_of rt1) i = SCommitted" "shard_commitment (shards_of rt1) i = Some k"
      "\<forall>b. sget (shard_member_status (shards_of rt1)) (i, b) = None \<longleftrightarrow> sget (shard_member_status (shards_of rt0)) (i, b) = None"
      by auto
    have "length c = unat t" if "c \<in> set (map (\<lambda>e. fst (snd e)) cs)" for c
      using assms(9) that by (auto simp: commit_ok_def)
    then have "length k = unat t"
      using group_commitment_length(1) [OF Some [unfolded 1(1)], of "unat t"] mset_eq_setD [OF gs] by blast
    then obtain k0 ks where k: "k = k0 # ks" using assms(4) by (cases k) (auto simp: unat_eq_0)
    have "sget (shard_member_status (shards_of rt1)) (i, b) \<noteq> None \<longleftrightarrow> b \<in> set as" for b
      unfolding assms(10) mem [of b] spec [OF 1(6), of b] spec [OF 0(4), of b] by (rule refl)
    from committed_readying [OF 1(3) 1(5) [unfolded k] this] have "readying i n (set as) rt1" .
    moreover have "as \<noteq> []" using assms(6,8,10) by auto
    ultimately obtain rt2 where "readies cfg i as rt1 = Some rt2" "is_shard_online (shards_of rt2) i"
      "sget (network_shards (tasks_of rt2)) (n, i) \<noteq> None" using readies_all assms(11) by blast
    with 1 gs 0(1) step Some show ?thesis
      by (intro exI [of _ gs] exI [of _ rt0]) (simp add: cs)
  qed
qed

theorem dkg_brings_shard_online_witness:
  "\<exists>rt1 rt2. commits test_config 0 [(7, [[9]], [])] run_elected = Some rt1 \<and> get_shard_status (shards_of rt1) 0 = SCommitted \<and>
    shard_commitment (shards_of rt1) 0 = Some [[9]] \<and> readies test_config 0 [7] rt1 = Some rt2 \<and>
    is_shard_online (shards_of rt2) 0 \<and> sget (network_shards (tasks_of rt2)) (1, 0) \<noteq> None"
proof -
  have net: "shard_network (shards_of run_elected) 0 = Some 1" "shard_threshold (shards_of run_elected) 0 = Some 1"
    by (simp_all add: run_defs)
  have "get_shard_members test_config (shards_of run_elected) 0 = [(7, Added)]"
    "shard_members test_config (shards_of run_elected) 0 = [7]"
    by (simp_all add: get_shard_members_def shard_members_def sprefix_def run_defs test_config_def)
  then have ms: "\<forall>e\<in>set (get_shard_members test_config (shards_of run_elected) 0). snd e = Added"
    "set (map fst [(7, [[9 :: u8]], [] :: bytes)]) = set (shard_members test_config (shards_of run_elected) 0)"
    "set [7] = set (shard_members test_config (shards_of run_elected) 0)" by simp_all
  have ok: "\<forall>e\<in>set [(7, [[9]], [])]. commit_ok test_config (members_of run_elected) 1 e"
    by (simp add: commit_ok_def member_peer_id_def run_defs test_config_def)
  from dkg_brings_shard_online [OF run_reachable(1) net one_neq_zero ms(1,2) _ _ ok ms(3)]
  show ?thesis by (auto simp: group_commitment_def)
qed

section \<open>Shards taken offline\<close>

text \<open>Shard \<open>i\<close> of network \<open>n\<close> is gone and its members \<open>A\<close> are noted for the elections.\<close>

definition gone :: "shard_id \<Rightarrow> network_id \<Rightarrow> account_id set \<Rightarrow> (network_id, account_id list) smap \<times> runtime \<Rightarrow> bool" where
  "gone i n A ur \<longleftrightarrow>
     (\<forall>a\<in>A. (\<exists>ms. sget (fst ur) n = Some ms \<and> a \<in> set ms) \<and> member_shard (shards_of (snd ur)) a = None) \<and>
     (\<forall>b. sget (shard_member_status (shards_of (snd ur))) (i, b) = None) \<and>
     shard_state (shards_of (snd ur)) i = Some SOffline \<and> shard_network (shards_of (snd ur)) i = None"

lemma remove_shard_gone:
  assumes "remove_shard cfg j ur = Some ur'" and "swf (shard_member_status (shards_of (snd ur)))"
  shows "swf (shard_member_status (shards_of (snd ur'))) \<and> (gone i n A ur \<longrightarrow> gone i n A ur') \<and>
    (j = i \<longrightarrow> shard_network (shards_of (snd ur)) i = Some n \<longrightarrow>
      A = set (shard_members cfg (shards_of (snd ur)) i) \<longrightarrow> gone i n A ur') \<and>
    (j \<noteq> i \<longrightarrow> shard_network (shards_of (snd ur')) i = shard_network (shards_of (snd ur)) i \<and>
      set (shard_members cfg (shards_of (snd ur')) i) = set (shard_members cfg (shards_of (snd ur)) i))"
proof -
  obtain ups rt where ur: "ur = (ups, rt)" by fastforce
  obtain ups' rt' where ur': "ur' = (ups', rt')" by fastforce
  have wf: "swf (shard_member_status (shards_of rt))" using assms(2) by (simp add: ur)
  have "remove_shard cfg j (ups, rt) = Some (ups', rt')" using assms(1) by (simp add: ur ur')
  then show ?thesis
  proof (cases rule: remove_shard_cases)
    case unknown
    then show ?thesis using wf by (auto simp: ur ur' gone_def marked_offline_def shard_members_def)
  next
    case (known m t)
    have wf': "swf (sclear_prefix j (shard_member_status (shards_of rt)))" using wf by simp
    have "set (shard_members cfg (without_members cfg j (shards_of rt)) i) = set (shard_members cfg (shards_of rt) i)" if "j \<noteq> i"
      using set_shard_members [of "without_members cfg j (shards_of rt)" cfg i] set_shard_members [OF wf, of cfg i] wf' that
      by (auto simp: without_members_def)
    moreover have "gone i n A ur'" if "gone i n A ur"
      using that known by (auto simp: ur ur' gone_def without_members_def marked_offline_def restrict_map_def)
    moreover have "gone i n A ur'" if "j = i" "shard_network (shards_of rt) i = Some n" "A = set (shard_members cfg (shards_of rt) i)"
      using that known by (auto simp: ur ur' gone_def without_members_def marked_offline_def restrict_map_def)
    ultimately show ?thesis
      using wf' known by (auto simp: ur ur' without_members_def marked_offline_def)
  qed
qed

lemma remove_loop_gone:
  assumes "ofold (remove_shard cfg) is ur = Some ur'" and "swf (shard_member_status (shards_of (snd ur)))"
  shows "gone i n A ur \<or> i \<in> set is \<and> shard_network (shards_of (snd ur)) i = Some n \<and>
      A = set (shard_members cfg (shards_of (snd ur)) i) \<Longrightarrow> gone i n A ur'"
  using assms
proof (induction "is" arbitrary: ur)
  case (Cons j "is")
  obtain v where v: "remove_shard cfg j ur = Some v" "ofold (remove_shard cfg) is v = Some ur'"
    using Cons.prems(2) by (auto split: option.splits)
  note step = remove_shard_gone [OF v(1) Cons.prems(3)]
  have "gone i n A v \<or> i \<in> set is \<and> shard_network (shards_of (snd v)) i = Some n \<and>
      A = set (shard_members cfg (shards_of (snd v)) i)"
    using Cons.prems(1) step [of i n A] by (cases "j = i") auto
  moreover have "swf (shard_member_status (shards_of (snd v)))" using step by blast
  ultimately show ?case using Cons.IH v(2) by blast
qed auto

text \<open>A member noted for the elections of a network, registered and online, is among its unassigned ones afterwards.\<close>

lemma elections_offline_returns:
  assumes "(n, ms) \<in> set es" "a \<in> set ms" "is_member_registered (members_of r) a" "is_member_online (members_of r) a"
  shows "a \<in> set (unassigned (elections_of (fold (\<lambda>e. elections_shard_offline (fst e) (snd e)) es r)) n)"
proof -
  let ?off = "\<lambda>e. elections_shard_offline (fst e) (snd e)"
  have keep: "a \<in> set (unassigned (elections_of (fold ?off es r)) n)" if "a \<in> set (unassigned (elections_of r) n)" for es r
    using that
  proof (induction es arbitrary: r)
    case (Cons e es)
    have "a \<in> set (unassigned (elections_of (?off e r)) n)"
      using Cons.prems by (auto simp: elections_shard_offline_unassigned)
    from Cons.IH [OF this] show ?case by simp
  qed simp
  show ?thesis
    using assms
  proof (induction es arbitrary: r)
    case (Cons e es)
    show ?case
    proof (cases "e = (n, ms)")
      case True
      then have "a \<in> set (unassigned (elections_of (?off e r)) n)"
        using Cons.prems by (simp add: elections_shard_offline_unassigned)
      from keep [OF this] show ?thesis by simp
    next
      case False
      have "same_liveness (members_of r) (members_of (?off e r))" by (rule elections_shard_offline_liveness)
      then have "is_member_registered (members_of (?off e r)) a" "is_member_online (members_of (?off e r)) a"
        using Cons.prems(3,4) by (simp_all add: same_liveness_def is_member_registered_def is_member_online_def)
      with Cons False show ?thesis by simp
    qed
  qed simp
qed

text \<open>
  C17. Taking shards offline releases everything they hold. Of a shard that existed, in network \<open>n\<close>, no
  member is left, no task is assigned to it any more and its state is offline, whatever the state of its members;
  each of its members is free of the shard, and those still registered and online are back among the
  unassigned of the network, ready to be elected again.
\<close>

theorem removed_shard_released:
  assumes "runtime_reachable cfg adm rt" and run: "remove_shards_offline cfg is rt = Some rt'" and "in_range rt'"
    and "i \<in> set is" and "shard_network (shards_of rt) i = Some n"
  shows "get_shard_status (shards_of rt') i = SOffline \<and> shard_members cfg (shards_of rt') i = [] \<and>
    (\<forall>j. task_shard (tasks_of rt') j \<noteq> Some i) \<and>
    (\<forall>a\<in>set (shard_members cfg (shards_of rt) i). \<not> is_shard_member (shards_of rt') a \<and>
      (is_member_registered (members_of rt) a \<longrightarrow> is_member_online (members_of rt) a \<longrightarrow>
        a \<in> set (unassigned (elections_of rt') n)))"
proof -
  let ?A = "set (shard_members cfg (shards_of rt) i)"
  have inv: "runtime_inv cfg {} rt" using runtime_reachable_inv [OF assms(1)] by simp
  have wf: "swf (shard_member_status (shards_of rt))" using inv membersD(1) by (simp add: runtime_inv_def)
  obtain ups rt1 where 1: "ofold (remove_shard cfg) is ([], rt) = Some (ups, rt1)"
    using run by (auto simp: remove_shards_offline_def split: option.splits)
  let ?off = "\<lambda>e. elections_shard_offline (fst e) (snd e)"
  let ?rt2 = "fold ?off (siter unat ups) rt1"
  have rt': "rt' = ?rt2\<lparr>shards_of := emit_shards (ShardsOffline is) (shards_of ?rt2)\<rparr>"
    using run 1 by (simp add: remove_shards_offline_def Let_def)
  have g: "gone i n ?A (ups, rt1)" by (rule remove_loop_gone [OF 1]) (use wf assms(4,5) in auto)
  have sh: "shards_of (fold ?off es r) = shards_of r" for es r by (induction es arbitrary: r) simp_all
  have live: "members_of rt1 = members_of rt"
    using remove_loop_members [OF 1] by simp
  have returns: "a \<in> set (unassigned (elections_of rt') n)"
    if a: "a \<in> ?A" "is_member_registered (members_of rt) a" "is_member_online (members_of rt) a" for a
  proof -
    obtain ms where "sget ups n = Some ms" "a \<in> set ms" using g a(1) by (auto simp: gone_def)
    then show ?thesis
      using elections_offline_returns [of n ms "siter unat ups" a rt1] a(2,3) live by (auto simp: rt' sget_def dest: map_of_SomeD)
  qed
  have inv': "members_ok (shards_of rt')" "tasks_inv (shard_network (shards_of rt')) {} (tasks_of rt')"
    using remove_shards_offline_keeps [OF run, of "{}"] inv assms(3) by (simp_all add: rkeeps_def runtime_inv_def)
  have s': "shard_state (shards_of rt') i = Some SOffline" "shard_network (shards_of rt') i = None"
    "\<forall>a\<in>?A. member_shard (shards_of rt') a = None" "\<forall>b. sget (shard_member_status (shards_of rt')) (i, b) = None"
    using g by (simp_all add: rt' sh emit_shards_def gone_def)
  have "task_shard (tasks_of rt') j \<noteq> Some i" for j
  proof
    assume "task_shard (tasks_of rt') j = Some i"
    then have "shard_network (shards_of rt') i \<noteq> None"
      using inv'(2) unfolding tasks_inv_def shards_ok_def by blast
    with s'(2) show False by simp
  qed
  moreover have "set (shard_members cfg (shards_of rt') i) = {}"
    using set_shard_members [OF membersD(1) [OF inv'(1)], of cfg i] s'(4) by simp
  ultimately show ?thesis
    using s'(1,3) returns by (simp add: get_shard_status_def is_shard_member_def)
qed

theorem removed_shard_released_witness:
  "\<exists>rt'. remove_shards_offline test_config [0] run_assigned = Some rt' \<and>
    get_shard_status (shards_of rt') 0 = SOffline \<and> shard_members test_config (shards_of rt') 0 = [] \<and>
    \<not> is_shard_member (shards_of rt') 7 \<and> 7 \<in> set (unassigned (elections_of rt') 1)"
proof -
  obtain rt' where r: "remove_shards_offline test_config [0] run_assigned = Some rt'" and "in_range rt'"
    by (simp add: remove_shards_offline_def remove_shard_def runtime_eval run_defs shard_offline_def shard_members_def
        unassign_task_def elections_shard_offline_def member_returns_def is_member_registered_def
        in_range_def unsaturated_def queue_room_def)
  moreover have "shard_network (shards_of run_assigned) 0 = Some 1" "7 \<in> set (shard_members test_config (shards_of run_assigned) 0)"
    "is_member_registered (members_of run_assigned) 7" "is_member_online (members_of run_assigned) 7"
    by (simp_all add: shard_members_def sprefix_def run_defs test_config_def is_member_registered_def is_member_online_def)
  ultimately show ?thesis using removed_shard_released [OF run_reachable(4) r, of 0 1] by auto
qed

section \<open>Registrations\<close>

text \<open>
  \<open>register_member\<close> for an account that is registered already overwrites its network and leaves it in
  the queue of the old one, although the documentation says that it unregisters the member first. When the
  account times out it is taken from the queue of the new network only, and its next heartbeat adds it to
  that queue: it then waits in two networks at once, to be elected into a shard of each.
\<close>

theorem reregistered_member_waits_twice:
  assumes "into_account cfg key = a" and "n \<noteq> n'" and "a \<in> set (unassigned (elections_of rt) n)"
    and "member_shard (shards_of rt) a = None" and "sget (heartbeats (members_of rt)) a = None"
    and "register_member cfg Root n' key peer rt = Some (Inr rt1)"
    and "members_offline cfg [a] n' rt1 = Some rt2"
  shows "\<exists>rt3. send_heartbeat (Signed a) rt2 = Some (Inr rt3) \<and>
    a \<in> set (unassigned (elections_of rt3) n) \<and> a \<in> set (unassigned (elections_of rt3) n')"
proof -
  let ?m1 = "members_of rt1"
  have rt1: "rt1 = rt\<lparr>members_of := ?m1\<rparr>" "member_network ?m1 a = Some n'" "heartbeats ?m1 = heartbeats (members_of rt)"
    using assms(1,6) by (auto simp: register_member_def execute_register_member_def Let_def dispatch_of_def emit_members_def
        split: if_splits)
  let ?e = "elections_of rt1"
  let ?m2 = "emit_members (MembersOfflineEvent [a]) (?m1\<lparr>members_online := members_online ?m1 |` (- set [a])\<rparr>)"
  have sh: "member_shard (shards_of rt1) a = None" using assms(4) by (subst rt1(1)) simp
  then have rt2: "rt2 = rt1\<lparr>members_of := ?m2, elections_of := ?e\<lparr>unassigned :=
      (unassigned ?e)(n' := filter (\<lambda>b. b \<notin> set [a]) (unassigned ?e n'))\<rparr>\<rparr>"
    using assms(7) by (auto simp: members_offline_def elections_members_offline_def shards_members_offline_def
        member_leaves_def siter_def Let_def)
  have in_n: "a \<in> set (unassigned (elections_of rt2) n)"
    using assms(2,3) by (subst rt2, subst rt1(1)) simp
  have "sget (heartbeats (members_of rt2)) a = None" "member_network (members_of rt2) a = Some n'"
    "\<not> is_member_online (members_of rt2) a" "\<not> is_shard_member (shards_of rt2) a"
    using rt1(2,3) assms(5) sh
    by (subst rt2, simp add: emit_members_def is_member_online_def is_shard_member_def restrict_map_def)+
  then show ?thesis
    using in_n by (auto simp: send_heartbeat_def execute_send_heartbeat_def dispatch_of_def Let_def member_online_def
        elections_member_online_def emit_members_def)
qed

theorem reregistered_member_waits_twice_witness:
  "\<exists>rt1 rt2 rt3. register_member test_config Root 2 [7] [3] run_silent = Some (Inr rt1) \<and>
    members_offline test_config [7] 2 rt1 = Some rt2 \<and> send_heartbeat (Signed 7) rt2 = Some (Inr rt3) \<and>
    7 \<in> set (unassigned (elections_of rt3) 1) \<and> 7 \<in> set (unassigned (elections_of rt3) 2)"
proof -
  obtain rt1 where 1: "register_member test_config Root 2 [7] [3] run_silent = Some (Inr rt1)" "shards_of rt1 = empty_shards"
    by (simp add: run_silent_def run_defs runtime_eval)
  have "keyed (shards_of rt1)" by (simp add: 1(2) keyed_def commitments_ok_def empty_shards_def)
  then obtain rt2 where 2: "members_offline test_config [7] 2 rt1 = Some rt2" using members_offline_total by blast
  have "into_account test_config [7] = 7" "(1 :: network_id) \<noteq> 2" "7 \<in> set (unassigned (elections_of run_silent) 1)"
    "member_shard (shards_of run_silent) 7 = None" "sget (heartbeats (members_of run_silent)) 7 = None"
    by (simp_all add: test_config_def from_be_def run_silent_def run_defs)
  from reregistered_member_waits_twice [OF this 1(1) 2] 1(1) 2 show ?thesis by blast
qed

text \<open>
  When such an account has timed out in its new network and is registered for its old one again, its next heartbeat
  lists it a second time in the queue of that network, and a chunk of the queue with both entries makes a shard that is too small.
\<close>

theorem returned_member_listed_twice:
  assumes "into_account cfg key = a" and "a \<in> set (unassigned (elections_of rt) n)"
    and "member_shard (shards_of rt) a = None" and "sget (heartbeats (members_of rt)) a = None"
    and "\<not> is_member_online (members_of rt) a" and "register_member cfg Root n key peer rt = Some (Inr rt1)"
  shows "\<exists>rt2. send_heartbeat (Signed a) rt1 = Some (Inr rt2) \<and> \<not> distinct (unassigned (elections_of rt2) n)"
proof -
  let ?m1 = "members_of rt1"
  have rt1: "rt1 = rt\<lparr>members_of := ?m1\<rparr>" "member_network ?m1 a = Some n" "heartbeats ?m1 = heartbeats (members_of rt)"
    "members_online ?m1 = members_online (members_of rt)"
    using assms(1,6) by (auto simp: register_member_def execute_register_member_def Let_def dispatch_of_def emit_members_def
        split: if_splits)
  have "elections_of rt1 = elections_of rt" "shards_of rt1 = shards_of rt" by (subst rt1(1), simp)+
  then show ?thesis
    using assms(2-5) rt1(2-4) by (auto simp: send_heartbeat_def execute_send_heartbeat_def dispatch_of_def Let_def
        member_online_def elections_member_online_def emit_members_def is_member_online_def is_shard_member_def)
qed

theorem returned_member_listed_twice_witness:
  "\<exists>rt1 rt2 rt3 rt4. register_member test_config Root 2 [7] [3] run_silent = Some (Inr rt1) \<and>
    members_offline test_config [7] 2 rt1 = Some rt2 \<and> register_member test_config Root 1 [7] [3] rt2 = Some (Inr rt3) \<and>
    send_heartbeat (Signed 7) rt3 = Some (Inr rt4) \<and> \<not> distinct (unassigned (elections_of rt4) 1)"
proof -
  obtain rt1 where 1: "register_member test_config Root 2 [7] [3] run_silent = Some (Inr rt1)"
    by (simp add: run_silent_def run_defs runtime_eval)
  obtain rt2 where 2: "members_offline test_config [7] 2 rt1 = Some rt2" "7 \<in> set (unassigned (elections_of rt2) 1)"
    "member_shard (shards_of rt2) 7 = None" "sget (heartbeats (members_of rt2)) 7 = None"
    "\<not> is_member_online (members_of rt2) 7"
    using 1 by (auto simp: run_silent_def run_defs runtime_eval members_offline_def elections_members_offline_def
        shards_members_offline_def member_leaves_def siter_def is_member_online_def)
  obtain rt3 where 3: "register_member test_config Root 1 [7] [3] rt2 = Some (Inr rt3)"
    using 1 2(1) by (auto simp: run_silent_def run_defs runtime_eval members_offline_def elections_members_offline_def
        shards_members_offline_def member_leaves_def siter_def)
  have "into_account test_config [7] = 7" by (simp add: test_config_def from_be_def)
  from returned_member_listed_twice [OF this 2(2-5) 3] 1 2(1) 3 show ?thesis by blast
qed

text \<open>
  \<open>unregister_member\<close> for a member that waits to be elected clears its network, peer id and public key
  and leaves it among the unassigned. It can still be elected, and then every commitment it sends is
  refused, so that the key generation of its shard cannot succeed.
\<close>

theorem unregistered_member_stays_electable:
  assumes "unregister_member cfg Root a rt = Some (Inr rt')" and "\<not> is_shard_member (shards_of rt) a"
    and "a \<in> set (unassigned (elections_of rt) n)"
  shows "a \<in> set (unassigned (elections_of rt') n) \<and>
    (\<forall>s i c pok rt''. execute_commit cfg a i c pok (rt'\<lparr>shards_of := s\<rparr>) \<noteq> Some (Inr rt''))"
proof -
  have u: "elections_of rt' = elections_of rt" "member_peer_id (members_of rt') a = None"
    using assms(1,2) by (auto simp: unregister_member_def execute_unregister_member_def do_unregister_member_def Let_def
        dispatch_of_def emit_members_def member_peer_id_def split: if_splits option.splits)
  have "execute_commit cfg a i c pok (rt'\<lparr>shards_of := s\<rparr>) \<noteq> Some (Inr rt'')" for s i c pok rt''
  proof
    assume "execute_commit cfg a i c pok (rt'\<lparr>shards_of := s\<rparr>) = Some (Inr rt'')"
    then show False by (rule execute_commit_cases) (simp add: u(2))
  qed
  with assms(3) u(1) show ?thesis by simp
qed

theorem unregistered_member_stays_electable_witness:
  "\<exists>rt'. unregister_member test_config Root 7 run_alive = Some (Inr rt') \<and> 7 \<in> set (unassigned (elections_of rt') 1)"
proof -
  obtain rt' where r: "unregister_member test_config Root 7 run_alive = Some (Inr rt')"
    by (simp add: unregister_member_def execute_unregister_member_def run_defs runtime_eval)
  have "\<not> is_shard_member (shards_of run_alive) 7" "7 \<in> set (unassigned (elections_of run_alive) 1)"
    by (simp_all add: is_shard_member_def run_defs)
  from unregistered_member_stays_electable [OF r this] r show ?thesis by blast
qed

end
