(* ===== verification/Frost.thy ===== *)
theory Frost
  imports Prelude
begin

text \<open>
  What the \<open>tss\<close> crate takes from the \<open>frost_evm\<close> crate: the two rounds of FROST signing and of its
  distributed key generation, over values that the \<open>tss\<close> crate stores and passes on but never looks
  into. They are one record, \<open>frost\<close>, passed to the state machines. A call of the random number generator
  \<open>OsRng\<close> is identified by the state machine that makes it and by its number there; \<open>hash_order\<close> is the
  iteration order of a \<open>HashMap\<close>.
\<close>

type_synonym frost_id = "256 word"
type_synonym signing_nonces = bytes
type_synonym signing_commitments = bytes
type_synonym signature_share = bytes
type_synonym signature = bytes
type_synonym scalar = "256 word"
type_synonym secret_package = bytes
type_synonym vss_commitment = bytes
type_synonym dkg_proof = bytes
type_synonym key_package = bytes
type_synonym public_key_package = bytes
type_synonym frost_error = bytes
type_synonym entropy = "nat \<times> nat"

text \<open>A \<open>BTreeMap\<close> from identifiers: the entries, iterated in the order of the identifiers.\<close>

type_synonym 'v idmap = "(frost_id, 'v) smap"

record frost =
  round1_commit :: "key_package \<Rightarrow> entropy \<Rightarrow> signing_nonces \<times> signing_commitments"
  round2_sign :: "signing_commitments idmap \<Rightarrow> bytes \<Rightarrow> signing_nonces \<Rightarrow> key_package \<Rightarrow> signature_share option"
  frost_aggregate :: "signing_commitments idmap \<Rightarrow> bytes \<Rightarrow> signature_share idmap \<Rightarrow> public_key_package \<Rightarrow> signature option"
  message_hash :: "bytes \<Rightarrow> bytes"
  dkg_part1 :: "frost_id \<Rightarrow> u16 \<Rightarrow> u16 \<Rightarrow> entropy \<Rightarrow> frost_error + (secret_package \<times> vss_commitment \<times> dkg_proof)"
  share_for :: "secret_package \<Rightarrow> frost_id \<Rightarrow> scalar"
  scalar_add :: "scalar \<Rightarrow> scalar \<Rightarrow> scalar"
  scalar_zero :: scalar
  hash_order :: "frost_id \<Rightarrow> nat"
  key_package_of :: "frost_id \<Rightarrow> scalar \<Rightarrow> vss_commitment \<Rightarrow> frost_error + key_package"
  public_key_package_of :: "frost_id list \<Rightarrow> vss_commitment \<Rightarrow> public_key_package option"
  signing_share_of :: "key_package \<Rightarrow> scalar"
  verifying_key_of :: "public_key_package \<Rightarrow> bytes"

section \<open>Ordered maps\<close>

text \<open>The keys in order, and \<open>pop_last\<close>: the entry with the greatest key, and the map without it.\<close>

definition id_keys :: "'v idmap \<Rightarrow> frost_id list" where
  "id_keys m = map fst (siter unat m)"

definition pop_last :: "'v idmap \<Rightarrow> ((frost_id \<times> 'v) \<times> 'v idmap) option" where
  "pop_last m = (if m = [] then None else let e = last (siter unat m) in Some (e, sdel (fst e) m))"

lemma length_siter [simp]: "length (siter ord m) = length m"
  by (simp add: siter_def)

lemma siter_Nil [simp]: "siter ord [] = []"
  by (simp add: siter_def)

lemma siter_eq_Nil [simp]: "siter ord m = [] \<longleftrightarrow> m = []"
  by (metis length_0_conv length_siter)

lemma length_sdel_present: "swf m \<Longrightarrow> sget m k = Some v \<Longrightarrow> Suc (length (sdel k m)) = length m"
proof (induction m)
  case (Cons e m)
  show ?case
  proof (cases "fst e = k")
    case True
    then have "sget m k = None" using Cons.prems(1) by (simp add: swf_def sget_def map_of_eq_None_iff)
    then show ?thesis using True sdel_absent [of m k] by (simp add: sdel_def)
  next
    case False
    then have "sget m k = Some v" "swf m" using Cons.prems by (auto simp: sget_def swf_def)
    with Cons.IH False show ?thesis by (simp add: sdel_def)
  qed
qed simp

lemma length_sdel_le: "length (sdel k m) \<le> length m"
  by (simp add: sdel_def)

lemma pop_last_shorter: "pop_last m = Some (e, m') \<Longrightarrow> length m' < length m"
proof -
  assume p: "pop_last m = Some (e, m')"
  then have ne: "m \<noteq> []" and e: "e = last (siter unat m)" and m': "m' = sdel (fst e) m"
    by (auto simp: pop_last_def Let_def split: if_splits)
  have "e \<in> set m" using ne e last_in_set [of "siter unat m"] by simp
  then show ?thesis unfolding m' sdel_def by (intro length_filter_less) auto
qed

end
