(* ===== verification/Dkg.thy ===== *)
theory Dkg
  imports Frost
begin

text \<open>
  The distributed key generation of \<open>tss/src/dkg.rs\<close>: every member commits to a polynomial, waits for the
  sum of the commitments, sends every other member its share, and adds up the shares it gets.
\<close>

datatype dkg_action =
    DkgCommit vss_commitment dkg_proof
  | DkgSend "(frost_id \<times> scalar) list"
  | DkgComplete key_package public_key_package vss_commitment
  | DkgFailure frost_error

record dkg =
  dkg_id :: frost_id
  dkg_members :: "unit idmap"
  dkg_threshold :: u16
  dkg_secret :: "secret_package option"
  dkg_commitment :: "vss_commitment option"
  dkg_sent :: bool
  dkg_packages :: "scalar idmap"
  dkg_source :: nat

definition dkg_new :: "frost_id \<Rightarrow> unit idmap \<Rightarrow> u16 \<Rightarrow> nat \<Rightarrow> dkg" where
  "dkg_new i ms t src = \<lparr>dkg_id = i, dkg_members = ms, dkg_threshold = t, dkg_secret = None, dkg_commitment = None,
     dkg_sent = False, dkg_packages = [], dkg_source = src\<rparr>"

definition dkg_on_commit :: "vss_commitment \<Rightarrow> dkg \<Rightarrow> dkg" where
  "dkg_on_commit c d = d\<lparr>dkg_commitment := Some c\<rparr>"

definition dkg_on_message :: "frost_id \<Rightarrow> scalar \<Rightarrow> dkg \<Rightarrow> dkg" where
  "dkg_on_message p sh d = d\<lparr>dkg_packages := sput p sh (dkg_packages d)\<rparr>"

definition dkg_round2 :: "frost \<Rightarrow> secret_package \<Rightarrow> dkg \<Rightarrow> (frost_id \<times> scalar) list" where
  "dkg_round2 F sp d = map (\<lambda>p. (p, share_for F sp p)) (filter (\<lambda>p. p \<noteq> dkg_id d) (id_keys (dkg_members d)))"

definition dkg_signing_share :: "frost \<Rightarrow> secret_package \<Rightarrow> dkg \<Rightarrow> scalar" where
  "dkg_signing_share F sp d =
     foldl (scalar_add F) (scalar_zero F)
       (map snd (siter (hash_order F) (dkg_packages d)) @ [share_for F sp (dkg_id d)])"

text \<open>
  \<open>next_action\<close>: the result, the new state, or \<open>None\<close> for the panic of \<open>unwrap\<close>. The number of members minus
  one is computed in \<open>usize\<close>.
\<close>

definition dkg_next_action :: "frost \<Rightarrow> dkg \<Rightarrow> (dkg_action option \<times> dkg) option" where
  "dkg_next_action F d =
     (case dkg_secret d of
        None \<Rightarrow>
          (case dkg_part1 F (dkg_id d) (of_nat (length (dkg_members d))) (dkg_threshold d) (dkg_source d, 0) of
             Inl e \<Rightarrow> Some (Some (DkgFailure e), d)
           | Inr (sp, com, pok) \<Rightarrow> Some (Some (DkgCommit com pok), d\<lparr>dkg_secret := Some sp\<rparr>))
      | Some sp \<Rightarrow>
          (case dkg_commitment d of
             None \<Rightarrow> Some (None, d)
           | Some com \<Rightarrow>
               if \<not> dkg_sent d then Some (Some (DkgSend (dkg_round2 F sp d)), d\<lparr>dkg_sent := True\<rparr>)
               else if (of_nat (length (dkg_packages d)) :: u64) \<noteq> of_nat (length (dkg_members d)) - 1 then Some (None, d)
               else
                 (case key_package_of F (dkg_id d) (dkg_signing_share F sp d) com of
                    Inl e \<Rightarrow> Some (Some (DkgFailure e), d)
                  | Inr kp \<Rightarrow>
                      (case public_key_package_of F (id_keys (dkg_members d)) com of
                         None \<Rightarrow> None
                       | Some pkp \<Rightarrow> Some (Some (DkgComplete kp pkp com), d)))))"

end
