(* ===== verification/Roast.thy ===== *)
theory Roast
  imports Frost
begin

text \<open>
  The ROAST signing protocol of \<open>tss/src/roast.rs\<close>: the signer, the sessions and the coordinator, and the
  state machine that combines them.
\<close>

record roast_signer_request =
  req_session_id :: u16
  req_commitments :: "signing_commitments idmap"

record roast_signer_response =
  resp_session_id :: u16
  resp_signature_share :: signature_share
  resp_commitment :: signing_commitments

section \<open>The signer\<close>

text \<open>The fields \<open>rng_source\<close> and \<open>draws\<close> identify the next call of the random number generator.\<close>

record roast_signer =
  signer_key_package :: key_package
  signer_data :: "bytes option"
  signer_coordinators :: "signing_nonces idmap"
  signer_requests :: "(frost_id \<times> roast_signer_request) list"
  rng_source :: nat
  draws :: nat

definition signer_new :: "key_package \<Rightarrow> nat \<Rightarrow> roast_signer" where
  "signer_new kp d = \<lparr>signer_key_package = kp, signer_data = None, signer_coordinators = [],
     signer_requests = [], rng_source = d, draws = 0\<rparr>"

definition signer_set_data :: "bytes \<Rightarrow> roast_signer \<Rightarrow> roast_signer" where
  "signer_set_data d s = s\<lparr>signer_data := Some d\<rparr>"

definition signer_commit :: "frost \<Rightarrow> frost_id \<Rightarrow> roast_signer \<Rightarrow> signing_commitments \<times> roast_signer" where
  "signer_commit F c s =
     (let (nonces, com) = round1_commit F (signer_key_package s) (rng_source s, draws s)
      in (com, s\<lparr>signer_coordinators := sput c nonces (signer_coordinators s), draws := Suc (draws s)\<rparr>))"

definition signer_sign :: "frost_id \<Rightarrow> roast_signer_request \<Rightarrow> roast_signer \<Rightarrow> roast_signer" where
  "signer_sign c r s = s\<lparr>signer_requests := signer_requests s @ [(c, r)]\<rparr>"

text \<open>
  The loop of \<open>message\<close> over the requests. \<open>None\<close> is the panic of a request from a coordinator that was sent
  no commitment.
\<close>

fun signer_loop ::
  "frost \<Rightarrow> bytes \<Rightarrow> (frost_id \<times> roast_signer_request) list \<Rightarrow> roast_signer \<Rightarrow>
     ((frost_id \<times> roast_signer_response) option \<times> roast_signer) option" where
  "signer_loop F d [] s = Some (None, s\<lparr>signer_requests := []\<rparr>)"
| "signer_loop F d ((c, r) # rs) s =
     (case sget (signer_coordinators s) c of
        None \<Rightarrow> None
      | Some nonces \<Rightarrow>
          (let s1 = s\<lparr>signer_coordinators := sdel c (signer_coordinators s), signer_requests := rs\<rparr>
           in (case round2_sign F (req_commitments r) d nonces (signer_key_package s1) of
                 None \<Rightarrow> signer_loop F d rs s1
               | Some share \<Rightarrow>
                   (let (com, s2) = signer_commit F c s1
                    in Some (Some (c, \<lparr>resp_session_id = req_session_id r, resp_signature_share = share,
                                       resp_commitment = com\<rparr>), s2)))))"

definition signer_message ::
  "frost \<Rightarrow> roast_signer \<Rightarrow> ((frost_id \<times> roast_signer_response) option \<times> roast_signer) option" where
  "signer_message F s =
     (case signer_data s of None \<Rightarrow> Some (None, s) | Some d \<Rightarrow> signer_loop F d (signer_requests s) s)"

section \<open>Sessions\<close>

record roast_session =
  sess_commitments :: "signing_commitments idmap"
  sess_shares :: "signature_share idmap"

definition session_new :: "signing_commitments idmap \<Rightarrow> roast_session" where
  "session_new cs = \<lparr>sess_commitments = cs, sess_shares = []\<rparr>"

definition on_signature_share :: "frost_id \<Rightarrow> signature_share \<Rightarrow> roast_session \<Rightarrow> roast_session" where
  "on_signature_share p sh s =
     (if sget (sess_commitments s) p \<noteq> None then s\<lparr>sess_shares := sput p sh (sess_shares s)\<rparr> else s)"

definition is_complete :: "roast_session \<Rightarrow> bool" where
  "is_complete s \<longleftrightarrow> length (sess_commitments s) = length (sess_shares s)"

section \<open>The coordinator\<close>

record roast_coordinator =
  coord_threshold :: u16
  coord_session_id :: u16
  coord_commitments :: "signing_commitments idmap"
  coord_sessions :: "(u16, roast_session) smap"
  coord_committed :: "frost_id set"

definition coordinator_new :: "u16 \<Rightarrow> roast_coordinator" where
  "coordinator_new t = \<lparr>coord_threshold = t, coord_session_id = 0, coord_commitments = [],
     coord_sessions = [], coord_committed = {}\<rparr>"

definition coord_on_commit :: "frost_id \<Rightarrow> signing_commitments \<Rightarrow> roast_coordinator \<Rightarrow> roast_coordinator" where
  "coord_on_commit p com s =
     (if p \<notin> coord_committed s
      then s\<lparr>coord_commitments := sput p com (coord_commitments s), coord_committed := insert p (coord_committed s)\<rparr>
      else s)"

definition coord_on_response :: "frost_id \<Rightarrow> roast_signer_response \<Rightarrow> roast_coordinator \<Rightarrow> roast_coordinator" where
  "coord_on_response p m s =
     (case sget (coord_sessions s) (resp_session_id m) of
        None \<Rightarrow> s
      | Some session \<Rightarrow> s\<lparr>
          coord_commitments := sput p (resp_commitment m) (coord_commitments s),
          coord_sessions := sput (resp_session_id m) (on_signature_share p (resp_signature_share m) session) (coord_sessions s)\<rparr>)"

text \<open>The commitments above the threshold go back, from the last one on.\<close>

function give_back :: "nat \<Rightarrow> signing_commitments idmap \<Rightarrow> signing_commitments idmap \<Rightarrow>
    signing_commitments idmap \<times> signing_commitments idmap" where
  "give_back t cs back =
     (if length cs > t
      then (case pop_last cs of
              None \<Rightarrow> (cs, back)
            | Some ((p, com), cs') \<Rightarrow> give_back t cs' (sput p com back))
      else (cs, back))"
  by pat_completeness auto
termination
  by (relation "measure (\<lambda>(t, cs, back). length cs)") (auto dest: pop_last_shorter)

declare give_back.simps [simp del]

definition start_session :: "roast_coordinator \<Rightarrow> roast_signer_request option \<times> roast_coordinator" where
  "start_session s =
     (if length (coord_commitments s) < unat (coord_threshold s) then (None, s)
      else
        (let sid = coord_session_id s;
             (cs, back) = give_back (unat (coord_threshold s)) (coord_commitments s) []
         in (Some \<lparr>req_session_id = sid, req_commitments = cs\<rparr>,
             s\<lparr>coord_session_id := sid + 1, coord_commitments := back,
               coord_sessions := sput sid (session_new cs) (coord_sessions s)\<rparr>)))"

text \<open>The complete session with the least id, which is removed.\<close>

definition aggregate_signature :: "roast_coordinator \<Rightarrow> roast_session option \<times> roast_coordinator" where
  "aggregate_signature s =
     (case filter (\<lambda>e. is_complete (snd e)) (siter unat (coord_sessions s)) of
        [] \<Rightarrow> (None, s)
      | (sid, _) # _ \<Rightarrow> (sget (coord_sessions s) sid, s\<lparr>coord_sessions := sdel sid (coord_sessions s)\<rparr>))"

section \<open>The state machine\<close>

datatype roast_message =
    RoastCommit signing_commitments
  | RoastSign roast_signer_request
  | RoastSignature roast_signer_response

fun roast_is_response :: "roast_message \<Rightarrow> bool" where
  "roast_is_response (RoastSignature _) = True"
| "roast_is_response _ = False"

datatype roast_action =
    RoastSend frost_id roast_message
  | RoastSendMany "frost_id list" roast_message
  | RoastComplete bytes signature

record roast =
  roast_signer_of :: roast_signer
  roast_coordinator_of :: "roast_coordinator option"
  roast_public_key_package :: public_key_package
  roast_coordinators :: "unit idmap"

definition roast_new ::
  "frost_id \<Rightarrow> u16 \<Rightarrow> key_package \<Rightarrow> public_key_package \<Rightarrow> unit idmap \<Rightarrow> nat \<Rightarrow> roast" where
  "roast_new i t kp pkp cs d = \<lparr>
     roast_signer_of = signer_new kp d,
     roast_coordinator_of = (if sget cs i \<noteq> None then Some (coordinator_new t) else None),
     roast_public_key_package = pkp, roast_coordinators = cs\<rparr>"

definition roast_set_data :: "bytes \<Rightarrow> roast \<Rightarrow> roast" where
  "roast_set_data d r = r\<lparr>roast_signer_of := signer_set_data d (roast_signer_of r)\<rparr>"

fun roast_on_message :: "frost_id \<Rightarrow> roast_message \<Rightarrow> roast \<Rightarrow> roast" where
  "roast_on_message p (RoastCommit com) r =
     r\<lparr>roast_coordinator_of := map_option (coord_on_commit p com) (roast_coordinator_of r)\<rparr>"
| "roast_on_message p (RoastSign req) r = r\<lparr>roast_signer_of := signer_sign p req (roast_signer_of r)\<rparr>"
| "roast_on_message p (RoastSignature resp) r =
     r\<lparr>roast_coordinator_of := map_option (coord_on_response p resp) (roast_coordinator_of r)\<rparr>"

text \<open>
  The first part of \<open>next_action\<close>, for a coordinator: a session that is complete is aggregated; if that
  gives no signature, a new session is started if enough commitments are there.
\<close>

definition coordinate :: "frost \<Rightarrow> bytes option \<Rightarrow> public_key_package \<Rightarrow> roast_coordinator \<Rightarrow>
    roast_action option \<times> roast_coordinator option" where
  "coordinate F data pkp c =
     (let (session, c1) = (case data of None \<Rightarrow> (None, c) | Some _ \<Rightarrow> aggregate_signature c);
          done_sig = (case (data, session) of
              (Some d, Some s) \<Rightarrow>
                map_option (\<lambda>sig. RoastComplete (message_hash F d) sig)
                  (frost_aggregate F (sess_commitments s) d (sess_shares s) pkp)
            | _ \<Rightarrow> None)
      in (case done_sig of
            Some a \<Rightarrow> (Some a, None)
          | None \<Rightarrow>
              (case start_session c1 of
                 (Some req, c2) \<Rightarrow> (Some (RoastSendMany (id_keys (req_commitments req)) (RoastSign req)), Some c2)
               | (None, c2) \<Rightarrow> (None, Some c2))))"

definition roast_next_action :: "frost \<Rightarrow> roast \<Rightarrow> (roast_action option \<times> roast) option" where
  "roast_next_action F r =
     (let (act, r1) = (case roast_coordinator_of r of
            None \<Rightarrow> (None, r)
          | Some c \<Rightarrow>
              (let (a, c') = coordinate F (signer_data (roast_signer_of r)) (roast_public_key_package r) c
               in (a, r\<lparr>roast_coordinator_of := c'\<rparr>)))
      in if act \<noteq> None then Some (act, r1)
         else (case pop_last (roast_coordinators r1) of
            Some ((c, _), cs) \<Rightarrow>
              (let (com, s) = signer_commit F c (roast_signer_of r1)
               in Some (Some (RoastSend c (RoastCommit com)), r1\<lparr>roast_coordinators := cs, roast_signer_of := s\<rparr>))
          | None \<Rightarrow>
              (case signer_message F (roast_signer_of r1) of
                 None \<Rightarrow> None
               | Some (None, s) \<Rightarrow> Some (None, r1\<lparr>roast_signer_of := s\<rparr>)
               | Some (Some (c, resp), s) \<Rightarrow>
                   Some (Some (RoastSend c (RoastSignature resp)), r1\<lparr>roast_signer_of := s\<rparr>))))"

end
