(* ===== verification/Tss.thy ===== *)
theory Tss
  imports Dkg Roast
begin

text \<open>
  The threshold signature state machine of \<open>tss/src/lib.rs\<close>: it runs the key generation and then one ROAST
  session per task. Peers are of an arbitrary type; \<open>to_frost\<close> is the \<open>ToFrostIdentifier\<close> instance of it.
\<close>

datatype tss_state =
    TssDkg dkg
  | TssRoast key_package public_key_package "(u64, roast) smap"
  | TssFailed

datatype tss_message =
    MsgDkg scalar
  | MsgRoast u64 roast_message

fun tss_is_response :: "tss_message \<Rightarrow> bool" where
  "tss_is_response (MsgRoast _ m) = roast_is_response m"
| "tss_is_response (MsgDkg _) = False"

datatype 'p tss_action =
    TssSend "('p \<times> tss_message) list"
  | TssCommit vss_commitment dkg_proof
  | TssReady scalar vss_commitment bytes
  | TssSignature u64 bytes signature

text \<open>The field \<open>tss_opened\<close> counts the signing sessions opened so far; it names their random sources.\<close>

record 'p tss =
  tss_peer_id :: 'p
  tss_frost_id :: frost_id
  tss_frost_to_peer :: "'p idmap"
  tss_threshold :: u16
  tss_coordinators :: "unit idmap"
  tss_state :: tss_state
  tss_committed :: bool
  tss_opened :: nat

definition id_set :: "frost_id list \<Rightarrow> unit idmap" where
  "id_set ids = fold (\<lambda>i m. sput i () m) ids []"

definition peer_map :: "('p \<Rightarrow> frost_id) \<Rightarrow> 'p list \<Rightarrow> 'p idmap" where
  "peer_map to_frost ms = fold (\<lambda>p m. sput (to_frost p) p m) ms []"

text \<open>The number of coordinators is computed in \<open>usize\<close>.\<close>

definition coordinators_of :: "frost_id list \<Rightarrow> u16 \<Rightarrow> unit idmap" where
  "coordinators_of ids t = id_set (take (unat (of_nat (length ids) - ucast t + 1 :: u64)) ids)"

definition tss_new ::
  "frost \<Rightarrow> ('p \<Rightarrow> frost_id) \<Rightarrow> 'p \<Rightarrow> 'p list \<Rightarrow> u16 \<Rightarrow> (scalar \<times> vss_commitment) option \<Rightarrow> 'p tss option" where
  "tss_new F to_frost p ms t recover =
     (let fp = peer_map to_frost ms; ids = id_keys fp;
          mk = (\<lambda>st. \<lparr>tss_peer_id = p, tss_frost_id = to_frost p, tss_frost_to_peer = fp, tss_threshold = t,
                  tss_coordinators = coordinators_of ids t, tss_state = st, tss_committed = recover \<noteq> None,
                  tss_opened = 0\<rparr>)
      in (case recover of
            None \<Rightarrow> Some (mk (TssDkg (dkg_new (to_frost p) (id_set ids) t 0)))
          | Some (share, com) \<Rightarrow>
              (case (key_package_of F (to_frost p) share com, public_key_package_of F ids com) of
                 (Inr kp, Some pkp) \<Rightarrow> Some (mk (TssRoast kp pkp []))
               | _ \<Rightarrow> None)))"

definition tss_on_message :: "('p \<Rightarrow> frost_id) \<Rightarrow> 'p \<Rightarrow> tss_message \<Rightarrow> 'p tss \<Rightarrow> 'p tss" where
  "tss_on_message to_frost p msg s =
     (if tss_peer_id s = p then s
      else if sget (tss_frost_to_peer s) (to_frost p) = None then s
      else (case (tss_state s, msg) of
          (TssDkg d, MsgDkg m) \<Rightarrow> s\<lparr>tss_state := TssDkg (dkg_on_message (to_frost p) m d)\<rparr>
        | (TssRoast kp pkp ss, MsgRoast i m) \<Rightarrow>
            (case sget ss i of
               None \<Rightarrow> s
             | Some r \<Rightarrow> s\<lparr>tss_state := TssRoast kp pkp (sput i (roast_on_message (to_frost p) m r) ss)\<rparr>)
        | _ \<Rightarrow> s))"

definition tss_on_commit :: "vss_commitment \<Rightarrow> 'p tss \<Rightarrow> 'p tss" where
  "tss_on_commit c s =
     (case tss_state s of
        TssDkg d \<Rightarrow> s\<lparr>tss_state := TssDkg (dkg_on_commit c d), tss_committed := True\<rparr>
      | _ \<Rightarrow> s)"

definition get_or_insert_session :: "u64 \<Rightarrow> 'p tss \<Rightarrow> (roast \<times> 'p tss) option" where
  "get_or_insert_session i s =
     (case tss_state s of
        TssRoast kp pkp ss \<Rightarrow>
          (case sget ss i of
             Some r \<Rightarrow> Some (r, s)
           | None \<Rightarrow>
               (let r = roast_new (tss_frost_id s) (tss_threshold s) kp pkp (tss_coordinators s) (Suc (tss_opened s))
                in Some (r, s\<lparr>tss_state := TssRoast kp pkp (sput i r ss), tss_opened := Suc (tss_opened s)\<rparr>)))
      | _ \<Rightarrow> None)"

definition put_session :: "u64 \<Rightarrow> roast \<Rightarrow> 'p tss \<Rightarrow> 'p tss" where
  "put_session i r s =
     (case tss_state s of
        TssRoast kp pkp ss \<Rightarrow> s\<lparr>tss_state := TssRoast kp pkp (sput i r ss)\<rparr>
      | _ \<Rightarrow> s)"

definition tss_on_start :: "u64 \<Rightarrow> 'p tss \<Rightarrow> 'p tss" where
  "tss_on_start i s = (case get_or_insert_session i s of None \<Rightarrow> s | Some (_, s') \<Rightarrow> s')"

definition tss_on_sign :: "u64 \<Rightarrow> bytes \<Rightarrow> 'p tss \<Rightarrow> 'p tss" where
  "tss_on_sign i d s =
     (case get_or_insert_session i s of
        None \<Rightarrow> s
      | Some (r, s') \<Rightarrow> put_session i (roast_set_data d r) s')"

definition tss_on_complete :: "u64 \<Rightarrow> 'p tss \<Rightarrow> 'p tss" where
  "tss_on_complete i s =
     (case tss_state s of
        TssRoast kp pkp ss \<Rightarrow> s\<lparr>tss_state := TssRoast kp pkp (sdel i ss)\<rparr>
      | _ \<Rightarrow> s)"

section \<open>The next action\<close>

text \<open>Where a ROAST action goes: to the other peers, to this node itself, and with which message.\<close>

fun route :: "frost_id \<Rightarrow> roast_action \<Rightarrow> frost_id list \<times> bool \<times> roast_message option" where
  "route self (RoastSend p m) = (if p = self then ([], True, Some m) else ([p], False, Some m))"
| "route self (RoastSendMany ps m) =
     (let others = filter (\<lambda>p. p \<noteq> self) ps in (others, length others \<noteq> length ps, Some m))"
| "route self (RoastComplete _ _) = ([], False, None)"

definition deliver_to_self :: "frost_id \<Rightarrow> roast_action \<Rightarrow> roast \<Rightarrow> roast" where
  "deliver_to_self self a r =
     (case route self a of
        (_, True, Some m) \<Rightarrow> roast_on_message self m r
      | _ \<Rightarrow> r)"

fun leaves_loop :: "frost_id \<Rightarrow> roast_action \<Rightarrow> bool" where
  "leaves_loop self (RoastComplete _ _) = True"
| "leaves_loop self a = (fst (route self a) \<noteq> [])"

text \<open>
  The \<open>while\<close> loop over the actions of one session: it ends with no action left, or with the first action
  that is a signature or has a message for another peer. \<open>None\<close> is a panic, or a loop that never ends.
\<close>

partial_function (option) session_loop ::
  "frost \<Rightarrow> frost_id \<Rightarrow> roast \<Rightarrow> (roast_action option \<times> roast) option" where
  "session_loop F self r =
     Option.bind (roast_next_action F r) (\<lambda>(act, r1).
       case act of
         None \<Rightarrow> Some (None, r1)
       | Some a \<Rightarrow>
           if leaves_loop self a then Some (Some a, deliver_to_self self a r1)
           else session_loop F self (deliver_to_self self a r1))"

definition peer_messages :: "'p tss \<Rightarrow> u64 \<Rightarrow> frost_id list \<Rightarrow> roast_message \<Rightarrow> ('p \<times> tss_message) list option" where
  "peer_messages s i ps m =
     those (map (\<lambda>p. map_option (\<lambda>q. (q, MsgRoast i m)) (sget (tss_frost_to_peer s) p)) ps)"

definition tss_action_of :: "'p tss \<Rightarrow> u64 \<Rightarrow> roast_action \<Rightarrow> 'p tss_action option" where
  "tss_action_of s i a =
     (case a of
        RoastComplete h sig \<Rightarrow> Some (TssSignature i h sig)
      | _ \<Rightarrow> (case route (tss_frost_id s) a of
                (ps, _, Some m) \<Rightarrow> map_option TssSend (peer_messages s i ps m)
              | _ \<Rightarrow> None))"

fun roast_actions :: "frost \<Rightarrow> u64 list \<Rightarrow> 'p tss \<Rightarrow> ('p tss_action option \<times> 'p tss) option" where
  "roast_actions F [] s = Some (None, s)"
| "roast_actions F (i # is) s =
     (case tss_state s of
        TssRoast kp pkp ss \<Rightarrow>
          (case sget ss i of
             None \<Rightarrow> None
           | Some r \<Rightarrow>
               Option.bind (session_loop F (tss_frost_id s) r) (\<lambda>(act, r').
                 (case act of
                    None \<Rightarrow> roast_actions F is (put_session i r' s)
                  | Some a \<Rightarrow> map_option (\<lambda>t. (Some t, put_session i r' s)) (tss_action_of s i a))))
      | _ \<Rightarrow> Some (None, s))"

definition dkg_actions :: "frost \<Rightarrow> dkg \<Rightarrow> 'p tss \<Rightarrow> ('p tss_action option \<times> 'p tss) option" where
  "dkg_actions F d s =
     Option.bind (dkg_next_action F d) (\<lambda>(act, d').
       (case act of
          None \<Rightarrow> Some (None, s\<lparr>tss_state := TssDkg d'\<rparr>)
        | Some (DkgSend msgs) \<Rightarrow>
            map_option (\<lambda>ms. (Some (TssSend ms), s\<lparr>tss_state := TssDkg d'\<rparr>))
              (those (map (\<lambda>(p, m). map_option (\<lambda>q. (q, MsgDkg m)) (sget (tss_frost_to_peer s) p)) msgs))
        | Some (DkgCommit com pok) \<Rightarrow> Some (Some (TssCommit com pok), s\<lparr>tss_state := TssDkg d'\<rparr>)
        | Some (DkgComplete kp pkp com) \<Rightarrow>
            Some (Some (TssReady (signing_share_of F kp) com (verifying_key_of F pkp)),
                  s\<lparr>tss_state := TssRoast kp pkp []\<rparr>)
        | Some (DkgFailure _) \<Rightarrow> Some (None, s\<lparr>tss_state := TssFailed\<rparr>)))"

definition tss_next_action :: "frost \<Rightarrow> 'p tss \<Rightarrow> ('p tss_action option \<times> 'p tss) option" where
  "tss_next_action F s =
     (case tss_state s of
        TssDkg d \<Rightarrow> dkg_actions F d s
      | TssRoast kp pkp ss \<Rightarrow> roast_actions F (map fst (siter unat ss)) s
      | TssFailed \<Rightarrow> Some (None, s))"

end
