(* ===== verification/Roast_Lemmas.thy ===== *)
theory Roast_Lemmas
  imports Roast
begin

text \<open>
  Lemmas about the ROAST state machine: which nonces a signer signs with, and what the sessions of a
  coordinator hold, along every run.
\<close>

section \<open>Ordered maps\<close>

lemma swf_sget_mem: "swf m \<Longrightarrow> e \<in> set m \<Longrightarrow> sget m (fst e) = Some (snd e)"
  by (simp add: sget_iff)

lemma pop_last_Some:
  assumes "swf m" and "pop_last m = Some ((k, v), m')"
  shows "sget m k = Some v" and "m' = sdel k m" and "swf m'" and "Suc (length m') = length m"
proof -
  from assms(2) have ne: "m \<noteq> []" and e: "(k, v) = last (siter unat m)" and m': "m' = sdel k m"
    by (auto simp: pop_last_def Let_def split: if_splits)
  have "(k, v) \<in> set m" using ne e last_in_set [of "siter unat m"] by simp
  then show g: "sget m k = Some v" using swf_sget_mem [OF assms(1)] by fastforce
  show "m' = sdel k m" by (rule m')
  show "swf m'" using assms(1) by (simp add: m')
  show "Suc (length m') = length m" unfolding m' using assms(1) g by (rule length_sdel_present)
qed

lemma pop_last_None [simp]: "pop_last m = None \<longleftrightarrow> m = []"
  by (simp add: pop_last_def Let_def)

section \<open>The nonces of a signer\<close>

text \<open>The nonces that \<open>message\<close> passes to \<open>round2::sign\<close>, in order.\<close>

fun sign_calls :: "frost \<Rightarrow> bytes \<Rightarrow> (frost_id \<times> roast_signer_request) list \<Rightarrow> roast_signer \<Rightarrow> signing_nonces list" where
  "sign_calls F d [] s = []"
| "sign_calls F d ((c, r) # rs) s =
     (case sget (signer_coordinators s) c of
        None \<Rightarrow> []
      | Some nonces \<Rightarrow>
          (let s1 = s\<lparr>signer_coordinators := sdel c (signer_coordinators s), signer_requests := rs\<rparr>
           in nonces # (case round2_sign F (req_commitments r) d nonces (signer_key_package s1) of
                 None \<Rightarrow> sign_calls F d rs s1
               | Some share \<Rightarrow> [])))"

datatype signer_op =
    SignerCommit frost_id
  | SignerSign frost_id roast_signer_request
  | SignerSetData bytes
  | SignerMessage

text \<open>One call of the signer, with the nonces that it signed with; a run of such calls.\<close>

fun signer_step :: "frost \<Rightarrow> signer_op \<Rightarrow> roast_signer \<Rightarrow> (signing_nonces list \<times> roast_signer) option" where
  "signer_step F (SignerCommit c) s = Some ([], snd (signer_commit F c s))"
| "signer_step F (SignerSign c r) s = Some ([], signer_sign c r s)"
| "signer_step F (SignerSetData d) s = Some ([], signer_set_data d s)"
| "signer_step F SignerMessage s =
     map_option (\<lambda>(_, s'). (case signer_data s of None \<Rightarrow> [] | Some d \<Rightarrow> sign_calls F d (signer_requests s) s, s'))
       (signer_message F s)"

fun signer_run :: "frost \<Rightarrow> signer_op list \<Rightarrow> roast_signer \<Rightarrow> (signing_nonces list \<times> roast_signer) option" where
  "signer_run F [] s = Some ([], s)"
| "signer_run F (a # xs) s =
     Option.bind (signer_step F a s) (\<lambda>(used, s1). map_option (\<lambda>(used', s'). (used @ used', s')) (signer_run F xs s1))"

definition draw :: "frost \<Rightarrow> key_package \<Rightarrow> nat \<Rightarrow> nat \<Rightarrow> signing_nonces" where
  "draw F kp src n = fst (round1_commit F kp (src, n))"

definition nonces_fresh :: "frost \<Rightarrow> key_package \<Rightarrow> nat \<Rightarrow> signing_nonces list \<Rightarrow> roast_signer \<Rightarrow> bool" where
  "nonces_fresh F kp src used s \<longleftrightarrow>
     signer_key_package s = kp \<and> rng_source s = src \<and> swf (signer_coordinators s) \<and>
     distinct (map snd (signer_coordinators s) @ used) \<and>
     set (map snd (signer_coordinators s) @ used) \<subseteq> draw F kp src ` {..<draws s}"

lemma fresh_new: "nonces_fresh F kp src [] (signer_new kp src)"
  by (simp add: nonces_fresh_def signer_new_def)

lemma distinct_snd_sdel: "distinct (map snd m) \<Longrightarrow> distinct (map snd (sdel c m))"
  by (simp add: sdel_def distinct_map_filter)

lemma set_snd_sdel: "set (map snd (sdel c m)) \<subseteq> set (map snd m)"
  by (auto simp: sdel_def)

lemma fresh_commit:
  assumes inj: "inj (draw F kp src)" and f: "nonces_fresh F kp src used s"
  shows "nonces_fresh F kp src used (snd (signer_commit F c s))"
proof -
  let ?m = "signer_coordinators s"
  from f have kp: "signer_key_package s = kp" "rng_source s = src" and wf: "swf ?m"
    and d: "distinct (map snd ?m @ used)" and sub: "set (map snd ?m @ used) \<subseteq> draw F kp src ` {..<draws s}"
    by (auto simp: nonces_fresh_def)
  have new: "draw F kp src (draws s) \<notin> set (map snd ?m @ used)"
    using sub inj by (auto dest: injD)
  have s': "snd (signer_commit F c s) =
      s\<lparr>signer_coordinators := sput c (draw F kp src (draws s)) ?m, draws := Suc (draws s)\<rparr>"
    using kp by (simp add: signer_commit_def draw_def split: prod.splits)
  have "distinct (draw F kp src (draws s) # map snd (sdel c ?m) @ used)"
    using d new set_snd_sdel [of c ?m] distinct_snd_sdel [of ?m c] by auto
  moreover have "set (map snd (sdel c ?m) @ used) \<subseteq> draw F kp src ` {..<draws s}"
    using sub set_snd_sdel [of c ?m] by auto
  ultimately show ?thesis unfolding s' nonces_fresh_def
    using kp wf by (auto simp: sput_def lessThan_Suc swf_sput [unfolded sput_def])
qed

lemma fresh_use:
  assumes f: "nonces_fresh F kp src used s" and g: "sget (signer_coordinators s) c = Some n"
  shows "nonces_fresh F kp src (used @ [n])
    (s\<lparr>signer_coordinators := sdel c (signer_coordinators s), signer_requests := rs\<rparr>)"
proof -
  let ?m = "signer_coordinators s"
  from f have wf: "swf ?m" and d: "distinct (map snd ?m @ used)"
    and sub: "set (map snd ?m @ used) \<subseteq> draw F kp src ` {..<draws s}"
    by (auto simp: nonces_fresh_def)
  have "mset (map snd ?m @ used) = mset (map snd (sdel c ?m) @ used @ [n])"
    using mset_sdel_present [OF wf g] by simp
  with d sub have "distinct (map snd (sdel c ?m) @ used @ [n])"
    "set (map snd (sdel c ?m) @ used @ [n]) \<subseteq> draw F kp src ` {..<draws s}"
    by (metis mset_eq_imp_distinct_iff, metis mset_eq_setD)
  then show ?thesis using f wf by (simp add: nonces_fresh_def)
qed

lemma fresh_requests: "nonces_fresh F kp src used (s\<lparr>signer_requests := rs\<rparr>) = nonces_fresh F kp src used s"
  by (simp add: nonces_fresh_def)

lemma fresh_data: "nonces_fresh F kp src used (s\<lparr>signer_data := d\<rparr>) = nonces_fresh F kp src used s"
  by (simp add: nonces_fresh_def)

lemma fresh_loop:
  assumes "inj (draw F kp src)"
  shows "nonces_fresh F kp src used s \<Longrightarrow> signer_loop F d rs s = Some (res, s') \<Longrightarrow>
    nonces_fresh F kp src (used @ sign_calls F d rs s) s'"
proof (induction rs arbitrary: used s)
  case Nil
  then show ?case by (auto simp: fresh_requests)
next
  case (Cons cr rs)
  obtain c r where cr: "cr = (c, r)" by (cases cr)
  from Cons.prems(2) obtain n where n: "sget (signer_coordinators s) c = Some n"
    by (auto simp: cr split: option.splits)
  let ?s1 = "s\<lparr>signer_coordinators := sdel c (signer_coordinators s), signer_requests := rs\<rparr>"
  have f1: "nonces_fresh F kp src (used @ [n]) ?s1" using fresh_use [OF Cons.prems(1) n] .
  show ?case
  proof (cases "round2_sign F (req_commitments r) d n (signer_key_package s)")
    case None
    then have l: "signer_loop F d rs ?s1 = Some (res, s')" using Cons.prems(2) n by (simp add: cr)
    show ?thesis using Cons.IH [OF f1 l] None n by (simp add: cr)
  next
    case (Some sh)
    then have "s' = snd (signer_commit F c ?s1)" using Cons.prems(2) n
      by (auto simp: cr split: prod.splits)
    then show ?thesis using fresh_commit [OF assms f1, of c] Some n by (simp add: cr)
  qed
qed

lemma fresh_step:
  assumes "inj (draw F kp src)" and "nonces_fresh F kp src used s" and "signer_step F a s = Some (u, s')"
  shows "nonces_fresh F kp src (used @ u) s'"
proof (cases a)
  case SignerMessage
  then obtain res where "signer_message F s = Some (res, s')"
    and u: "u = (case signer_data s of None \<Rightarrow> [] | Some d \<Rightarrow> sign_calls F d (signer_requests s) s)"
    using assms(3) by (auto split: prod.splits)
  then show ?thesis using fresh_loop [OF assms(1,2)] assms(2)
    by (auto simp: signer_message_def split: option.splits)
qed (use assms fresh_commit [OF assms(1,2)] in
    \<open>auto simp: fresh_requests fresh_data signer_sign_def signer_set_data_def\<close>)

lemma fresh_run:
  assumes "inj (draw F kp src)"
  shows "nonces_fresh F kp src used s \<Longrightarrow> signer_run F xs s = Some (u, s') \<Longrightarrow> nonces_fresh F kp src (used @ u) s'"
proof (induction xs arbitrary: used s u)
  case (Cons a xs)
  from Cons.prems(2) obtain u1 s1 u2 where 1: "signer_step F a s = Some (u1, s1)"
    and 2: "signer_run F xs s1 = Some (u2, s')" and u: "u = u1 @ u2"
    by (auto simp: bind_eq_Some_conv)
  show ?case using Cons.IH [OF fresh_step [OF assms Cons.prems(1) 1] 2] by (simp add: u)
qed simp

section \<open>The sessions of a coordinator\<close>

lemma give_back_swf:
  "swf cs \<Longrightarrow> swf back \<Longrightarrow> t \<le> length cs \<Longrightarrow> give_back t cs back = (cs', back') \<Longrightarrow>
    swf cs' \<and> swf back' \<and> length cs' = t"
proof (induction t cs "back" arbitrary: cs' back' rule: give_back.induct)
  case (1 t cs rest)
  show ?case
  proof (cases "length cs > t")
    case True
    then obtain p com cs1 where p: "pop_last cs = Some ((p, com), cs1)"
      by (cases "pop_last cs") auto
    note q = pop_last_Some [OF 1(2) p]
    have "give_back t cs1 (sput p com rest) = (cs', back')"
      using 1(5) True p by (simp add: give_back.simps [of t cs])
    then show ?thesis using 1(1) [OF True p refl refl] q(3,4) 1(3) True by auto
  next
    case False
    then have "give_back t cs rest = (cs, rest)" by (simp add: give_back.simps [of t cs])
    then show ?thesis using 1(2-5) False by simp
  qed
qed

definition session_ok :: "u16 \<Rightarrow> roast_session \<Rightarrow> bool" where
  "session_ok t s \<longleftrightarrow> swf (sess_commitments s) \<and> swf (sess_shares s) \<and>
     length (sess_commitments s) = unat t \<and> fst ` set (sess_shares s) \<subseteq> fst ` set (sess_commitments s)"

definition coordinator_ok :: "u16 \<Rightarrow> roast_coordinator \<Rightarrow> bool" where
  "coordinator_ok t c \<longleftrightarrow> coord_threshold c = t \<and> swf (coord_commitments c) \<and> swf (coord_sessions c) \<and>
     (\<forall>i s. sget (coord_sessions c) i = Some s \<longrightarrow> session_ok t s)"

lemma sget_keys: "sget m k \<noteq> None \<longleftrightarrow> k \<in> fst ` set m"
  by (metis map_of_eq_None_iff sget_def)

lemma keys_sput: "fst ` set (sput k v m) = insert k (fst ` set m)"
  by (auto simp: sput_def sdel_def)

lemma session_ok_share: "session_ok t s \<Longrightarrow> session_ok t (on_signature_share p sh s)"
  using sget_keys [of "sess_commitments s" p] by (auto simp: session_ok_def on_signature_share_def keys_sput)

lemma session_ok_new: "swf cs \<Longrightarrow> length cs = unat t \<Longrightarrow> session_ok t (session_new cs)"
  by (simp add: session_ok_def session_new_def)

lemma coordinator_ok_new: "coordinator_ok t (coordinator_new t)"
  by (simp add: coordinator_ok_def coordinator_new_def)

lemma coordinator_ok_commit: "coordinator_ok t c \<Longrightarrow> coordinator_ok t (coord_on_commit p com c)"
  by (auto simp: coordinator_ok_def coord_on_commit_def)

lemma coordinator_ok_response: "coordinator_ok t c \<Longrightarrow> coordinator_ok t (coord_on_response p m c)"
  by (auto simp: coordinator_ok_def coord_on_response_def session_ok_share split: option.splits if_splits)

lemma coordinator_ok_start:
  assumes "coordinator_ok t c" and "start_session c = (req, c')"
  shows "coordinator_ok t c' \<and> (\<forall>r. req = Some r \<longrightarrow> swf (req_commitments r) \<and> length (req_commitments r) = unat t)"
proof (cases "length (coord_commitments c) < unat (coord_threshold c)")
  case True
  then show ?thesis using assms by (simp add: start_session_def)
next
  case False
  obtain cs rest where gb: "give_back (unat (coord_threshold c)) (coord_commitments c) [] = (cs, rest)"
    by (cases "give_back (unat (coord_threshold c)) (coord_commitments c) []")
  have "swf cs \<and> swf rest \<and> length cs = unat t"
    using give_back_swf [OF _ _ _ gb] False assms(1) by (auto simp: coordinator_ok_def)
  then show ?thesis using assms False gb
    by (auto simp: start_session_def coordinator_ok_def session_ok_new Let_def split: if_splits)
qed

lemma coordinator_ok_aggregate:
  assumes "coordinator_ok t c" and "aggregate_signature c = (res, c')"
  shows "coordinator_ok t c' \<and> (\<forall>s. res = Some s \<longrightarrow> session_ok t s \<and> is_complete s)"
proof (cases "filter (\<lambda>e. is_complete (snd e)) (siter unat (coord_sessions c))")
  case Nil
  then show ?thesis using assms by (simp add: aggregate_signature_def)
next
  case (Cons e es)
  obtain i s where e: "e = (i, s)" by (cases e)
  have "(i, s) \<in> set (siter unat (coord_sessions c)) \<and> is_complete s"
    using Cons e by (metis (no_types, lifting) filter_eq_Cons_iff in_set_conv_decomp snd_conv)
  then have "sget (coord_sessions c) i = Some s" "is_complete s"
    using assms(1) by (auto simp: coordinator_ok_def sget_iff)
  then show ?thesis using assms Cons e by (auto simp: aggregate_signature_def coordinator_ok_def split: if_splits)
qed

lemma complete_session_keys:
  assumes "session_ok t s" and "is_complete s"
  shows "fst ` set (sess_shares s) = fst ` set (sess_commitments s)"
proof (rule card_subset_eq)
  show "card (fst ` set (sess_shares s)) = card (fst ` set (sess_commitments s))"
    using assms distinct_card [of "map fst (sess_shares s)"] distinct_card [of "map fst (sess_commitments s)"]
    by (simp add: session_ok_def is_complete_def swf_def)
qed (use assms in \<open>auto simp: session_ok_def\<close>)

section \<open>Runs of the state machine\<close>

definition roast_ok :: "u16 \<Rightarrow> roast \<Rightarrow> bool" where
  "roast_ok t r \<longleftrightarrow> swf (roast_coordinators r) \<and> swf (signer_coordinators (roast_signer_of r)) \<and>
     (\<forall>c. roast_coordinator_of r = Some c \<longrightarrow> coordinator_ok t c)"

text \<open>The states of a session: it is opened, gets its data and messages, and is asked for actions.\<close>

definition roast_opened :: "u16 \<Rightarrow> public_key_package \<Rightarrow> roast \<Rightarrow> bool" where
  "roast_opened t pkp r \<longleftrightarrow> (\<exists>i kp cs src. swf cs \<and> r = roast_new i t kp pkp cs src)"

inductive roast_step :: "frost \<Rightarrow> roast \<Rightarrow> roast \<Rightarrow> bool" for F where
  data: "roast_step F r (roast_set_data d r)"
| message: "roast_step F r (roast_on_message p m r)"
| action: "roast_next_action F r = Some (a, r') \<Longrightarrow> roast_step F r r'"

definition roast_run :: "frost \<Rightarrow> u16 \<Rightarrow> public_key_package \<Rightarrow> roast \<Rightarrow> bool" where
  "roast_run F t pkp r \<longleftrightarrow> reach (roast_opened t pkp) (roast_step F) r"

lemma roast_run_intros:
  "swf cs \<Longrightarrow> roast_run F t pkp (roast_new i t kp pkp cs src)"
  "roast_run F t pkp r \<Longrightarrow> roast_run F t pkp (roast_set_data d r)"
  "roast_run F t pkp r \<Longrightarrow> roast_run F t pkp (roast_on_message p m r)"
  "roast_run F t pkp r \<Longrightarrow> roast_next_action F r = Some (a, r') \<Longrightarrow> roast_run F t pkp r'"
  unfolding roast_run_def
  by (rule reach_init, force simp: roast_opened_def) (auto intro: reach_step roast_step.intros)

lemma roast_ok_new: "swf cs \<Longrightarrow> roast_ok t (roast_new i t kp pkp cs src)"
  by (simp add: roast_ok_def roast_new_def signer_new_def coordinator_ok_new)

lemma roast_ok_data: "roast_ok t r \<Longrightarrow> roast_ok t (roast_set_data d r)"
  by (simp add: roast_ok_def roast_set_data_def signer_set_data_def)

lemma roast_ok_message: "roast_ok t r \<Longrightarrow> roast_ok t (roast_on_message p m r)"
  by (cases m) (auto simp: roast_ok_def signer_sign_def coordinator_ok_commit coordinator_ok_response)

lemma coordinate_ok:
  assumes "coordinator_ok t c" and "coordinate F data pkp c = (a, c')"
  shows "\<forall>c1. c' = Some c1 \<longrightarrow> coordinator_ok t c1"
    and "a = Some (RoastComplete h sig) \<Longrightarrow>
      c' = None \<and> (\<exists>d s. data = Some d \<and> session_ok t s \<and> is_complete s \<and> h = message_hash F d \<and>
        frost_aggregate F (sess_commitments s) d (sess_shares s) pkp = Some sig)"
    and "a = Some (RoastSendMany ps m) \<Longrightarrow> swf (coord_commitments c) \<Longrightarrow> distinct ps \<and> length ps = unat t"
    and "a = Some b \<Longrightarrow> (\<exists>ps m. b = RoastSendMany ps m) \<or> (\<exists>h sig. b = RoastComplete h sig)"
proof -
  obtain session c1 where ag: "(case data of None \<Rightarrow> (None, c) | Some _ \<Rightarrow> aggregate_signature c) = (session, c1)"
    by (cases "case data of None \<Rightarrow> (None, c) | Some _ \<Rightarrow> aggregate_signature c")
  have 1: "coordinator_ok t c1 \<and> (\<forall>s. session = Some s \<longrightarrow> session_ok t s \<and> is_complete s)"
    using ag coordinator_ok_aggregate [OF assms(1)] assms(1) by (cases data) auto
  obtain req c2 where st: "start_session c1 = (req, c2)" by (cases "start_session c1")
  have 2: "coordinator_ok t c2 \<and> (\<forall>r. req = Some r \<longrightarrow> swf (req_commitments r) \<and> length (req_commitments r) = unat t)"
    using coordinator_ok_start [OF conjunct1 [OF 1] st] .
  note un = assms(2) [unfolded coordinate_def ag Let_def prod.case st]
  show "\<forall>c1. c' = Some c1 \<longrightarrow> coordinator_ok t c1"
    using un 2 by (auto split: option.splits)
  show "c' = None \<and> (\<exists>d s. data = Some d \<and> session_ok t s \<and> is_complete s \<and> h = message_hash F d \<and>
        frost_aggregate F (sess_commitments s) d (sess_shares s) pkp = Some sig)"
    if "a = Some (RoastComplete h sig)"
    using un that 1 by (auto split: option.splits)
  show "distinct ps \<and> length ps = unat t" if "a = Some (RoastSendMany ps m)" "swf (coord_commitments c)"
    using un that 2 by (auto simp: id_keys_def distinct_siter split: option.splits)
  show "(\<exists>ps m. b = RoastSendMany ps m) \<or> (\<exists>h sig. b = RoastComplete h sig)" if "a = Some b"
    using un that by (auto split: option.splits)
qed

lemma swf_signer_commit: "swf (signer_coordinators s) \<Longrightarrow> swf (signer_coordinators (snd (signer_commit F c s)))"
  by (simp add: signer_commit_def split: prod.splits)

lemma swf_signer_loop:
  "swf (signer_coordinators s) \<Longrightarrow> signer_loop F d rs s = Some (res, s') \<Longrightarrow> swf (signer_coordinators s')"
proof (induction F d rs s rule: signer_loop.induct)
  case (2 F d c r rs s)
  from "2.prems"(2) obtain n where n: "sget (signer_coordinators s) c = Some n"
    by (auto split: option.splits)
  let ?s1 = "s\<lparr>signer_coordinators := sdel c (signer_coordinators s), signer_requests := rs\<rparr>"
  have wf: "swf (signer_coordinators ?s1)" using "2.prems"(1) by simp
  show ?case
  proof (cases "round2_sign F (req_commitments r) d n (signer_key_package s)")
    case None
    then show ?thesis using "2.IH" [OF n refl _ wf] "2.prems"(2) n by simp
  next
    case (Some sh)
    then have "s' = snd (signer_commit F c ?s1)" using "2.prems"(2) n by (auto split: prod.splits)
    then show ?thesis using swf_signer_commit [OF wf] by simp
  qed
qed auto

lemma swf_signer_message:
  "swf (signer_coordinators s) \<Longrightarrow> signer_message F s = Some (res, s') \<Longrightarrow> swf (signer_coordinators s')"
  by (auto simp: signer_message_def dest: swf_signer_loop split: option.splits)

text \<open>The three parts of \<open>next_action\<close>: the coordinator, the commitments to coordinators, the signer.\<close>

lemma next_action_cases:
  assumes "roast_next_action F r = res"
  obtains (coordinated) c a c' where "roast_coordinator_of r = Some c"
      "coordinate F (signer_data (roast_signer_of r)) (roast_public_key_package r) c = (Some a, c')"
      "res = Some (Some a, r\<lparr>roast_coordinator_of := c'\<rparr>)"
  | (rest) r1 where "r1 = r \<or> (\<exists>c c'. roast_coordinator_of r = Some c \<and> r1 = r\<lparr>roast_coordinator_of := c'\<rparr> \<and>
        coordinate F (signer_data (roast_signer_of r)) (roast_public_key_package r) c = (None, c'))"
      "res = (case pop_last (roast_coordinators r1) of
            Some ((c, _), cs) \<Rightarrow>
              (let (com, s) = signer_commit F c (roast_signer_of r1)
               in Some (Some (RoastSend c (RoastCommit com)), r1\<lparr>roast_coordinators := cs, roast_signer_of := s\<rparr>))
          | None \<Rightarrow>
              (case signer_message F (roast_signer_of r1) of
                 None \<Rightarrow> None
               | Some (None, s) \<Rightarrow> Some (None, r1\<lparr>roast_signer_of := s\<rparr>)
               | Some (Some (c, resp), s) \<Rightarrow>
                   Some (Some (RoastSend c (RoastSignature resp)), r1\<lparr>roast_signer_of := s\<rparr>)))"
proof (cases "roast_coordinator_of r")
  case None
  then show ?thesis using assms that(2) [of r] by (simp add: roast_next_action_def)
next
  case (Some c)
  obtain a c' where co: "coordinate F (signer_data (roast_signer_of r)) (roast_public_key_package r) c = (a, c')"
    by (cases "coordinate F (signer_data (roast_signer_of r)) (roast_public_key_package r) c")
  show ?thesis
  proof (cases a)
    case None
    with Some co assms that(2) [of "r\<lparr>roast_coordinator_of := c'\<rparr>"] show ?thesis
      by (simp add: roast_next_action_def)
  next
    case (Some b)
    with \<open>roast_coordinator_of r = Some c\<close> co assms that(1) [of c b c'] show ?thesis
      by (simp add: roast_next_action_def)
  qed
qed

lemma roast_ok_coordinated:
  assumes "roast_ok t r" and "roast_coordinator_of r = Some c"
    and "coordinate F d pkp c = (a, c')"
  shows "roast_ok t (r\<lparr>roast_coordinator_of := c'\<rparr>)"
  using assms coordinate_ok(1) [of t c F d pkp a c'] by (auto simp: roast_ok_def)

lemma roast_ok_action:
  assumes ok: "roast_ok t r" and act: "roast_next_action F r = Some (a, r')"
  shows "roast_ok t r'"
  using act
proof (cases rule: next_action_cases)
  case (coordinated c b c')
  then show ?thesis using roast_ok_coordinated [OF ok] by auto
next
  case (rest r1)
  have ok1: "roast_ok t r1" using rest(1) ok roast_ok_coordinated [OF ok] by auto
  show ?thesis
  proof (cases "pop_last (roast_coordinators r1)")
    case None
    with rest(2) obtain res s where "signer_message F (roast_signer_of r1) = Some (res, s)"
      "r' = r1\<lparr>roast_signer_of := s\<rparr>"
      by (auto split: option.splits prod.splits)
    then show ?thesis using ok1 swf_signer_message [of "roast_signer_of r1" F res s] by (simp add: roast_ok_def)
  next
    case (Some e)
    obtain c u cs where e: "e = ((c, u), cs)" by (metis prod.exhaust)
    have "r' = r1\<lparr>roast_coordinators := cs, roast_signer_of := snd (signer_commit F c (roast_signer_of r1))\<rparr>"
      using rest(2) Some e by (auto split: prod.splits)
    then show ?thesis using ok1 swf_signer_commit [of "roast_signer_of r1" F c] pop_last_Some(3) Some e
      by (auto simp: roast_ok_def)
  qed
qed

lemma pkp_next_action: "roast_next_action F r = Some (a, r') \<Longrightarrow> roast_public_key_package r' = roast_public_key_package r"
  by (erule next_action_cases) (auto split: option.splits prod.splits)

lemma pkp_set_data [simp]: "roast_public_key_package (roast_set_data d r) = roast_public_key_package r"
  by (simp add: roast_set_data_def)

lemma pkp_on_message [simp]: "roast_public_key_package (roast_on_message p m r) = roast_public_key_package r"
  by (cases m) auto

interpretation roast_states: step_invariant "roast_opened t pkp" "roast_step F"
  "\<lambda>r. roast_ok t r \<and> roast_public_key_package r = pkp" for F t pkp
proof
  show "roast_ok t r \<and> roast_public_key_package r = pkp" if "roast_opened t pkp r" for r
    using that by (auto simp: roast_opened_def roast_ok_new) (simp add: roast_new_def)
  show "roast_ok t r' \<and> roast_public_key_package r' = pkp"
    if "roast_ok t r \<and> roast_public_key_package r = pkp" and "roast_step F r r'" for r r'
    using that(2,1) by cases (auto simp: roast_ok_data roast_ok_message pkp_next_action intro: roast_ok_action)
qed

lemma roast_run_ok: "roast_run F t pkp r \<Longrightarrow> roast_ok t r"
  and roast_run_pkp: "roast_run F t pkp r \<Longrightarrow> roast_public_key_package r = pkp"
  unfolding roast_run_def by (auto dest: roast_states.reachable_inv)

end
