(* ===== verification/Tss_Properties.thy ===== *)
theory Tss_Properties
  imports Tss Roast_Lemmas
begin

text \<open>
  The properties of threshold signing: no nonce is signed with twice, a signature comes from a full session,
  the loop over a session's actions ends, and what the key generation computes.
\<close>

section \<open>The loop over the actions of a session\<close>

text \<open>Every request waiting at the signer is from a coordinator that holds a commitment, one for each.\<close>

definition solicited :: "roast_signer \<Rightarrow> bool" where
  "solicited s \<longleftrightarrow> distinct (map fst (signer_requests s)) \<and>
     (\<forall>c \<in> fst ` set (signer_requests s). sget (signer_coordinators s) c \<noteq> None)"

lemma requests_commit [simp]: "signer_requests (snd (signer_commit F c s)) = signer_requests s"
  by (simp add: signer_commit_def split: prod.splits)

lemma sget_commit:
  "sget (signer_coordinators (snd (signer_commit F c s))) k \<noteq> None \<longleftrightarrow>
     k = c \<or> sget (signer_coordinators s) k \<noteq> None"
  by (simp add: signer_commit_def split: prod.splits)

lemma solicited_commit: "solicited s \<Longrightarrow> solicited (snd (signer_commit F c s))"
  by (simp only: solicited_def requests_commit sget_commit) blast

lemma solicited_loop:
  "solicited s \<Longrightarrow> signer_requests s = rs \<Longrightarrow>
    \<exists>res s'. signer_loop F d rs s = Some (res, s') \<and> solicited s' \<and>
      (res \<noteq> None \<longrightarrow> length (signer_requests s') < length rs)"
proof (induction rs arbitrary: s)
  case Nil
  then show ?case by (simp add: solicited_def)
next
  case (Cons cr rs)
  obtain c r where cr: "cr = (c, r)" by (cases cr)
  from Cons.prems obtain n where n: "sget (signer_coordinators s) c = Some n"
    by (auto simp: solicited_def cr)
  let ?s1 = "s\<lparr>signer_coordinators := sdel c (signer_coordinators s), signer_requests := rs\<rparr>"
  have s1: "solicited ?s1" using Cons.prems by (auto simp: solicited_def cr)
  show ?case
  proof (cases "round2_sign F (req_commitments r) d n (signer_key_package s)")
    case None
    then have "signer_loop F d (cr # rs) s = signer_loop F d rs ?s1" using n by (simp add: cr)
    then show ?thesis using Cons.IH [OF s1] by fastforce
  next
    case (Some sh)
    then have "signer_loop F d (cr # rs) s =
        Some (Some (c, \<lparr>resp_session_id = req_session_id r, resp_signature_share = sh,
                 resp_commitment = fst (signer_commit F c ?s1)\<rparr>), snd (signer_commit F c ?s1))"
      using n by (simp add: cr split: prod.splits)
    then show ?thesis using solicited_commit [OF s1] by simp
  qed
qed

lemma solicited_message:
  assumes "solicited s"
  shows "\<exists>res s'. signer_message F s = Some (res, s') \<and> solicited s' \<and>
      (res \<noteq> None \<longrightarrow> length (signer_requests s') < length (signer_requests s))"
  using solicited_loop [OF assms refl] assms by (cases "signer_data s") (auto simp: signer_message_def)

definition pending :: "roast \<Rightarrow> nat" where
  "pending r = length (roast_coordinators r) + length (signer_requests (roast_signer_of r))"

lemma several_leave:
  assumes "distinct ps" and "2 \<le> length ps"
  shows "filter (\<lambda>p. p \<noteq> self) ps \<noteq> []"
proof
  assume "filter (\<lambda>p. p \<noteq> self) ps = []"
  then have "set ps \<subseteq> {self}" by (auto simp: filter_empty_conv)
  then have "card (set ps) \<le> 1" using card_mono [of "{self}" "set ps"] by simp
  with assms show False by (simp add: distinct_card)
qed

lemma coordinated_leaves:
  assumes "coordinator_ok t c" and "2 \<le> unat t" and "coordinate F d pkp c = (Some a, c')"
  shows "leaves_loop self a"
proof -
  from coordinate_ok(4) [OF assms(1,3)] consider ps m where "a = RoastSendMany ps m" | h sig where "a = RoastComplete h sig"
    by blast
  then show ?thesis
  proof cases
    case 1
    then have "distinct ps \<and> length ps = unat t"
      using coordinate_ok(3) [OF assms(1,3)] assms(1) by (simp add: coordinator_ok_def)
    then show ?thesis using several_leave [of ps self] assms(2) 1 by (simp add: Let_def)
  qed simp
qed

text \<open>An action that stays in the loop takes one coordinator or one request off the session.\<close>

lemma next_action_progress:
  assumes ok: "roast_ok t r" and t: "2 \<le> unat t" and sol: "solicited (roast_signer_of r)"
  shows "\<exists>a r1. roast_next_action F r = Some (a, r1) \<and> (\<forall>b. a = Some b \<and> \<not> leaves_loop self b \<longrightarrow>
    solicited (roast_signer_of (deliver_to_self self b r1)) \<and> pending (deliver_to_self self b r1) < pending r)"
proof (cases rule: next_action_cases [where F = F and r = r, OF refl])
  case (1 c a c')
  then have "leaves_loop self a"
    using coordinated_leaves [OF _ t] ok by (auto simp: roast_ok_def)
  then show ?thesis using 1(3) by auto
next
  case (2 r1)
  have r1: "roast_signer_of r1 = roast_signer_of r" "roast_coordinators r1 = roast_coordinators r"
    using 2(1) by auto
  show ?thesis
  proof (cases "pop_last (roast_coordinators r)")
    case None
    obtain res s where m: "signer_message F (roast_signer_of r) = Some (res, s)" "solicited s"
      "res \<noteq> None \<longrightarrow> length (signer_requests s) < length (signer_requests (roast_signer_of r))"
      using solicited_message [OF sol] by blast
    show ?thesis
    proof (cases res)
      case (Some cr)
      obtain c resp where cr: "cr = (c, resp)" by (cases cr)
      have "roast_next_action F r = Some (Some (RoastSend c (RoastSignature resp)), r1\<lparr>roast_signer_of := s\<rparr>)"
        using 2(2) None m(1) Some r1 by (simp add: cr)
      then show ?thesis using m(2,3) Some r1 by (auto simp: deliver_to_self_def pending_def)
    qed (use 2(2) None m(1) r1 in simp)
  next
    case (Some e)
    obtain c u cs where e: "e = ((c, u), cs)" by (metis prod.exhaust)
    have "length cs < length (roast_coordinators r)"
      using pop_last_shorter Some e by blast
    moreover have "roast_next_action F r = Some (Some (RoastSend c (RoastCommit (fst (signer_commit F c (roast_signer_of r))))),
        r1\<lparr>roast_coordinators := cs, roast_signer_of := snd (signer_commit F c (roast_signer_of r))\<rparr>)"
      using 2(2) Some e r1 by (simp split: prod.splits)
    ultimately show ?thesis using solicited_commit [OF sol] by (auto simp: deliver_to_self_def pending_def)
  qed
qed

lemma roast_ok_deliver: "roast_ok t r \<Longrightarrow> roast_ok t (deliver_to_self self a r)"
  by (auto simp: deliver_to_self_def roast_ok_message split: prod.splits option.splits bool.splits)

lemma session_loop_ends:
  "roast_ok t r \<Longrightarrow> 2 \<le> unat t \<Longrightarrow> solicited (roast_signer_of r) \<Longrightarrow> \<exists>res. session_loop F self r = Some res"
proof (induction "pending r" arbitrary: r rule: less_induct)
  case less
  obtain a r1 where act: "roast_next_action F r = Some (a, r1)"
    and p: "\<forall>b. a = Some b \<and> \<not> leaves_loop self b \<longrightarrow>
      solicited (roast_signer_of (deliver_to_self self b r1)) \<and> pending (deliver_to_self self b r1) < pending r"
    using next_action_progress [OF less.prems] by blast
  show ?case
  proof (cases "\<exists>b. a = Some b \<and> \<not> leaves_loop self b")
    case True
    then obtain b where b: "a = Some b" "\<not> leaves_loop self b" by blast
    have "session_loop F self r = session_loop F self (deliver_to_self self b r1)"
      using act b by (subst session_loop.simps) simp
    moreover have "roast_ok t (deliver_to_self self b r1)"
      using roast_ok_deliver roast_ok_action [OF less.prems(1) act] by blast
    ultimately show ?thesis using less.hyps [of "deliver_to_self self b r1"] p b less.prems(2) by simp
  next
    case False
    then show ?thesis using act by (subst session_loop.simps) (auto split: option.splits)
  qed
qed

section \<open>The sum of the shares\<close>

lemma foldl_mset_eq:
  assumes assoc: "\<And>x y z. f (f x y) z = f x (f y z)" and comm: "\<And>x y. f x y = f y x"
    and "mset xs = mset ys"
  shows "foldl f z xs = foldl f z ys"
proof -
  have "(\<lambda>x y. f y x) = f" using comm by blast
  then have "foldl f z zs = fold f zs z" for zs by (simp add: foldl_conv_fold)
  moreover have "f x \<circ> f y = f y \<circ> f x" for x y by (metis (no_types, opaque_lifting) assoc comm comp_apply ext)
  then have "fold f xs = fold f ys" using fold_multiset_equiv [of xs f ys] assms(3) by blast
  ultimately show ?thesis by simp
qed

lemma keys_id_set: "fst ` set (id_set ids) = set ids" and swf_id_set: "swf (id_set ids)"
proof -
  have "fst ` set (fold (\<lambda>i m. sput i () m) ids m) = fst ` set m \<union> set ids \<and>
      (swf m \<longrightarrow> swf (fold (\<lambda>i m. sput i () m) ids m))" for m
    by (induction ids arbitrary: m) (auto simp: keys_sput)
  from this [of "[]"] show "fst ` set (id_set ids) = set ids" "swf (id_set ids)" by (simp_all add: id_set_def)
qed

lemma mset_id_keys: "mset (id_keys m) = mset (map fst m)"
  by (simp add: id_keys_def siter_def)

lemma mset_keys_id_set: "distinct ids \<Longrightarrow> mset (map fst (id_set ids)) = mset ids"
  using swf_id_set [of ids] keys_id_set [of ids] set_eq_iff_mset_eq_distinct [of "map fst (id_set ids)" ids]
  by (simp add: swf_def)

lemma length_id_set: "distinct ids \<Longrightarrow> length (id_set ids) = length ids"
  using mset_keys_id_set [of ids] by (metis length_map size_mset)

lemma receive_packages:
  "distinct (map fst msgs) \<Longrightarrow> \<forall>p \<in> fst ` set msgs. sget (dkg_packages d) p = None \<Longrightarrow>
    fold (\<lambda>(p, sh). dkg_on_message p sh) msgs d = d\<lparr>dkg_packages := rev msgs @ dkg_packages d\<rparr>"
proof (induction msgs arbitrary: d)
  case (Cons m msgs)
  obtain p sh where m: "m = (p, sh)" by (cases m)
  have "sget (dkg_packages d) p = None" using Cons.prems by (simp add: m)
  then have "dkg_on_message p sh d = d\<lparr>dkg_packages := (p, sh) # dkg_packages d\<rparr>"
    by (simp add: dkg_on_message_def sput_def sdel_absent)
  moreover have "\<forall>q \<in> fst ` set msgs. sget (dkg_packages (d\<lparr>dkg_packages := (p, sh) # dkg_packages d\<rparr>)) q = None"
    using Cons.prems by (force simp: m sget_def)
  ultimately show ?case using Cons.IH [of "d\<lparr>dkg_packages := (p, sh) # dkg_packages d\<rparr>"] Cons.prems(1)
    by (simp add: m)
qed simp

text \<open>The signing share of a member: the sum, over all members, of what each one's polynomial gives for it.\<close>

definition joint_share :: "frost \<Rightarrow> (frost_id \<Rightarrow> secret_package) \<Rightarrow> frost_id list \<Rightarrow> frost_id \<Rightarrow> scalar" where
  "joint_share F secrets ids i = foldl (scalar_add F) (scalar_zero F) (map (\<lambda>p. share_for F (secrets p) i) ids)"

lemma filter_others: "distinct ids \<Longrightarrow> filter (\<lambda>p. p \<noteq> i) ids = remove1 i ids"
  by (simp add: distinct_remove1_removeAll removeAll_filter_not_eq) (metis (mono_tags) filter_cong)

lemma length_removed_member:
  "distinct ids \<Longrightarrow> i \<in> set ids \<Longrightarrow> Suc (length (filter (\<lambda>p. p \<noteq> i) ids)) = length ids"
  by (simp add: filter_others length_remove1) (metis Suc_pred length_pos_if_in_set)

lemma signing_share_joint:
  assumes "\<And>x y z. scalar_add F (scalar_add F x y) z = scalar_add F x (scalar_add F y z)"
    and "\<And>x y. scalar_add F x y = scalar_add F y x"
    and "mset ps = mset (filter (\<lambda>p. p \<noteq> i) ids)" and "distinct ids" and "i \<in> set ids"
    and "dkg_packages d = rev (map (\<lambda>p. (p, share_for F (secrets p) i)) ps)" and "dkg_id d = i"
  shows "dkg_signing_share F (secrets i) d = joint_share F secrets ids i"
proof -
  have "mset ids = add_mset i (mset ps)"
    using assms(3-5) by (simp add: filter_others)
  then have "mset (map (\<lambda>p. share_for F (secrets p) i) ids) =
      mset (map snd (siter (hash_order F) (dkg_packages d)) @ [share_for F (secrets i) (dkg_id d)])"
    by (simp add: assms(6,7) siter_def multiset.map_comp comp_def)
  then show ?thesis unfolding dkg_signing_share_def joint_share_def
    using foldl_mset_eq [of "scalar_add F", OF assms(1,2)] by metis
qed

section \<open>A session of two signers\<close>

text \<open>
  Concrete functions for the cryptography, and a session in which member 1 coordinates and members 1 and 2
  sign: up to the last share, and one in which a request arrives that no commitment was sent for.
\<close>

definition demo_frost :: frost where
  "demo_frost = \<lparr>
     round1_commit = (\<lambda>kp e. (replicate (snd e) 1, replicate (snd e) 2)),
     round2_sign = (\<lambda>cs d n kp. Some (n @ d)),
     frost_aggregate = (\<lambda>cs d sh pkp. Some (concat (map snd (siter unat sh)))),
     message_hash = (\<lambda>d. d),
     dkg_part1 = (\<lambda>i n t e. Inr ([ucast i], [ucast i], [7])),
     share_for = (\<lambda>sp p. (case sp of [] \<Rightarrow> p | x # _ \<Rightarrow> ucast x * p)),
     scalar_add = (+), scalar_zero = 0, hash_order = unat,
     key_package_of = (\<lambda>i sh com. Inr com),
     public_key_package_of = (\<lambda>ids com. Some com),
     signing_share_of = (\<lambda>kp. 0), verifying_key_of = (\<lambda>pkp. pkp)\<rparr>"

definition demo_request :: roast_signer_request where
  "demo_request = \<lparr>req_session_id = 0, req_commitments = [(2, [9]), (1, [])]\<rparr>"

definition demo_opened :: roast where
  "demo_opened = roast_set_data [5] (roast_new 1 2 [3] [4] [(1, ())] 0)"

definition act_state :: "(roast_action option \<times> roast) option \<Rightarrow> roast" where
  "act_state res = (case res of Some (_, r) \<Rightarrow> r | None \<Rightarrow> demo_opened)"

definition demo_committed :: roast where
  "demo_committed = roast_on_message 2 (RoastCommit [9])
     (roast_on_message 1 (RoastCommit []) (act_state (roast_next_action demo_frost demo_opened)))"

definition demo_requested :: roast where
  "demo_requested = roast_on_message 1 (RoastSign demo_request) (act_state (roast_next_action demo_frost demo_committed))"

definition demo_shares :: roast where
  "demo_shares = roast_on_message 2 (RoastSignature \<lparr>resp_session_id = 0, resp_signature_share = [8], resp_commitment = [9, 9]\<rparr>)
     (roast_on_message 1 (RoastSignature \<lparr>resp_session_id = 0, resp_signature_share = [5], resp_commitment = [2]\<rparr>)
       (act_state (roast_next_action demo_frost demo_requested)))"

lemma demo_actions:
  "map_option fst (roast_next_action demo_frost demo_opened) = Some (Some (RoastSend 1 (RoastCommit [])))"
  "map_option fst (roast_next_action demo_frost demo_committed) = Some (Some (RoastSendMany [1, 2] (RoastSign demo_request)))"
  "map_option fst (roast_next_action demo_frost demo_requested) = Some (Some (RoastSend 1 (RoastSignature
      \<lparr>resp_session_id = 0, resp_signature_share = [5], resp_commitment = [2]\<rparr>)))"
  "map_option fst (roast_next_action demo_frost demo_shares) = Some (Some (RoastComplete [5] [5, 8]))"
  by code_simp+

lemma act_state_run:
  assumes "roast_run demo_frost t pkp r" and "map_option fst (roast_next_action demo_frost r) = Some a"
  shows "roast_run demo_frost t pkp (act_state (roast_next_action demo_frost r))"
  using assms by (auto simp: act_state_def intro: roast_run_intros(4))

lemma demo_runs:
  "roast_run demo_frost 2 [4] demo_committed" "roast_run demo_frost 2 [4] demo_requested"
  "roast_run demo_frost 2 [4] demo_shares"
proof -
  have "roast_run demo_frost 2 [4] demo_opened"
    unfolding demo_opened_def by (intro roast_run_intros(1,2)) (simp add: swf_def)
  then show 1: "roast_run demo_frost 2 [4] demo_committed"
    unfolding demo_committed_def by (intro roast_run_intros(3) act_state_run [OF _ demo_actions(1)])
  then show 2: "roast_run demo_frost 2 [4] demo_requested"
    unfolding demo_requested_def by (intro roast_run_intros(3) act_state_run [OF _ demo_actions(2)])
  then show "roast_run demo_frost 2 [4] demo_shares"
    unfolding demo_shares_def by (intro roast_run_intros(3) act_state_run [OF _ demo_actions(3)])
qed

lemma demo_draw_inj: "inj (draw demo_frost kp src)"
  by (rule injI) (simp add: draw_def demo_frost_def)

section \<open>Properties\<close>

text \<open>
  C20. A signer never passes the same nonces to \<open>round2::sign\<close> twice, whatever the coordinators send and in
  whatever order it is called, provided the random number generator does not repeat itself.
\<close>

theorem nonces_signed_once:
  assumes "inj (draw F kp src)" and "signer_run F calls (signer_new kp src) = Some (used, s)"
  shows "distinct used"
  using fresh_run [OF assms(1) fresh_new assms(2)] by (simp add: nonces_fresh_def)

theorem nonces_signed_once_witness:
  "\<exists>s. signer_run demo_frost [SignerSetData [5], SignerCommit 1, SignerSign 1 demo_request, SignerMessage,
      SignerCommit 3, SignerSign 3 demo_request, SignerSign 1 demo_request, SignerMessage, SignerMessage] (signer_new [3] 0)
    = Some ([[], [1, 1], [1]], s) \<and> distinct [[], [1, 1], [1 :: 8 word]]"
proof -
  have "map_option fst (signer_run demo_frost [SignerSetData [5], SignerCommit 1, SignerSign 1 demo_request, SignerMessage,
      SignerCommit 3, SignerSign 3 demo_request, SignerSign 1 demo_request, SignerMessage, SignerMessage] (signer_new [3] 0))
      = Some [[], [1, 1], [1]]"
    by code_simp
  then obtain s where "signer_run demo_frost [SignerSetData [5], SignerCommit 1, SignerSign 1 demo_request, SignerMessage,
      SignerCommit 3, SignerSign 3 demo_request, SignerSign 1 demo_request, SignerMessage, SignerMessage] (signer_new [3] 0)
      = Some ([[], [1, 1], [1]], s)"
    by auto
  with nonces_signed_once [OF demo_draw_inj this] show ?thesis by blast
qed

text \<open>
  C21. A signing session only produces a signature that \<open>aggregate\<close> computed from exactly the threshold number of
  commitments, with a share from each of the members that committed and from nobody else, over the data to
  be signed; and the coordinator of the session is gone afterwards.
\<close>

theorem signature_from_full_session:
  assumes "roast_run F t pkp r" and "roast_next_action F r = Some (Some (RoastComplete h sig), r')"
  shows "\<exists>d cs shares. signer_data (roast_signer_of r) = Some d \<and> h = message_hash F d \<and>
    frost_aggregate F cs d shares pkp = Some sig \<and> swf cs \<and> length cs = unat t \<and>
    fst ` set shares = fst ` set cs \<and> roast_coordinator_of r' = None"
  using assms(2)
proof (cases rule: next_action_cases)
  case (coordinated c a c')
  have c: "coordinator_ok t c" using roast_run_ok [OF assms(1)] coordinated(1) by (simp add: roast_ok_def)
  have a: "a = RoastComplete h sig" "r' = r\<lparr>roast_coordinator_of := c'\<rparr>" using coordinated(3) by auto
  from coordinate_ok(2) [OF c coordinated(2)] a(1) obtain d s where
    "c' = None" "signer_data (roast_signer_of r) = Some d" "session_ok t s" "is_complete s" "h = message_hash F d"
    "frost_aggregate F (sess_commitments s) d (sess_shares s) (roast_public_key_package r) = Some sig"
    by blast
  then show ?thesis
    using complete_session_keys [of t s] roast_run_pkp [OF assms(1)] a(2) by (auto simp: session_ok_def)
next
  case (rest r1)
  then show ?thesis by (auto split: option.splits prod.splits)
qed

theorem signature_from_full_session_witness:
  "\<exists>r' cs shares. roast_next_action demo_frost demo_shares = Some (Some (RoastComplete [5] [5, 8]), r') \<and>
    length cs = 2 \<and> fst ` set shares = fst ` set (cs :: bytes idmap) \<and>
    frost_aggregate demo_frost cs [5] shares [4] = Some [5, 8]"
proof -
  obtain r' where r': "roast_next_action demo_frost demo_shares = Some (Some (RoastComplete [5] [5, 8]), r')"
    using demo_actions(4) by auto
  have d: "signer_data (roast_signer_of demo_shares) = Some [5]" by code_simp
  from signature_from_full_session [OF demo_runs(3) r'] d r' show ?thesis by auto
qed

text \<open>
  C22. The loop in \<open>Tss::next_action\<close> over the actions of a session returns, for a threshold of at least two and
  requests only from coordinators that hold a commitment: the messages a node sends to itself run out.
\<close>

theorem session_loop_returns:
  assumes "roast_run F t pkp r" and "2 \<le> unat t" and "solicited (roast_signer_of r)"
  shows "\<exists>act r'. session_loop F self r = Some (act, r')"
  using session_loop_ends [OF roast_run_ok [OF assms(1)] assms(2,3)] by auto

theorem session_loop_returns_witness:
  "\<exists>act r'. session_loop demo_frost 1 demo_requested = Some (act, r')"
proof (rule session_loop_returns [OF demo_runs(2)])
  show "2 \<le> unat (2 :: u16)" by simp
  show "solicited (roast_signer_of demo_requested)" by code_simp
qed

text \<open>
  A member that is no coordinator can stop another member's node: a signing request that the node sent no
  commitment for, delivered through \<open>Tss::on_message\<close>, makes the next \<open>next_action\<close> panic.
\<close>

theorem unsolicited_request_panics:
  assumes "tss_state s = TssRoast kp pkp [(i, r)]" and "p \<noteq> tss_peer_id s"
    and "sget (tss_frost_to_peer s) (to_frost p) = Some q"
    and "roast_coordinator_of r = None" and "roast_coordinators r = []"
    and "signer_data (roast_signer_of r) = Some d" and "signer_requests (roast_signer_of r) = []"
    and "sget (signer_coordinators (roast_signer_of r)) (to_frost p) = None"
  shows "roast_next_action F (roast_on_message (to_frost p) (RoastSign req) r) = None \<and>
    tss_next_action F (tss_on_message to_frost p (MsgRoast i (RoastSign req)) s) = None"
proof -
  let ?r = "roast_on_message (to_frost p) (RoastSign req) r"
  have n: "roast_next_action F ?r = None"
    using assms(4-8) by (simp add: roast_next_action_def pop_last_def signer_message_def signer_sign_def)
  have "tss_on_message to_frost p (MsgRoast i (RoastSign req)) s = s\<lparr>tss_state := TssRoast kp pkp [(i, ?r)]\<rparr>"
    using assms(1-3) by (simp add: tss_on_message_def sget_def sput_def sdel_def)
  moreover have "session_loop F self ?r = None" for self
    using n by (subst session_loop.simps) simp
  ultimately have "tss_next_action F (tss_on_message to_frost p (MsgRoast i (RoastSign req)) s) = None"
    by (simp add: tss_next_action_def siter_def sget_def del: roast_on_message.simps)
  with n show ?thesis by blast
qed

definition demo_node :: "u64 tss" where
  "demo_node = \<lparr>tss_peer_id = 2, tss_frost_id = 2, tss_frost_to_peer = [(1, 1), (2, 2), (3, 3)], tss_threshold = 2,
     tss_coordinators = [(1, ())],
     tss_state = TssRoast [3] [4] [(7, act_state (roast_next_action demo_frost (roast_set_data [5] (roast_new 2 2 [3] [4] [(1, ())] 1))))],
     tss_committed = True, tss_opened = 1\<rparr>"

theorem unsolicited_request_panics_witness:
  "\<exists>r. tss_state demo_node = TssRoast [3] [4] [(7, r)] \<and>
     roast_next_action demo_frost (roast_on_message 3 (RoastSign demo_request) r) = None \<and>
     tss_next_action demo_frost (tss_on_message ucast 3 (MsgRoast 7 (RoastSign demo_request)) demo_node) = None"
proof -
  let ?r = "act_state (roast_next_action demo_frost (roast_set_data [5] (roast_new 2 2 [3] [4] [(1, ())] 1)))"
  have 1: "roast_coordinator_of ?r = None" "roast_coordinators ?r = []" "signer_data (roast_signer_of ?r) = Some [5]"
    "signer_requests (roast_signer_of ?r) = []" "sget (signer_coordinators (roast_signer_of ?r)) 3 = None"
    by (simp_all add: act_state_def roast_next_action_def roast_set_data_def roast_new_def signer_new_def signer_set_data_def
        pop_last_def siter_def sdel_def sput_def sget_def signer_commit_def demo_frost_def)
  have 2: "tss_state demo_node = TssRoast [3] [4] [(7, ?r)]" "tss_peer_id demo_node = 2"
    "sget (tss_frost_to_peer demo_node) 3 = Some 3" by (simp_all add: demo_node_def sget_def)
  show ?thesis
    using unsolicited_request_panics [of demo_node "[3]" "[4]" 7 ?r 3 ucast 3 "[5]" demo_frost demo_request] 1 2 by simp
qed

text \<open>
  C23. The key generation, run by a member with the messages of all others in any order: it commits, after the
  joint commitment it sends every other member that member's share, and with the last share it completes,
  with a signing share that is the sum over all members and does not depend on the order of the messages or
  of the hash map.
\<close>

theorem dkg_completes:
  assumes "\<And>x y z. scalar_add F (scalar_add F x y) z = scalar_add F x (scalar_add F y z)"
    and "\<And>x y. scalar_add F x y = scalar_add F y x"
    and ids: "distinct ids" "i \<in> set ids" "length ids < 2 ^ 64" and ps: "mset ps = mset (filter (\<lambda>p. p \<noteq> i) ids)"
    and part1: "dkg_part1 F i (of_nat (length ids)) t (src, 0) = Inr (secrets i, own, pok)"
    and kp: "key_package_of F i (joint_share F secrets ids i) com = Inr kp"
    and pkp: "public_key_package_of F (id_keys (id_set ids)) com = Some pkp"
  shows "\<exists>d1 d2 d3. dkg_next_action F (dkg_new i (id_set ids) t src) = Some (Some (DkgCommit own pok), d1) \<and>
    dkg_next_action F (dkg_on_commit com d1) =
      Some (Some (DkgSend (map (\<lambda>p. (p, share_for F (secrets i) p)) (filter (\<lambda>p. p \<noteq> i) (id_keys (id_set ids))))), d2) \<and>
    dkg_next_action F (fold (\<lambda>(p, sh). dkg_on_message p sh) (map (\<lambda>p. (p, share_for F (secrets p) i)) ps) d2) =
      Some (Some (DkgComplete kp pkp com), d3)"
proof -
  define d1 where "d1 = (dkg_new i (id_set ids) t src)\<lparr>dkg_secret := Some (secrets i)\<rparr>"
  define d2 where "d2 = (dkg_on_commit com d1)\<lparr>dkg_sent := True\<rparr>"
  define msgs where "msgs = map (\<lambda>p. (p, share_for F (secrets p) i)) ps"
  define d3 where "d3 = d2\<lparr>dkg_packages := rev msgs\<rparr>"
  have 1: "dkg_next_action F (dkg_new i (id_set ids) t src) = Some (Some (DkgCommit own pok), d1)"
    using part1 ids by (simp add: dkg_next_action_def dkg_new_def length_id_set d1_def)
  have 2: "dkg_next_action F (dkg_on_commit com d1) =
      Some (Some (DkgSend (map (\<lambda>p. (p, share_for F (secrets i) p)) (filter (\<lambda>p. p \<noteq> i) (id_keys (id_set ids))))), d2)"
    by (simp add: dkg_next_action_def dkg_new_def dkg_on_commit_def dkg_round2_def d1_def d2_def)
  have dps: "distinct ps" using ps ids(1) by (metis distinct_filter mset_eq_imp_distinct_iff)
  have "distinct (map fst msgs)" using dps by (simp add: msgs_def comp_def)
  then have recv: "fold (\<lambda>(p, sh). dkg_on_message p sh) msgs d2 = d3"
    using receive_packages [of msgs d2] by (simp add: d3_def d2_def d1_def dkg_new_def dkg_on_commit_def)
  have share: "dkg_signing_share F (secrets i) d3 = joint_share F secrets ids i"
    using signing_share_joint [OF assms(1,2) ps ids(1,2), of d3 secrets]
    by (simp add: d3_def msgs_def d2_def d1_def dkg_new_def dkg_on_commit_def)
  have "Suc (length ps) = length ids"
    using length_removed_member [OF ids(1,2)] ps by (metis size_mset)
  then have "(of_nat (length ps) :: u64) = of_nat (length ids) - 1" by (metis add_diff_cancel_left' of_nat_Suc)
  then have 3: "dkg_next_action F (fold (\<lambda>(p, sh). dkg_on_message p sh) msgs d2) = Some (Some (DkgComplete kp pkp com), d3)"
    unfolding recv using share kp pkp ids(1)
    by (simp add: dkg_next_action_def d3_def msgs_def d2_def d1_def dkg_new_def dkg_on_commit_def length_id_set)
  show ?thesis using 1 2 3 [unfolded msgs_def] by blast
qed

theorem dkg_completes_witness:
  "\<exists>d1 d2 d3. dkg_next_action demo_frost (dkg_new 2 (id_set [1, 2, 3]) 2 0) = Some (Some (DkgCommit [2] [7]), d1) \<and>
    dkg_next_action demo_frost (dkg_on_commit [6] d1) = Some (Some (DkgSend [(1, 2), (3, 6)]), d2) \<and>
    dkg_next_action demo_frost (fold (\<lambda>(p, sh). dkg_on_message p sh) [(3, 6), (1, 2)] d2) =
      Some (Some (DkgComplete [6] [6] [6]), d3)"
proof -
  have assoc: "scalar_add demo_frost (scalar_add demo_frost x y) z = scalar_add demo_frost x (scalar_add demo_frost y z)"
    and comm: "scalar_add demo_frost x y = scalar_add demo_frost y x" for x y z
    by (simp_all add: demo_frost_def)
  let ?secrets = "\<lambda>p :: frost_id. [ucast p] :: secret_package"
  have part1: "dkg_part1 demo_frost 2 (of_nat (length [1, 2, 3 :: frost_id])) 2 (0, 0) = Inr (?secrets 2, [2], [7])"
    and kp: "key_package_of demo_frost 2 (joint_share demo_frost ?secrets [1, 2, 3] 2) [6] = Inr [6]"
    and pkp: "public_key_package_of demo_frost (id_keys (id_set [1, 2, 3])) [6] = Some [6]"
    by (simp_all add: demo_frost_def)
  have ids: "distinct [1, 2, 3 :: frost_id]" "2 \<in> set [1, 2, 3 :: frost_id]" "length [1, 2, 3 :: frost_id] < 2 ^ 64"
    "mset [3, 1 :: frost_id] = mset (filter (\<lambda>p. p \<noteq> 2) [1, 2, 3])" by simp_all
  have shares: "map (\<lambda>p. (p, share_for demo_frost (?secrets 2) p)) (filter (\<lambda>p. p \<noteq> 2) (id_keys (id_set [1, 2, 3]))) = [(1, 2), (3, 6)]"
    "map (\<lambda>p. (p, share_for demo_frost (?secrets p) 2)) [3, 1] = [(3, 6), (1, 2)]"
    by (code_simp, code_simp)
  from dkg_completes [OF assoc comm ids part1 kp pkp] show ?thesis unfolding shares .
qed

end
