(* ===== verification/Currency.thy ===== *)
theory Currency
  imports Runtime_Config
begin

text \<open>
  What the timegraph, airdrop and launch pallets take from \<open>pallet_balances\<close> and \<open>pallet_vesting\<close>: the traits
  \<open>Currency\<close>, \<open>ReservableCurrency\<close>, \<open>LockableCurrency\<close> and \<open>VestingSchedule\<close>, as functions on a ledger of a
  type left open. They are one record, \<open>currency\<close>. \<open>None\<close> is the error case of the call.
\<close>

type_synonym balance = u128
type_synonym vesting_info = "balance \<times> balance \<times> block_number"

datatype existence = KeepAlive | AllowDeath

record 'l currency =
  total_issuance_of :: "'l \<Rightarrow> balance"
  total_balance_of :: "account_id \<Rightarrow> 'l \<Rightarrow> balance"
  free_balance_of :: "account_id \<Rightarrow> 'l \<Rightarrow> balance"
  reserved_balance_of :: "account_id \<Rightarrow> 'l \<Rightarrow> balance"
  cur_reserve :: "account_id \<Rightarrow> balance \<Rightarrow> 'l \<Rightarrow> 'l option"
  cur_unreserve :: "account_id \<Rightarrow> balance \<Rightarrow> 'l \<Rightarrow> balance \<times> 'l"
  cur_transfer :: "account_id \<Rightarrow> account_id \<Rightarrow> balance \<Rightarrow> existence \<Rightarrow> 'l \<Rightarrow> 'l option"
  cur_withdraw :: "account_id \<Rightarrow> balance \<Rightarrow> 'l \<Rightarrow> 'l option"
  cur_deposit_creating :: "account_id \<Rightarrow> balance \<Rightarrow> 'l \<Rightarrow> 'l"
  cur_set_lock :: "string \<Rightarrow> account_id \<Rightarrow> balance \<Rightarrow> 'l \<Rightarrow> 'l"
  can_add_vesting :: "account_id \<Rightarrow> vesting_info \<Rightarrow> 'l \<Rightarrow> bool"
  add_vesting :: "account_id \<Rightarrow> vesting_info \<Rightarrow> 'l \<Rightarrow> 'l option"
  remove_vesting :: "account_id \<Rightarrow> u32 \<Rightarrow> 'l \<Rightarrow> 'l option"
  vesting_balance_of :: "account_id \<Rightarrow> 'l \<Rightarrow> balance option"

text \<open>
  The contract of \<open>ReservableCurrency\<close>: \<open>reserve\<close> adds to the reserved balance of one account; \<open>unreserve\<close> takes as
  much as there is, up to the amount, and returns the rest; a transfer moves free balance only.
\<close>

definition reservable :: "'l currency \<Rightarrow> bool" where
  "reservable C \<longleftrightarrow>
     (\<forall>a v l l' b. cur_reserve C a v l = Some l' \<longrightarrow>
        unat (reserved_balance_of C b l') = unat (reserved_balance_of C b l) + (if b = a then unat v else 0)) \<and>
     (\<forall>a v l b. unat (reserved_balance_of C b (snd (cur_unreserve C a v l))) =
        unat (reserved_balance_of C b l) - (if b = a then unat v else 0)) \<and>
     (\<forall>a v l. fst (cur_unreserve C a v l) = v - min v (reserved_balance_of C a l)) \<and>
     (\<forall>a b v k l l' c. cur_transfer C a b v k l = Some l' \<longrightarrow> reserved_balance_of C c l' = reserved_balance_of C c l)"

lemma reserve_reserved:
  "reservable C \<Longrightarrow> cur_reserve C a v l = Some l' \<Longrightarrow>
    unat (reserved_balance_of C b l') = unat (reserved_balance_of C b l) + (if b = a then unat v else 0)"
  unfolding reservable_def by blast

lemma unreserve_reserved:
  "reservable C \<Longrightarrow> cur_unreserve C a v l = (r, l') \<Longrightarrow>
    unat (reserved_balance_of C b l') = unat (reserved_balance_of C b l) - (if b = a then unat v else 0)"
  unfolding reservable_def by (metis snd_conv)

lemma unreserve_all:
  assumes "reservable C" and "cur_unreserve C a v l = (0, l')"
  shows "v \<le> reserved_balance_of C a l"
proof -
  have "v - min v (reserved_balance_of C a l) = 0"
    using assms unfolding reservable_def by (metis fst_conv)
  then show ?thesis by (simp add: min_def split: if_splits)
qed

lemma transfer_reserved:
  "reservable C \<Longrightarrow> cur_transfer C a b v k l = Some l' \<Longrightarrow> reserved_balance_of C c l' = reserved_balance_of C c l"
  unfolding reservable_def by blast

text \<open>
  What paying out relies on, with \<open>ed\<close> the existential deposit: \<open>deposit_creating\<close> adds an amount of at least \<open>ed\<close>
  to the free balance of the account (creating it) unless that overflows; it does not touch the vesting schedules;
  \<open>can_add_vesting_schedule\<close> accepts only a schedule that \<open>add_vesting_schedule\<close> adds; a schedule locks balance and moves none.
\<close>

definition paying :: "balance \<Rightarrow> 'l currency \<Rightarrow> bool" where
  "paying ed C \<longleftrightarrow>
     (\<forall>a v l b. ed \<le> v \<longrightarrow> unat (free_balance_of C a l) + unat v < 2 ^ 128 \<longrightarrow>
        free_balance_of C b (cur_deposit_creating C a v l) = free_balance_of C b l + (if b = a then v else 0)) \<and>
     (\<forall>a v l b vs. can_add_vesting C b vs (cur_deposit_creating C a v l) = can_add_vesting C b vs l) \<and>
     (\<forall>a vs l. can_add_vesting C a vs l \<longrightarrow> add_vesting C a vs l \<noteq> None) \<and>
     (\<forall>a vs l l' b. add_vesting C a vs l = Some l' \<longrightarrow> free_balance_of C b l' = free_balance_of C b l)"

lemma paying_deposits:
  "paying ed C \<Longrightarrow> ed \<le> v \<Longrightarrow> unat (free_balance_of C a l) + unat v < 2 ^ 128 \<Longrightarrow>
    free_balance_of C b (cur_deposit_creating C a v l) = free_balance_of C b l + (if b = a then v else 0)"
  unfolding paying_def by blast

lemma paying_vests:
  "paying ed C \<Longrightarrow> can_add_vesting C a vs l \<Longrightarrow> \<exists>l'. add_vesting C a vs (cur_deposit_creating C a v l) = Some l'"
  unfolding paying_def by blast

lemma paying_keeps:
  "paying ed C \<Longrightarrow> add_vesting C a vs l = Some l' \<Longrightarrow> free_balance_of C b l' = free_balance_of C b l"
  unfolding paying_def by blast

section \<open>A ledger for witnesses\<close>

text \<open>Free and reserved balances per account; one vesting schedule per account, with the locked amount.\<close>

record demo_ledger =
  free_of :: "account_id \<Rightarrow> balance"
  reserved_of :: "account_id \<Rightarrow> balance"
  vested_of :: "account_id \<rightharpoonup> vesting_info"

definition demo_currency :: "demo_ledger currency" where
  "demo_currency = \<lparr>
     total_issuance_of = (\<lambda>l. 0),
     total_balance_of = (\<lambda>a l. free_of l a + reserved_of l a),
     free_balance_of = (\<lambda>a l. free_of l a),
     reserved_balance_of = (\<lambda>a l. reserved_of l a),
     cur_reserve = (\<lambda>a v l. if v \<le> free_of l a \<and> unat (reserved_of l a) + unat v < 2 ^ 128
        then Some (l\<lparr>free_of := (free_of l)(a := free_of l a - v), reserved_of := (reserved_of l)(a := reserved_of l a + v)\<rparr>)
        else None),
     cur_unreserve = (\<lambda>a v l. let w = min v (reserved_of l a) in
        (v - w, l\<lparr>free_of := (free_of l)(a := free_of l a + w), reserved_of := (reserved_of l)(a := reserved_of l a - w)\<rparr>)),
     cur_transfer = (\<lambda>a b v k l. if v \<le> free_of l a
        then Some (let f = (free_of l)(a := free_of l a - v) in l\<lparr>free_of := f(b := f b + v)\<rparr>) else None),
     cur_withdraw = (\<lambda>a v l. if v \<le> free_of l a then Some (l\<lparr>free_of := (free_of l)(a := free_of l a - v)\<rparr>) else None),
     cur_deposit_creating = (\<lambda>a v l. l\<lparr>free_of := (free_of l)(a := free_of l a + v)\<rparr>),
     cur_set_lock = (\<lambda>i a v l. l),
     can_add_vesting = (\<lambda>a vs l. vested_of l a = None),
     add_vesting = (\<lambda>a vs l. if vested_of l a = None then Some (l\<lparr>vested_of := (vested_of l)(a \<mapsto> vs)\<rparr>) else None),
     remove_vesting = (\<lambda>a i l. if vested_of l a = None then None else Some (l\<lparr>vested_of := (vested_of l)(a := None)\<rparr>)),
     vesting_balance_of = (\<lambda>a l. map_option fst (vested_of l a))\<rparr>"

lemma demo_reservable: "reservable demo_currency"
  unfolding reservable_def
  by (auto simp: demo_currency_def Let_def min_def unat_word_ariths word_le_nat_alt unat_sub split: if_splits)

lemma demo_paying: "paying ed demo_currency"
  unfolding paying_def by (auto simp: demo_currency_def split: if_splits)

end
