(* ===== verification/Timegraph.thy ===== *)
theory Timegraph
  imports Currency
begin

text \<open>
  The timegraph pallet of \<open>pallets/timegraph\<close>: users reserve funds, and the timegraph account moves reserved
  funds to the reward pool and awards from it.
\<close>

datatype timegraph_event =
    TgDeposit account_id balance u64
  | TgWithdrawal account_id balance u64
  | TgTransferToPool account_id account_id balance
  | TgTransferAwardToUser account_id account_id balance
  | TimegraphAccountReset account_id account_id
  | RewardPoolAccountReset account_id account_id
  | ThresholdReset balance balance

text \<open>\<open>CurrencyError\<close> is an error that a call of the currency returns and the pallet passes on.\<close>

datatype timegraph_error =
    SequenceNumberOverflow | ZeroAmount | WithdrawalAmountOverReserve | NotWithdrawalRequired | RewardPoolOutOfBalance
  | RewardToSameAccount | SameTimegraphAccount | SameRewardPoolAccount | SameThreshold | SenderIsNotTimegraph
  | CurrencyError

record 'l timegraph_store =
  next_deposit_sequence :: "account_id \<Rightarrow> u64"
  next_withdrawal_sequence :: "account_id \<Rightarrow> u64"
  timegraph_account :: account_id
  reward_pool_account :: account_id
  tg_threshold :: balance
  tg_events :: "timegraph_event list"
  tg_ledger :: 'l

type_synonym 'l tg_result = "timegraph_error dispatch_error + 'l timegraph_store"

text \<open>The storage at genesis in the production runtime.\<close>

definition timegraph_genesis :: "'l \<Rightarrow> 'l timegraph_store" where
  "timegraph_genesis l = \<lparr>next_deposit_sequence = (\<lambda>_. 0), next_withdrawal_sequence = (\<lambda>_. 0),
     timegraph_account = 0, reward_pool_account = 0, tg_threshold = 1000, tg_events = [], tg_ledger = l\<rparr>"

definition tg_emit :: "timegraph_event \<Rightarrow> 'l timegraph_store \<Rightarrow> 'l timegraph_store" where
  "tg_emit e s = s\<lparr>tg_events := tg_events s @ [e]\<rparr>"

definition tg_deposit :: "'l currency \<Rightarrow> origin \<Rightarrow> balance \<Rightarrow> 'l timegraph_store \<Rightarrow> 'l tg_result" where
  "tg_deposit C orig amount s =
     (case ensure_signed orig of
        None \<Rightarrow> Inl BadOrigin
      | Some who \<Rightarrow>
          if amount = 0 then Inl (ModuleError ZeroAmount)
          else (case cur_reserve C who amount (tg_ledger s) of
              None \<Rightarrow> Inl (ModuleError CurrencyError)
            | Some l \<Rightarrow>
                (case checked_add (next_deposit_sequence s who) 1 of
                   None \<Rightarrow> Inl (ModuleError SequenceNumberOverflow)
                 | Some n \<Rightarrow> Inr (tg_emit (TgDeposit who amount n)
                     (s\<lparr>next_deposit_sequence := (next_deposit_sequence s)(who := n), tg_ledger := l\<rparr>)))))"

definition tg_withdraw :: "'l currency \<Rightarrow> origin \<Rightarrow> balance \<Rightarrow> 'l timegraph_store \<Rightarrow> 'l tg_result" where
  "tg_withdraw C orig amount s =
     (case ensure_signed orig of
        None \<Rightarrow> Inl BadOrigin
      | Some who \<Rightarrow>
          if amount = 0 then Inl (ModuleError ZeroAmount)
          else if \<not> sat_add amount (tg_threshold s) \<le> reserved_balance_of C who (tg_ledger s)
          then Inl (ModuleError WithdrawalAmountOverReserve)
          else (case cur_unreserve C who amount (tg_ledger s) of (missing, l) \<Rightarrow>
              if missing \<noteq> 0 then Inl (ModuleError NotWithdrawalRequired)
              else (case checked_add (next_withdrawal_sequence s who) 1 of
                   None \<Rightarrow> Inl (ModuleError SequenceNumberOverflow)
                 | Some n \<Rightarrow> Inr (tg_emit (TgWithdrawal who amount n)
                     (s\<lparr>next_withdrawal_sequence := (next_withdrawal_sequence s)(who := n), tg_ledger := l\<rparr>)))))"

definition ensure_timegraph :: "origin \<Rightarrow> 'l timegraph_store \<Rightarrow> timegraph_error dispatch_error option" where
  "ensure_timegraph orig s =
     (case ensure_signed orig of
        None \<Rightarrow> Some BadOrigin
      | Some who \<Rightarrow> if who \<noteq> timegraph_account s then Some (ModuleError SenderIsNotTimegraph) else None)"

definition transfer_to_pool :: "'l currency \<Rightarrow> origin \<Rightarrow> account_id \<Rightarrow> balance \<Rightarrow> 'l timegraph_store \<Rightarrow> 'l tg_result" where
  "transfer_to_pool C orig a amount s =
     (case ensure_timegraph orig s of
        Some e \<Rightarrow> Inl e
      | None \<Rightarrow>
          (case cur_unreserve C a amount (tg_ledger s) of (missing, l) \<Rightarrow>
             if missing \<noteq> 0 then Inl (ModuleError NotWithdrawalRequired)
             else (case cur_transfer C a (reward_pool_account s) amount KeepAlive l of
                 None \<Rightarrow> Inl (ModuleError CurrencyError)
               | Some l' \<Rightarrow> Inr (tg_emit (TgTransferToPool a (reward_pool_account s) amount) (s\<lparr>tg_ledger := l'\<rparr>)))))"

definition transfer_award_to_user ::
  "'l currency \<Rightarrow> origin \<Rightarrow> account_id \<Rightarrow> balance \<Rightarrow> 'l timegraph_store \<Rightarrow> 'l tg_result" where
  "transfer_award_to_user C orig a amount s =
     (case ensure_timegraph orig s of
        Some e \<Rightarrow> Inl e
      | None \<Rightarrow>
          if a = reward_pool_account s then Inl (ModuleError RewardToSameAccount)
          else if \<not> amount < free_balance_of C (reward_pool_account s) (tg_ledger s)
          then Inl (ModuleError RewardPoolOutOfBalance)
          else (case cur_transfer C (reward_pool_account s) a amount KeepAlive (tg_ledger s) of
              None \<Rightarrow> Inl (ModuleError CurrencyError)
            | Some l \<Rightarrow>
                (case cur_reserve C a amount l of
                   None \<Rightarrow> Inl (ModuleError CurrencyError)
                 | Some l' \<Rightarrow>
                     Inr (tg_emit (TgTransferAwardToUser (reward_pool_account s) a amount) (s\<lparr>tg_ledger := l'\<rparr>)))))"

definition set_timegraph_account :: "config \<Rightarrow> origin \<Rightarrow> account_id \<Rightarrow> 'l timegraph_store \<Rightarrow> 'l tg_result" where
  "set_timegraph_account cfg orig a s =
     (if \<not> admin_origin cfg orig then Inl BadOrigin
      else if a = timegraph_account s then Inl (ModuleError SameTimegraphAccount)
      else Inr ((tg_emit (TimegraphAccountReset (timegraph_account s) a) s)\<lparr>timegraph_account := a\<rparr>))"

definition set_reward_pool_account :: "config \<Rightarrow> origin \<Rightarrow> account_id \<Rightarrow> 'l timegraph_store \<Rightarrow> 'l tg_result" where
  "set_reward_pool_account cfg orig a s =
     (if \<not> admin_origin cfg orig then Inl BadOrigin
      else if a = reward_pool_account s then Inl (ModuleError SameRewardPoolAccount)
      else Inr ((tg_emit (RewardPoolAccountReset (reward_pool_account s) a) s)\<lparr>reward_pool_account := a\<rparr>))"

definition set_threshold :: "config \<Rightarrow> origin \<Rightarrow> balance \<Rightarrow> 'l timegraph_store \<Rightarrow> 'l tg_result" where
  "set_threshold cfg orig v s =
     (if \<not> admin_origin cfg orig then Inl BadOrigin
      else if v = tg_threshold s then Inl (ModuleError SameThreshold)
      else Inr ((tg_emit (ThresholdReset (tg_threshold s) v) s)\<lparr>tg_threshold := v\<rparr>))"

text \<open>The calls of the pallet.\<close>

datatype timegraph_call =
    CallDeposit balance | CallWithdraw balance | CallToPool account_id balance | CallAward account_id balance
  | CallSetTimegraph account_id | CallSetPool account_id | CallSetThreshold balance

fun timegraph_dispatch ::
  "config \<Rightarrow> 'l currency \<Rightarrow> origin \<Rightarrow> timegraph_call \<Rightarrow> 'l timegraph_store \<Rightarrow> 'l tg_result" where
  "timegraph_dispatch cfg C orig (CallDeposit v) s = tg_deposit C orig v s"
| "timegraph_dispatch cfg C orig (CallWithdraw v) s = tg_withdraw C orig v s"
| "timegraph_dispatch cfg C orig (CallToPool a v) s = transfer_to_pool C orig a v s"
| "timegraph_dispatch cfg C orig (CallAward a v) s = transfer_award_to_user C orig a v s"
| "timegraph_dispatch cfg C orig (CallSetTimegraph a) s = set_timegraph_account cfg orig a s"
| "timegraph_dispatch cfg C orig (CallSetPool a) s = set_reward_pool_account cfg orig a s"
| "timegraph_dispatch cfg C orig (CallSetThreshold v) s = set_threshold cfg orig v s"

section \<open>Reserved funds\<close>

abbreviation tg_reserved :: "'l currency \<Rightarrow> account_id \<Rightarrow> 'l timegraph_store \<Rightarrow> nat" where
  "tg_reserved C a s \<equiv> unat (reserved_balance_of C a (tg_ledger s))"

lemma ledger_emit [simp]: "tg_ledger (tg_emit e s) = tg_ledger s"
  by (simp add: tg_emit_def)

lemma deposit_reserved:
  "reservable C \<Longrightarrow> tg_deposit C orig v s = Inr s' \<Longrightarrow> tg_reserved C a s \<le> tg_reserved C a s'"
  by (auto simp: tg_deposit_def reserve_reserved split: option.splits if_splits)

lemma award_reserved:
  "reservable C \<Longrightarrow> transfer_award_to_user C orig b v s = Inr s' \<Longrightarrow> tg_reserved C a s \<le> tg_reserved C a s'"
  by (auto simp: transfer_award_to_user_def reserve_reserved transfer_reserved split: option.splits if_splits)

lemma withdraw_reserved:
  assumes "reservable C" and "tg_withdraw C orig v s = Inr s'"
  obtains who where "orig = Signed who" "sat_add v (tg_threshold s) \<le> reserved_balance_of C who (tg_ledger s)"
    "\<And>a. tg_reserved C a s' = tg_reserved C a s - (if a = who then unat v else 0)"
proof -
  from assms(2) obtain who l where "orig = Signed who" "cur_unreserve C who v (tg_ledger s) = (0, l)"
    "sat_add v (tg_threshold s) \<le> reserved_balance_of C who (tg_ledger s)" "tg_ledger s' = l"
    by (auto simp: tg_withdraw_def ensure_signed_def split: option.splits if_splits prod.splits origin.splits)
  then show ?thesis using unreserve_reserved [OF assms(1)] that by metis
qed

lemma to_pool_reserved:
  assumes "reservable C" and "transfer_to_pool C orig b v s = Inr s'"
  shows "orig = Signed (timegraph_account s)" and "v \<le> reserved_balance_of C b (tg_ledger s)"
    and "tg_reserved C a s' = tg_reserved C a s - (if a = b then unat v else 0)"
proof -
  from assms(2) obtain l l' where l: "cur_unreserve C b v (tg_ledger s) = (0, l)"
    "cur_transfer C b (reward_pool_account s) v KeepAlive l = Some l'" "tg_ledger s' = l'"
    by (auto simp: transfer_to_pool_def split: option.splits if_splits prod.splits)
  from assms(2) show "orig = Signed (timegraph_account s)"
    by (auto simp: transfer_to_pool_def ensure_timegraph_def ensure_signed_def split: option.splits if_splits origin.splits)
  show "v \<le> reserved_balance_of C b (tg_ledger s)" using unreserve_all [OF assms(1) l(1)] .
  show "tg_reserved C a s' = tg_reserved C a s - (if a = b then unat v else 0)"
    using unreserve_reserved [OF assms(1) l(1)] transfer_reserved [OF assms(1) l(2)] l(3) by simp
qed

lemma admin_calls_ledger:
  "set_timegraph_account cfg orig a s = Inr s' \<Longrightarrow> tg_ledger s' = tg_ledger s"
  "set_reward_pool_account cfg orig a s = Inr s' \<Longrightarrow> tg_ledger s' = tg_ledger s"
  "set_threshold cfg orig v s = Inr s' \<Longrightarrow> tg_ledger s' = tg_ledger s"
  by (auto simp: set_timegraph_account_def set_reward_pool_account_def set_threshold_def split: if_splits)

lemma sat_add_leaves:
  fixes v t r :: balance
  assumes "sat_add v t \<le> r" and "unat r < 2 ^ 128 - 1"
  shows "unat v + unat t \<le> unat r"
  using assms unat_sat_add [of v t] by (simp add: word_le_nat_alt min_def split: if_splits)

text \<open>
  C24. The reserved funds of a user only shrink by that user's own withdrawal, which leaves at least the threshold
  reserved, or by a transfer to the pool that the timegraph account makes; and exactly by the amount named.
\<close>

theorem reserved_funds_protected:
  assumes C: "reservable C" and d: "timegraph_dispatch cfg C orig c s = Inr s'"
    and less: "tg_reserved C a s' < tg_reserved C a s" and "tg_reserved C a s < 2 ^ 128 - 1"
  shows "(\<exists>v. orig = Signed a \<and> c = CallWithdraw v \<and> tg_reserved C a s' + unat v = tg_reserved C a s \<and>
            unat (tg_threshold s) \<le> tg_reserved C a s') \<or>
         (\<exists>v. orig = Signed (timegraph_account s) \<and> c = CallToPool a v \<and> tg_reserved C a s' + unat v = tg_reserved C a s)"
proof (cases c)
  case (CallWithdraw v)
  with d have w: "tg_withdraw C orig v s = Inr s'" by simp
  obtain who where o: "orig = Signed who" and t: "sat_add v (tg_threshold s) \<le> reserved_balance_of C who (tg_ledger s)"
    and r: "\<And>a. tg_reserved C a s' = tg_reserved C a s - (if a = who then unat v else 0)"
    using withdraw_reserved [OF C w] by blast
  have "a = who" using less r [of a] by (simp split: if_splits)
  then have "unat v + unat (tg_threshold s) \<le> tg_reserved C a s" using sat_add_leaves [OF t] assms(4) by simp
  then show ?thesis using CallWithdraw o r [of a] \<open>a = who\<close> by simp
next
  case (CallToPool b v)
  with d have p: "transfer_to_pool C orig b v s = Inr s'" by simp
  note q = to_pool_reserved [OF C p]
  have "a = b" using less q(3) [of a] by (simp split: if_splits)
  then show ?thesis using CallToPool q(1,2) q(3) [of a] by (simp add: word_le_nat_alt)
qed (use d less in \<open>auto dest: deposit_reserved [OF C, where a = a] award_reserved [OF C, where a = a] admin_calls_ledger\<close>)

definition tg_demo :: "demo_ledger timegraph_store" where
  "tg_demo = timegraph_genesis \<lparr>free_of = (\<lambda>_. 5000), reserved_of = (\<lambda>_. 4000), vested_of = Map.empty\<rparr>"

theorem reserved_funds_protected_witness:
  "\<exists>s' v. timegraph_dispatch test_config demo_currency (Signed 7) (CallWithdraw 2500) tg_demo = Inr s' \<and>
     CallWithdraw 2500 = CallWithdraw v \<and> tg_reserved demo_currency 7 s' + unat v = tg_reserved demo_currency 7 tg_demo \<and>
     unat (tg_threshold tg_demo) \<le> tg_reserved demo_currency 7 s'"
proof -
  obtain s' where s': "timegraph_dispatch test_config demo_currency (Signed 7) (CallWithdraw 2500) tg_demo = Inr s'"
    "reserved_balance_of demo_currency 7 (tg_ledger s') = 1500"
    by (simp add: tg_demo_def tg_withdraw_def timegraph_genesis_def demo_currency_def sat_add_def checked_add_def
        tg_emit_def min_def Let_def)
  have r: "tg_reserved demo_currency 7 tg_demo = 4000"
    by (simp add: tg_demo_def timegraph_genesis_def demo_currency_def)
  from reserved_funds_protected [OF demo_reservable s'(1), of 7] r s' show ?thesis by auto
qed

end
