(* ===== verification/Airdrop.thy ===== *)
theory Airdrop
  imports Currency
begin

text \<open>
  The airdrop pallet of \<open>pallets/airdrop\<close>: claims that are paid out against a signature, with an optional
  vesting schedule. The storage of the pallet is one record; the ledger of balances and vesting schedules
  is a second component of the state.
\<close>

datatype airdrop_event =
    Minted account_id balance
  | Moved account_id account_id
  | Claimed account_id account_id balance

datatype airdrop_error =
    HasNoClaim | InvalidSignature | PotUnderflow | BalanceTooSmall | VestingNotPossible | AlreadyHasClaim

record airdrop_store =
  claims :: "(account_id, balance) smap"
  pot_total :: balance
  claim_vesting :: "account_id \<rightharpoonup> vesting_info"
  airdrop_events :: "airdrop_event list"

text \<open>
  The constants of the pallet and the signature schemes of \<open>sp_core\<close>; \<open>scale_tag\<close> is the SCALE encoding of a
  string and an account.
\<close>

record airdrop_config =
  raw_prefix :: bytes
  minimum_balance :: balance
  sr25519_verify :: "bytes \<Rightarrow> bytes \<Rightarrow> account_id \<Rightarrow> bool"
  ed25519_verify :: "bytes \<Rightarrow> bytes \<Rightarrow> account_id \<Rightarrow> bool"
  scale_tag :: "string \<Rightarrow> account_id \<Rightarrow> bytes"

definition airdrop_emit :: "airdrop_event \<Rightarrow> airdrop_store \<Rightarrow> airdrop_store" where
  "airdrop_emit e s = s\<lparr>airdrop_events := airdrop_events s @ [e]\<rparr>"

definition airdrop_genesis :: "(account_id \<times> balance) list \<Rightarrow> (account_id \<times> vesting_info) list \<Rightarrow> airdrop_store" where
  "airdrop_genesis cs vs = \<lparr>
     claims = fold (\<lambda>(a, b). sput a b) cs [],
     pot_total = foldl (\<lambda>acc (_, b). acc + b) 0 cs,
     claim_vesting = fold (\<lambda>(a, v) m. m(a \<mapsto> v)) vs Map.empty, airdrop_events = []\<rparr>"

section \<open>Proofs\<close>

definition nibble :: "u8 \<Rightarrow> u8" where
  "nibble n = (if n < 10 then 0x30 + n else 0x61 - 10 + n)"

fun to_ascii_hex :: "bytes \<Rightarrow> bytes" where
  "to_ascii_hex [] = []"
| "to_ascii_hex (b # bs) = nibble (b div 16) # nibble (b mod 16) # to_ascii_hex bs"

definition account_bytes :: "account_id \<Rightarrow> bytes" where
  "account_bytes a = be_bytes 32 (unat a)"

text \<open>The strings \<open><Bytes>\<close> and \<open></Bytes>\<close>.\<close>

definition open_tag :: bytes where
  "open_tag = [0x3C, 0x42, 0x79, 0x74, 0x65, 0x73, 0x3E]"

definition close_tag :: bytes where
  "close_tag = [0x3C, 0x2F, 0x42, 0x79, 0x74, 0x65, 0x73, 0x3E]"

definition to_message :: "airdrop_config \<Rightarrow> account_id \<Rightarrow> bytes" where
  "to_message cfg target = open_tag @ raw_prefix cfg @ to_ascii_hex (account_bytes target) @ close_tag"

definition verify_proof :: "airdrop_config \<Rightarrow> account_id \<Rightarrow> bytes \<Rightarrow> account_id \<Rightarrow> bool" where
  "verify_proof cfg source sig target \<longleftrightarrow>
     (let message = to_message cfg target
      in sr25519_verify cfg sig message source \<or> ed25519_verify cfg sig message source)"

section \<open>Claims\<close>

definition mint_airdrop :: "airdrop_config \<Rightarrow> account_id \<Rightarrow> balance \<Rightarrow> vesting_info option \<Rightarrow> airdrop_store \<Rightarrow>
    airdrop_error + airdrop_store" where
  "mint_airdrop cfg owner amount vs s =
     (if amount < minimum_balance cfg then Inl BalanceTooSmall
      else if sget (claims s) owner \<noteq> None then Inl AlreadyHasClaim
      else Inr (airdrop_emit (Minted owner amount) (s\<lparr>
             pot_total := pot_total s + amount, claims := sput owner amount (claims s),
             claim_vesting := (case vs of None \<Rightarrow> claim_vesting s | Some v \<Rightarrow> (claim_vesting s)(owner \<mapsto> v))\<rparr>)))"

definition add_airdrop :: "airdrop_config \<Rightarrow> account_id \<Rightarrow> balance \<Rightarrow> vesting_info option \<Rightarrow> airdrop_store \<Rightarrow>
    airdrop_error + airdrop_store" where
  "add_airdrop cfg owner amount vs s =
     (if amount < minimum_balance cfg then Inl BalanceTooSmall
      else if \<not> (vs = None \<or> claim_vesting s owner = None) then Inl VestingNotPossible
      else
        (let combined = sat_add amount (case sget (claims s) owner of None \<Rightarrow> 0 | Some c \<Rightarrow> c)
         in Inr (airdrop_emit (Minted owner amount) (s\<lparr>
              pot_total := sat_add (pot_total s) amount, claims := sput owner combined (claims s),
              claim_vesting := (case vs of None \<Rightarrow> claim_vesting s | Some v \<Rightarrow> (claim_vesting s)(owner \<mapsto> v))\<rparr>))))"

definition move_airdrop :: "account_id \<Rightarrow> account_id \<Rightarrow> airdrop_store \<Rightarrow> airdrop_error + airdrop_store" where
  "move_airdrop from to s =
     (if sget (claims s) to \<noteq> None then Inl AlreadyHasClaim
      else (case sget (claims s) from of
          None \<Rightarrow> Inl HasNoClaim
        | Some amount \<Rightarrow> Inr (airdrop_emit (Moved from to) (s\<lparr>
            claims := sput to amount (sdel from (claims s)),
            claim_vesting := (case claim_vesting s from of
                None \<Rightarrow> claim_vesting s
              | Some v \<Rightarrow> (claim_vesting s)(from := None, to \<mapsto> v))\<rparr>))))"

text \<open>\<open>None\<close> is the panic of the \<open>expect\<close> on adding the vesting schedule.\<close>

definition process_airdrop :: "'l currency \<Rightarrow> account_id \<Rightarrow> account_id \<Rightarrow> airdrop_store \<times> 'l \<Rightarrow>
    (airdrop_error + airdrop_store \<times> 'l) option" where
  "process_airdrop C source target st =
     (let (s, l) = st
      in case sget (claims s) source of
           None \<Rightarrow> Some (Inl HasNoClaim)
         | Some amount \<Rightarrow>
             (case checked_sub (pot_total s) amount of
                None \<Rightarrow> Some (Inl PotUnderflow)
              | Some new_total \<Rightarrow>
                  if (case claim_vesting s source of None \<Rightarrow> False | Some v \<Rightarrow> \<not> can_add_vesting C target v l)
                  then Some (Inl VestingNotPossible)
                  else
                    (let l1 = cur_deposit_creating C target amount l
                     in Option.bind (case claim_vesting s source of None \<Rightarrow> Some l1 | Some v \<Rightarrow> add_vesting C target v l1)
                          (\<lambda>l2. Some (Inr (airdrop_emit (Claimed source target amount) (s\<lparr>
                             pot_total := new_total, claims := sdel source (claims s),
                             claim_vesting := (claim_vesting s)(source := None)\<rparr>), l2))))))"

section \<open>Calls\<close>

definition claim_raw :: "airdrop_config \<Rightarrow> 'l currency \<Rightarrow> origin \<Rightarrow> account_id \<Rightarrow> bytes \<Rightarrow> account_id \<Rightarrow>
    airdrop_store \<times> 'l \<Rightarrow> (airdrop_error, airdrop_store \<times> 'l) dispatch" where
  "claim_raw cfg C orig source sig target st =
     (if orig \<noteq> Unsigned then Some (Inl BadOrigin)
      else if \<not> verify_proof cfg source sig target then Some (Inl (ModuleError InvalidSignature))
      else dispatch_of (process_airdrop C source target st))"

definition with_ledger :: "airdrop_error + airdrop_store \<Rightarrow> 'l \<Rightarrow> (airdrop_error, airdrop_store \<times> 'l) dispatch" where
  "with_ledger r l = (case r of Inl e \<Rightarrow> Some (Inl (ModuleError e)) | Inr s \<Rightarrow> Some (Inr (s, l)))"

definition airdrop_mint :: "airdrop_config \<Rightarrow> origin \<Rightarrow> account_id \<Rightarrow> balance \<Rightarrow> vesting_info option \<Rightarrow>
    airdrop_store \<times> 'l \<Rightarrow> (airdrop_error, airdrop_store \<times> 'l) dispatch" where
  "airdrop_mint cfg orig owner v vs st =
     (if orig \<noteq> Root then Some (Inl BadOrigin) else with_ledger (mint_airdrop cfg owner v vs (fst st)) (snd st))"

definition airdrop_transfer :: "origin \<Rightarrow> account_id \<Rightarrow> account_id \<Rightarrow>
    airdrop_store \<times> 'l \<Rightarrow> (airdrop_error, airdrop_store \<times> 'l) dispatch" where
  "airdrop_transfer orig from to st =
     (if orig \<noteq> Root then Some (Inl BadOrigin) else with_ledger (move_airdrop from to (fst st)) (snd st))"

text \<open>The validation of unsigned transactions.\<close>

datatype airdrop_call =
    ClaimRaw account_id bytes account_id
  | MintClaim account_id balance "vesting_info option"
  | TransferClaim account_id account_id

datatype invalid_transaction = BadProof | BadSigner | InvalidCall

record valid_transaction =
  tx_priority :: u64
  tx_requires :: "bytes list"
  tx_provides :: "bytes list"
  tx_longevity :: u64
  tx_propagate :: bool

fun validate_unsigned :: "airdrop_config \<Rightarrow> airdrop_call \<Rightarrow> airdrop_store \<Rightarrow> invalid_transaction + valid_transaction" where
  "validate_unsigned cfg (ClaimRaw source sig target) s =
     (if \<not> verify_proof cfg source sig target then Inl BadProof
      else if sget (claims s) source = None then Inl BadSigner
      else Inr \<lparr>tx_priority = 100, tx_requires = [], tx_provides = [scale_tag cfg ''airdrop'' source],
                tx_longevity = - 1, tx_propagate = True\<rparr>)"
| "validate_unsigned cfg _ s = Inl InvalidCall"

section \<open>The pot covers the claims\<close>

text \<open>
  The states of the pallet: genesis, the calls, the mints and additions of the launch pallet (\<open>mint_airdrop\<close> and
  \<open>move_airdrop\<close> there are the calls with the root origin, \<open>add_airdrop\<close> has no call), and changes of the ledger by
  other pallets. The amounts ever minted are less than \<open>2 ^ 128\<close>: neither kind of mint overflows the pot.
\<close>

inductive airdrop_init :: "airdrop_store \<times> 'l \<Rightarrow> bool" where
  "(\<Sum>b\<leftarrow>map snd cs. unat b) < 2 ^ 128 \<Longrightarrow> airdrop_init (airdrop_genesis cs vs, l)"

inductive airdrop_step :: "airdrop_config \<Rightarrow> 'l currency \<Rightarrow> airdrop_store \<times> 'l \<Rightarrow> airdrop_store \<times> 'l \<Rightarrow> bool" for cfg C where
  claim: "claim_raw cfg C orig source sig target st = Some (Inr st') \<Longrightarrow> airdrop_step cfg C st st'"
| mint: "unat (pot_total (fst st)) + unat v < 2 ^ 128 \<Longrightarrow>
    airdrop_mint cfg orig owner v vs st = Some (Inr st') \<Longrightarrow> airdrop_step cfg C st st'"
| add: "unat (pot_total (fst st)) + unat v < 2 ^ 128 \<Longrightarrow>
    add_airdrop cfg owner v vs (fst st) = Inr s' \<Longrightarrow> airdrop_step cfg C st (s', snd st)"
| move: "airdrop_transfer orig old new st = Some (Inr st') \<Longrightarrow> airdrop_step cfg C st st'"
| other: "airdrop_step cfg C (s, l) (s, l')"

definition airdrop_reachable :: "airdrop_config \<Rightarrow> 'l currency \<Rightarrow> airdrop_store \<times> 'l \<Rightarrow> bool" where
  "airdrop_reachable cfg C st \<longleftrightarrow> reach airdrop_init (airdrop_step cfg C) st"

definition claimed_sum :: "(account_id, balance) smap \<Rightarrow> nat" where
  "claimed_sum m = (\<Sum>e\<leftarrow>m. unat (snd e))"

definition pot_ok :: "airdrop_store \<Rightarrow> bool" where
  "pot_ok s \<longleftrightarrow> swf (claims s) \<and> claimed_sum (claims s) \<le> unat (pot_total s)"

lemma claimed_sum_sdel: "swf m \<Longrightarrow> sget m k = Some v \<Longrightarrow> claimed_sum m = unat v + claimed_sum (sdel k m)"
proof -
  assume "swf m" "sget m k = Some v"
  then have "mset m = add_mset (k, v) (mset (sdel k m))" by (rule mset_sdel_present)
  then show ?thesis
    by (simp add: claimed_sum_def flip: sum_mset_sum_list)
qed

lemma claimed_sum_sdel_le: "claimed_sum (sdel k m) \<le> claimed_sum m"
  by (induction m) (auto simp: claimed_sum_def sdel_def)

lemma claimed_sum_sput: "claimed_sum (sput k v m) = unat v + claimed_sum (sdel k m)"
  by (simp add: sput_def claimed_sum_def)

lemma emit_fields [simp]:
  "claims (airdrop_emit e s) = claims s" "pot_total (airdrop_emit e s) = pot_total s"
  "claim_vesting (airdrop_emit e s) = claim_vesting s"
  by (simp_all add: airdrop_emit_def)

lemma pot_ok_genesis:
  assumes "(\<Sum>b\<leftarrow>map snd cs. unat b) < 2 ^ 128"
  shows "pot_ok (airdrop_genesis cs vs)"
proof -
  have "swf (fold (\<lambda>(a, b). sput a b) cs m) \<and>
      claimed_sum (fold (\<lambda>(a, b). sput a b) cs m) \<le> unat (foldl (\<lambda>acc (_, b). acc + b) acc cs)"
    if "swf m" "claimed_sum m \<le> unat acc" "unat acc + (\<Sum>b\<leftarrow>map snd cs. unat b) < 2 ^ 128" for m and acc :: balance
    using that
  proof (induction cs arbitrary: m acc)
    case (Cons e cs)
    obtain a b where e: "e = (a, b)" by (cases e)
    have u: "unat (acc + b) = unat acc + unat b" using Cons.prems(3) by (simp add: e unat_word_ariths)
    have "claimed_sum (sput a b m) \<le> unat (acc + b)"
      using claimed_sum_sdel_le [of a m] Cons.prems(2) by (simp add: u claimed_sum_sput)
    then show ?case using Cons.IH [of "sput a b m" "acc + b"] Cons.prems u by (simp add: e)
  qed simp
  from this [of "[]" 0] assms show ?thesis by (simp add: pot_ok_def airdrop_genesis_def claimed_sum_def)
qed

lemma pot_ok_mint:
  assumes "pot_ok s" and "unat (pot_total s) + unat v < 2 ^ 128" and "mint_airdrop cfg owner v vs s = Inr s'"
  shows "pot_ok s'"
proof -
  have "unat (pot_total s + v) = unat (pot_total s) + unat v" using assms(2) by (simp add: unat_word_ariths)
  then show ?thesis using assms claimed_sum_sdel_le [of owner "claims s"]
    by (auto simp: mint_airdrop_def pot_ok_def claimed_sum_sput split: if_splits)
qed

lemma pot_ok_add:
  assumes "pot_ok s" and "unat (pot_total s) + unat v < 2 ^ 128" and "add_airdrop cfg a v vs s = Inr s'"
  shows "pot_ok s' \<and> unat (pot_total s') = unat (pot_total s) + unat v"
proof -
  define old where "old = (case sget (claims s) a of None \<Rightarrow> 0 | Some c \<Rightarrow> c)"
  have old: "unat old + claimed_sum (sdel a (claims s)) = claimed_sum (claims s)"
    using assms(1) claimed_sum_sdel [of "claims s" a] sdel_absent [of "claims s" a]
    by (auto simp: pot_ok_def old_def split: option.splits)
  have t: "unat (sat_add (pot_total s) v) = unat (pot_total s) + unat v"
    using assms(2) by (simp add: unat_sat_add min_def)
  have c: "unat (sat_add v old) \<le> unat v + unat old"
    by (simp add: unat_sat_add min_def)
  from assms(3) have s': "claims s' = sput a (sat_add v old) (claims s)" "pot_total s' = sat_add (pot_total s) v"
    by (auto simp: add_airdrop_def old_def Let_def split: if_splits)
  have "claimed_sum (claims s') \<le> unat v + claimed_sum (claims s)"
    using c old by (simp add: s' claimed_sum_sput)
  then show ?thesis using assms(1) s' t by (simp add: pot_ok_def)
qed

lemma pot_ok_move:
  assumes "pot_ok s" and "move_airdrop old new s = Inr s'"
  shows "pot_ok s'"
proof -
  from assms(2) obtain v where v: "sget (claims s) old = Some v" "sget (claims s) new = None"
    and s': "claims s' = sput new v (sdel old (claims s))" "pot_total s' = pot_total s"
    by (auto simp: move_airdrop_def split: if_splits option.splits)
  have "claimed_sum (claims s') = claimed_sum (claims s)"
    using v s' assms(1) claimed_sum_sdel [of "claims s" old v] sdel_absent [of "sdel old (claims s)" new]
    by (simp add: claimed_sum_sput pot_ok_def)
  then show ?thesis using assms(1) s' by (simp add: pot_ok_def)
qed

lemma pot_ok_process:
  assumes "pot_ok s" and "process_airdrop C source target (s, l) = Some (Inr (s', l'))"
  shows "pot_ok s'"
proof -
  from assms(2) obtain v where v: "sget (claims s) source = Some v" "v \<le> pot_total s"
    and s': "claims s' = sdel source (claims s)" "pot_total s' = pot_total s - v"
    by (auto simp: process_airdrop_def checked_sub_def Let_def bind_eq_Some_conv split: if_splits option.splits)
  show ?thesis using assms(1) v s' claimed_sum_sdel [of "claims s" source v]
    by (auto simp: pot_ok_def unat_sub word_le_nat_alt)
qed

interpretation airdrop_states: step_invariant airdrop_init "airdrop_step cfg C" "\<lambda>st. pot_ok (fst st)" for cfg C
proof
  show "pot_ok (fst st)" if "airdrop_init st" for st :: "airdrop_store \<times> 'a"
    using that by cases (simp add: pot_ok_genesis)
  show "pot_ok (fst st')" if "pot_ok (fst st)" and "airdrop_step cfg C st st'" for st st'
    using that(2)
  proof cases
    case (claim orig source sig target)
    then show ?thesis using that(1) pot_ok_process [of "fst st" C source target "snd st" "fst st'" "snd st'"]
      by (auto simp: claim_raw_def split: if_splits)
  next
    case (mint v orig owner vs)
    then show ?thesis using that(1)
      by (auto simp: airdrop_mint_def with_ledger_def split: if_splits sum.splits intro: pot_ok_mint)
  next
    case (add v owner vs s')
    then show ?thesis using pot_ok_add [OF that(1)] by auto
  next
    case (move orig old new)
    then show ?thesis using that(1)
      by (auto simp: airdrop_transfer_def with_ledger_def split: if_splits sum.splits intro: pot_ok_move)
  qed (use that(1) in auto)
qed

lemma airdrop_reachable_pot: "airdrop_reachable cfg C st \<Longrightarrow> pot_ok (fst st)"
  unfolding airdrop_reachable_def by (rule airdrop_states.reachable_inv)

lemma claim_in_pot:
  assumes "airdrop_reachable cfg C (s, l)" and "sget (claims s) source = Some amount"
  shows "amount \<le> pot_total s"
  using airdrop_reachable_pot [OF assms(1)] claimed_sum_sdel [OF _ assms(2)]
  by (simp add: pot_ok_def word_le_nat_alt)

section \<open>What the launch pallet relies on\<close>

text \<open>
  A store of claims: a mint that is accepted keeps the invariant and adds its amount to the pot. Both ways to
  mint an airdrop are one.
\<close>

fun mint_all :: "(account_id \<Rightarrow> balance \<Rightarrow> vesting_info option \<Rightarrow> 's \<Rightarrow> 'e + 's) \<Rightarrow>
    (account_id \<times> balance \<times> vesting_info option) list \<Rightarrow> 's \<Rightarrow> 's" where
  "mint_all f [] s = s"
| "mint_all f ((a, v, vs) # ds) s = mint_all f ds (case f a v vs s of Inl _ \<Rightarrow> s | Inr s' \<Rightarrow> s')"

definition amounts :: "(account_id \<times> balance \<times> vesting_info option) list \<Rightarrow> nat" where
  "amounts ds = (\<Sum>d\<leftarrow>ds. unat (fst (snd d)))"

locale claim_store =
  fixes mint :: "account_id \<Rightarrow> balance \<Rightarrow> vesting_info option \<Rightarrow> 's \<Rightarrow> 'e + 's"
    and pot :: "'s \<Rightarrow> nat" and inv :: "'s \<Rightarrow> bool"
  assumes mint_ok: "inv s \<Longrightarrow> pot s + unat v < 2 ^ 128 \<Longrightarrow> mint a v vs s = Inr s' \<Longrightarrow>
    inv s' \<and> pot s' = pot s + unat v"
begin

lemma mint_all_ok:
  "inv s \<Longrightarrow> pot s + amounts ds < 2 ^ 128 \<Longrightarrow>
    inv (mint_all mint ds s) \<and> pot s \<le> pot (mint_all mint ds s) \<and> pot (mint_all mint ds s) \<le> pot s + amounts ds"
proof (induction ds arbitrary: s)
  case (Cons d ds)
  obtain a v vs where d: "d = (a, v, vs)" by (metis prod.exhaust)
  show ?case
  proof (cases "mint a v vs s")
    case (Inl e)
    then show ?thesis using Cons.IH [of s] Cons.prems by (simp add: d amounts_def)
  next
    case (Inr s')
    have "inv s' \<and> pot s' = pot s + unat v"
      using mint_ok [OF Cons.prems(1) _ Inr] Cons.prems(2) by (simp add: d amounts_def)
    then show ?thesis using Cons.IH [of s'] Cons.prems Inr by (simp add: d amounts_def)
  qed
qed (simp add: amounts_def)

end

lemma pot_mint:
  "mint_airdrop cfg a v vs s = Inr s' \<Longrightarrow> unat (pot_total s) + unat v < 2 ^ 128 \<Longrightarrow>
    unat (pot_total s') = unat (pot_total s) + unat v"
  by (auto simp: mint_airdrop_def unat_word_ariths split: if_splits)

interpretation minted_claims: claim_store "mint_airdrop cfg" "\<lambda>s. unat (pot_total s)" pot_ok for cfg
  by unfold_locales (auto intro: pot_ok_mint pot_mint)

interpretation added_claims: claim_store "add_airdrop cfg" "\<lambda>s. unat (pot_total s)" pot_ok for cfg
  by unfold_locales (auto dest: pot_ok_add)

text \<open>
  C25. In every reachable state a claim with a valid signature is settled. When the schedule that goes with it cannot
  be added to the target the claim is refused with \<open>VestingNotPossible\<close> and stays; otherwise it succeeds (the pot
  never underflows, adding the schedule never panics): the free balance of the target grows by the whole amount and
  no other balance changes, the schedule is added, the pot shrinks by exactly the amount, every other claim stays, and
  neither the same nor any other target can claim it again. The amount is at least the existential deposit and the
  balance of the target does not overflow.
\<close>

theorem claim_paid_once:
  assumes "airdrop_reachable cfg C (s, l)" and "verify_proof cfg source sig target"
    and "sget (claims s) source = Some amount"
    and C: "paying ed C" and amount: "ed \<le> amount" "unat (free_balance_of C target l) + unat amount < 2 ^ 128"
  shows "if \<exists>v. claim_vesting s source = Some v \<and> \<not> can_add_vesting C target v l
    then claim_raw cfg C Unsigned source sig target (s, l) = Some (Inl (ModuleError VestingNotPossible))
    else \<exists>s' l'. claim_raw cfg C Unsigned source sig target (s, l) = Some (Inr (s', l')) \<and>
      (\<forall>a. free_balance_of C a l' = free_balance_of C a l + (if a = target then amount else 0)) \<and>
      (case claim_vesting s source of
         None \<Rightarrow> l' = cur_deposit_creating C target amount l
       | Some v \<Rightarrow> add_vesting C target v (cur_deposit_creating C target amount l) = Some l') \<and>
      unat (pot_total s') + unat amount = unat (pot_total s) \<and>
      (\<forall>a. sget (claims s') a = (if a = source then None else sget (claims s) a)) \<and>
      (\<forall>l2 sig2 target2. verify_proof cfg source sig2 target2 \<longrightarrow>
         claim_raw cfg C Unsigned source sig2 target2 (s', l2) = Some (Inl (ModuleError HasNoClaim)))"
proof (cases "\<exists>v. claim_vesting s source = Some v \<and> \<not> can_add_vesting C target v l")
  case True
  have "amount \<le> pot_total s" by (rule claim_in_pot [OF assms(1,3)])
  then show ?thesis using True assms(2,3)
    by (auto simp: claim_raw_def process_airdrop_def checked_sub_def dispatch_of_def)
next
  case False
  have le: "amount \<le> pot_total s" by (rule claim_in_pot [OF assms(1,3)])
  obtain l' where l': "case claim_vesting s source of
      None \<Rightarrow> l' = cur_deposit_creating C target amount l
    | Some v \<Rightarrow> add_vesting C target v (cur_deposit_creating C target amount l) = Some l'"
    using False paying_vests [OF C] by (cases "claim_vesting s source") fastforce+
  then have "free_balance_of C a l' = free_balance_of C a (cur_deposit_creating C target amount l)" for a
    using paying_keeps [OF C] by (cases "claim_vesting s source") auto
  then have free: "free_balance_of C a l' = free_balance_of C a l + (if a = target then amount else 0)" for a
    using paying_deposits [OF C amount, of a] by simp
  define s' where "s' = airdrop_emit (Claimed source target amount) (s\<lparr>pot_total := pot_total s - amount,
    claims := sdel source (claims s), claim_vesting := (claim_vesting s)(source := None)\<rparr>)"
  have "process_airdrop C source target (s, l) = Some (Inr (s', l'))"
    using assms(3) le False l'
    by (auto simp: process_airdrop_def checked_sub_def s'_def split: option.splits)
  then have "claim_raw cfg C Unsigned source sig target (s, l) = Some (Inr (s', l'))"
    using assms(2) by (simp add: claim_raw_def)
  moreover have "unat (pot_total s') + unat amount = unat (pot_total s)"
    using le by (simp add: s'_def unat_sub word_le_nat_alt)
  moreover have "sget (claims s') a = (if a = source then None else sget (claims s) a)" for a
    by (simp add: s'_def)
  moreover have "claim_raw cfg C Unsigned source sig2 target2 (s', l2) = Some (Inl (ModuleError HasNoClaim))"
    if "verify_proof cfg source sig2 target2" for l2 sig2 target2
    using that by (simp add: claim_raw_def process_airdrop_def s'_def dispatch_of_def)
  ultimately show ?thesis using False free l' by auto
qed

definition airdrop_demo_config :: airdrop_config where
  "airdrop_demo_config = \<lparr>raw_prefix = [1, 2], minimum_balance = 5, sr25519_verify = (\<lambda>sig m a. sig = [9]),
     ed25519_verify = (\<lambda>sig m a. False), scale_tag = (\<lambda>t a. [])\<rparr>"

definition airdrop_demo :: airdrop_store where
  "airdrop_demo = airdrop_genesis [(3, 100), (4, 50)] [(3, (60, 1, 10))]"

theorem claim_paid_once_witness:
  "\<exists>s s' l'. add_airdrop airdrop_demo_config 3 20 None airdrop_demo = Inr s \<and>
    claim_raw airdrop_demo_config demo_currency Unsigned 3 [9] 8
      (s, \<lparr>free_of = (\<lambda>_. 0), reserved_of = (\<lambda>_. 0), vested_of = Map.empty\<rparr>) = Some (Inr (s', l')) \<and>
    unat (pot_total s') = 50 \<and> sget (claims s') 3 = None \<and> free_of l' 8 = 120 \<and>
    vested_of l' 8 = Some (60, 1, 10) \<and>
    claim_raw airdrop_demo_config demo_currency Unsigned 3 [9] 7 (s', l') = Some (Inl (ModuleError HasNoClaim))"
proof -
  let ?l = "\<lparr>free_of = (\<lambda>_. 0), reserved_of = (\<lambda>_. 0), vested_of = Map.empty\<rparr> :: demo_ledger"
  obtain s where s: "add_airdrop airdrop_demo_config 3 20 None airdrop_demo = Inr s"
    and c: "sget (claims s) 3 = Some 120" "claim_vesting s 3 = Some (60, 1, 10)" "pot_total s = 170"
    by (simp add: add_airdrop_def airdrop_demo_def airdrop_genesis_def airdrop_demo_config_def sat_add_def Let_def)
  have r: "airdrop_reachable airdrop_demo_config demo_currency (airdrop_demo, ?l)"
    unfolding airdrop_demo_def airdrop_reachable_def by (intro reach_init airdrop_init.intros) simp
  have "airdrop_step airdrop_demo_config demo_currency (airdrop_demo, ?l) (s, snd (airdrop_demo, ?l))"
    by (rule airdrop_step.add [where v = 20 and owner = 3 and vs = None])
      (simp_all add: s, simp add: airdrop_demo_def airdrop_genesis_def)
  then have r: "airdrop_reachable airdrop_demo_config demo_currency (s, ?l)"
    using r unfolding airdrop_reachable_def by (auto intro: reach_step)
  have p: "verify_proof airdrop_demo_config 3 [9] t" for t
    by (simp add: verify_proof_def airdrop_demo_config_def)
  have f: "unat (free_balance_of demo_currency 8 ?l) + unat (120 :: balance) < 2 ^ 128"
    by (simp add: demo_currency_def)
  have n: "\<not> (\<exists>v. claim_vesting s 3 = Some v \<and> \<not> can_add_vesting demo_currency 8 v ?l)"
    by (simp add: demo_currency_def)
  from claim_paid_once [OF r p [of 8] c(1) demo_paying word_zero_le f, unfolded if_not_P [OF n], unfolded c(2) option.case]
  obtain s' l' where o: "claim_raw airdrop_demo_config demo_currency Unsigned 3 [9] 8 (s, ?l) = Some (Inr (s', l'))"
      "add_vesting demo_currency 8 (60, 1, 10) (cur_deposit_creating demo_currency 8 120 ?l) = Some l'"
      "unat (pot_total s') + unat (120 :: balance) = unat (pot_total s)"
      "\<forall>a. sget (claims s') a = (if a = 3 then None else sget (claims s) a)"
      "\<forall>l2 sig2 target2. verify_proof airdrop_demo_config 3 sig2 target2 \<longrightarrow>
         claim_raw airdrop_demo_config demo_currency Unsigned 3 sig2 target2 (s', l2) = Some (Inl (ModuleError HasNoClaim))"
    by blast
  have "free_of l' 8 = 120 \<and> vested_of l' 8 = Some (60, 1, 10)"
    using o(2) by (auto simp: demo_currency_def)
  moreover have "unat (pot_total s') = 50" using o(3) c(3) by simp
  moreover have "sget (claims s') 3 = None" using o(4) by simp
  ultimately show ?thesis using s o(1) o(5) [rule_format, OF p [of 7]] by blast
qed

end
