(* ===== verification/Launch.thy ===== *)
theory Launch
  imports Airdrop
begin

text \<open>
  The launch pallet of \<open>pallets/launch\<close>: the allocations of the token, the ledger of launch stages that is
  compiled into the runtime, and the migration that checks it against the chain and executes the stages that
  are still open. Weights are not modelled.
\<close>

section \<open>Allocations\<close>

definition ANLOG :: balance where
  "ANLOG = 10 ^ 12"

definition MILLIANLOG :: balance where
  "MILLIANLOG = 10 ^ 9"

definition GENESIS_ISSUANCE :: balance where
  "GENESIS_ISSUANCE = 9057971000 * ANLOG"

datatype allocation =
    Ignore | Seed | Opportunity1 | Private1 | Opportunity2 | Opportunity3 | Opportunity4 | Strategic | Team
  | AirdropAllocation | Initiatives | Ecosystem | SIZE

fun alloc_index :: "allocation \<Rightarrow> nat" where
  "alloc_index Ignore = 0"
| "alloc_index Seed = 1"
| "alloc_index Opportunity1 = 2"
| "alloc_index Private1 = 3"
| "alloc_index Opportunity2 = 4"
| "alloc_index Opportunity3 = 5"
| "alloc_index Opportunity4 = 6"
| "alloc_index Strategic = 7"
| "alloc_index Team = 8"
| "alloc_index AirdropAllocation = 9"
| "alloc_index Initiatives = 10"
| "alloc_index Ecosystem = 11"
| "alloc_index SIZE = 12"

definition num_of :: nat where
  "num_of = alloc_index SIZE"

definition alloc_from_index :: "nat \<Rightarrow> allocation" where
  "alloc_from_index i =
     (if i = alloc_index Seed then Seed
      else if i = alloc_index Opportunity1 then Opportunity1
      else if i = alloc_index Private1 then Private1
      else if i = alloc_index Opportunity2 then Opportunity2
      else if i = alloc_index Opportunity3 then Opportunity3
      else if i = alloc_index Opportunity4 then Opportunity4
      else if i = alloc_index Strategic then Strategic
      else if i = alloc_index Team then Team
      else if i = alloc_index AirdropAllocation then AirdropAllocation
      else if i = alloc_index Initiatives then Initiatives
      else if i = alloc_index Ecosystem then Ecosystem
      else Ignore)"

fun alloc_sub_id :: "allocation \<Rightarrow> string" where
  "alloc_sub_id Seed = ''seed''"
| "alloc_sub_id Opportunity1 = ''opportunity1''"
| "alloc_sub_id Private1 = ''private1''"
| "alloc_sub_id Opportunity2 = ''opportunity2''"
| "alloc_sub_id Opportunity3 = ''opportunity3''"
| "alloc_sub_id Opportunity4 = ''opportunity4''"
| "alloc_sub_id Strategic = ''strategic''"
| "alloc_sub_id Team = ''team''"
| "alloc_sub_id AirdropAllocation = ''airdrop''"
| "alloc_sub_id Initiatives = ''initiatives''"
| "alloc_sub_id Ecosystem = ''ecosystem''"
| "alloc_sub_id _ = ''''"

fun alloc_total :: "allocation \<Rightarrow> balance" where
  "alloc_total Seed = 2116870581830 * MILLIANLOG"
| "alloc_total Opportunity1 = 170807453140 * MILLIANLOG"
| "alloc_total Private1 = 914546375350 * MILLIANLOG"
| "alloc_total Opportunity2 = 42701863290 * MILLIANLOG"
| "alloc_total Opportunity3 = 53495311080 * MILLIANLOG"
| "alloc_total Opportunity4 = 44418704640 * MILLIANLOG"
| "alloc_total Strategic = 376857707180 * MILLIANLOG"
| "alloc_total Team = 1714673910300 * MILLIANLOG"
| "alloc_total AirdropAllocation = 452898550000 * MILLIANLOG"
| "alloc_total Initiatives = 1811594200000 * MILLIANLOG"
| "alloc_total Ecosystem = 1359106343190 * MILLIANLOG"
| "alloc_total _ = 0"

fun schedule_raw :: "allocation \<Rightarrow> vesting_info option" where
  "schedule_raw Seed = Some (2116870581830 * MILLIANLOG, 178512 * MILLIANLOG, 4586070)"
| "schedule_raw Opportunity1 = Some (170807453140 * MILLIANLOG, 16204 * MILLIANLOG, 3268470)"
| "schedule_raw Private1 = Some (914546375350 * MILLIANLOG, 86762 * MILLIANLOG, 3268470)"
| "schedule_raw Opportunity2 = Some (42701863290 * MILLIANLOG, 4051 * MILLIANLOG, 3268470)"
| "schedule_raw Opportunity3 = Some (53495311080 * MILLIANLOG, 6766 * MILLIANLOG, 3268470)"
| "schedule_raw Opportunity4 = Some (44418704640 * MILLIANLOG, 5618 * MILLIANLOG, 1950870)"
| "schedule_raw Strategic = Some (376857707180 * MILLIANLOG, 47669 * MILLIANLOG, 1950870)"
| "schedule_raw Team = Some (1714673910300 * MILLIANLOG, 108446 * MILLIANLOG, 4586070)"
| "schedule_raw Initiatives = Some (1086956520000 * MILLIANLOG, 68745 * MILLIANLOG, 633270)"
| "schedule_raw Ecosystem = Some (679553171595 * MILLIANLOG, 32234 * MILLIANLOG, 633270)"
| "schedule_raw _ = None"

section \<open>Stages\<close>

text \<open>
  The data of a stage as it stands in the code. Balances and block numbers are of the types that the runtime
  uses, so that the conversions with \<open>checked_from\<close> always succeed.
\<close>

type_synonym raw_deposit = "string \<times> balance"
type_synonym raw_scheduled = "string \<times> balance \<times> vesting_info option"
type_synonym raw_move = "string \<times> string"
type_synonym deposit_details = "account_id \<times> balance \<times> vesting_info option"

datatype stage =
    Retired
  | DepositFromUnlocked "raw_scheduled list"
  | DepositAsVested "raw_deposit list"
  | AirdropFromUnlocked "raw_scheduled list"
  | AirdropTransfer "raw_move list"

type_synonym launch_stage = "u16 \<times> allocation \<times> balance \<times> stage"

datatype launch_error =
    StageMissing | StageVersionMissmatch | TotalIssuanceExceeded | StageRetired | StageIssuanceMissmatch

datatype launch_event =
    LedgerInvalid launch_error
  | StageExceededIssuance u16 bytes
  | StageExecuted u16 bytes
  | DepositInvalid string
  | DepositSourceMissmatch string
  | DepositVestingMissmatch account_id
  | DepositTooSmall account_id
  | DepositTooLarge account_id
  | DepositFailed account_id
  | AirdropMintInvalid string
  | AirdropMintExists account_id
  | AirdropMintTooLarge account_id
  | AirdropMintFailed
  | AirdropTransferInvalid string
  | AirdropTransferMissing account_id
  | AirdropTransferExists account_id
  | AirdropTransferFailed
  | TransferFromVirtual string account_id balance

text \<open>
  What the pallet takes from outside: the SS58 decoder and the derivation of pallet accounts of \<open>sp_core\<close> and
  \<open>sp_runtime\<close>, the product of a \<open>Perbill\<close> ratio with a balance, the hash of a stage, and the constants.
\<close>

record launch_config =
  from_ss58check :: "string \<Rightarrow> account_id option"
  sub_account :: "string \<Rightarrow> account_id"
  perbill_of_rational_mul :: "balance \<Rightarrow> balance \<Rightarrow> balance \<Rightarrow> balance"
  stage_data_hash :: "stage \<Rightarrow> bytes"
  minimum_deposit :: balance
  launch_admin :: "origin \<Rightarrow> bool"
  airdrop_cfg :: airdrop_config

record 'l launch_state =
  stage_version :: u16
  launch_airdrop :: airdrop_store
  launch_ledger :: 'l
  launch_events :: "launch_event list"

definition launch_emit :: "launch_event \<Rightarrow> 'l launch_state \<Rightarrow> 'l launch_state" where
  "launch_emit e s = s\<lparr>launch_events := launch_events s @ [e]\<rparr>"

definition alloc_account :: "launch_config \<Rightarrow> allocation \<Rightarrow> account_id" where
  "alloc_account cfg a = sub_account cfg (alloc_sub_id a)"

definition schedule_of :: "allocation \<Rightarrow> vesting_info option" where
  "schedule_of a = schedule_raw a"

definition schedule_rel :: "launch_config \<Rightarrow> allocation \<Rightarrow> balance \<Rightarrow> vesting_info option" where
  "schedule_rel cfg a amount =
     (case schedule_raw a of
        None \<Rightarrow> None
      | Some (locked, per_block, start) \<Rightarrow> Some (amount, perbill_of_rational_mul cfg amount locked per_block, start))"

text \<open>\<open>None\<close> is the panic of the \<open>expect\<close> on adding the vesting schedule again.\<close>

definition set_locked :: "launch_config \<Rightarrow> 'l currency \<Rightarrow> allocation \<Rightarrow> balance \<Rightarrow> 'l launch_state \<Rightarrow> 'l launch_state option" where
  "set_locked cfg C a locked s =
     (case remove_vesting C (alloc_account cfg a) 0 (launch_ledger s) of
        None \<Rightarrow> Some (launch_emit (DepositSourceMissmatch (alloc_sub_id a)) s)
      | Some l \<Rightarrow>
          (case schedule_rel cfg a locked of
             None \<Rightarrow> Some (launch_emit (DepositSourceMissmatch (alloc_sub_id a)) (s\<lparr>launch_ledger := l\<rparr>))
           | Some vs \<Rightarrow> map_option (\<lambda>l'. s\<lparr>launch_ledger := l'\<rparr>) (add_vesting C (alloc_account cfg a) vs l)))"

section \<open>Deposits\<close>

definition parse_details :: "launch_config \<Rightarrow> raw_deposit \<Rightarrow> deposit_details option" where
  "parse_details cfg d = map_option (\<lambda>a. (a, snd d, None)) (from_ss58check cfg (fst d))"

definition parse_scheduled_details :: "launch_config \<Rightarrow> raw_scheduled \<Rightarrow> deposit_details option" where
  "parse_scheduled_details cfg d = map_option (\<lambda>a. (a, fst (snd d), snd (snd d))) (from_ss58check cfg (fst d))"

text \<open>The loop of \<open>parse\<close> and \<open>parse_with_schedule\<close>, over entries with their id and their parsed details.\<close>

fun parse_deposits :: "launch_config \<Rightarrow> (string \<times> deposit_details option) list \<Rightarrow> 'l launch_state \<Rightarrow>
    deposit_details list \<times> 'l launch_state" where
  "parse_deposits cfg [] s = ([], s)"
| "parse_deposits cfg ((i, p) # ds) s =
     (case p of
        None \<Rightarrow> parse_deposits cfg ds (launch_emit (DepositInvalid i) s)
      | Some d \<Rightarrow>
          if fst (snd d) < minimum_deposit cfg then parse_deposits cfg ds (launch_emit (DepositTooSmall (fst d)) s)
          else (let (checked, s') = parse_deposits cfg ds s in (d # checked, s')))"

definition deposit_parse :: "launch_config \<Rightarrow> raw_deposit list \<Rightarrow> 'l launch_state \<Rightarrow> deposit_details list \<times> 'l launch_state" where
  "deposit_parse cfg ds s = parse_deposits cfg (map (\<lambda>d. (fst d, parse_details cfg d)) ds) s"

definition deposit_parse_with_schedule ::
  "launch_config \<Rightarrow> raw_scheduled list \<Rightarrow> 'l launch_state \<Rightarrow> deposit_details list \<times> 'l launch_state" where
  "deposit_parse_with_schedule cfg ds s = parse_deposits cfg (map (\<lambda>d. (fst d, parse_scheduled_details cfg d)) ds) s"

definition details_total :: "deposit_details list \<Rightarrow> balance" where
  "details_total ds = foldl (\<lambda>acc (_, b, _). acc + b) 0 ds"

definition deposit_unlocked :: "launch_config \<Rightarrow> 'l currency \<Rightarrow> allocation \<Rightarrow> deposit_details \<Rightarrow>
    'l launch_state \<Rightarrow> 'l launch_state option" where
  "deposit_unlocked cfg C source d s =
     (let (target, amount, schedule) = d
      in if (case schedule of None \<Rightarrow> False | Some vs \<Rightarrow> \<not> can_add_vesting C target vs (launch_ledger s))
         then Some (launch_emit (DepositFailed target) s)
         else (case cur_transfer C (alloc_account cfg source) target amount AllowDeath (launch_ledger s) of
             None \<Rightarrow> Some (launch_emit (DepositTooLarge target) s)
           | Some l \<Rightarrow>
               map_option (\<lambda>l'. s\<lparr>launch_ledger := l'\<rparr>)
                 (case schedule of None \<Rightarrow> Some l | Some vs \<Rightarrow> add_vesting C target vs l)))"

fun transfer_unlocked :: "launch_config \<Rightarrow> 'l currency \<Rightarrow> allocation \<Rightarrow> deposit_details list \<Rightarrow>
    'l launch_state \<Rightarrow> 'l launch_state option" where
  "transfer_unlocked cfg C source [] s = Some s"
| "transfer_unlocked cfg C source (d # ds) s =
     Option.bind (deposit_unlocked cfg C source d s) (transfer_unlocked cfg C source ds)"

definition deposit_vested :: "launch_config \<Rightarrow> 'l currency \<Rightarrow> allocation \<Rightarrow> deposit_details \<Rightarrow>
    'l launch_state \<Rightarrow> 'l launch_state option" where
  "deposit_vested cfg C source d s =
     (let (target, amount, no_schedule) = d
      in if no_schedule \<noteq> None then Some (launch_emit (DepositVestingMissmatch target) s)
         else (case schedule_rel cfg source amount of
             None \<Rightarrow> Some (launch_emit (DepositVestingMissmatch target) s)
           | Some vs \<Rightarrow>
               if \<not> can_add_vesting C target vs (launch_ledger s) then Some (launch_emit (DepositFailed target) s)
               else (case cur_transfer C (alloc_account cfg source) target amount AllowDeath (launch_ledger s) of
                   None \<Rightarrow> Some (launch_emit (DepositTooLarge target) s)
                 | Some l \<Rightarrow> map_option (\<lambda>l'. s\<lparr>launch_ledger := l'\<rparr>) (add_vesting C target vs l))))"

fun deposits_vested :: "launch_config \<Rightarrow> 'l currency \<Rightarrow> allocation \<Rightarrow> deposit_details list \<Rightarrow>
    'l launch_state \<Rightarrow> 'l launch_state option" where
  "deposits_vested cfg C source [] s = Some s"
| "deposits_vested cfg C source (d # ds) s =
     Option.bind (deposit_vested cfg C source d s) (deposits_vested cfg C source ds)"

definition transfer_as_vested :: "launch_config \<Rightarrow> 'l currency \<Rightarrow> allocation \<Rightarrow> deposit_details list \<Rightarrow>
    'l launch_state \<Rightarrow> 'l launch_state option" where
  "transfer_as_vested cfg C source ds s =
     (let account = alloc_account cfg source; missmatch = launch_emit (DepositSourceMissmatch (alloc_sub_id source))
      in if vesting_balance_of C account (launch_ledger s) \<noteq> Some (free_balance_of C account (launch_ledger s))
         then Some (missmatch s)
         else (case remove_vesting C account 0 (launch_ledger s) of
             None \<Rightarrow> Some (missmatch s)
           | Some l \<Rightarrow>
               Option.bind (deposits_vested cfg C source ds (s\<lparr>launch_ledger := l\<rparr>)) (\<lambda>s1.
                 (case schedule_rel cfg source (free_balance_of C account (launch_ledger s1)) of
                    None \<Rightarrow> Some (missmatch s1)
                  | Some vs \<Rightarrow> map_option (\<lambda>l'. s1\<lparr>launch_ledger := l'\<rparr>) (add_vesting C account vs (launch_ledger s1))))))"

section \<open>Airdrops\<close>

definition parse_mint :: "launch_config \<Rightarrow> raw_scheduled \<Rightarrow> deposit_details option" where
  "parse_mint cfg d = map_option (\<lambda>a. (a, fst (snd d), snd (snd d))) (from_ss58check cfg (fst d))"

fun airdrop_parse :: "launch_config \<Rightarrow> raw_scheduled list \<Rightarrow> 'l launch_state \<Rightarrow> deposit_details list \<times> 'l launch_state" where
  "airdrop_parse cfg [] s = ([], s)"
| "airdrop_parse cfg (d # ds) s =
     (case parse_mint cfg d of
        None \<Rightarrow> airdrop_parse cfg ds (launch_emit (AirdropMintInvalid (fst d)) s)
      | Some p \<Rightarrow> (let (checked, s') = airdrop_parse cfg ds s in (p # checked, s')))"

definition stage_mint_one :: "launch_config \<Rightarrow> 'l currency \<Rightarrow> allocation \<Rightarrow> deposit_details \<Rightarrow> 'l launch_state \<Rightarrow> 'l launch_state" where
  "stage_mint_one cfg C source d s =
     (let (target, amount, schedule) = d
      in case cur_withdraw C (alloc_account cfg source) amount (launch_ledger s) of
           None \<Rightarrow> launch_emit (AirdropMintTooLarge target) s
         | Some l \<Rightarrow>
             (let s1 = s\<lparr>launch_ledger := l\<rparr>
              in case mint_airdrop (airdrop_cfg cfg) target amount schedule (launch_airdrop s1) of
                   Inr a \<Rightarrow> s1\<lparr>launch_airdrop := a\<rparr>
                 | Inl AlreadyHasClaim \<Rightarrow> launch_emit (AirdropMintExists target) s1
                 | Inl _ \<Rightarrow> launch_emit AirdropMintFailed s1))"

definition stage_mint :: "launch_config \<Rightarrow> 'l currency \<Rightarrow> allocation \<Rightarrow> deposit_details list \<Rightarrow> 'l launch_state \<Rightarrow> 'l launch_state" where
  "stage_mint cfg C source ds s = fold (stage_mint_one cfg C source) ds s"

definition stage_add_one :: "launch_config \<Rightarrow> 'l currency \<Rightarrow> allocation \<Rightarrow> deposit_details \<Rightarrow> 'l launch_state \<Rightarrow> 'l launch_state" where
  "stage_add_one cfg C source d s =
     (let (target, amount, schedule) = d
      in case cur_withdraw C (alloc_account cfg source) amount (launch_ledger s) of
           None \<Rightarrow> launch_emit (AirdropMintTooLarge target) s
         | Some l \<Rightarrow>
             (let s1 = s\<lparr>launch_ledger := l\<rparr>
              in case add_airdrop (airdrop_cfg cfg) target amount schedule (launch_airdrop s1) of
                   Inr a \<Rightarrow> s1\<lparr>launch_airdrop := a\<rparr>
                 | Inl VestingNotPossible \<Rightarrow> launch_emit (AirdropMintExists target) s1
                 | Inl _ \<Rightarrow> launch_emit AirdropMintFailed s1))"

definition mint_or_add :: "launch_config \<Rightarrow> 'l currency \<Rightarrow> allocation \<Rightarrow> deposit_details list \<Rightarrow> 'l launch_state \<Rightarrow> 'l launch_state" where
  "mint_or_add cfg C source ds s = fold (stage_add_one cfg C source) ds s"

definition parse_transfer :: "launch_config \<Rightarrow> raw_move \<Rightarrow> (account_id \<times> account_id) option" where
  "parse_transfer cfg d =
     (case from_ss58check cfg (fst d) of
        None \<Rightarrow> None
      | Some a \<Rightarrow> (case from_ss58check cfg (snd d) of None \<Rightarrow> None | Some b \<Rightarrow> Some (a, b)))"

fun moves_parse :: "launch_config \<Rightarrow> raw_move list \<Rightarrow> 'l launch_state \<Rightarrow> (account_id \<times> account_id) list \<times> 'l launch_state" where
  "moves_parse cfg [] s = ([], s)"
| "moves_parse cfg (d # ds) s =
     (case parse_transfer cfg d of
        None \<Rightarrow> moves_parse cfg ds (launch_emit (AirdropTransferInvalid (fst d)) s)
      | Some p \<Rightarrow> (let (checked, s') = moves_parse cfg ds s in (p # checked, s')))"

definition stage_move_one :: "account_id \<times> account_id \<Rightarrow> 'l launch_state \<Rightarrow> 'l launch_state" where
  "stage_move_one m s =
     (case move_airdrop (fst m) (snd m) (launch_airdrop s) of
        Inr a \<Rightarrow> s\<lparr>launch_airdrop := a\<rparr>
      | Inl HasNoClaim \<Rightarrow> launch_emit (AirdropTransferMissing (fst m)) s
      | Inl AlreadyHasClaim \<Rightarrow> launch_emit (AirdropTransferExists (snd m)) s
      | Inl _ \<Rightarrow> launch_emit AirdropTransferFailed s)"

definition stage_move :: "(account_id \<times> account_id) list \<Rightarrow> 'l launch_state \<Rightarrow> 'l launch_state" where
  "stage_move ms s = fold stage_move_one ms s"

section \<open>Executing a stage\<close>

definition is_executable :: "stage \<Rightarrow> bool" where
  "is_executable st \<longleftrightarrow> st \<noteq> Retired"

definition stage_hash :: "launch_config \<Rightarrow> stage \<Rightarrow> bytes" where
  "stage_hash cfg st = (case st of Retired \<Rightarrow> replicate 32 0 | _ \<Rightarrow> stage_data_hash cfg st)"

text \<open>The sum of a stage parses it, so that the events of the parser are emitted here too.\<close>

fun stage_sum :: "launch_config \<Rightarrow> stage \<Rightarrow> 'l launch_state \<Rightarrow> balance \<times> 'l launch_state" where
  "stage_sum cfg Retired s = (0, s)"
| "stage_sum cfg (DepositFromUnlocked raw) s = (let (ds, s') = deposit_parse_with_schedule cfg raw s in (details_total ds, s'))"
| "stage_sum cfg (DepositAsVested raw) s = (let (ds, s') = deposit_parse cfg raw s in (details_total ds, s'))"
| "stage_sum cfg (AirdropFromUnlocked raw) s = (let (ds, s') = airdrop_parse cfg raw s in (details_total ds, s'))"
| "stage_sum cfg (AirdropTransfer raw) s = (let (ms, s') = moves_parse cfg raw s in (0, s'))"

fun stage_execute :: "launch_config \<Rightarrow> 'l currency \<Rightarrow> stage \<Rightarrow> allocation \<Rightarrow> 'l launch_state \<Rightarrow> 'l launch_state option" where
  "stage_execute cfg C Retired source s = Some s"
| "stage_execute cfg C (DepositFromUnlocked raw) source s =
     (let (ds, s') = deposit_parse_with_schedule cfg raw s in transfer_unlocked cfg C source ds s')"
| "stage_execute cfg C (DepositAsVested raw) source s =
     (let (ds, s') = deposit_parse cfg raw s in transfer_as_vested cfg C source ds s')"
| "stage_execute cfg C (AirdropFromUnlocked raw) source s =
     (let (ds, s') = airdrop_parse cfg raw s in Some (stage_mint cfg C source ds s'))"
| "stage_execute cfg C (AirdropTransfer raw) source s =
     (let (ms, s') = moves_parse cfg raw s in Some (stage_move ms s'))"

section \<open>The tracker\<close>

type_synonym allocation_tracker = "balance list"

definition tracker_new :: allocation_tracker where
  "tracker_new = replicate num_of 0"

text \<open>Indexing past the end of the array panics.\<close>

definition tracker_add :: "allocation \<Rightarrow> balance \<Rightarrow> allocation_tracker \<Rightarrow> allocation_tracker option" where
  "tracker_add a v t =
     (if alloc_index a < length t then Some (t[alloc_index a := t ! alloc_index a + v]) else None)"

definition tracker_per :: "allocation_tracker \<Rightarrow> allocation \<Rightarrow> balance" where
  "tracker_per t a = t ! alloc_index a"

definition tracker_total :: "allocation_tracker \<Rightarrow> balance" where
  "tracker_total t = foldl (\<lambda>acc i. acc + t ! i) 0 [1..<num_of]"

definition check_allocation :: "launch_config \<Rightarrow> 'l currency \<Rightarrow> 'l \<Rightarrow> bool \<Rightarrow> allocation_tracker \<Rightarrow> allocation \<Rightarrow> bool" where
  "check_allocation cfg C l exact t a =
     (let remaining = alloc_total a - tracker_per t a; free = free_balance_of C (alloc_account cfg a) l
      in \<not> alloc_total a < tracker_per t a \<and>
         \<not> (exact \<and> remaining \<noteq> free) \<and> \<not> (\<not> exact \<and> free < remaining))"

definition tracker_check :: "launch_config \<Rightarrow> 'l currency \<Rightarrow> bool \<Rightarrow> allocation_tracker \<Rightarrow> 'l launch_state \<Rightarrow> bool" where
  "tracker_check cfg C exact t s =
     list_all (\<lambda>i. check_allocation cfg C (launch_ledger s) exact t (alloc_from_index i)) [1..<num_of]"

section \<open>The ledger\<close>

definition LAUNCH_VERSION :: nat where
  "LAUNCH_VERSION = 31"

text \<open>
  One round of the loop of \<open>compile\<close>. The outer option is a panic; the state carries the events that the
  parser emits, also when the ledger is refused.
\<close>

type_synonym 'l compiled = "((launch_error + allocation_tracker \<times> launch_stage list) \<times> 'l launch_state) option"

definition compile_entry :: "launch_config \<Rightarrow> 'l currency \<Rightarrow> u16 \<Rightarrow> launch_stage \<Rightarrow> nat \<Rightarrow>
    allocation_tracker \<times> launch_stage list \<Rightarrow> 'l launch_state \<Rightarrow> 'l compiled" where
  "compile_entry cfg C from entry i ts s =
     (let (version, source, amount, stage) = entry; (t, stages) = ts
      in if version \<noteq> of_nat i then Some (Inl StageVersionMissmatch, s)
         else if source = SIZE then Some (Inl StageIssuanceMissmatch, s)
         else if version < from then map_option (\<lambda>t'. (Inr (t', stages), s)) (tracker_add source amount t)
         else if version = from then
           map_option (\<lambda>t'. (if tracker_check cfg C True t' s then Inr (t', stages) else Inl TotalIssuanceExceeded, s))
             (tracker_add source amount t)
         else if \<not> is_executable stage then Some (Inl StageRetired, s)
         else (let (total, s') = stage_sum cfg stage s
               in if total \<noteq> amount then Some (Inl StageIssuanceMissmatch, s')
                  else Some (Inr (t, stages @ [entry]), s')))"

fun compile_loop :: "launch_config \<Rightarrow> 'l currency \<Rightarrow> launch_stage list \<Rightarrow> u16 \<Rightarrow> nat list \<Rightarrow>
    allocation_tracker \<times> launch_stage list \<Rightarrow> 'l launch_state \<Rightarrow> 'l compiled" where
  "compile_loop cfg C ledger from [] ts s = Some (Inr ts, s)"
| "compile_loop cfg C ledger from (i # is) ts s =
     (if length ledger \<le> i then Some (Inl StageMissing, s)
      else Option.bind (compile_entry cfg C from (ledger ! i) i ts s) (\<lambda>(r, s').
        (case r of Inl e \<Rightarrow> Some (Inl e, s') | Inr ts' \<Rightarrow> compile_loop cfg C ledger from is ts' s')))"

definition compile_ledger :: "launch_config \<Rightarrow> 'l currency \<Rightarrow> launch_stage list \<Rightarrow> 'l launch_state \<Rightarrow> 'l compiled" where
  "compile_ledger cfg C ledger s =
     compile_loop cfg C ledger (stage_version s) [0..<LAUNCH_VERSION + 1] (tracker_new, []) s"

fun run_ledger :: "launch_config \<Rightarrow> 'l currency \<Rightarrow> allocation_tracker \<Rightarrow> launch_stage list \<Rightarrow> 'l launch_state \<Rightarrow>
    'l launch_state option" where
  "run_ledger cfg C t [] s = Some s"
| "run_ledger cfg C t ((version, source, amount, stage) # rest) s =
     Option.bind (stage_execute cfg C stage source s) (\<lambda>s1.
       Option.bind (tracker_add source amount t) (\<lambda>t'.
         (let s2 = s1\<lparr>stage_version := version\<rparr>; hash = stage_hash cfg stage
          in if \<not> tracker_check cfg C False t' s2 then Some (launch_emit (StageExceededIssuance version hash) s2)
             else run_ledger cfg C t' rest (launch_emit (StageExecuted version hash) s2))))"

definition LAUNCH_LEDGER :: "launch_stage list" where
  "LAUNCH_LEDGER = [
     (0, Ecosystem, 3100 * ANLOG, Retired),
     (1, Ecosystem, 53030500 * ANLOG, Retired),
     (2, AirdropAllocation, 410168624 * ANLOG, Retired),
     (3, AirdropAllocation, 0, Retired),
     (4, AirdropAllocation, 0, Retired),
     (5, Ecosystem, 39328063 * ANLOG, Retired),
     (6, Ecosystem, 50 * ANLOG, Retired),
     (7, Ecosystem, 226449338 * ANLOG, Retired),
     (8, AirdropAllocation, 20288873 * ANLOG, Retired),
     (9, Ecosystem, 21111617 * ANLOG, Retired),
     (10, AirdropAllocation, 1373348 * ANLOG, Retired),
     (11, AirdropAllocation, 0, Retired),
     (12, AirdropAllocation, 105317 * ANLOG, Retired),
     (13, Ecosystem, 113204200 * ANLOG, Retired),
     (14, Ignore, 8166845674 * ANLOG, Retired),
     (15, Ecosystem, 6062296 * ANLOG, Retired),
     (16, AirdropAllocation, 1336147462613682971, Retired),
     (17, Initiatives, 1100010 * ANLOG, Retired),
     (18, Ecosystem, 3636364 * ANLOG, Retired),
     (19, Initiatives, 60386473 * ANLOG, Retired),
     (20, Ecosystem, 116163163 * ANLOG, Retired),
     (21, Team, 45289855 * ANLOG, Retired),
     (22, Ecosystem, 49081886536 * MILLIANLOG, Retired),
     (23, Ecosystem, 22644927500 * MILLIANLOG, Retired),
     (24, Initiatives, 249094202500 * MILLIANLOG, Retired),
     (25, Initiatives, 362318840 * ANLOG, Retired),
     (26, Ecosystem, 14449903350 * MILLIANLOG, Retired),
     (27, Initiatives, 45289855 * ANLOG, Retired),
     (28, AirdropAllocation, 1097142834936105265, Retired),
     (29, AirdropAllocation, 0, Retired),
     (30, Ecosystem, 160086 * ANLOG, Retired),
     (31, Ecosystem, 2000200 * ANLOG, Retired)]"

definition on_runtime_upgrade :: "launch_config \<Rightarrow> 'l currency \<Rightarrow> 'l launch_state \<Rightarrow> 'l launch_state option" where
  "on_runtime_upgrade cfg C s =
     Option.bind (compile_ledger cfg C LAUNCH_LEDGER s) (\<lambda>(r, s').
       (case r of
          Inl e \<Rightarrow> Some (launch_emit (LedgerInvalid e) s')
        | Inr (t, stages) \<Rightarrow> run_ledger cfg C t stages s'))"

section \<open>Calls\<close>

datatype application = Bridging | OverTheCounter

fun app_sub_id :: "application \<Rightarrow> string" where
  "app_sub_id Bridging = ''bridged-erc20''"
| "app_sub_id OverTheCounter = ''over-the-counter''"

fun app_lock_id :: "application \<Rightarrow> string" where
  "app_lock_id Bridging = ''bridged0''"
| "app_lock_id OverTheCounter = ''otclock0''"

definition app_account :: "launch_config \<Rightarrow> application \<Rightarrow> account_id" where
  "app_account cfg a = sub_account cfg (app_sub_id a)"

datatype token_error = FundsUnavailable

definition lock_operational :: "launch_config \<Rightarrow> 'l currency \<Rightarrow> origin \<Rightarrow> application \<Rightarrow> balance \<Rightarrow> 'l launch_state \<Rightarrow>
    token_error dispatch_error + 'l launch_state" where
  "lock_operational cfg C orig target amount s =
     (if \<not> launch_admin cfg orig then Inl BadOrigin
      else (let account = app_account cfg target
            in if \<not> amount \<le> total_balance_of C account (launch_ledger s) then Inl (ModuleError FundsUnavailable)
               else Inr (s\<lparr>launch_ledger := cur_set_lock C (app_lock_id target) account amount (launch_ledger s)\<rparr>)))"

definition launch_total_issuance :: "'l currency \<Rightarrow> 'l launch_state \<Rightarrow> balance" where
  "launch_total_issuance C s = total_issuance_of C (launch_ledger s) + pot_total (launch_airdrop s)"

definition transfer_virtual :: "launch_config \<Rightarrow> 'l currency \<Rightarrow> allocation \<Rightarrow> account_id \<Rightarrow> balance \<Rightarrow> 'l launch_state \<Rightarrow>
    'l launch_state option" where
  "transfer_virtual cfg C source target amount s =
     map_option (\<lambda>l. launch_emit (TransferFromVirtual (alloc_sub_id source) target amount) (s\<lparr>launch_ledger := l\<rparr>))
       (cur_transfer C (alloc_account cfg source) target amount AllowDeath (launch_ledger s))"

end
