(* ===== verification/Launch_Properties.thy ===== *)
theory Launch_Properties
  imports Launch "HOL-Library.Sublist"
begin

text \<open>
  The properties of the launch pallet: what \<open>compile\<close> accepts, what the ledger of this runtime adds up to, and
  that an upgrade with it moves no funds.
\<close>

section \<open>Compiling a ledger\<close>

abbreviation entry_version :: "launch_stage \<Rightarrow> u16" where
  "entry_version e \<equiv> fst e"

abbreviation entry_source :: "launch_stage \<Rightarrow> allocation" where
  "entry_source e \<equiv> fst (snd e)"

abbreviation entry_amount :: "launch_stage \<Rightarrow> balance" where
  "entry_amount e \<equiv> fst (snd (snd e))"

abbreviation entry_stage :: "launch_stage \<Rightarrow> stage" where
  "entry_stage e \<equiv> snd (snd (snd e))"

text \<open>Parsing only adds events: everything else of the state stays.\<close>

definition same_funds :: "'l launch_state \<Rightarrow> 'l launch_state \<Rightarrow> bool" where
  "same_funds s s' \<longleftrightarrow> stage_version s' = stage_version s \<and> launch_airdrop s' = launch_airdrop s \<and>
     launch_ledger s' = launch_ledger s"

lemma same_funds_refl [simp]: "same_funds s s"
  by (simp add: same_funds_def)

lemma same_funds_trans: "same_funds s s1 \<Longrightarrow> same_funds s1 s2 \<Longrightarrow> same_funds s s2"
  by (simp add: same_funds_def)

lemma same_funds_emit [simp]: "same_funds s (launch_emit e s') = same_funds s s'" "same_funds (launch_emit e s) s' = same_funds s s'"
  by (simp_all add: same_funds_def launch_emit_def)

lemma parse_deposits_funds: "parse_deposits cfg ds s = (r, s') \<Longrightarrow> same_funds s s'"
proof (induction cfg ds s arbitrary: r s' rule: parse_deposits.induct)
  case (2 cfg i p ds s)
  then show ?case by (auto split: option.splits if_splits prod.splits)
qed simp

lemma airdrop_parse_funds: "airdrop_parse cfg ds s = (r, s') \<Longrightarrow> same_funds s s'"
proof (induction cfg ds s arbitrary: r s' rule: airdrop_parse.induct)
  case (2 cfg d ds s)
  then show ?case by (auto split: option.splits prod.splits)
qed simp

lemma moves_parse_funds: "moves_parse cfg ds s = (r, s') \<Longrightarrow> same_funds s s'"
proof (induction cfg ds s arbitrary: r s' rule: moves_parse.induct)
  case (2 cfg d ds s)
  then show ?case by (auto split: option.splits prod.splits)
qed simp

lemma stage_sum_funds: "stage_sum cfg st s = (v, s') \<Longrightarrow> same_funds s s'"
  by (cases st) (auto simp: deposit_parse_def deposit_parse_with_schedule_def split: prod.splits
      dest: parse_deposits_funds airdrop_parse_funds moves_parse_funds)

lemma check_funds: "same_funds s s' \<Longrightarrow> tracker_check cfg C ex t s' = tracker_check cfg C ex t s"
  by (simp add: tracker_check_def same_funds_def)

text \<open>
  What holds of the plan after the entries below \<open>k\<close>: the entries up to the version on the chain are in the
  tracker, the ones after it, in order, in the plan.
\<close>

definition tracked :: "launch_stage list \<Rightarrow> nat \<Rightarrow> allocation_tracker" where
  "tracked ledger n = fold (\<lambda>e t. t[alloc_index (entry_source e) := t ! alloc_index (entry_source e) + entry_amount e])
     (take n ledger) tracker_new"

lemma tracked_Suc:
  "n < length ledger \<Longrightarrow> tracked ledger (Suc n) =
    (tracked ledger n)[alloc_index (entry_source (ledger ! n)) :=
       tracked ledger n ! alloc_index (entry_source (ledger ! n)) + entry_amount (ledger ! n)]"
  by (simp add: tracked_def take_Suc_conv_app_nth)

lemma length_tracked [simp]: "length (tracked ledger n) = num_of"
proof -
  have "length (fold (\<lambda>e t. t[alloc_index (entry_source e) := t ! alloc_index (entry_source e) + entry_amount e]) es t) = length t"
    for es :: "launch_stage list" and t :: allocation_tracker
    by (induction es arbitrary: t) auto
  then show ?thesis by (simp add: tracked_def tracker_new_def)
qed

definition plan_ok :: "launch_config \<Rightarrow> launch_stage list \<Rightarrow> nat \<Rightarrow> nat \<Rightarrow> allocation_tracker \<Rightarrow> launch_stage list \<Rightarrow> bool" where
  "plan_ok cfg ledger from k t stages \<longleftrightarrow> k \<le> length ledger \<and> t = tracked ledger (min k (Suc from)) \<and>
     stages = map (nth ledger) [Suc from..<k] \<and>
     (\<forall>i < k. entry_version (ledger ! i) = of_nat i \<and> entry_source (ledger ! i) \<noteq> SIZE) \<and>
     (\<forall>e \<in> set stages. is_executable (entry_stage e))"

lemma alloc_index_bound: "a \<noteq> SIZE \<Longrightarrow> alloc_index a < num_of"
  by (cases a) (simp_all add: num_of_def)

lemma tracker_add_ok: "a \<noteq> SIZE \<Longrightarrow> length t = num_of \<Longrightarrow> tracker_add a v t = Some (t[alloc_index a := t ! alloc_index a + v])"
  by (simp add: tracker_add_def alloc_index_bound)

lemma compile_entry_plan:
  assumes p: "plan_ok cfg ledger (unat from) k t stages" and k: "k < length ledger" "k < 2 ^ 16"
    and c: "compile_entry cfg C from (ledger ! k) k (t, stages) s = Some (Inr (t', stages'), s')"
  shows "plan_ok cfg ledger (unat from) (Suc k) t' stages' \<and> same_funds s s' \<and>
    (k = unat from \<longrightarrow> tracker_check cfg C True t' s)"
proof -
  obtain version source amount st where e: "ledger ! k = (version, source, amount, st)" by (metis prod.exhaust)
  note un = c [unfolded e compile_entry_def Let_def prod.case]
  have v: "version = of_nat k" "source \<noteq> SIZE" using un by (auto split: if_splits)
  have uv: "unat version = k" using v(1) k(2) by (simp add: unat_of_nat)
  have lt: "length t = num_of" using p by (simp add: plan_ok_def)
  have all: "\<forall>i < Suc k. entry_version (ledger ! i) = of_nat i \<and> entry_source (ledger ! i) \<noteq> SIZE"
    using p e v by (auto simp: plan_ok_def less_Suc_eq)
  note add = tracker_add_ok [OF v(2) lt, of amount]
  consider "k < unat from" | "k = unat from" | "unat from < k" by linarith
  then show ?thesis
  proof cases
    case 1
    then have "version < from" using uv by (simp add: word_less_nat_alt)
    then have "t' = t[alloc_index source := t ! alloc_index source + amount]" "stages' = stages" "s' = s"
      using un v add by (auto split: if_splits)
    then show ?thesis using p 1 all k e tracked_Suc [OF k(1)] by (simp add: plan_ok_def min_def)
  next
    case 2
    then have "version = from" using uv by (metis word_unat_eq_iff)
    then have "t' = t[alloc_index source := t ! alloc_index source + amount]" "stages' = stages" "s' = s"
      "tracker_check cfg C True t' s"
      using un v add by (auto split: if_splits)
    then show ?thesis using p 2 all k e tracked_Suc [OF k(1)] by (simp add: plan_ok_def min_def)
  next
    case 3
    then have "\<not> version < from" "version \<noteq> from" using uv by (auto simp: word_less_nat_alt)
    then have "t' = t" "stages' = stages @ [ledger ! k]" "is_executable st" "\<exists>v. stage_sum cfg st s = (v, s')"
      using un v e by (auto split: if_splits prod.splits)
    moreover have "min k (Suc (unat from)) = Suc (unat from)" "min (Suc k) (Suc (unat from)) = Suc (unat from)"
      using 3 by auto
    ultimately show ?thesis using p 3 all k e stage_sum_funds [of cfg st s _ s'] by (auto simp: plan_ok_def)
  qed
qed

lemma compile_loop_step:
  assumes "compile_loop cfg C ledger from (k # ks) ts s = Some (Inr r, s')"
  obtains ts1 s1 where "k < length ledger" "compile_entry cfg C from (ledger ! k) k ts s = Some (Inr ts1, s1)"
    "compile_loop cfg C ledger from ks ts1 s1 = Some (Inr r, s')"
proof -
  from assms obtain x s1 where "k < length ledger" "compile_entry cfg C from (ledger ! k) k ts s = Some (x, s1)"
    "(case x of Inl e \<Rightarrow> Some (Inl e, s1) | Inr ts' \<Rightarrow> compile_loop cfg C ledger from ks ts' s1) = Some (Inr r, s')"
    by (auto simp: bind_eq_Some_conv split: if_splits)
  then show ?thesis using that by (cases x) auto
qed

lemma compile_loop_plan:
  assumes "n \<le> 2 ^ 16"
  shows "k \<le> n \<Longrightarrow> plan_ok cfg ledger (unat from) k t stages \<Longrightarrow>
    compile_loop cfg C ledger from [k..<n] (t, stages) s = Some (Inr (t', stages'), s') \<Longrightarrow>
    plan_ok cfg ledger (unat from) n t' stages' \<and> same_funds s s' \<and>
    (k \<le> unat from \<and> unat from < n \<longrightarrow> tracker_check cfg C True t' s)"
proof (induction "n - k" arbitrary: k t stages s)
  case 0
  then show ?case by auto
next
  case (Suc d)
  then have k: "k < n" "[k..<n] = k # [Suc k..<n]" by (auto simp: upt_conv_Cons)
  obtain t1 stages1 s1 where kl: "k < length ledger"
    and e: "compile_entry cfg C from (ledger ! k) k (t, stages) s = Some (Inr (t1, stages1), s1)"
    and r: "compile_loop cfg C ledger from [Suc k..<n] (t1, stages1) s1 = Some (Inr (t', stages'), s')"
    using compile_loop_step [OF Suc.prems(3) [unfolded k(2)]] by (metis surj_pair)
  have 1: "plan_ok cfg ledger (unat from) (Suc k) t1 stages1" "same_funds s s1"
    "k = unat from \<longrightarrow> tracker_check cfg C True t1 s"
    using compile_entry_plan [OF Suc.prems(2) kl _ e] k(1) assms by auto
  have 2: "plan_ok cfg ledger (unat from) n t' stages'" "same_funds s1 s'"
    "Suc k \<le> unat from \<and> unat from < n \<longrightarrow> tracker_check cfg C True t' s1"
    using Suc.hyps(1) [OF _ _ 1(1) r] Suc.hyps(2) k(1) by auto
  have "t' = t1" if "k = unat from"
  proof -
    have "min n (Suc (unat from)) = Suc (unat from)" "min (Suc k) (Suc (unat from)) = Suc (unat from)"
      using k(1) that by simp_all
    then show ?thesis using 1(1) 2(1) by (simp add: plan_ok_def)
  qed
  then show ?case using 1 2 same_funds_trans [OF 1(2) 2(2)] check_funds [OF 1(2)] by (auto simp: le_less_Suc_eq le_eq_less_or_eq)
qed

text \<open>
  C26. If \<open>compile\<close> accepts a ledger, on a chain whose version is not beyond that of the runtime, the plan is exactly the stages after the version on the chain, in order and up
  to the version of the runtime, each of them executable; the tracker holds the sums of the stages before them,
  and the balances of all virtual wallets match it; and nothing but events has changed.
\<close>

theorem compiled_plan_complete:
  assumes "compile_ledger cfg C ledger s = Some (Inr (t, stages), s')" and "unat (stage_version s) \<le> LAUNCH_VERSION"
  shows "LAUNCH_VERSION < length ledger \<and>
    stages = map (nth ledger) [unat (stage_version s) + 1..<LAUNCH_VERSION + 1] \<and>
    map entry_version stages = map of_nat [unat (stage_version s) + 1..<LAUNCH_VERSION + 1] \<and>
    list_all (\<lambda>e. is_executable (entry_stage e)) stages \<and>
    t = tracked ledger (unat (stage_version s) + 1) \<and> tracker_check cfg C True t s \<and> same_funds s s'"
proof -
  have "plan_ok cfg ledger (unat (stage_version s)) 0 tracker_new []"
    by (simp add: plan_ok_def tracked_def)
  from compile_loop_plan [OF _ _ this assms(1) [unfolded compile_ledger_def]] assms(2)
  have p: "plan_ok cfg ledger (unat (stage_version s)) (LAUNCH_VERSION + 1) t stages" and "same_funds s s'"
    and "tracker_check cfg C True t s"
    by (auto simp: LAUNCH_VERSION_def)
  then show ?thesis using assms(2) by (auto simp: plan_ok_def list_all_iff min_def)
qed

text \<open>A ledger that issues every allocation in one stage each, and has one empty stage to execute.\<close>

definition demo_ledger_rows :: "launch_stage list" where
  "demo_ledger_rows = map (\<lambda>i. (of_nat i, alloc_from_index i, alloc_total (alloc_from_index i),
     if i = 31 then DepositFromUnlocked [] else Retired)) [0..<32]"

definition demo_launch_config :: launch_config where
  "demo_launch_config = \<lparr>from_ss58check = (\<lambda>_. None), sub_account = (\<lambda>_. 0),
     perbill_of_rational_mul = (\<lambda>a b c. c), stage_data_hash = (\<lambda>_. []), minimum_deposit = 1,
     launch_admin = (\<lambda>orig. orig = Root), airdrop_cfg = airdrop_demo_config\<rparr>"

definition demo_launch :: "demo_ledger launch_state" where
  "demo_launch = \<lparr>stage_version = 30, launch_airdrop = airdrop_demo,
     launch_ledger = \<lparr>free_of = (\<lambda>_. 0), reserved_of = (\<lambda>_. 0), vested_of = Map.empty\<rparr>, launch_events = []\<rparr>"

lemma demo_compiles:
  "map_option fst (compile_ledger demo_launch_config demo_currency demo_ledger_rows demo_launch) =
     Some (Inr (map (\<lambda>i. alloc_total (alloc_from_index i)) [0..<12], [(31, Ignore, 0, DepositFromUnlocked [])]))"
  by code_simp

theorem compiled_plan_complete_witness:
  "\<exists>t s'. compile_ledger demo_launch_config demo_currency demo_ledger_rows demo_launch =
      Some (Inr (t, [(31, Ignore, 0, DepositFromUnlocked [])]), s') \<and>
    map entry_version [(31, Ignore, 0, DepositFromUnlocked [])] =
      map of_nat [unat (stage_version demo_launch) + 1..<LAUNCH_VERSION + 1] \<and>
    tracker_check demo_launch_config demo_currency True t demo_launch"
proof -
  obtain t s' where s': "compile_ledger demo_launch_config demo_currency demo_ledger_rows demo_launch =
      Some (Inr (t, [(31, Ignore, 0, DepositFromUnlocked [])]), s')"
    using demo_compiles by auto
  have "unat (stage_version demo_launch) \<le> LAUNCH_VERSION" by (simp add: demo_launch_def LAUNCH_VERSION_def)
  from compiled_plan_complete [OF s' this] s' show ?thesis by blast
qed

section \<open>The ledger of this runtime\<close>

lemma ledger_retired: "list_all (\<lambda>e. entry_stage e = Retired \<and> entry_source e \<noteq> SIZE) LAUNCH_LEDGER"
  by (simp add: LAUNCH_LEDGER_def)

lemma compile_retired:
  assumes "list_all (\<lambda>e. entry_stage e = Retired \<and> entry_source e \<noteq> SIZE) ledger"
  shows "length t = num_of \<Longrightarrow> \<exists>e t'. compile_loop cfg C ledger from is (t, []) s = Some (Inl e, s) \<or>
    compile_loop cfg C ledger from is (t, []) s = Some (Inr (t', []), s)"
proof (induction "is" arbitrary: t)
  case (Cons i "is")
  show ?case
  proof (cases "length ledger \<le> i")
    case False
    obtain version source amount st where e: "ledger ! i = (version, source, amount, st)" by (metis prod.exhaust)
    have "ledger ! i \<in> set ledger" using False by simp
    then have r: "st = Retired" "source \<noteq> SIZE" using assms e by (auto simp: list_all_iff)
    note add = tracker_add_ok [OF r(2) Cons.prems, of amount]
    let ?t' = "t[alloc_index source := t ! alloc_index source + amount]"
    have "compile_entry cfg C from (ledger ! i) i (t, []) s = Some (Inr (?t', []), s) \<or>
        (\<exists>x. compile_entry cfg C from (ledger ! i) i (t, []) s = Some (Inl x, s))"
      using r add by (simp add: e compile_entry_def is_executable_def)
    then show ?thesis using False Cons.IH [of ?t'] Cons.prems by auto
  qed simp
qed simp

text \<open>
  An upgrade to this runtime moves no funds, whatever version the chain is at: every stage of the ledger is
  retired, so the migration returns with the storage as it was, or with one event that refuses the ledger.
\<close>

theorem upgrade_moves_no_funds:
  "\<exists>s'. on_runtime_upgrade cfg C s = Some s' \<and> (s' = s \<or> (\<exists>e. s' = launch_emit (LedgerInvalid e) s))"
proof -
  have "length tracker_new = num_of" by (simp add: tracker_new_def)
  from compile_retired [OF ledger_retired this] obtain e t where
    "compile_ledger cfg C LAUNCH_LEDGER s = Some (Inl e, s) \<or> compile_ledger cfg C LAUNCH_LEDGER s = Some (Inr (t, []), s)"
    unfolding compile_ledger_def by blast
  then show ?thesis by (auto simp: on_runtime_upgrade_def)
qed

definition drawn :: "launch_stage list \<Rightarrow> allocation \<Rightarrow> int" where
  "drawn es a = (\<Sum>e\<leftarrow>filter (\<lambda>e. entry_source e = a) es. uint (entry_amount e))"

lemma drawn_nonneg: "0 \<le> drawn es a"
  unfolding drawn_def by (rule sum_list_nonneg) auto

lemma drawn_append: "drawn (xs @ ys) a = drawn xs a + drawn ys a"
  by (simp add: drawn_def)

lemma drawn_mono: "drawn (take n es) a \<le> drawn es a"
  using drawn_append [of "take n es" "drop n es" a] drawn_nonneg [of "drop n es" a] by simp

lemma alloc_index_inj: "alloc_index a = alloc_index b \<longleftrightarrow> a = b"
  by (cases a; cases b) simp_all

lemma tracked_drawn:
  assumes "list_all (\<lambda>e. entry_source e \<noteq> SIZE) es" and "a \<noteq> SIZE"
  shows "n \<le> length es \<Longrightarrow> uint (tracker_per (tracked es n) a) = drawn (take n es) a mod 2 ^ 128"
proof (induction n)
  case 0
  then show ?case using alloc_index_bound [OF assms(2)] by (simp add: tracked_def tracker_new_def tracker_per_def drawn_def)
next
  case (Suc n)
  then have n: "n < length es" and IH: "uint (tracker_per (tracked es n) a) = drawn (take n es) a mod 2 ^ 128" by simp_all
  have "entry_source (es ! n) \<noteq> SIZE" using assms(1) n by (simp add: list_all_length)
  then have b: "alloc_index (entry_source (es ! n)) < num_of" by (rule alloc_index_bound)
  have d: "drawn (take (Suc n) es) a = drawn (take n es) a + (if entry_source (es ! n) = a then uint (entry_amount (es ! n)) else 0)"
    using n by (simp add: drawn_def take_Suc_conv_app_nth)
  show ?case
  proof (cases "entry_source (es ! n) = a")
    case True
    then show ?thesis using b IH n d by (simp add: tracker_per_def tracked_Suc uint_word_ariths mod_simps)
  next
    case False
    then show ?thesis using IH n d alloc_index_inj [of "entry_source (es ! n)" a] by (simp add: tracker_per_def tracked_Suc)
  qed
qed

lemma ledger_drawn:
  "list_all (\<lambda>i. drawn LAUNCH_LEDGER (alloc_from_index i) \<le> uint (alloc_total (alloc_from_index i))) [1..<num_of]"
  by code_simp

lemma ledger_issuance:
  "(\<Sum>i\<leftarrow>[1..<num_of]. uint (alloc_total (alloc_from_index i))) = uint GENESIS_ISSUANCE"
  by code_simp

lemma ledger_minted:
  "(\<Sum>e\<leftarrow>take 16 LAUNCH_LEDGER. uint (entry_amount e)) = uint GENESIS_ISSUANCE"
  by code_simp

text \<open>
  The numbers of the ledger add up: the allocations together are the issuance at genesis; so is what the stages
  up to the last one that minted issued; and at every version the tracker holds exactly what the stages drew on
  each allocation, which is never exceeded.
\<close>

theorem launch_ledger_adds_up:
  "(\<Sum>i\<leftarrow>[1..<num_of]. uint (alloc_total (alloc_from_index i))) = uint GENESIS_ISSUANCE \<and>
   (\<Sum>e\<leftarrow>take 16 LAUNCH_LEDGER. uint (entry_amount e)) = uint GENESIS_ISSUANCE \<and>
   list_all (\<lambda>n. list_all (\<lambda>i.
       uint (tracker_per (tracked LAUNCH_LEDGER n) (alloc_from_index i)) = drawn (take n LAUNCH_LEDGER) (alloc_from_index i) \<and>
       tracker_per (tracked LAUNCH_LEDGER n) (alloc_from_index i) \<le> alloc_total (alloc_from_index i)) [1..<num_of])
     [0..<LAUNCH_VERSION + 2]"
proof -
  have "uint (tracker_per (tracked LAUNCH_LEDGER n) (alloc_from_index i)) = drawn (take n LAUNCH_LEDGER) (alloc_from_index i) \<and>
      tracker_per (tracked LAUNCH_LEDGER n) (alloc_from_index i) \<le> alloc_total (alloc_from_index i)"
    if n: "n \<le> length LAUNCH_LEDGER" and i: "i \<in> set [1..<num_of]" for n i
  proof -
    let ?a = "alloc_from_index i"
    have a: "?a \<noteq> SIZE" by (simp add: alloc_from_index_def)
    have "list_all (\<lambda>e. entry_source e \<noteq> SIZE) LAUNCH_LEDGER"
      using ledger_retired by (simp add: list_all_iff)
    then have u: "uint (tracker_per (tracked LAUNCH_LEDGER n) ?a) = drawn (take n LAUNCH_LEDGER) ?a mod 2 ^ 128"
      using tracked_drawn a n by blast
    have le: "drawn (take n LAUNCH_LEDGER) ?a \<le> uint (alloc_total ?a)"
      using ledger_drawn [unfolded list_all_iff] i drawn_mono [of n LAUNCH_LEDGER ?a] order_trans by blast
    moreover have "uint (alloc_total ?a) < 2 ^ LENGTH(128)" using uint_lt2p by blast
    ultimately have "drawn (take n LAUNCH_LEDGER) ?a mod 2 ^ 128 = drawn (take n LAUNCH_LEDGER) ?a"
      by (intro mod_pos_pos_trivial drawn_nonneg) simp
    then show ?thesis using u le unfolding word_le_def by argo
  qed
  moreover have "length LAUNCH_LEDGER = LAUNCH_VERSION + 1" by (simp add: LAUNCH_LEDGER_def LAUNCH_VERSION_def)
  ultimately have "list_all (\<lambda>n. list_all (\<lambda>i.
      uint (tracker_per (tracked LAUNCH_LEDGER n) (alloc_from_index i)) = drawn (take n LAUNCH_LEDGER) (alloc_from_index i) \<and>
      tracker_per (tracked LAUNCH_LEDGER n) (alloc_from_index i) \<le> alloc_total (alloc_from_index i)) [1..<num_of])
    [0..<LAUNCH_VERSION + 2]"
    unfolding list_all_iff by simp
  with ledger_issuance ledger_minted show ?thesis by blast
qed

section \<open>Airdrop stages\<close>

text \<open>
  A stage mints, through the interface of the airdrop pallet, some of its entries: those for which the virtual wallet
  had the funds. So the claims stay covered by the pot, which grows at most by the sum of the stage.
\<close>

lemma emit_airdrop [simp]: "launch_airdrop (launch_emit e s) = launch_airdrop s"
  by (simp add: launch_emit_def)

lemma stage_mint_one_airdrop:
  "launch_airdrop (stage_mint_one cfg C source d s) = launch_airdrop s \<or>
   launch_airdrop (stage_mint_one cfg C source d s) = mint_all (mint_airdrop (airdrop_cfg cfg)) [d] (launch_airdrop s)"
  by (cases d) (auto simp: stage_mint_one_def Let_def split: option.splits sum.splits airdrop_error.splits)

lemma stage_add_one_airdrop:
  "launch_airdrop (stage_add_one cfg C source d s) = launch_airdrop s \<or>
   launch_airdrop (stage_add_one cfg C source d s) = mint_all (add_airdrop (airdrop_cfg cfg)) [d] (launch_airdrop s)"
  by (cases d) (auto simp: stage_add_one_def Let_def split: option.splits sum.splits airdrop_error.splits)

lemma fold_mints:
  assumes one: "\<And>d s. launch_airdrop (f d s) = launch_airdrop s \<or> launch_airdrop (f d s) = mint_all g [d] (launch_airdrop s)"
  shows "\<exists>ds'. subseq ds' ds \<and> launch_airdrop (fold f ds s) = mint_all g ds' (launch_airdrop s)"
proof (induction ds arbitrary: s)
  case Nil
  show ?case by (intro exI [of _ "[]"]) simp
next
  case (Cons d ds)
  obtain ds' where ds': "subseq ds' ds" "launch_airdrop (fold f ds (f d s)) = mint_all g ds' (launch_airdrop (f d s))"
    using Cons.IH by blast
  from one [of d s] show ?case
  proof
    assume "launch_airdrop (f d s) = launch_airdrop s"
    then show ?thesis using ds' by (intro exI [of _ ds']) auto
  next
    assume m: "launch_airdrop (f d s) = mint_all g [d] (launch_airdrop s)"
    have "mint_all g ds' (mint_all g [d] x) = mint_all g (d # ds') x" for x by (cases d) simp
    then show ?thesis using ds' m by (intro exI [of _ "d # ds'"]) auto
  qed
qed

lemma amounts_subseq: "subseq xs ys \<Longrightarrow> amounts xs \<le> amounts ys"
  by (induction rule: list_emb.induct) (auto simp: amounts_def)

lemma stage_mint_covered:
  assumes "pot_ok (launch_airdrop s)" and "unat (pot_total (launch_airdrop s)) + amounts ds < 2 ^ 128"
    and "s' = stage_mint cfg C source ds s \<or> s' = mint_or_add cfg C source ds s"
  shows "pot_ok (launch_airdrop s') \<and> unat (pot_total (launch_airdrop s)) \<le> unat (pot_total (launch_airdrop s')) \<and>
    unat (pot_total (launch_airdrop s')) \<le> unat (pot_total (launch_airdrop s)) + amounts ds"
proof -
  from assms(3) obtain ds' where ds': "subseq ds' ds"
    "launch_airdrop s' = mint_all (mint_airdrop (airdrop_cfg cfg)) ds' (launch_airdrop s) \<or>
     launch_airdrop s' = mint_all (add_airdrop (airdrop_cfg cfg)) ds' (launch_airdrop s)"
    using fold_mints [where f = "stage_mint_one cfg C source", OF stage_mint_one_airdrop, of ds s]
      fold_mints [where f = "stage_add_one cfg C source", OF stage_add_one_airdrop, of ds s]
    unfolding stage_mint_def mint_or_add_def by blast
  have le: "amounts ds' \<le> amounts ds" using ds'(1) by (rule amounts_subseq)
  then have "unat (pot_total (launch_airdrop s)) + amounts ds' < 2 ^ 128" using assms(2) by simp
  note covered = minted_claims.mint_all_ok [OF assms(1) this] added_claims.mint_all_ok [OF assms(1) this]
  show ?thesis using ds'(2) covered [of "airdrop_cfg cfg"] le by (elim disjE) simp_all
qed

text \<open>
  A mint of an airdrop for an account that has a claim already burns the amount: it is withdrawn from the virtual
  wallet, and no claim grows.
\<close>

theorem refused_mint_burns:
  assumes "cur_withdraw C (alloc_account cfg source) amount (launch_ledger s) = Some l"
    and "sget (claims (launch_airdrop s)) target \<noteq> None" and "minimum_balance (airdrop_cfg cfg) \<le> amount"
  shows "stage_mint cfg C source [(target, amount, schedule)] s = launch_emit (AirdropMintExists target) (s\<lparr>launch_ledger := l\<rparr>)"
proof -
  have "mint_airdrop (airdrop_cfg cfg) target amount schedule (launch_airdrop s) = Inl AlreadyHasClaim"
    using assms(2,3) leD by (auto simp: mint_airdrop_def)
  then show ?thesis using assms(1) by (simp add: stage_mint_def stage_mint_one_def)
qed

end
