(* ===== verification/Extrinsics.thy ===== *)
theory Extrinsics
  imports Runtime_State
begin

text \<open>
  The transaction extension \<open>PrevalidateFeeless\<close> of \<open>runtime/src/configs/custom.rs\<close>, and the two pallets that hold
  no storage of their own: \<open>pallets/dmail\<close>, which only emits an event, and \<open>pallets/governance\<close>, which lets
  its admin origins make calls of the system and staking pallets as root.
\<close>

section \<open>Feeless calls\<close>

text \<open>The calls of the runtime that the extension tells apart or the client makes; every other call is the last one.\<close>

datatype runtime_call =
    SystemSetCode bytes
  | BalancesTransferAllowDeath account_id u128
  | NetworksRegisterNetwork network_info
  | NetworksSetNetworkConfig network_id network_config
  | MembersRegisterMember network_id public_key peer_id
  | MembersUnregisterMember account_id
  | MembersSendHeartbeat
  | ShardsCommit shard_id commitment proof_of_knowledge
  | ShardsReady shard_id
  | ShardsForceShardOffline shard_id
  | TasksSubmitTaskResult task_id task_result
  | TasksSubmitGmpEvents network_id "gmp_event list"
  | TasksRemoveTask task_id
  | TasksRestartBatch batch_id
  | OtherCall

fun is_feeless :: "runtime_call \<Rightarrow> bool" where
  "is_feeless MembersSendHeartbeat = True"
| "is_feeless (ShardsCommit _ _ _) = True"
| "is_feeless (ShardsReady _) = True"
| "is_feeless (TasksSubmitTaskResult _ _) = True"
| "is_feeless _ = False"

datatype validity_error = BadSignerError

definition prevalidate_feeless :: "members_store \<Rightarrow> origin \<Rightarrow> runtime_call \<Rightarrow> validity_error + origin" where
  "prevalidate_feeless m orig call =
     (if is_feeless call
      then (case ensure_signed orig of
              None \<Rightarrow> Inl BadSignerError
            | Some who \<Rightarrow> if is_member_registered m who then Inr orig else Inl BadSignerError)
      else Inr orig)"

lemma feeless_from_members:
  "prevalidate_feeless m orig call = Inr orig' \<Longrightarrow>
    orig' = orig \<and> (is_feeless call \<longrightarrow> (\<exists>who. orig = Signed who \<and> is_member_registered m who))"
  by (auto simp: prevalidate_feeless_def ensure_signed_def split: if_splits option.splits origin.splits)

section \<open>Dmail\<close>

definition DMAIL_TO_LEN :: nat where
  "DMAIL_TO_LEN = 64"

definition DMAIL_PATH_LEN :: nat where
  "DMAIL_PATH_LEN = 64"

record dmail_message =
  dmail_owner :: account_id
  dmail_to :: bytes
  dmail_path :: bytes

text \<open>The bounds of the two \<open>BoundedVec\<close>s.\<close>

definition dmail_ok :: "dmail_message \<Rightarrow> bool" where
  "dmail_ok m \<longleftrightarrow> length (dmail_to m) \<le> DMAIL_TO_LEN \<and> length (dmail_path m) \<le> DMAIL_PATH_LEN"

definition send_email :: "origin \<Rightarrow> bytes \<Rightarrow> bytes \<Rightarrow> dmail_message list \<Rightarrow> unit dispatch_error + dmail_message list" where
  "send_email orig to path events =
     (case ensure_signed orig of
        None \<Rightarrow> Inl BadOrigin
      | Some owner \<Rightarrow> Inr (events @ [\<lparr>dmail_owner = owner, dmail_to = to, dmail_path = path\<rparr>]))"

section \<open>Governance\<close>

text \<open>The calls of \<open>frame_system\<close> and \<open>pallet_staking\<close> that are wrapped, and the origins that may make them.\<close>

record ('e, 's, 'c) governance_config =
  system_admin :: "origin \<Rightarrow> bool"
  staking_admin :: "origin \<Rightarrow> bool"
  system_authorize_upgrade :: "origin \<Rightarrow> bytes \<Rightarrow> 's \<Rightarrow> ('e, 's) dispatch"
  staking_force_new_era :: "origin \<Rightarrow> 's \<Rightarrow> ('e, 's) dispatch"
  staking_set_validator_count :: "origin \<Rightarrow> u32 \<Rightarrow> 's \<Rightarrow> ('e, 's) dispatch"
  staking_set_configs :: "origin \<Rightarrow> 'c \<Rightarrow> 's \<Rightarrow> ('e, 's) dispatch"

definition gov_authorize_upgrade :: "('e, 's, 'c) governance_config \<Rightarrow> origin \<Rightarrow> bytes \<Rightarrow> 's \<Rightarrow> ('e, 's) dispatch" where
  "gov_authorize_upgrade G orig code_hash s =
     (if \<not> system_admin G orig then Some (Inl BadOrigin) else system_authorize_upgrade G Root code_hash s)"

definition gov_force_new_era :: "('e, 's, 'c) governance_config \<Rightarrow> origin \<Rightarrow> 's \<Rightarrow> ('e, 's) dispatch" where
  "gov_force_new_era G orig s =
     (if \<not> staking_admin G orig then Some (Inl BadOrigin) else staking_force_new_era G Root s)"

definition gov_set_validator_count :: "('e, 's, 'c) governance_config \<Rightarrow> origin \<Rightarrow> u32 \<Rightarrow> 's \<Rightarrow> ('e, 's) dispatch" where
  "gov_set_validator_count G orig n s =
     (if \<not> staking_admin G orig then Some (Inl BadOrigin) else staking_set_validator_count G Root n s)"

definition gov_set_staking_configs :: "('e, 's, 'c) governance_config \<Rightarrow> origin \<Rightarrow> 'c \<Rightarrow> 's \<Rightarrow> ('e, 's) dispatch" where
  "gov_set_staking_configs G orig c s =
     (if \<not> staking_admin G orig then Some (Inl BadOrigin) else staking_set_configs G Root c s)"

lemma governance_refuses:
  "\<not> system_admin G orig \<Longrightarrow> gov_authorize_upgrade G orig h s = Some (Inl BadOrigin)"
  "\<not> staking_admin G orig \<Longrightarrow> gov_force_new_era G orig s = Some (Inl BadOrigin)"
  "\<not> staking_admin G orig \<Longrightarrow> gov_set_validator_count G orig n s = Some (Inl BadOrigin)"
  "\<not> staking_admin G orig \<Longrightarrow> gov_set_staking_configs G orig c s = Some (Inl BadOrigin)"
  by (simp_all add: gov_authorize_upgrade_def gov_force_new_era_def gov_set_validator_count_def gov_set_staking_configs_def)

end
