(* ===== verification/Chronicle_Tasks.thy ===== *)
theory Chronicle_Tasks
  imports Runtime_Config
begin

text \<open>
  The task executor of a chronicle, \<open>chronicle/src/tasks/mod.rs\<close>: it starts the tasks that the chain
  assigns to a shard, reads the events of the target chain or submits a batch to it, has the results
  signed by the shard and submits them to the chain.

  What a \<open>TaskParams\<close> holds, the connector to the target chain, the client of the time chain and the
  channel to the signing sessions, is a record of their calls. A call reads or changes the state
  \<open>'w\<close> of the world around the node and may fail. \<open>None\<close> as a result of an operation is a panic.
\<close>

type_synonym block_hash = bytes
type_synonym cctp_info = "address32 list \<times> bytes"

datatype node_error = NodeError bytes | NoGateway | InvalidTask | InvalidShard

record 'w task_params =
  network_of :: network_id
  read_events_call :: "address32 \<Rightarrow> u64 \<Rightarrow> u64 \<Rightarrow> cctp_info option \<Rightarrow> 'w \<Rightarrow> node_error + gmp_event list"
  submit_commands_call ::
    "address32 \<Rightarrow> batch_id \<Rightarrow> gateway_message \<Rightarrow> tss_public_key \<Rightarrow> tss_signature \<Rightarrow> 'w \<Rightarrow> (bytes + unit) \<times> 'w"
  finalized_block_call :: "'w \<Rightarrow> node_error + u64"
  tss_sign :: "block_number \<Rightarrow> shard_id \<Rightarrow> task_id \<Rightarrow> bytes \<Rightarrow> 'w \<Rightarrow> node_error + tss_signature"
  get_gateway_call :: "network_id \<Rightarrow> block_hash \<Rightarrow> 'w \<Rightarrow> node_error + address32 option"
  get_cctp_info_call :: "network_id \<Rightarrow> block_hash \<Rightarrow> 'w \<Rightarrow> node_error + cctp_info option"
  get_shard_tasks_call :: "shard_id \<Rightarrow> block_hash \<Rightarrow> 'w \<Rightarrow> node_error + task_id list"
  get_task_call :: "task_id \<Rightarrow> block_hash \<Rightarrow> 'w \<Rightarrow> node_error + task option"
  get_batch_message_call :: "batch_id \<Rightarrow> block_hash \<Rightarrow> 'w \<Rightarrow> node_error + gateway_message option"
  get_shard_commitment_call :: "shard_id \<Rightarrow> block_hash \<Rightarrow> 'w \<Rightarrow> node_error + commitment option"
  submit_task_result_call :: "task_id \<Rightarrow> task_result \<Rightarrow> 'w \<Rightarrow> (node_error + unit) \<times> 'w"
  scale_string :: "bytes \<Rightarrow> bytes"

section \<open>Strings\<close>

definition MAX_ERROR_LEN :: nat where
  "MAX_ERROR_LEN = 10000"

text \<open>
  \<open>String::truncate\<close> on the UTF-8 bytes of a string: it panics unless the cut is at the boundary of a
  character, that is at the end or not at a continuation byte.
\<close>

definition is_char_boundary :: "bytes \<Rightarrow> nat \<Rightarrow> bool" where
  "is_char_boundary e n \<longleftrightarrow> n = 0 \<or> n = length e \<or> (n < length e \<and> \<not> (128 \<le> e ! n \<and> e ! n < 192))"

definition string_truncate :: "nat \<Rightarrow> bytes \<Rightarrow> bytes option" where
  "string_truncate n e =
     (if n \<le> length e then if is_char_boundary e n then Some (take n e) else None else Some e)"

section \<open>Executing a task\<close>

definition submit_events ::
  "config \<Rightarrow> 'w task_params \<Rightarrow> block_number \<Rightarrow> shard_id \<Rightarrow> task_id \<Rightarrow> gmp_event list \<Rightarrow> 'w \<Rightarrow>
     (node_error + unit) \<times> 'w" where
  "submit_events cfg P block sh i events w =
     (let data = encode_gmp_events cfg i events
      in (case tss_sign P block sh i data w of
            Inl e \<Rightarrow> (Inl e, w)
          | Inr sig \<Rightarrow>
              submit_task_result_call P i (ReadGatewayEventsResult (take MAX_GMP_EVENTS events) sig) w))"

text \<open>The loop over the chunks; the last argument and the result hold the flag \<open>remaining\<close>.\<close>

fun submit_chunks ::
  "config \<Rightarrow> 'w task_params \<Rightarrow> block_number \<Rightarrow> shard_id \<Rightarrow> task_id \<Rightarrow> gmp_event list list \<Rightarrow> bool \<Rightarrow> 'w \<Rightarrow>
     (node_error + bool) \<times> 'w" where
  "submit_chunks cfg P block sh i [] remaining w = (Inr remaining, w)"
| "submit_chunks cfg P block sh i (c # cs) remaining w =
     (case submit_events cfg P block sh i c w of
        (Inl e, w') \<Rightarrow> (Inl e, w')
      | (Inr _, w') \<Rightarrow> submit_chunks cfg P block sh i cs (length c \<noteq> MAX_GMP_EVENTS) w')"

definition execute_read ::
  "config \<Rightarrow> 'w task_params \<Rightarrow> block_number \<Rightarrow> cctp_info option \<Rightarrow> address32 \<Rightarrow> shard_id \<Rightarrow> task_id \<Rightarrow>
     u64 \<Rightarrow> u64 \<Rightarrow> 'w \<Rightarrow> (node_error + unit) \<times> 'w" where
  "execute_read cfg P block cctp gw sh i start stop w =
     (case read_events_call P gw start stop cctp w of
        Inl e \<Rightarrow> (Inl e, w)
      | Inr events \<Rightarrow>
          (case submit_chunks cfg P block sh i (chunks MAX_GMP_EVENTS events) True w of
             (Inl e, w') \<Rightarrow> (Inl e, w')
           | (Inr remaining, w') \<Rightarrow>
               if remaining then submit_events cfg P block sh i [] w' else (Inr (), w')))"

text \<open>The report of a failed submission: the error is cut so that its encoding fits the bound.\<close>

definition report_error ::
  "'w task_params \<Rightarrow> task_id \<Rightarrow> bytes \<Rightarrow> 'w \<Rightarrow> ((node_error + unit) \<times> 'w) option" where
  "report_error P i err w =
     map_option (\<lambda>e. submit_task_result_call P i
         (SubmitGatewayMessageResult (take MAX_ERROR_LEN (scale_string P e))) w)
       (string_truncate (MAX_ERROR_LEN - 4) err)"

definition execute_submit ::
  "config \<Rightarrow> 'w task_params \<Rightarrow> block_hash \<Rightarrow> block_number \<Rightarrow> network_id \<Rightarrow> address32 \<Rightarrow> shard_id \<Rightarrow> task_id \<Rightarrow>
     batch_id \<Rightarrow> 'w \<Rightarrow> ((node_error + unit) \<times> 'w) option" where
  "execute_submit cfg P bh block n gw sh i b w =
     (case get_batch_message_call P b bh w of
        Inl e \<Rightarrow> Some (Inl e, w)
      | Inr None \<Rightarrow> Some (Inl InvalidTask, w)
      | Inr (Some msg) \<Rightarrow>
          (let data = params_hash \<lparr>network = n, gateway = gw\<rparr> (gateway_message_hash (keccak cfg) msg b)
           in (case tss_sign P block sh i data w of
                 Inl e \<Rightarrow> Some (Inl e, w)
               | Inr sig \<Rightarrow>
                   (case get_shard_commitment_call P sh bh w of
                      Inl e \<Rightarrow> Some (Inl e, w)
                    | Inr None \<Rightarrow> Some (Inl InvalidShard, w)
                    | Inr (Some []) \<Rightarrow> None
                    | Inr (Some (signer # _)) \<Rightarrow>
                        (case submit_commands_call P gw b msg signer sig w of
                           (Inr _, w') \<Rightarrow> Some (Inr (), w')
                         | (Inl err, w') \<Rightarrow> report_error P i err w')))))"

definition execute ::
  "config \<Rightarrow> 'w task_params \<Rightarrow> block_hash \<Rightarrow> block_number \<Rightarrow> cctp_info option \<Rightarrow> network_id \<Rightarrow> address32 \<Rightarrow>
     shard_id \<Rightarrow> task_id \<Rightarrow> task \<Rightarrow> 'w \<Rightarrow> ((node_error + unit) \<times> 'w) option" where
  "execute cfg P bh block cctp n gw sh i t w =
     (case t of
        ReadGatewayEvents start stop \<Rightarrow> Some (execute_read cfg P block cctp gw sh i start stop w)
      | SubmitGatewayMessage b \<Rightarrow> execute_submit cfg P bh block n gw sh i b w)"

section \<open>The executor of a shard\<close>

text \<open>
  The running tasks are the keys of a \<open>BTreeMap\<close>. The loop of \<open>process_tasks\<close> returns the error that ends
  it, if any, the running tasks and the tasks it started, which run on their own from then on.
\<close>

type_synonym running_tasks = "(task_id, unit) smap"

fun start_tasks ::
  "'w task_params \<Rightarrow> block_hash \<Rightarrow> 'w \<Rightarrow> task_id list \<Rightarrow> running_tasks \<Rightarrow> (task_id \<times> task) list \<Rightarrow>
     node_error option \<times> running_tasks \<times> (task_id \<times> task) list" where
  "start_tasks P bh w [] run started = (None, run, started)"
| "start_tasks P bh w (i # is) run started =
     (if sget run i \<noteq> None then start_tasks P bh w is run started
      else
        (case get_task_call P i bh w of
           Inl e \<Rightarrow> (Some e, run, started)
         | Inr None \<Rightarrow> (Some InvalidTask, run, started)
         | Inr (Some t) \<Rightarrow>
             (case finalized_block_call P w of
                Inl e \<Rightarrow> (Some e, run, started)
              | Inr chain_block \<Rightarrow>
                  if chain_block < start_block t then start_tasks P bh w is run started
                  else start_tasks P bh w is (sput i () run) (started @ [(i, t)]))))"

text \<open>
  The number of failed tasks that the source also returns is left out: it counts the started tasks that
  fail before the function returns, and its caller ignores it.
\<close>

definition process_tasks ::
  "'w task_params \<Rightarrow> block_hash \<Rightarrow> shard_id \<Rightarrow> 'w \<Rightarrow> running_tasks \<Rightarrow>
     (node_error + task_id list \<times> task_id list) \<times> running_tasks \<times> (task_id \<times> task) list" where
  "process_tasks P bh sh w run =
     (case get_gateway_call P (network_of P) bh w of
        Inl e \<Rightarrow> (Inl e, run, [])
      | Inr None \<Rightarrow> (Inl NoGateway, run, [])
      | Inr (Some _) \<Rightarrow>
     (case get_cctp_info_call P (network_of P) bh w of
        Inl e \<Rightarrow> (Inl e, run, [])
      | Inr _ \<Rightarrow>
     (case get_shard_tasks_call P sh bh w of
        Inl e \<Rightarrow> (Inl e, run, [])
      | Inr assigned \<Rightarrow>
          (case start_tasks P bh w assigned run [] of
             (Some e, run', started) \<Rightarrow> (Inl e, run', started)
           | (None, run', started) \<Rightarrow>
               (let completed = filter (\<lambda>i. i \<notin> set assigned) (map fst (siter unat run'));
                    kept = filter (\<lambda>e. fst e \<in> set assigned) run'
                in (Inr (map fst started, completed), kept, started))))))"

end
