(* ===== verification/Connector.thy ===== *)
theory Connector
  imports Runtime_Config "HOL-Library.List_Lexorder" "HOL-Library.Product_Lexorder"
begin

text \<open>
  The simulated target chain of \<open>gmp/rust/src/lib.rs\<close>: a gateway, its test contracts and the account
  balances in the tables of a \<open>redb\<close> database, behind the connector interface the chronicles use.
  A table is a storage map, a multimap table maps a key to the sorted list of its values. A write
  transaction works on a copy of the tables, which replaces them at its commit; a transaction that is
  dropped without one leaves no trace. Calls of the database itself do not fail. The
  random addresses of new contracts are arguments.
\<close>

section \<open>The order of the events\<close>

text \<open>
  The derived order of \<open>GmpEvent\<close>, in which a multimap table holds its values: the constructors in
  the order of their declaration, then the fields, arrays and vectors lexicographically.
\<close>

definition byte_rank :: "bytes \<Rightarrow> int list" where
  "byte_rank bs = map uint bs"

definition message_rank :: "gmp_message \<Rightarrow> int list list" where
  "message_rank m = [
     [uint (src_network m)], [uint (dest_network m)], byte_rank (src m), byte_rank (dest m),
     [uint (nonce m)], [uint (gas_limit m)], [uint (gas_cost m)], byte_rank (payload m)]"

fun event_rank :: "gmp_event \<Rightarrow> int list list" where
  "event_rank (ShardRegistered k) = [[0], byte_rank k]"
| "event_rank (ShardUnregistered k) = [[1], byte_rank k]"
| "event_rank (MessageReceived m) = [2] # message_rank m"
| "event_rank (MessageExecuted mid) = [[3], byte_rank mid]"
| "event_rank (BatchExecuted b h) =
     [[4], [uint b], (case h of None \<Rightarrow> [0] | Some x \<Rightarrow> 1 # byte_rank x)]"

lemma byte_rank_inj [simp]: "byte_rank xs = byte_rank ys \<longleftrightarrow> xs = ys"
  by (simp add: byte_rank_def inj_map_eq_map inj_def word_uint_eq_iff [symmetric])

lemma message_rank_inj [simp]: "message_rank m = message_rank m' \<longleftrightarrow> m = m'"
  by (auto simp: message_rank_def word_uint_eq_iff [symmetric])

lemma event_rank_inj: "event_rank e = event_rank f \<Longrightarrow> e = f"
  by (cases e; cases f) (auto simp: word_uint_eq_iff [symmetric] split: option.splits)

instantiation gmp_event :: linorder
begin

definition less_eq_gmp_event :: "gmp_event \<Rightarrow> gmp_event \<Rightarrow> bool" where
  "less_eq_gmp_event e f \<longleftrightarrow> event_rank e \<le> event_rank f"

definition less_gmp_event :: "gmp_event \<Rightarrow> gmp_event \<Rightarrow> bool" where
  "less_gmp_event e f \<longleftrightarrow> event_rank e < event_rank f"

instance
  by standard (auto simp: less_eq_gmp_event_def less_gmp_event_def intro: event_rank_inj)

end

section \<open>Tables\<close>

text \<open>A multimap table: every key has a set of values, iterated in their order.\<close>

type_synonym ('k, 'v) mmap = "('k, 'v list) smap"

definition mget :: "('k, 'v) mmap \<Rightarrow> 'k \<Rightarrow> 'v list" where
  "mget m k = value_or [] (sget m k)"

definition minsert :: "'k \<Rightarrow> 'v::linorder \<Rightarrow> ('k, 'v) mmap \<Rightarrow> ('k, 'v) mmap" where
  "minsert k v m = sput k (insort_insert v (mget m k)) m"

definition mremove :: "'k \<Rightarrow> 'v \<Rightarrow> ('k, 'v) mmap \<Rightarrow> ('k, 'v) mmap" where
  "mremove k v m = sput k (removeAll v (mget m k)) m"

text \<open>The values of every key are sorted and without duplicates.\<close>

definition mwf :: "('k, 'v::linorder) mmap \<Rightarrow> bool" where
  "mwf m \<longleftrightarrow> (\<forall>k. sorted (mget m k) \<and> distinct (mget m k))"

record gmp_route =
  route_network_id :: network_id
  route_gateway :: address32
  relative_gas_price :: "256 word \<times> 256 word"
  route_gas_limit :: u64
  gmp_base_fee :: u128

record gmp_db =
  config_table :: "(u64, u64) smap"
  balance_table :: "(address32, u128) smap"
  admin_table :: "(address32, address32) smap"
  nonce_table :: "(address32 \<times> address32, u64) smap"
  events_table :: "(address32 \<times> u64, gmp_event) mmap"
  shards_table :: "(address32, tss_public_key) mmap"
  routes_table :: "(address32 \<times> network_id, gmp_route) smap"
  gateway_table :: "(address32, address32) smap"
  testers_table :: "(address32, address32) mmap"

definition BLOCK_KEY :: u64 where
  "BLOCK_KEY = 0"

record connector =
  conn_network :: network_id
  conn_address :: address32

datatype connector_error =
    NotAdmin | InsufficientBalance | InvalidGateway | TesterNotDeployed | BadSignature | NotSupported

text \<open>The tables of a new database.\<close>

definition empty_db :: gmp_db where
  "empty_db = \<lparr>config_table = [], balance_table = [], admin_table = [], nonce_table = [],
     events_table = [], shards_table = [], routes_table = [], gateway_table = [], testers_table = []\<rparr>"

text \<open>
  A write transaction: its body returns an error, after which the transaction is dropped, or a value,
  the tables it wrote and whether it committed them.
\<close>

definition write_tx ::
  "(gmp_db \<Rightarrow> connector_error + 'a \<times> gmp_db \<times> bool) \<Rightarrow> gmp_db \<Rightarrow> (connector_error + 'a) \<times> gmp_db" where
  "write_tx body db =
     (case body db of
        Inl e \<Rightarrow> (Inl e, db)
      | Inr (x, tx, committed) \<Rightarrow> (Inr x, if committed then tx else db))"

section \<open>Accounts\<close>

definition with_address :: "address32 \<Rightarrow> connector \<Rightarrow> connector" where
  "with_address a conn = conn\<lparr>conn_address := a\<rparr>"

definition read_admin :: "gmp_db \<Rightarrow> address32 \<Rightarrow> connector_error + address32" where
  "read_admin db gw = (case sget (admin_table db) gw of None \<Rightarrow> Inl InvalidGateway | Some a \<Rightarrow> Inr a)"

definition read_balance :: "gmp_db \<Rightarrow> address32 \<Rightarrow> u128" where
  "read_balance db a = value_or 0 (sget (balance_table db) a)"

definition ensure_admin :: "connector \<Rightarrow> gmp_db \<Rightarrow> address32 \<Rightarrow> connector_error + unit" where
  "ensure_admin conn db gw =
     (case read_admin db gw of
        Inl e \<Rightarrow> Inl e
      | Inr a \<Rightarrow> if a \<noteq> conn_address conn then Inl NotAdmin else Inr ())"

text \<open>Both balances are read before either is written.\<close>

definition transfer_from :: "gmp_db \<Rightarrow> address32 \<Rightarrow> address32 \<Rightarrow> u128 \<Rightarrow> connector_error + gmp_db" where
  "transfer_from db a b amount =
     (let balance = read_balance db a
      in if balance < amount then Inl InsufficientBalance
         else
           (let dest_balance = read_balance db b;
                t = sput a (balance - amount) (balance_table db)
            in Inr (db\<lparr>balance_table := sput b (dest_balance + amount) t\<rparr>)))"

definition chain_block :: "gmp_db \<Rightarrow> u64" where
  "chain_block db = value_or 0 (sget (config_table db) BLOCK_KEY)"

text \<open>The background task of \<open>Connector::new\<close>: a new block every six seconds.\<close>

definition inc_block :: "gmp_db \<Rightarrow> gmp_db" where
  "inc_block db = db\<lparr>config_table := sput BLOCK_KEY (chain_block db + 1) (config_table db)\<rparr>"

definition faucet :: "connector \<Rightarrow> u128 \<Rightarrow> gmp_db \<Rightarrow> gmp_db" where
  "faucet conn balance db = db\<lparr>balance_table := sput (conn_address conn) balance (balance_table db)\<rparr>"

definition chain_balance :: "address32 \<Rightarrow> gmp_db \<Rightarrow> u128" where
  "chain_balance a db = (case sget (balance_table db) a of None \<Rightarrow> 0 | Some b \<Rightarrow> b)"

definition chain_transfer ::
  "connector \<Rightarrow> address32 \<Rightarrow> u128 \<Rightarrow> gmp_db \<Rightarrow> (connector_error + unit) \<times> gmp_db" where
  "chain_transfer conn a amount =
     write_tx (\<lambda>tx. map_sum id (\<lambda>tx'. ((), tx', True)) (transfer_from tx (conn_address conn) a amount))"

definition finalized_block :: "gmp_db \<Rightarrow> u64" where
  "finalized_block db = chain_block db"

section \<open>The gateway\<close>

text \<open>A \<open>Range<u64>\<close>, iterated.\<close>

definition block_range :: "u64 \<Rightarrow> u64 \<Rightarrow> u64 list" where
  "block_range start stop = map of_nat [unat start..<unat stop]"

definition read_events :: "address32 \<Rightarrow> u64 \<Rightarrow> u64 \<Rightarrow> gmp_db \<Rightarrow> gmp_event list" where
  "read_events gw start stop db =
     concat (map (\<lambda>b. mget (events_table db) (gw, b)) (block_range start stop))"

fun chain_op :: "config \<Rightarrow> address32 \<Rightarrow> u64 \<Rightarrow> gateway_op \<Rightarrow> gmp_db \<Rightarrow> gmp_db" where
  "chain_op cfg gw block (RegisterShard k) tx = tx\<lparr>
     shards_table := minsert gw k (shards_table tx),
     events_table := minsert (gw, block) (ShardRegistered k) (events_table tx)\<rparr>"
| "chain_op cfg gw block (UnregisterShard k) tx = tx\<lparr>
     shards_table := mremove gw k (shards_table tx),
     events_table := minsert (gw, block) (ShardUnregistered k) (events_table tx)\<rparr>"
| "chain_op cfg gw block (SendMessage m) tx = tx\<lparr>
     events_table := minsert (gw, block) (MessageExecuted (message_id_of (keccak cfg) m))
       (minsert (dest m, block) (MessageReceived m) (events_table tx))\<rparr>"

definition submit_commands ::
  "config \<Rightarrow> connector \<Rightarrow> address32 \<Rightarrow> batch_id \<Rightarrow> gateway_message \<Rightarrow> tss_public_key \<Rightarrow> tss_signature \<Rightarrow>
     gmp_db \<Rightarrow> (connector_error + unit) \<times> gmp_db" where
  "submit_commands cfg conn gw batch msg signer sig db =
     (let hash = params_hash \<lparr>network = conn_network conn, gateway = gw\<rparr>
                   (gateway_message_hash (keccak cfg) msg batch)
      in if \<not> verify_signature cfg signer hash sig then (Inl BadSignature, db)
         else write_tx (\<lambda>tx.
           let block = chain_block db;
               tx1 = fold (chain_op cfg gw block) (msg_ops msg) tx;
               tx2 = tx1\<lparr>events_table :=
                       minsert (gw, block) (BatchExecuted batch None) (events_table tx1)\<rparr>
           in Inr ((), tx2, True)) db)"

section \<open>Administration\<close>

definition deploy_gateway :: "connector \<Rightarrow> address32 \<Rightarrow> gmp_db \<Rightarrow> (connector_error + address32 \<times> u64) \<times> gmp_db" where
  "deploy_gateway conn gw db =
     write_tx (\<lambda>tx. Inr ((gw, chain_block db),
       tx\<lparr>admin_table := sput gw (conn_address conn) (admin_table tx)\<rparr>, True)) db"

definition redeploy_gateway :: "connector \<Rightarrow> address32 \<Rightarrow> gmp_db \<Rightarrow> (connector_error + unit) \<times> gmp_db" where
  "redeploy_gateway conn gw = write_tx (\<lambda>tx. map_sum id (\<lambda>_. ((), tx, False)) (ensure_admin conn tx gw))"

definition chain_admin :: "address32 \<Rightarrow> gmp_db \<Rightarrow> connector_error + address32" where
  "chain_admin gw db = read_admin db gw"

text \<open>There is no commit in \<open>set_admin\<close>.\<close>

definition set_admin :: "connector \<Rightarrow> address32 \<Rightarrow> address32 \<Rightarrow> gmp_db \<Rightarrow> (connector_error + unit) \<times> gmp_db" where
  "set_admin conn gw new_admin =
     write_tx (\<lambda>tx. map_sum id
       (\<lambda>_. ((), tx\<lparr>admin_table := sput gw new_admin (admin_table tx)\<rparr>, False))
       (ensure_admin conn tx gw))"

definition chain_shards :: "address32 \<Rightarrow> gmp_db \<Rightarrow> tss_public_key list" where
  "chain_shards gw db = mget (shards_table db) gw"

definition drop_old_shard :: "address32 \<Rightarrow> u64 \<Rightarrow> tss_public_key list \<Rightarrow> tss_public_key \<Rightarrow> gmp_db \<Rightarrow> gmp_db" where
  "drop_old_shard gw block keys old tx =
     (if old \<notin> set keys
      then tx\<lparr>events_table := minsert (gw, block) (ShardUnregistered old) (events_table tx)\<rparr>
      else tx)"

definition put_new_shard :: "address32 \<Rightarrow> u64 \<Rightarrow> tss_public_key list \<Rightarrow> tss_public_key \<Rightarrow> gmp_db \<Rightarrow> gmp_db" where
  "put_new_shard gw block old_keys k tx =
     (let tx1 = tx\<lparr>shards_table := minsert gw k (shards_table tx)\<rparr>
      in if k \<notin> set old_keys
         then tx1\<lparr>events_table := minsert (gw, block) (ShardRegistered k) (events_table tx1)\<rparr>
         else tx1)"

definition set_shards ::
  "connector \<Rightarrow> address32 \<Rightarrow> tss_public_key list \<Rightarrow> gmp_db \<Rightarrow> (connector_error + unit) \<times> gmp_db" where
  "set_shards conn gw ks db =
     write_tx (\<lambda>tx.
       (case ensure_admin conn tx gw of
          Inl e \<Rightarrow> Inl e
        | Inr _ \<Rightarrow>
            (let block = chain_block db;
                 old_keys = mget (shards_table tx) gw;
                 keys = sorted_list_of_set (set ks);
                 tx1 = tx\<lparr>shards_table := sdel gw (shards_table tx)\<rparr>;
                 tx2 = fold (drop_old_shard gw block keys) old_keys tx1;
                 tx3 = fold (put_new_shard gw block old_keys) keys tx2
             in Inr ((), tx3, True)))) db"

text \<open>The whole table is iterated in the order of its keys.\<close>

definition chain_routes :: "address32 \<Rightarrow> gmp_db \<Rightarrow> gmp_route list" where
  "chain_routes gw db =
     map snd (filter (\<lambda>e. fst (fst e) = gw) (sort_key fst (routes_table db)))"

definition merge_route :: "gmp_route \<Rightarrow> gmp_route \<Rightarrow> gmp_route" where
  "merge_route new r0 =
     (let r1 = (if route_gateway new \<noteq> replicate 32 0 then r0\<lparr>route_gateway := route_gateway new\<rparr> else r0);
          r2 = (if relative_gas_price new \<noteq> (0, 0)
                then r1\<lparr>relative_gas_price := relative_gas_price new\<rparr> else r1);
          r3 = (if route_gas_limit new \<noteq> 0 then r2\<lparr>route_gas_limit := route_gas_limit new\<rparr> else r2)
      in if gmp_base_fee new \<noteq> 0 then r3\<lparr>gmp_base_fee := gmp_base_fee new\<rparr> else r3)"

definition set_route :: "connector \<Rightarrow> address32 \<Rightarrow> gmp_route \<Rightarrow> gmp_db \<Rightarrow> (connector_error + unit) \<times> gmp_db" where
  "set_route conn gw new =
     write_tx (\<lambda>tx.
       (case ensure_admin conn tx gw of
          Inl e \<Rightarrow> Inl e
        | Inr _ \<Rightarrow>
            (let k = (gw, route_network_id new);
                 route = merge_route new (value_or new (sget (routes_table tx) k));
                 t = sdel k (routes_table tx)
             in Inr ((), tx\<lparr>routes_table := sput (gw, route_network_id route) route t\<rparr>, True))))"

section \<open>Messages\<close>

definition deploy_test ::
  "address32 \<Rightarrow> address32 \<Rightarrow> gmp_db \<Rightarrow> (connector_error + address32 \<times> u64) \<times> gmp_db" where
  "deploy_test tester gw db =
     write_tx (\<lambda>tx. Inr ((tester, chain_block db),
       tx\<lparr>gateway_table := sput tester gw (gateway_table tx),
          testers_table := minsert gw tester (testers_table tx)\<rparr>, True)) db"

definition estimate_message_gas_limit :: u128 where
  "estimate_message_gas_limit = 100000"

definition estimate_message_cost :: "u128 \<Rightarrow> bytes \<Rightarrow> u128" where
  "estimate_message_cost gl bs = gl + of_nat (length bs) * 100"

text \<open>The message that the test contract \<open>a\<close> sends next to \<open>b\<close>.\<close>

definition next_message ::
  "connector \<Rightarrow> address32 \<Rightarrow> network_id \<Rightarrow> address32 \<Rightarrow> u128 \<Rightarrow> u128 \<Rightarrow> bytes \<Rightarrow> gmp_db \<Rightarrow> gmp_message" where
  "next_message conn a dn b gl gc bs db = \<lparr>
     src_network = conn_network conn, dest_network = dn, src = a, dest = b,
     nonce = value_or 0 (sget (nonce_table db) (a, b)),
     gas_limit = gl, gas_cost = gc, payload = bs\<rparr>"

definition send_message ::
  "config \<Rightarrow> connector \<Rightarrow> address32 \<Rightarrow> network_id \<Rightarrow> address32 \<Rightarrow> u128 \<Rightarrow> u128 \<Rightarrow> bytes \<Rightarrow> gmp_db \<Rightarrow>
     (connector_error + message_id) \<times> gmp_db" where
  "send_message cfg conn a dn b gl gc bs db =
     write_tx (\<lambda>tx.
       let m = next_message conn a dn b gl gc bs tx;
           mid = message_id_of (keccak cfg) m;
           tx1 = tx\<lparr>nonce_table := sput (a, b) (nonce m + 1) (nonce_table tx)\<rparr>
       in (case sget (gateway_table tx1) a of
             None \<Rightarrow> Inl TesterNotDeployed
           | Some gw \<Rightarrow>
               Inr (mid, tx1\<lparr>events_table :=
                 minsert (gw, chain_block db) (MessageReceived m) (events_table tx1)\<rparr>, True))) db"

fun received_message :: "gmp_event \<Rightarrow> gmp_message option" where
  "received_message (MessageReceived m) = Some m"
| "received_message (ShardRegistered _) = None"
| "received_message (ShardUnregistered _) = None"
| "received_message (MessageExecuted _) = None"
| "received_message (BatchExecuted _ _) = None"

definition recv_messages :: "address32 \<Rightarrow> u64 \<Rightarrow> u64 \<Rightarrow> gmp_db \<Rightarrow> gmp_message list" where
  "recv_messages a start stop db =
     concat (map (\<lambda>b. List.map_filter received_message (mget (events_table db) (a, b)))
       (block_range start stop))"

definition max_fee_per_gas :: u128 where
  "max_fee_per_gas = 1"

definition block_gas_limit :: u64 where
  "block_gas_limit = - 1"

definition withdraw_funds ::
  "connector \<Rightarrow> address32 \<Rightarrow> u128 \<Rightarrow> address32 \<Rightarrow> gmp_db \<Rightarrow> (connector_error + unit) \<times> gmp_db" where
  "withdraw_funds conn gw amount a =
     write_tx (\<lambda>tx.
       (case ensure_admin conn tx gw of
          Inl e \<Rightarrow> Inl e
        | Inr _ \<Rightarrow> map_sum id (\<lambda>tx'. ((), tx', True)) (transfer_from tx gw a amount)))"

definition debug_transaction :: "bytes \<Rightarrow> connector_error + bytes" where
  "debug_transaction tx_id = Inl NotSupported"

end
