(* ===== verification/Connector_Properties.thy ===== *)
theory Connector_Properties
  imports Connector
begin

text \<open>
  What the simulated target chain promises: its ledger, its table of shards, its events and the
  identifiers of the messages sent on it.
\<close>

section \<open>Tables\<close>

lemma mget_minsert [simp, storage_simps]:
  "mget (minsert k v m) k' = (if k' = k then insort_insert v (mget m k) else mget m k')"
  by (simp add: mget_def minsert_def)

lemma mget_mremove [simp, storage_simps]:
  "mget (mremove k v m) k' = (if k' = k then removeAll v (mget m k) else mget m k')"
  by (simp add: mget_def mremove_def)

lemma mget_sdel [simp, storage_simps]: "mget (sdel k m) k' = (if k' = k then [] else mget m k')"
  by (simp add: mget_def)

lemma mget_Nil [simp]: "mget [] k = []"
  by (simp add: mget_def)

lemma mwf_Nil [simp]: "mwf []"
  by (simp add: mwf_def)

lemma mwf_minsert [simp, intro]: "mwf m \<Longrightarrow> mwf (minsert k v m)"
  by (simp add: mwf_def sorted_insort_insert distinct_insort_insert)

lemma mwf_mremove [simp, intro]: "mwf m \<Longrightarrow> mwf (mremove k v m)"
  unfolding mwf_def removeAll_filter_not_eq mget_mremove by (auto intro: sorted_wrt_filter)

lemma mwf_sdel [simp, intro]: "mwf m \<Longrightarrow> mwf (sdel k m)"
  by (simp add: mwf_def)

lemma write_tx_Inr:
  "write_tx f db = (Inr x, db') \<Longrightarrow> \<exists>tx c. f db = Inr (x, tx, c) \<and> db' = (if c then tx else db)"
  by (cases "f db") (simp_all add: write_tx_def split: prod.splits, metis)

lemma write_tx_map_sum:
  "write_tx (\<lambda>tx. map_sum id (\<lambda>tx'. ((), tx', True)) (f tx)) db = (Inr (), db') \<longleftrightarrow> f db = Inr db'"
  by (cases "f db") (auto simp: write_tx_def)

section \<open>The ledger\<close>

definition total_balance :: "gmp_db \<Rightarrow> nat" where
  "total_balance db = sum_list (map (\<lambda>e. unat (snd e)) (balance_table db))"

lemma total_sput:
  assumes "swf m"
  shows "sum_list (map (\<lambda>e. unat (snd e)) (sput k v m)) + unat (value_or 0 (sget m k)) =
    sum_list (map (\<lambda>e. unat (snd e)) m) + unat v"
proof (cases "sget m k")
  case None
  then show ?thesis by (simp add: sput_def sdel_absent)
next
  case (Some w)
  then have "mset m = add_mset (k, w) (mset (sdel k m))" by (rule mset_sdel_present [OF assms])
  then have "sum_mset (image_mset (\<lambda>e. unat (snd e)) (mset m)) =
      unat w + sum_mset (image_mset (\<lambda>e. unat (snd e)) (mset (sdel k m)))"
    by simp
  then have "sum_list (map (\<lambda>e. unat (snd e)) m) = unat w + sum_list (map (\<lambda>e. unat (snd e)) (sdel k m))"
    by (simp only: mset_map [symmetric] sum_mset_sum_list)
  with Some show ?thesis by (simp add: sput_def)
qed

lemma transfer_from_eq:
  "transfer_from db a b amount = Inr db' \<longleftrightarrow>
     amount \<le> read_balance db a \<and>
     db' = db\<lparr>balance_table := sput b (read_balance db b + amount)
       (sput a (read_balance db a - amount) (balance_table db))\<rparr>"
  by (auto simp: transfer_from_def Let_def not_less)

lemma chain_balance_read: "chain_balance a db = read_balance db a"
  by (simp add: chain_balance_def read_balance_def value_or_def)

lemma transfer_from_total:
  assumes "swf (balance_table db)" "transfer_from db a b amount = Inr db'"
    and "unat (read_balance db b) + unat amount < 2 ^ 128"
  shows "total_balance db' = total_balance db + (if a = b then unat amount else 0)"
proof -
  let ?t = "balance_table db" and ?x = "read_balance db a" and ?y = "read_balance db b"
  let ?u = "sput a (?x - amount) ?t"
  from assms(2) have le: "amount \<le> ?x" and db': "balance_table db' = sput b (?y + amount) ?u"
    by (auto simp: transfer_from_eq)
  have y: "unat (?y + amount) = unat ?y + unat amount" using assms(3) by (simp add: unat_add_less)
  have x: "unat (?x - amount) = unat ?x - unat amount" "unat amount \<le> unat ?x"
    using le by (simp_all add: unat_sub word_le_nat_alt)
  have 1: "total_balance db' + unat (value_or 0 (sget ?u b)) =
      sum_list (map (\<lambda>e. unat (snd e)) ?u) + unat (?y + amount)"
    unfolding total_balance_def db' using assms(1) by (intro total_sput) auto
  have 2: "sum_list (map (\<lambda>e. unat (snd e)) ?u) + unat ?x = total_balance db + unat (?x - amount)"
    unfolding total_balance_def read_balance_def using assms(1) by (rule total_sput)
  have 3: "value_or 0 (sget ?u b) = (if a = b then ?x - amount else ?y)"
    by (simp add: read_balance_def)
  show ?thesis
  proof (cases "a = b")
    case True
    from 1 2 x y show ?thesis unfolding 3 by (simp only: True simp_thms if_True)
  next
    case False
    from 1 2 x y False show ?thesis unfolding 3 by (simp only: False simp_thms if_False)
  qed
qed

text \<open>
  A successful transfer leaves the sender with its balance less the
  amount, the receiver with its balance plus the amount and every other account as it was, so that the
  sum of all balances stays the same -- except in a transfer of an account to itself, which creates the
  amount. The same holds for the withdrawal of the funds of a gateway.
\<close>

theorem transfer_ledger:
  assumes "swf (balance_table db)" "chain_transfer conn b amount db = (Inr (), db')"
    and "unat (chain_balance b db) + unat amount < 2 ^ 128"
  shows "amount \<le> chain_balance (conn_address conn) db \<and>
    unat (chain_balance a db') =
      (if a = b then unat (chain_balance b db) + unat amount
       else if a = conn_address conn then unat (chain_balance a db) - unat amount
       else unat (chain_balance a db)) \<and>
    total_balance db' = total_balance db + (if b = conn_address conn then unat amount else 0)"
proof (intro conjI)
  have t: "transfer_from db (conn_address conn) b amount = Inr db'"
    using assms(2) unfolding chain_transfer_def by (simp add: write_tx_map_sum)
  then show le: "amount \<le> chain_balance (conn_address conn) db"
    by (simp add: transfer_from_eq chain_balance_read)
  have bal: "read_balance db' a = (if a = b then read_balance db b + amount
      else if a = conn_address conn then read_balance db a - amount else read_balance db a)"
    using t by (auto simp: transfer_from_eq read_balance_def)
  have b: "unat (read_balance db b + amount) = unat (read_balance db b) + unat amount"
    using assms(3) by (simp add: unat_add_less chain_balance_read)
  show "unat (chain_balance a db') =
      (if a = b then unat (chain_balance b db) + unat amount
       else if a = conn_address conn then unat (chain_balance a db) - unat amount
       else unat (chain_balance a db))"
    unfolding chain_balance_read bal using b le [unfolded chain_balance_read] by (simp add: unat_sub)
  show "total_balance db' = total_balance db + (if b = conn_address conn then unat amount else 0)"
    using transfer_from_total [OF assms(1) t assms(3) [unfolded chain_balance_read]]
    by (simp only: eq_commute [of b "conn_address conn"])
qed

definition demo_conn :: connector where
  "demo_conn = \<lparr>conn_network = 1, conn_address = [1]\<rparr>"

theorem transfer_ledger_witness:
  "let db = faucet demo_conn 100 empty_db; db' = snd (chain_transfer demo_conn [2] 40 db)
   in unat (chain_balance [2] db') = 40 \<and> total_balance db' = total_balance db"
proof -
  let ?db = "faucet demo_conn 100 empty_db"
  let ?r = "chain_transfer demo_conn [2] 40 ?db"
  have wf: "swf (balance_table ?db)" by (simp add: faucet_def empty_db_def)
  have ok: "?r = (Inr (), snd ?r)" by code_simp
  have zero: "chain_balance [2] ?db = 0" by code_simp
  have small: "unat (chain_balance [2] ?db) + unat (40 :: u128) < 2 ^ 128" by (simp add: zero)
  have ne: "[2] \<noteq> conn_address demo_conn" by (simp add: demo_conn_def)
  show ?thesis
    using transfer_ledger [OF wf ok small, of "[2]"] ne by (simp add: Let_def zero)
qed

section \<open>Shards and events\<close>

lemma drop_old_shards_fold:
  "shards_table (fold (drop_old_shard gw block keys) old tx) = shards_table tx \<and>
   set (mget (events_table (fold (drop_old_shard gw block keys) old tx)) k) =
     set (mget (events_table tx) k) \<union>
     (if k = (gw, block) then ShardUnregistered ` (set old - set keys) else {})"
  by (induction old arbitrary: tx) (auto simp: drop_old_shard_def set_insort_insert)

lemma put_new_shards_fold:
  "set (mget (shards_table (fold (put_new_shard gw block old) keys tx)) g) =
     set (mget (shards_table tx) g) \<union> (if g = gw then set keys else {}) \<and>
   (mwf (shards_table tx) \<longrightarrow> mwf (shards_table (fold (put_new_shard gw block old) keys tx))) \<and>
   (g \<noteq> gw \<longrightarrow> mget (shards_table (fold (put_new_shard gw block old) keys tx)) g = mget (shards_table tx) g) \<and>
   set (mget (events_table (fold (put_new_shard gw block old) keys tx)) k) =
     set (mget (events_table tx) k) \<union>
     (if k = (gw, block) then ShardRegistered ` (set keys - set old) else {})"
  by (induction keys arbitrary: tx) (auto simp: put_new_shard_def Let_def set_insort_insert)

text \<open>The shards and events of a gateway after its shards were set.\<close>

lemma set_shards_tables:
  assumes "mwf (shards_table db)" "set_shards conn gw ks db = (Inr (), db')"
  shows "chain_shards gw db' = sorted_list_of_set (set ks) \<and>
    (\<forall>g. g = gw \<or> chain_shards g db' = chain_shards g db) \<and>
    set (mget (events_table db') k) = set (mget (events_table db) k) \<union>
      (if k = (gw, chain_block db)
       then ShardUnregistered ` (set (chain_shards gw db) - set ks) \<union>
            ShardRegistered ` (set ks - set (chain_shards gw db))
       else {})"
proof -
  let ?b = "chain_block db" and ?old = "mget (shards_table db) gw" and ?keys = "sorted_list_of_set (set ks)"
  let ?tx1 = "db\<lparr>shards_table := sdel gw (shards_table db)\<rparr>"
  let ?tx2 = "fold (drop_old_shard gw ?b ?keys) ?old ?tx1"
  have db': "db' = fold (put_new_shard gw ?b ?old) ?keys ?tx2"
    using write_tx_Inr [OF assms(2) [unfolded set_shards_def]] by (auto simp: Let_def split: sum.splits)
  note drop = drop_old_shards_fold [of gw ?b ?keys ?old ?tx1]
  note put = put_new_shards_fold [of gw ?b ?old ?keys ?tx2]
  have wf: "mwf (shards_table db')" using put drop assms(1) by (simp add: db' mwf_sdel)
  have "set (mget (shards_table db') gw) = set ks" using put [of gw] drop by (simp add: db')
  then have "mget (shards_table db') gw = ?keys"
    using wf by (metis List.finite_set mwf_def sorted_distinct_set_unique sorted_list_of_set(1-3)
        sorted_sorted_list_of_set)
  moreover have "g = gw \<or> mget (shards_table db') g = mget (shards_table db) g" for g
    using put [of g] drop by (auto simp: db')
  moreover have "set (mget (events_table db') k) = set (mget (events_table db) k) \<union>
      (if k = (gw, ?b) then ShardUnregistered ` (set ?old - set ks) \<union> ShardRegistered ` (set ks - set ?old) else {})"
    using put [of _ k] drop [of k] by (auto simp: db')
  ultimately show ?thesis by (simp add: chain_shards_def)
qed

definition demo_chain_gateway :: gmp_db where
  "demo_chain_gateway = snd (deploy_gateway demo_conn [7] empty_db)"

text \<open>The admin of a gateway cannot be changed: the transaction of \<open>set_admin\<close> is never committed.\<close>

theorem set_admin_discarded: "snd (set_admin conn gw a db) = db"
  by (cases "ensure_admin conn db gw") (simp_all add: set_admin_def write_tx_def)

section \<open>Executed batches\<close>

text \<open>The events of one operation at an address, and what it does to the shards of the gateway.\<close>

fun op_events :: "config \<Rightarrow> address32 \<Rightarrow> address32 \<Rightarrow> gateway_op \<Rightarrow> gmp_event set" where
  "op_events cfg gw a (RegisterShard k) = (if a = gw then {ShardRegistered k} else {})"
| "op_events cfg gw a (UnregisterShard k) = (if a = gw then {ShardUnregistered k} else {})"
| "op_events cfg gw a (SendMessage m) =
     (if a = dest m then {MessageReceived m} else {}) \<union>
     (if a = gw then {MessageExecuted (message_id_of (keccak cfg) m)} else {})"

fun op_shards :: "gateway_op \<Rightarrow> tss_public_key set \<Rightarrow> tss_public_key set" where
  "op_shards (RegisterShard k) ks = insert k ks"
| "op_shards (UnregisterShard k) ks = ks - {k}"
| "op_shards (SendMessage m) ks = ks"

lemma chain_ops_fold:
  "set (mget (events_table (fold (chain_op cfg gw block) xs tx)) (a, k)) =
     set (mget (events_table tx) (a, k)) \<union> (if k = block then \<Union> (op_events cfg gw a ` set xs) else {}) \<and>
   set (mget (shards_table (fold (chain_op cfg gw block) xs tx)) g) =
     (if g = gw then fold op_shards xs (set (mget (shards_table tx) g)) else set (mget (shards_table tx) g))"
proof (induction xs arbitrary: tx)
  case (Cons op xs)
  have "set (mget (events_table (chain_op cfg gw block op tx)) (a, k)) =
      set (mget (events_table tx) (a, k)) \<union> (if k = block then op_events cfg gw a op else {})"
    by (cases op) (auto simp: set_insort_insert)
  moreover have "set (mget (shards_table (chain_op cfg gw block op tx)) g) =
      (if g = gw then op_shards op (set (mget (shards_table tx) g)) else set (mget (shards_table tx) g))"
    by (cases op) (auto simp: set_insort_insert)
  ultimately show ?case using Cons.IH [of "chain_op cfg gw block op tx"] by auto
qed simp

lemma submit_commands_Inr:
  assumes "submit_commands cfg conn gw b msg signer sig db = (Inr (), db')"
  shows "verify_signature cfg signer (params_hash \<lparr>network = conn_network conn, gateway = gw\<rparr>
      (gateway_message_hash (keccak cfg) msg b)) sig"
    and "set (mget (events_table db') (a, k)) = set (mget (events_table db) (a, k)) \<union>
      (if k = chain_block db
       then \<Union> (op_events cfg gw a ` set (msg_ops msg)) \<union> (if a = gw then {BatchExecuted b None} else {})
       else {})"
    and "set (chain_shards g db') =
      (if g = gw then fold op_shards (msg_ops msg) (set (chain_shards g db)) else set (chain_shards g db))"
    and "chain_block db' = chain_block db"
proof -
  let ?tx = "fold (chain_op cfg gw (chain_block db)) (msg_ops msg) db"
  let ?db' = "?tx\<lparr>events_table := minsert (gw, chain_block db) (BatchExecuted b None) (events_table ?tx)\<rparr>"
  have *: "verify_signature cfg signer (params_hash \<lparr>network = conn_network conn, gateway = gw\<rparr>
      (gateway_message_hash (keccak cfg) msg b)) sig \<and> db' = ?db'"
    using assms by (simp add: submit_commands_def Let_def write_tx_def split: if_splits)
  then show "verify_signature cfg signer (params_hash \<lparr>network = conn_network conn, gateway = gw\<rparr>
      (gateway_message_hash (keccak cfg) msg b)) sig" by blast
  note ops = chain_ops_fold [of cfg gw "chain_block db" "msg_ops msg" db]
  show "set (mget (events_table db') (a, k)) = set (mget (events_table db) (a, k)) \<union>
      (if k = chain_block db
       then \<Union> (op_events cfg gw a ` set (msg_ops msg)) \<union> (if a = gw then {BatchExecuted b None} else {})
       else {})"
    using * ops [of a k] by (auto simp: set_insort_insert)
  show "set (chain_shards g db') =
      (if g = gw then fold op_shards (msg_ops msg) (set (chain_shards g db)) else set (chain_shards g db))"
    using * ops [of _ _ g] by (simp add: chain_shards_def)
  have "config_table (chain_op cfg gw c op tx) = config_table tx" for c op tx
    by (cases op) simp_all
  then have "config_table ?tx = config_table db"
    by (intro fold_invariant_set [where P = "\<lambda>tx. config_table tx = config_table db"]) simp_all
  with * show "chain_block db' = chain_block db" by (simp add: chain_block_def)
qed

section \<open>Reading ranges of blocks\<close>

text \<open>Ranges that follow each other from one block to another.\<close>

fun consecutive :: "(u64 \<times> u64) list \<Rightarrow> u64 \<Rightarrow> u64 \<Rightarrow> bool" where
  "consecutive [] a b \<longleftrightarrow> a = b"
| "consecutive ((x, y) # rs) a b \<longleftrightarrow> x = a \<and> x \<le> y \<and> y \<le> b \<and> consecutive rs y b"

lemma consecutive_le: "consecutive rs a b \<Longrightarrow> a \<le> b"
  by (cases "(rs, a, b)" rule: consecutive.cases) auto

text \<open>What a client of a log that is read by ranges relies on: a range can be read in two parts.\<close>

locale range_reader =
  fixes read :: "u64 \<Rightarrow> u64 \<Rightarrow> 'e list"
  assumes read_empty: "read a a = []"
    and read_split: "a \<le> b \<Longrightarrow> b \<le> c \<Longrightarrow> read a c = read a b @ read b c"
begin

lemma read_consecutive: "consecutive rs a b \<Longrightarrow> concat (map (\<lambda>(x, y). read x y) rs) = read a b"
proof (induction rs arbitrary: a)
  case (Cons r rs)
  obtain x y where r: "r = (x, y)" by (cases r)
  with Cons.prems have "x = a" "a \<le> y" "y \<le> b" "consecutive rs y b" by auto
  then show ?case using Cons.IH [of y] read_split [of a y b] by (simp add: r)
qed (simp add: read_empty)

end

lemma block_range_split: "a \<le> b \<Longrightarrow> b \<le> c \<Longrightarrow> block_range a c = block_range a b @ block_range b c"
  unfolding block_range_def map_append [symmetric]
  by (rule arg_cong [where f = "map of_nat"]) (metis le_add_diff_inverse upt_add_eq_append word_le_nat_alt)

lemma set_block_range: "set (block_range a b) = {k. a \<le> k \<and> k < b}"
proof -
  have "k \<in> of_nat ` {unat a..<unat b}" if "a \<le> k" "k < b" for k
    using that by (intro image_eqI [where x = "unat k"]) (simp_all add: word_le_nat_alt word_less_nat_alt)
  moreover have "a \<le> of_nat i \<and> of_nat i < b" if "unat a \<le> i" "i < unat b" for i
    using that of_nat_below [OF that(2)] by (simp add: word_le_nat_alt word_less_nat_alt)
  ultimately show ?thesis by (auto simp: block_range_def)
qed

interpretation event_log: range_reader "\<lambda>a b. read_events gw a b db" for gw db
proof
  show "read_events gw a a db = []" for a by (simp add: read_events_def block_range_def)
  show "read_events gw a c db = read_events gw a b db @ read_events gw b c db" if "a \<le> b" "b \<le> c" for a b c
    using block_range_split [OF that] by (simp add: read_events_def)
qed

interpretation message_log: range_reader "\<lambda>a b. recv_messages to a b db" for to db
proof
  show "recv_messages to a a db = []" for a by (simp add: recv_messages_def block_range_def)
  show "recv_messages to a c db = recv_messages to a b db @ recv_messages to b c db" if "a \<le> b" "b \<le> c" for a b c
    using block_range_split [OF that] by (simp add: recv_messages_def)
qed

lemma set_read_events: "set (read_events gw a b db) = {e. \<exists>k. a \<le> k \<and> k < b \<and> e \<in> set (mget (events_table db) (gw, k))}"
  by (auto simp: read_events_def set_block_range)

lemma set_map_filter_received:
  "set (List.map_filter received_message es) = {m. MessageReceived m \<in> set es}"
proof (induction es)
  case (Cons e es)
  then show ?case by (cases e) (auto simp: List.map_filter_simps)
qed (simp add: List.map_filter_simps)

lemma set_recv_messages:
  "set (recv_messages a x y db) = {m. MessageReceived m \<in> set (read_events a x y db)}"
  by (auto simp: recv_messages_def set_read_events set_block_range set_map_filter_received)

section \<open>Message identifiers\<close>

text \<open>
  Everything that can happen to the chain of network \<open>n\<close>: a new block or a call of a connector. The list
  holds the messages sent so far. Addresses are arrays of 32 bytes.
\<close>

inductive chain_step ::
  "config \<Rightarrow> network_id \<Rightarrow> gmp_db \<times> gmp_message list \<Rightarrow> gmp_db \<times> gmp_message list \<Rightarrow> bool" for cfg n where
  step_block: "chain_step cfg n (db, ms) (inc_block db, ms)"
| step_faucet: "chain_step cfg n (db, ms) (faucet conn v db, ms)"
| step_transfer: "chain_step cfg n (db, ms) (snd (chain_transfer conn a v db), ms)"
| step_commands: "chain_step cfg n (db, ms) (snd (submit_commands cfg conn gw b msg signer sig db), ms)"
| step_deploy: "chain_step cfg n (db, ms) (snd (deploy_gateway conn gw db), ms)"
| step_redeploy: "chain_step cfg n (db, ms) (snd (redeploy_gateway conn gw db), ms)"
| step_admin: "chain_step cfg n (db, ms) (snd (set_admin conn gw a db), ms)"
| step_shards: "chain_step cfg n (db, ms) (snd (set_shards conn gw ks db), ms)"
| step_route: "chain_step cfg n (db, ms) (snd (set_route conn gw r db), ms)"
| step_test: "chain_step cfg n (db, ms) (snd (deploy_test t gw db), ms)"
| step_withdraw: "chain_step cfg n (db, ms) (snd (withdraw_funds conn gw v a db), ms)"
| step_send: "conn_network conn = n \<Longrightarrow> length a = 32 \<Longrightarrow> length b = 32 \<Longrightarrow>
    send_message cfg conn a dn b gl gc bs db = (Inr mid, db') \<Longrightarrow>
    chain_step cfg n (db, ms) (db', ms @ [next_message conn a dn b gl gc bs db])"

text \<open>The next nonce of a pair of contracts is larger than the nonces of all its messages, until it wraps.\<close>

definition nonce_of :: "gmp_db \<Rightarrow> address32 \<Rightarrow> address32 \<Rightarrow> u64" where
  "nonce_of db a b = value_or 0 (sget (nonce_table db) (a, b))"

definition nonces_inv :: "network_id \<Rightarrow> gmp_db \<times> gmp_message list \<Rightarrow> bool" where
  "nonces_inv n st \<longleftrightarrow> (case st of (db, ms) \<Rightarrow>
     length ms < 2 ^ 64 \<longrightarrow>
       (\<forall>a b. unat (nonce_of db a b) \<le> length ms) \<and>
       (\<forall>m\<in>set ms. wf_message m \<and> src_network m = n \<and> nonce m < nonce_of db (src m) (dest m)) \<and>
       distinct (map (\<lambda>m. (src m, dest m, nonce m)) ms))"

lemma write_tx_nonce:
  assumes "\<And>x tx c. f db = Inr (x, tx, c) \<Longrightarrow> nonce_table tx = nonce_table db"
  shows "nonce_table (snd (write_tx f db)) = nonce_table db"
  using assms by (cases "f db") (auto simp: write_tx_def)

lemma chain_op_nonce: "nonce_table (chain_op cfg gw c op tx) = nonce_table tx"
  by (cases op) simp_all

lemma fold_nonce:
  "(\<And>x tx. nonce_table (f x tx) = nonce_table tx) \<Longrightarrow> nonce_table (fold f xs tx) = nonce_table tx"
  by (induction xs arbitrary: tx) simp_all

lemma set_shards_nonce: "nonce_table (snd (set_shards conn gw ks db)) = nonce_table db"
proof -
  have drop: "nonce_table (fold (drop_old_shard gw c keys) xs tx) = nonce_table tx" for c keys xs tx
    by (rule fold_nonce) (simp add: drop_old_shard_def)
  have put: "nonce_table (fold (put_new_shard gw c keys) xs tx) = nonce_table tx" for c keys xs tx
    by (rule fold_nonce) (simp add: put_new_shard_def Let_def)
  show ?thesis
    by (cases "ensure_admin conn db gw") (simp_all add: set_shards_def write_tx_def Let_def put drop)
qed

lemma submit_commands_nonce: "nonce_table (snd (submit_commands cfg conn gw b msg signer sig db)) = nonce_table db"
  by (simp add: submit_commands_def Let_def write_tx_def fold_nonce [OF chain_op_nonce])

lemma transfer_from_nonce: "transfer_from db a b v = Inr db' \<Longrightarrow> nonce_table db' = nonce_table db"
  by (auto simp: transfer_from_eq)

lemma send_message_Inr:
  assumes "send_message cfg conn a dn b gl gc bs db = (Inr mid, db')"
  shows "\<exists>gw. sget (gateway_table db) a = Some gw \<and>
    mid = message_id_of (keccak cfg) (next_message conn a dn b gl gc bs db) \<and>
    db' = db\<lparr>nonce_table := sput (a, b) (nonce_of db a b + 1) (nonce_table db),
      events_table := minsert (gw, chain_block db) (MessageReceived (next_message conn a dn b gl gc bs db))
        (events_table db)\<rparr>"
  using assms
  by (cases "sget (gateway_table db) a")
    (simp_all add: send_message_def write_tx_def Let_def next_message_def nonce_of_def)

lemma nonces_inv_keep:
  "nonces_inv n (db, ms) \<Longrightarrow> nonce_table db' = nonce_table db \<Longrightarrow> nonces_inv n (db', ms)"
  by (simp add: nonces_inv_def nonce_of_def)

lemma nonces_inv_send:
  assumes inv: "nonces_inv n (db, ms)" and conn: "conn_network conn = n" "length a = 32" "length b = 32"
    and send: "send_message cfg conn a dn b gl gc bs db = (Inr mid, db')"
  shows "nonces_inv n (db', ms @ [next_message conn a dn b gl gc bs db])"
  unfolding nonces_inv_def prod.case
proof (rule impI)
  let ?m = "next_message conn a dn b gl gc bs db"
  assume len: "length (ms @ [?m]) < 2 ^ 64"
  with inv have le: "unat (nonce_of db x y) \<le> length ms"
    and ms: "\<forall>m\<in>set ms. wf_message m \<and> src_network m = n \<and> nonce m < nonce_of db (src m) (dest m)"
    and dist: "distinct (map (\<lambda>m. (src m, dest m, nonce m)) ms)" for x y
    by (auto simp: nonces_inv_def)
  have m: "src ?m = a" "dest ?m = b" "nonce ?m = nonce_of db a b" "src_network ?m = n"
    using conn by (simp_all add: next_message_def nonce_of_def)
  have tab: "nonce_of db' x y = (if (x, y) = (a, b) then nonce_of db a b + 1 else nonce_of db x y)" for x y
    using send_message_Inr [OF send] by (auto simp: nonce_of_def)
  have "unat (nonce_of db a b) < 2 ^ 64 - 1" using le [of a b] len by simp
  then have nm: "nonce_of db a b \<noteq> - 1" by (simp add: not_max_unat)
  then have lt: "nonce_of db a b < nonce_of db a b + 1" by (simp add: word_less_nat_alt unat_succ)
  have "\<forall>x y. unat (nonce_of db' x y) \<le> length (ms @ [?m])"
    using le nm by (auto simp: tab unat_succ le_SucI)
  moreover have "\<forall>m\<in>set (ms @ [?m]). wf_message m \<and> src_network m = n \<and> nonce m < nonce_of db' (src m) (dest m)"
    using ms lt conn by (auto simp: m tab wf_message_def intro: less_trans)
  moreover have "distinct (map (\<lambda>m. (src m, dest m, nonce m)) (ms @ [?m]))"
    using dist ms by (force simp: m)
  ultimately show "(\<forall>x y. unat (nonce_of db' x y) \<le> length (ms @ [?m])) \<and>
      (\<forall>m\<in>set (ms @ [?m]). wf_message m \<and> src_network m = n \<and> nonce m < nonce_of db' (src m) (dest m)) \<and>
      distinct (map (\<lambda>m. (src m, dest m, nonce m)) (ms @ [?m]))"
    by blast
qed

lemma transfer_nonce: "nonce_table (snd (chain_transfer conn a v db)) = nonce_table db"
  by (cases "transfer_from db (conn_address conn) a v")
    (simp_all add: chain_transfer_def write_tx_def transfer_from_nonce)

lemma withdraw_nonce: "nonce_table (snd (withdraw_funds conn gw v a db)) = nonce_table db"
  by (cases "ensure_admin conn db gw"; cases "transfer_from db gw a v")
    (simp_all add: withdraw_funds_def write_tx_def transfer_from_nonce)

lemma admin_nonce:
  "nonce_table (snd (redeploy_gateway conn gw db)) = nonce_table db"
  "nonce_table (snd (set_admin conn gw a db)) = nonce_table db"
  "nonce_table (snd (set_route conn gw r db)) = nonce_table db"
  by (cases "ensure_admin conn db gw";
      simp add: redeploy_gateway_def set_admin_def set_route_def write_tx_def Let_def)+

lemma deploy_nonce:
  "nonce_table (snd (deploy_gateway conn gw db)) = nonce_table db"
  "nonce_table (snd (deploy_test t gw db)) = nonce_table db"
  "nonce_table (inc_block db) = nonce_table db"
  "nonce_table (faucet conn v db) = nonce_table db"
  by (simp_all add: deploy_gateway_def deploy_test_def inc_block_def faucet_def write_tx_def)

lemmas chain_nonces =
  transfer_nonce withdraw_nonce admin_nonce deploy_nonce set_shards_nonce submit_commands_nonce

lemma nonces_inv_step:
  assumes "nonces_inv n st" "chain_step cfg n st st'"
  shows "nonces_inv n st'"
  using assms(2,1)
  by (induction rule: chain_step.induct)
    (simp_all only: nonces_inv_keep [OF _ chain_nonces(1)] nonces_inv_keep [OF _ chain_nonces(2)]
      nonces_inv_keep [OF _ chain_nonces(3)] nonces_inv_keep [OF _ chain_nonces(4)]
      nonces_inv_keep [OF _ chain_nonces(5)] nonces_inv_keep [OF _ chain_nonces(6)]
      nonces_inv_keep [OF _ chain_nonces(7)] nonces_inv_keep [OF _ chain_nonces(8)]
      nonces_inv_keep [OF _ chain_nonces(9)] nonces_inv_keep [OF _ chain_nonces(10)]
      nonces_inv_keep [OF _ chain_nonces(11)] nonces_inv_send)

lemma nonces_inv_empty: "nonces_inv n (empty_db, [])"
  by (simp add: nonces_inv_def empty_db_def nonce_of_def)

interpretation chain_states: step_invariant "\<lambda>st. st = (empty_db, [])" "chain_step cfg n" "nonces_inv n" for cfg n
  by unfold_locales (blast intro: nonces_inv_empty nonces_inv_step)+

text \<open>
  C29. The messages sent on a chain have different identifiers: in every
  state that the chain of a network reaches from its empty database, by whatever calls of its
  connectors and with fewer than \<open>2\<^sup>6\<^sup>4\<close> messages sent, no two of these messages have the same
  identifier, unless two different headers have the same Keccak digest.
\<close>

theorem message_ids_unique:
  assumes reached: "reach (\<lambda>st. st = (empty_db, [])) (chain_step cfg n) (db, ms)" and few: "length ms < 2 ^ 64"
    and keccak: "inj_on (keccak cfg) (encode_header ` set ms)"
  shows "distinct (map (message_id_of (keccak cfg)) ms)"
proof -
  have inv: "\<forall>m\<in>set ms. wf_message m" "distinct (map (\<lambda>m. (src m, dest m, nonce m)) ms)"
    using chain_states.reachable_inv [OF reached] few by (auto simp: nonces_inv_def)
  have "inj_on (message_id_of (keccak cfg)) (set ms)"
  proof (rule inj_onI)
    fix x y assume xy: "x \<in> set ms" "y \<in> set ms" "message_id_of (keccak cfg) x = message_id_of (keccak cfg) y"
    then have "encode_header x = encode_header y"
      using keccak by (auto simp: message_id_of_def dest: inj_onD)
    then have "(src x, dest x, nonce x) = (src y, dest y, nonce y)"
      using encode_header_inj inv(1) xy(1,2) by blast
    then show "x = y" using inv(2) xy(1,2) by (auto simp: distinct_map dest: inj_onD)
  qed
  then show ?thesis using inv(2) by (simp add: distinct_map)
qed

definition demo_tester :: address32 where
  "demo_tester = replicate 32 5"

definition demo_sent :: "nat \<Rightarrow> gmp_db" where
  "demo_sent k = ((\<lambda>db. snd (send_message test_config demo_conn demo_tester 2 demo_tester 0 0 [] db)) ^^ k)
     (snd (deploy_test demo_tester [7] empty_db))"

definition demo_messages :: "nat \<Rightarrow> gmp_message list" where
  "demo_messages k = map (\<lambda>i. next_message demo_conn demo_tester 2 demo_tester 0 0 [] (demo_sent i)) [0..<k]"

lemma demo_sent_reached: "reach (\<lambda>st. st = (empty_db, [])) (chain_step test_config 1) (demo_sent k, demo_messages k)"
proof (induction k)
  case 0
  have "reach (\<lambda>st. st = (empty_db, [])) (chain_step test_config 1) (empty_db, [])" by (rule reach_init) simp
  then have "reach (\<lambda>st. st = (empty_db, [])) (chain_step test_config 1) (snd (deploy_test demo_tester [7] empty_db), [])"
    by (rule reach_step) (rule step_test)
  then show ?case by (simp add: demo_sent_def demo_messages_def)
next
  case (Suc k)
  have gw: "sget (gateway_table (demo_sent i)) demo_tester = Some [7]" for i
    by (induction i) (simp_all add: demo_sent_def deploy_test_def write_tx_def send_message_def Let_def)
  have succ: "demo_sent (Suc k) = snd (send_message test_config demo_conn demo_tester 2 demo_tester 0 0 [] (demo_sent k))"
    by (simp add: demo_sent_def)
  have "chain_step test_config 1 (demo_sent k, demo_messages k)
      (demo_sent (Suc k), demo_messages k @ [next_message demo_conn demo_tester 2 demo_tester 0 0 [] (demo_sent k)])"
  proof (rule step_send)
    show "send_message test_config demo_conn demo_tester 2 demo_tester 0 0 [] (demo_sent k) =
        (Inr (message_id_of (keccak test_config) (next_message demo_conn demo_tester 2 demo_tester 0 0 [] (demo_sent k))),
         demo_sent (Suc k))"
      unfolding succ by (simp add: send_message_def write_tx_def Let_def gw)
  qed (simp_all add: demo_conn_def demo_tester_def)
  then show ?case using reach_step [OF Suc] by (simp add: demo_messages_def)
qed

theorem message_ids_unique_witness:
  "distinct (map (message_id_of (keccak test_config)) (demo_messages 3)) \<and> length (demo_messages 3) = 3"
  using message_ids_unique [OF demo_sent_reached, of 3]
  by (simp add: test_config_def inj_on_def) (simp add: demo_messages_def)

section \<open>Well-formed tables\<close>

text \<open>
  A table has at most one row per key, a multimap table holds the values of a key sorted and without
  duplicates, and a route is stored under its own network.
\<close>

definition routes_ok :: "(address32 \<times> network_id, gmp_route) smap \<Rightarrow> bool" where
  "routes_ok m \<longleftrightarrow> swf m \<and> (\<forall>gw n r. sget m (gw, n) = Some r \<longrightarrow> route_network_id r = n)"

definition db_wf :: "gmp_db \<Rightarrow> bool" where
  "db_wf db \<longleftrightarrow>
     swf (config_table db) \<and> swf (balance_table db) \<and> swf (admin_table db) \<and> swf (nonce_table db) \<and>
     swf (gateway_table db) \<and> routes_ok (routes_table db) \<and>
     mwf (events_table db) \<and> mwf (shards_table db) \<and> mwf (testers_table db)"

lemma db_wf_empty: "db_wf empty_db"
  by (simp add: db_wf_def empty_db_def routes_ok_def)

lemma db_wf_write:
  assumes "db_wf db" "\<And>x tx c. f db = Inr (x, tx, c) \<Longrightarrow> db_wf tx"
  shows "db_wf (snd (write_tx f db))"
  using assms by (cases "f db") (auto simp: write_tx_def)

lemma db_wf_chain_op: "db_wf tx \<Longrightarrow> db_wf (chain_op cfg gw c op tx)"
  by (cases op) (simp_all add: db_wf_def)

lemma db_wf_commands: "db_wf db \<Longrightarrow> db_wf (snd (submit_commands cfg conn gw b msg signer sig db))"
proof -
  assume wf: "db_wf db"
  have "db_wf (fold (chain_op cfg gw c) xs db)" for c xs
    using wf by (rule fold_invariant_set) (rule db_wf_chain_op)
  then have "db_wf (tx\<lparr>events_table := minsert (gw, c) e (events_table tx)\<rparr>)"
    if "tx = fold (chain_op cfg gw c) xs db" for tx c xs e
    using that by (auto simp: db_wf_def)
  then show ?thesis using wf by (simp add: submit_commands_def Let_def write_tx_def)
qed

lemma db_wf_shards:
  assumes wf: "db_wf db"
  shows "db_wf (snd (set_shards conn gw ks db))"
proof -
  have drop: "db_wf (fold (drop_old_shard gw c zs) us tx)" if "db_wf tx" for c zs us tx
    using that by (rule fold_invariant_set [where P = db_wf]) (simp add: drop_old_shard_def db_wf_def)
  have put: "db_wf (fold (put_new_shard gw c zs) us tx)" if "db_wf tx" for c zs us tx
    using that by (rule fold_invariant_set [where P = db_wf]) (simp add: put_new_shard_def db_wf_def Let_def)
  have "db_wf (db\<lparr>shards_table := sdel gw (shards_table db)\<rparr>)" using wf by (simp add: db_wf_def)
  from put [OF drop [OF this]] show ?thesis
    using wf by (cases "ensure_admin conn db gw") (simp_all add: set_shards_def write_tx_def Let_def)
qed

lemma merge_route_network: "route_network_id (merge_route new r) = route_network_id r"
  by (simp add: merge_route_def Let_def)

lemma routes_ok_set:
  assumes "routes_ok m"
  shows "routes_ok (sput (gw, route_network_id (merge_route new (value_or new (sget m (gw, route_network_id new)))))
    (merge_route new (value_or new (sget m (gw, route_network_id new)))) (sdel (gw, route_network_id new) m))"
proof -
  have "route_network_id (value_or new (sget m (gw, route_network_id new))) = route_network_id new"
    using assms by (cases "sget m (gw, route_network_id new)") (auto simp: routes_ok_def)
  then show ?thesis using assms by (auto simp: routes_ok_def merge_route_network)
qed

lemma db_wf_route: "db_wf db \<Longrightarrow> db_wf (snd (set_route conn gw r db))"
  by (cases "ensure_admin conn db gw")
    (auto simp: set_route_def write_tx_def Let_def db_wf_def routes_ok_set)

lemma db_wf_transfer_from: "db_wf db \<Longrightarrow> transfer_from db a b v = Inr db' \<Longrightarrow> db_wf db'"
  by (auto simp: transfer_from_eq db_wf_def)

lemma db_wf_transfer: "db_wf db \<Longrightarrow> db_wf (snd (chain_transfer conn a v db))"
  by (cases "transfer_from db (conn_address conn) a v")
    (auto simp: chain_transfer_def write_tx_def intro: db_wf_transfer_from)

lemma db_wf_withdraw: "db_wf db \<Longrightarrow> db_wf (snd (withdraw_funds conn gw v a db))"
  by (cases "ensure_admin conn db gw"; cases "transfer_from db gw a v")
    (auto simp: withdraw_funds_def write_tx_def intro: db_wf_transfer_from)

lemma db_wf_admin: "db_wf db \<Longrightarrow> db_wf (snd (redeploy_gateway conn gw db))"
  "db_wf db \<Longrightarrow> db_wf (snd (set_admin conn gw a db))"
  by (cases "ensure_admin conn db gw"; simp add: redeploy_gateway_def set_admin_def write_tx_def)+

lemma db_wf_deploy: "db_wf db \<Longrightarrow> db_wf (snd (deploy_gateway conn gw db))"
  "db_wf db \<Longrightarrow> db_wf (snd (deploy_test t gw db))" "db_wf db \<Longrightarrow> db_wf (inc_block db)" "db_wf db \<Longrightarrow> db_wf (faucet conn v db)"
  by (simp_all add: deploy_gateway_def deploy_test_def inc_block_def faucet_def write_tx_def db_wf_def)

lemma db_wf_send: "db_wf db \<Longrightarrow> send_message cfg conn a dn b gl gc bs db = (Inr mid, db') \<Longrightarrow> db_wf db'"
  by (auto simp: db_wf_def dest!: send_message_Inr)

lemmas db_wf_ops = db_wf_commands db_wf_shards db_wf_route db_wf_transfer db_wf_withdraw db_wf_admin db_wf_deploy

interpretation chain_tables: step_invariant "\<lambda>st. st = (empty_db, [])" "chain_step cfg n" "\<lambda>st. db_wf (fst st)" for cfg n
proof
  show "db_wf (fst st)" if "st = (empty_db, [])" for st :: "gmp_db \<times> gmp_message list"
    using that by (simp add: db_wf_empty)
  show "db_wf (fst st')" if "db_wf (fst st)" "chain_step cfg n st st'" for st st'
    using that(2,1) by (induction rule: chain_step.induct) (auto intro: db_wf_ops db_wf_send)
qed

lemma sorted_routes_distinct:
  assumes "routes_ok m"
  shows "distinct (map route_network_id (map snd (filter (\<lambda>e. fst (fst e) = gw) (sort_key fst m))))"
proof -
  let ?xs = "filter (\<lambda>e. fst (fst e) = gw) (sort_key fst m)"
  have "distinct (map fst (sort_key fst m))"
    using assms mset_eq_imp_distinct_iff [of "map fst (sort_key fst m)" "map fst m"] by (simp add: routes_ok_def swf_def)
  then have d: "distinct (map fst ?xs)" by (rule distinct_map_filter)
  have "inj_on snd (set (map fst ?xs))" by (auto simp: inj_on_def)
  with d have "distinct (map snd (map fst ?xs))" by (simp only: distinct_map [of snd])
  moreover have "map snd (map fst ?xs) = map route_network_id (map snd ?xs)"
    using assms by (auto simp: routes_ok_def sget_iff)
  ultimately show ?thesis by (simp only:)
qed

text \<open>
  The tables stay well formed: in every state that the chain of a network reaches from its empty database, by whatever
  calls of its connectors, each table has one row per key, each multimap table holds its values sorted and without
  duplicates, and each route is stored under its own network, so that a gateway has at most one route to a network.
\<close>

lemma chain_tables_wf:
  assumes "reach (\<lambda>st. st = (empty_db, [])) (chain_step cfg n) (db, ms)"
  shows "db_wf db" "distinct (map route_network_id (chain_routes gw db))"
proof -
  show "db_wf db" using chain_tables.reachable_inv [OF assms] by simp
  then have "routes_ok (routes_table db)" by (simp add: db_wf_def)
  then show "distinct (map route_network_id (chain_routes gw db))"
    unfolding chain_routes_def by (rule sorted_routes_distinct)
qed

text \<open>
  C30. In every reachable state of a chain the admin of a gateway, and nobody else, sets its shards: the shards are
  then the given keys, sorted and without duplicates, and those of all other gateways stay. In the current block
  the gateway emits exactly one event for each key that leaves and one for each key that is new, and no other event appears
  anywhere. The call of anybody else fails and changes nothing.
\<close>

theorem set_shards_exact:
  assumes "reach (\<lambda>st. st = (empty_db, [])) (chain_step cfg n) (db, ms)"
  shows "if sget (admin_table db) gw = Some (conn_address conn)
    then \<exists>db'. set_shards conn gw ks db = (Inr (), db') \<and> chain_shards gw db' = sorted_list_of_set (set ks) \<and>
      (\<forall>g. g = gw \<or> chain_shards g db' = chain_shards g db) \<and>
      (\<forall>k. distinct (mget (events_table db') k) \<and>
        set (mget (events_table db') k) = set (mget (events_table db) k) \<union>
          (if k = (gw, chain_block db)
           then ShardUnregistered ` (set (chain_shards gw db) - set ks) \<union>
                ShardRegistered ` (set ks - set (chain_shards gw db))
           else {}))
    else \<exists>e. set_shards conn gw ks db = (Inl e, db)"
proof (cases "sget (admin_table db) gw = Some (conn_address conn)")
  case True
  have wf: "db_wf db" by (rule chain_tables_wf [OF assms])
  then have m: "mwf (shards_table db)" by (simp add: db_wf_def)
  obtain db' where db': "set_shards conn gw ks db = (Inr (), db')"
    using True by (simp add: set_shards_def write_tx_def ensure_admin_def read_admin_def Let_def)
  have "db_wf db'" using db_wf_shards [OF wf, of conn gw ks] db' by simp
  then have "distinct (mget (events_table db') k)" for k by (cases k) (simp add: db_wf_def mwf_def)
  then show ?thesis using True db' set_shards_tables [OF m db'] by auto
next
  case False
  then show ?thesis
    by (auto simp: set_shards_def write_tx_def ensure_admin_def read_admin_def split: option.splits)
qed

theorem set_shards_exact_witness:
  "let db = snd (set_shards demo_conn [7] [[4], [2], [4]] demo_chain_gateway);
       db' = snd (set_shards demo_conn [7] [[3], [4]] db)
   in chain_shards [7] db' = [[3], [4]] \<and> ShardUnregistered [2] \<in> set (mget (events_table db') ([7], 0)) \<and>
     distinct (mget (events_table db') ([7], 0))"
proof -
  let ?db = "snd (set_shards demo_conn [7] [[4], [2], [4]] demo_chain_gateway)"
  have "reach (\<lambda>st. st = (empty_db, [])) (chain_step test_config 1) (empty_db, [])" by (rule reach_init) simp
  then have "reach (\<lambda>st. st = (empty_db, [])) (chain_step test_config 1) (demo_chain_gateway, [])"
    unfolding demo_chain_gateway_def by (rule reach_step) (rule step_deploy)
  then have r: "reach (\<lambda>st. st = (empty_db, [])) (chain_step test_config 1) (?db, [])"
    by (rule reach_step) (rule step_shards)
  have db: "shards_table ?db = [([7], [[2], [4]])]" "chain_block ?db = 0"
    "sget (admin_table ?db) [7] = Some (conn_address demo_conn)" by code_simp+
  have "chain_shards [7] ?db = [[2], [4]]" unfolding chain_shards_def db by (simp add: mget_def sget_def)
  with set_shards_exact [OF r, of "[7]" demo_conn "[[3], [4]]", unfolded if_P [OF db(3)]]
  show ?thesis by (auto simp: Let_def db(2))
qed

end
