(* ===== verification/Relay.thy ===== *)
theory Relay
  imports Chronicle_Tasks Connector_Properties Tasks_Run
begin

text \<open>
  The task executor between its two chains: the tasks pallet, which hands out the tasks and takes the
  results, and the simulated target chain of the connector. Extrinsics of the node are executed when they
  are submitted, and the shard signs what it is asked to sign; the storage of the networks and shards pallets
  does not change meanwhile.
\<close>

record relay_world =
  pallet :: tasks_store
  target :: gmp_db

text \<open>The calls of the executor answered by the models of the pallets and of the connector.\<close>

definition submit_extrinsic ::
  "config \<Rightarrow> networks_store \<Rightarrow> shards_store \<Rightarrow> account_id \<Rightarrow> task_id \<Rightarrow> task_result \<Rightarrow> relay_world \<Rightarrow>
     (node_error + unit) \<times> relay_world" where
  "submit_extrinsic cfg nets shs who i r w =
     (case submit_task_result cfg nets shs (Signed who) i r (pallet w) of
        Some (Inr s) \<Rightarrow> (Inr (), w\<lparr>pallet := s\<rparr>)
      | _ \<Rightarrow> (Inl (NodeError []), w))"

definition relay_params ::
  "config \<Rightarrow> networks_store \<Rightarrow> shards_store \<Rightarrow> connector \<Rightarrow> account_id \<Rightarrow> (bytes \<Rightarrow> tss_signature) \<Rightarrow>
     (bytes \<Rightarrow> bytes) \<Rightarrow> relay_world task_params" where
  "relay_params cfg nets shs conn who sign scale = \<lparr>
     network_of = conn_network conn,
     read_events_call = (\<lambda>gw a b cctp w. Inr (read_events gw a b (target w))),
     submit_commands_call = (\<lambda>gw b msg k sig w.
       (case submit_commands cfg conn gw b msg k sig (target w) of
          (r, db) \<Rightarrow> (map_sum (\<lambda>_. []) id r, w\<lparr>target := db\<rparr>))),
     finalized_block_call = (\<lambda>w. Inr (finalized_block (target w))),
     tss_sign = (\<lambda>block sh i data w. Inr (sign data)),
     get_gateway_call = (\<lambda>n bh w. Inr (network_gateway nets n)),
     get_cctp_info_call = (\<lambda>n bh w. Inr (case (get_cctp_contracts nets n, get_cctp_url nets n) of
       (Some cs, Some url) \<Rightarrow> Some (cs, url) | _ \<Rightarrow> None)),
     get_shard_tasks_call = (\<lambda>sh bh w. Inr (get_shard_tasks cfg (pallet w) sh)),
     get_task_call = (\<lambda>i bh w. Inr (get_task (pallet w) i)),
     get_batch_message_call = (\<lambda>b bh w. Inr (get_batch_message (pallet w) b)),
     get_shard_commitment_call = (\<lambda>sh bh w. Inr (get_shard_commitment shs sh)),
     submit_task_result_call = submit_extrinsic cfg nets shs who,
     scale_string = scale\<rparr>"

lemma MAX_GMP_EVENTS_pos [simp]: "0 < MAX_GMP_EVENTS"
  by (simp add: MAX_GMP_EVENTS_def)

section \<open>Messages in the queues\<close>

text \<open>The operations that a list of events queues for a network.\<close>

definition queued_for :: "network_id \<Rightarrow> gmp_event list \<Rightarrow> gateway_op list" where
  "queued_for d es = map SendMessage (filter (\<lambda>m. dest_network m = d) (List.map_filter received_message es))"

text \<open>Every queue is well formed and takes \<open>k\<close> more items.\<close>

definition queues_have_room :: "nat \<Rightarrow> 'v queue_store \<Rightarrow> bool" where
  "queues_have_room k q \<longleftrightarrow> (\<forall>d. queue_inv q d \<and> unat (insert_i q d) + k < 2 ^ 64)"

lemma queued_for_append: "queued_for d (xs @ ys) = queued_for d xs @ queued_for d ys"
  by (simp add: queued_for_def map_filter_append)

lemma queues_have_room_less: "queues_have_room k q \<Longrightarrow> j \<le> k \<Longrightarrow> queues_have_room j q"
  by (auto simp: queues_have_room_def intro: le_less_trans add_left_mono)

lemma queues_have_room_push:
  assumes "queues_have_room (Suc k) q"
  shows "queues_have_room k (queue_push d v q)" "queue_room q d" "queue_inv q d"
proof -
  show room: "queue_room q d" for d
  proof -
    have "unat (insert_i q d) + Suc k < 2 ^ 64" using assms by (simp add: queues_have_room_def)
    then show ?thesis by (simp add: queue_room_def not_max_unat)
  qed
  show "queue_inv q d" for d using assms by (simp add: queues_have_room_def)
  show "queues_have_room k (queue_push d v q)"
    unfolding queues_have_room_def
  proof (intro allI conjI)
    fix e
    show "queue_inv (queue_push d v q) e" using assms room by (auto simp: queues_have_room_def intro: queue_impl.push_inv)
    have "unat (insert_i q e) + Suc k < 2 ^ 64" using assms by (simp add: queues_have_room_def)
    then show "unat (insert_i (queue_push d v q) e) + k < 2 ^ 64" by (auto simp: unat_sat_succ min_def)
  qed
qed

lemma process_event_ops:
  "ops_queued (process_event cfg n i e s) =
     (case received_message e of None \<Rightarrow> ops_queued s
      | Some m \<Rightarrow> queue_push (dest_network m) (SendMessage m) (ops_queued s))"
proof -
  have "ops_queued (finish_task n j r t) = ops_queued t" for j r t
    by (simp add: finish_task_def deposit_event_def Let_def split: option.split)
  then show ?thesis by (cases e) (simp_all add: deposit_event_def Let_def split: option.split)
qed

lemma process_events_queue:
  assumes "queues_have_room (length es + k) (ops_queued s)"
  shows "queue_list (ops_queued (process_events cfg n i es s)) d = queue_list (ops_queued s) d @ queued_for d es"
    and "queues_have_room k (ops_queued (process_events cfg n i es s))"
proof -
  have "queue_list (ops_queued (process_events cfg n i es s)) d = queue_list (ops_queued s) d @ queued_for d es \<and>
      queues_have_room k (ops_queued (process_events cfg n i es s))"
    using assms
  proof (induction es arbitrary: s)
    case Nil
    then show ?case by (simp add: process_events_def queued_for_def List.map_filter_simps)
  next
    case (Cons e es)
    let ?t = "process_event cfg n i e s"
    have pe: "process_events cfg n i (e # es) s = process_events cfg n i es ?t" by (simp add: process_events_def)
    show ?case
    proof (cases "received_message e")
      case None
      then have q: "ops_queued ?t = ops_queued s" by (simp add: process_event_ops)
      with Cons.prems have "queues_have_room (length es + k) (ops_queued ?t)"
        by (auto elim: queues_have_room_less)
      from Cons.IH [OF this] show ?thesis
        by (simp add: pe q None queued_for_def List.map_filter_simps)
    next
      case (Some m)
      then have q: "ops_queued ?t = queue_push (dest_network m) (SendMessage m) (ops_queued s)"
        by (simp add: process_event_ops)
      have room: "queues_have_room (Suc (length es + k)) (ops_queued s)" using Cons.prems by simp
      note r = queues_have_room_push [OF room]
      have "queue_list (ops_queued ?t) d = queue_list (ops_queued s) d @ (if dest_network m = d then [SendMessage m] else [])"
        unfolding q by (simp add: contents_push [OF r(3,2)])
      with Cons.IH [of ?t] r(1) show ?thesis
        by (simp add: pe q Some queued_for_def List.map_filter_simps)
    qed
  qed
  then show "queue_list (ops_queued (process_events cfg n i es s)) d = queue_list (ops_queued s) d @ queued_for d es"
    and "queues_have_room k (ops_queued (process_events cfg n i es s))" by blast+
qed

section \<open>Reading events\<close>

text \<open>
  A read task that is being executed: it is assigned, unfinished, and no batch is submitted by it.
\<close>

definition reading :: "shard_id \<Rightarrow> task_id \<Rightarrow> u64 \<Rightarrow> u64 \<Rightarrow> tasks_store \<Rightarrow> bool" where
  "reading sh i start stop s \<longleftrightarrow>
     tasks s i = Some (ReadGatewayEvents start stop) \<and> task_output s i = None \<and> task_shard s i = Some sh \<and>
     (\<forall>b. batch_task_id s b \<noteq> Some i) \<and> i \<le> task_id_counter s"

lemma reading_finish_other:
  "reading sh i start stop s \<Longrightarrow> j \<noteq> i \<Longrightarrow> reading sh i start stop (finish_task n j r s)"
  by (auto simp: reading_def finish_task_def deposit_event_def Let_def split: option.split)

lemma reading_process_event:
  "reading sh i start stop s \<Longrightarrow> reading sh i start stop (process_event cfg n j e s)"
proof (cases e)
  case (BatchExecuted b h)
  assume r: "reading sh i start stop s"
  then have "reading sh i start stop (s\<lparr>pending_batches := sdel b (pending_batches s)\<rparr>)"
    "batch_task_id s b \<noteq> Some i" by (auto simp: reading_def)
  then have "reading sh i start stop (case batch_task_id s b of None \<Rightarrow> s\<lparr>pending_batches := sdel b (pending_batches s)\<rparr>
      | Some j \<Rightarrow> finish_task n j (Inr ()) (s\<lparr>pending_batches := sdel b (pending_batches s)\<rparr>))"
    by (auto intro: reading_finish_other split: option.split)
  then show ?thesis unfolding BatchExecuted
    by (cases h) (simp_all add: Let_def, simp add: reading_def)
qed (simp_all add: reading_def deposit_event_def Let_def)

lemma reading_process_events:
  "reading sh i start stop s \<Longrightarrow> reading sh i start stop (process_events cfg n j es s)"
  unfolding process_events_def by (rule fold_invariant_set) (auto intro: reading_process_event)

lemma process_events_counter: "task_id_counter (process_events cfg n i es s) = task_id_counter s"
proof -
  have "task_id_counter (finish_task n j r t) = task_id_counter t" for j r t
    by (simp add: finish_task_def deposit_event_def Let_def split: option.split)
  then have "task_id_counter (process_event cfg n i e t) = task_id_counter t" for e t
    by (cases e) (simp_all add: deposit_event_def Let_def split: option.split)
  then show ?thesis
    unfolding process_events_def by (induction es arbitrary: s) simp_all
qed

text \<open>
  What the pallet has done with a list of events: the messages are queued, the tasks whose batches were
  executed are finished, and no other result changes.
\<close>

definition only_finishes :: "tasks_store \<Rightarrow> tasks_store \<Rightarrow> bool" where
  "only_finishes s s' \<longleftrightarrow>
     (\<forall>j. task_output s' j = task_output s j \<or> (task_output s j = None \<and> task_output s' j = Some (Inr ())))"

definition relayed :: "gmp_event list \<Rightarrow> tasks_store \<Rightarrow> tasks_store \<Rightarrow> bool" where
  "relayed es s s' \<longleftrightarrow>
     (\<forall>d. queue_list (ops_queued s') d = queue_list (ops_queued s) d @ queued_for d es) \<and>
     batch_task_id s' = batch_task_id s \<and>
     only_finishes s s' \<and>
     (\<forall>b h j. BatchExecuted b h \<in> set es \<longrightarrow> batch_task_id s b = Some j \<longrightarrow> task_output s' j \<noteq> None)"

lemma only_finishesD: "only_finishes s s' \<Longrightarrow> task_output s j \<noteq> None \<Longrightarrow> task_output s' j \<noteq> None"
  by (metis only_finishes_def)

lemma only_finishes_refl [simp]: "only_finishes s s"
  by (simp add: only_finishes_def)

lemma only_finishes_trans: "only_finishes s t \<Longrightarrow> only_finishes t u \<Longrightarrow> only_finishes s u"
  unfolding only_finishes_def by metis

lemma only_finishes_finish [simp]: "only_finishes s (finish_task n i (Inr ()) s)"
  by (simp add: only_finishes_def)

lemma relayed_trans:
  assumes "relayed xs s t" "relayed ys t u"
  shows "relayed (xs @ ys) s u"
proof -
  have f: "only_finishes s t" "only_finishes t u" using assms by (simp_all add: relayed_def)
  have "task_output u j \<noteq> None" if "BatchExecuted b h \<in> set (xs @ ys)" "batch_task_id s b = Some j" for b h j
    using that assms only_finishesD [OF f(2)] by (auto simp: relayed_def)
  moreover have "queue_list (ops_queued u) d = queue_list (ops_queued s) d @ queued_for d (xs @ ys)" for d
    using assms by (simp add: relayed_def queued_for_append)
  ultimately show ?thesis
    using assms only_finishes_trans [OF f] by (simp add: relayed_def)
qed

lemma relayed_finish:
  assumes "relayed es s t"
  shows "relayed es s (finish_task n i (Inr ()) t)"
proof -
  have "ops_queued (finish_task n i (Inr ()) t) = ops_queued t"
    by (simp add: finish_task_def deposit_event_def Let_def split: option.split)
  moreover have "only_finishes s (finish_task n i (Inr ()) t)"
    using assms only_finishes_trans only_finishes_finish by (auto simp: relayed_def)
  ultimately show ?thesis
    using assms by (auto simp: relayed_def)
qed

lemma process_events_relayed:
  assumes "queues_have_room (length es + k) (ops_queued s)"
  shows "relayed es s (process_events cfg n i es s)"
proof -
  have "batch_task_id (process_events cfg n i es s) = batch_task_id s"
    unfolding process_events_def by (induction es arbitrary: s) (simp_all add: process_event_output(1))
  moreover have "task_output (process_events cfg n i es s) j \<noteq> None"
    if "BatchExecuted b h \<in> set es" "batch_task_id s b = Some j" for b h j
    using that by (intro process_events_output) (auto simp: reset_tasks_def)
  moreover have "only_finishes s (process_events cfg n i es s)"
  proof -
    have "only_finishes t (process_event cfg n i e t)" for e t
      by (cases e) (auto simp: only_finishes_def deposit_event_def Let_def split: option.split)
    then show ?thesis
      unfolding process_events_def
      by (intro fold_invariant_set [where P = "only_finishes s"]) (auto intro: only_finishes_trans)
  qed
  ultimately show ?thesis
    using process_events_queue(1) [OF assms] unfolding relayed_def by blast
qed

lemma continue_reading_step:
  assumes "reading sh i start stop s" "unat (task_id_counter s) + 1 < 2 ^ 64" "batch_size_of nets n \<noteq> 0"
  shows "\<exists>s1. continue_reading nets n (advance_sync_height n a b s) = Some s1 \<and> reading sh i start stop s1 \<and>
    relayed [] s s1 \<and> ops_queued s1 = ops_queued s \<and> unat (task_id_counter s1) \<le> unat (task_id_counter s) + 1"
proof -
  let ?s = "advance_sync_height n a b s"
  have q: "reading sh i start stop ?s" "ops_queued ?s = ops_queued s" "task_id_counter ?s = task_id_counter s"
      "relayed [] s ?s"
    using assms(1) by (simp_all add: advance_sync_height_def reading_def relayed_def only_finishes_def queued_for_def List.map_filter_simps)
  obtain sz where sz: "next_batch_size nets n (sync_height ?s n) = Some sz"
    using assms(3) by (auto simp: next_batch_size_def batch_size_of_def Let_def)
  let ?t = "snd (create_task n (ReadGatewayEvents (sync_height ?s n) (sat_add (sync_height ?s n) (ucast sz))) ?s)"
  have c: "unat (sat_succ (task_id_counter s)) = unat (task_id_counter s) + 1"
    using assms(2) by (simp add: unat_sat_succ)
  then have "i < sat_succ (task_id_counter s)"
    using assms(1) by (simp add: reading_def word_le_nat_alt word_less_nat_alt)
  then have "reading sh i start stop ?t" "relayed [] s ?t" "ops_queued ?t = ops_queued s"
    "unat (task_id_counter ?t) \<le> unat (task_id_counter s) + 1"
    using q c by (auto simp: reading_def relayed_def only_finishes_def create_task_def deposit_event_def Let_def)
  then show ?thesis using sz q by (simp add: continue_reading_def read_gateway_events_def Let_def)
qed

text \<open>A result with valid signature is accepted; it finishes the task unless it is full.\<close>

lemma submit_read_result:
  assumes r: "reading sh i start stop s" and n: "shard_network shs sh = Some n" and b: "batch_size_of nets n \<noteq> 0"
    and sig: "check_signature cfg shs sh (encode_gmp_events cfg i es) sig = Some (Inr ())"
    and c: "unat (task_id_counter s) + 1 < 2 ^ 64" and q: "queues_have_room (length es + k) (ops_queued s)"
  shows "\<exists>s'. submit_task_result cfg nets shs (Signed who) i (ReadGatewayEventsResult es sig) s = Some (Inr s') \<and>
    relayed es s s' \<and> queues_have_room k (ops_queued s') \<and>
    unat (task_id_counter s') \<le> unat (task_id_counter s) + 1 \<and>
    (if length es = MAX_GMP_EVENTS then reading sh i start stop s'
     else tasks s' i \<noteq> None \<and> task_output s' i = Some (Inr ()))"
proof -
  obtain s1 where s1: "continue_reading nets n (advance_sync_height n start stop s) = Some s1"
      "reading sh i start stop s1" "relayed [] s s1" "ops_queued s1 = ops_queued s"
      "unat (task_id_counter s1) \<le> unat (task_id_counter s) + 1"
    using continue_reading_step [OF r c b] by blast
  let ?s2 = "process_events cfg n i es s1"
  let ?s' = "if length es = MAX_GMP_EVENTS then ?s2 else finish_task n i (Inr ()) ?s2"
  have fin: "ops_queued (finish_task n i r t) = ops_queued t" "task_id_counter (finish_task n i r t) = task_id_counter t"
      "tasks (finish_task n i r t) = tasks t" for r t
    by (simp_all add: finish_task_def deposit_event_def Let_def split: option.split)
  have q1: "queues_have_room (length es + k) (ops_queued s1)" using q s1(4) by simp
  have rel: "relayed es s ?s2" using relayed_trans [OF s1(3) process_events_relayed [OF q1]] by simp
  have r2: "reading sh i start stop ?s2" using s1(2) by (rule reading_process_events)
  show ?thesis
  proof (intro exI conjI)
    show "submit_task_result cfg nets shs (Signed who) i (ReadGatewayEventsResult es sig) s = Some (Inr ?s')"
      using r n sig s1(1) by (simp add: submit_task_result_def reading_def Let_def)
    show "relayed es s ?s'" using rel relayed_finish by auto
    show "queues_have_room k (ops_queued ?s')" using process_events_queue(2) [OF q1] by (simp add: fin)
    show "unat (task_id_counter ?s') \<le> unat (task_id_counter s) + 1"
      using s1(5) by (simp add: fin process_events_counter)
    show "if length es = MAX_GMP_EVENTS then reading sh i start stop ?s'
        else tasks ?s' i \<noteq> None \<and> task_output ?s' i = Some (Inr ())"
      using r2 by (auto simp: fin reading_def)
  qed
qed

text \<open>What is known of the node and the chain while a shard works: its key and its signatures.\<close>

definition shard_signs :: "config \<Rightarrow> shards_store \<Rightarrow> shard_id \<Rightarrow> network_id \<Rightarrow> (bytes \<Rightarrow> tss_signature) \<Rightarrow> bool" where
  "shard_signs cfg shs sh n sign \<longleftrightarrow> shard_network shs sh = Some n \<and>
     (\<exists>k. tss_public_key shs sh = Some (Some k) \<and> (\<forall>data. verify_signature cfg k data (sign data)))"

lemma submit_chunk:
  assumes r: "reading sh i start stop s" and sg: "shard_signs cfg shs sh n sign" and b: "batch_size_of nets n \<noteq> 0"
    and c: "unat (task_id_counter s) + 1 < 2 ^ 64" and q: "queues_have_room (length es + k) (ops_queued s)"
    and len: "length es \<le> MAX_GMP_EVENTS"
  shows "\<exists>s'. submit_events cfg (relay_params cfg nets shs conn who sign scale) block sh i es (w\<lparr>pallet := s\<rparr>) =
      (Inr (), w\<lparr>pallet := s'\<rparr>) \<and>
    relayed es s s' \<and> queues_have_room k (ops_queued s') \<and>
    unat (task_id_counter s') \<le> unat (task_id_counter s) + 1 \<and>
    (if length es = MAX_GMP_EVENTS then reading sh i start stop s'
     else tasks s' i \<noteq> None \<and> task_output s' i = Some (Inr ()))"
proof -
  have "check_signature cfg shs sh data (sign data) = Some (Inr ())" "shard_network shs sh = Some n" for data
    using sg by (auto simp: shard_signs_def check_signature_def)
  from submit_read_result [OF r this(2) b this(1) c q, of who] show ?thesis
    using len by (auto simp: submit_events_def relay_params_def submit_extrinsic_def Let_def)
qed

text \<open>
  The loop over the chunks. It leaves the task unfinished exactly if the last chunk is full, and asks for a
  further submission exactly if it is not.
\<close>

lemma submit_chunks_relay:
  assumes "reading sh i start stop s" and sg: "shard_signs cfg shs sh n sign" and b: "batch_size_of nets n \<noteq> 0"
    and "unat (task_id_counter s) + length es < 2 ^ 64" and "queues_have_room (length es + k) (ops_queued s)"
    and "es \<noteq> []"
  shows "\<exists>s'. submit_chunks cfg (relay_params cfg nets shs conn who sign scale) block sh i (chunks MAX_GMP_EVENTS es) rem
      (w\<lparr>pallet := s\<rparr>) = (Inr (\<not> MAX_GMP_EVENTS dvd length es), w\<lparr>pallet := s'\<rparr>) \<and>
    relayed es s s' \<and>
    (if MAX_GMP_EVENTS dvd length es then reading sh i start stop s'
     else tasks s' i \<noteq> None \<and> task_output s' i = Some (Inr ()))"
  using assms(1,4-6)
proof (induction "length es" arbitrary: es s rem rule: less_induct)
  case less
  let ?P = "relay_params cfg nets shs conn who sign scale" and ?M = MAX_GMP_EVENTS
  let ?c = "take ?M es" and ?rest = "drop ?M es"
  have len: "length ?c + length ?rest = length es" by simp
  then have room: "queues_have_room (length ?c + (length ?rest + k)) (ops_queued s)"
    using less.prems(3) by (simp add: add.assoc [symmetric] del: length_take length_drop)
  have "0 < length es" using less.prems(4) by simp
  then have count: "unat (task_id_counter s) + 1 < 2 ^ 64" using less.prems(2) by linarith
  obtain s1 where s1: "submit_events cfg ?P block sh i ?c (w\<lparr>pallet := s\<rparr>) = (Inr (), w\<lparr>pallet := s1\<rparr>)"
      "relayed ?c s s1" "queues_have_room (length ?rest + k) (ops_queued s1)"
      "unat (task_id_counter s1) \<le> unat (task_id_counter s) + 1"
      "if length ?c = ?M then reading sh i start stop s1 else tasks s1 i \<noteq> None \<and> task_output s1 i = Some (Inr ())"
    using submit_chunk [OF less.prems(1) sg b count room, of conn who scale block w] by fastforce
  have ch: "chunks ?M es = ?c # chunks ?M ?rest" using less.prems(4) by (simp add: chunks_nonempty)
  show ?case
  proof (cases "?rest = []")
    case True
    then have all: "?c = es" "length es \<le> ?M" by simp_all
    then have "?M dvd length es \<longleftrightarrow> length es = ?M" using \<open>0 < length es\<close> by (auto dest: dvd_imp_le)
    then show ?thesis using s1 all by (intro exI [of _ s1]) (simp add: ch True)
  next
    case False
    then have full: "length ?c = ?M" "?M < length es" by simp_all
    then have d: "?M dvd length ?rest \<longleftrightarrow> ?M dvd length es" by (simp add: dvd_diff_nat dvd_minus_self)
    have "length ?rest < length es" using full(2) MAX_GMP_EVENTS_pos unfolding length_drop by linarith
    moreover have "unat (task_id_counter s1) + length ?rest < 2 ^ 64"
      using s1(4) less.prems(2) \<open>length ?rest < length es\<close> by linarith
    moreover have "reading sh i start stop s1" using s1(5) full(1) by simp
    ultimately obtain s' where s': "submit_chunks cfg ?P block sh i (chunks ?M ?rest) False (w\<lparr>pallet := s1\<rparr>) =
        (Inr (\<not> ?M dvd length ?rest), w\<lparr>pallet := s'\<rparr>)" "relayed ?rest s1 s'"
        "if ?M dvd length ?rest then reading sh i start stop s' else tasks s' i \<noteq> None \<and> task_output s' i = Some (Inr ())"
      using less.hyps [of ?rest s1 False] s1(3) False by blast
    have "relayed es s s'" using relayed_trans [OF s1(2) s'(2)] by simp
    then show ?thesis
      using s1(1) s' full(1) by (intro exI [of _ s']) (simp add: ch d [unfolded length_drop])
  qed
qed

lemma execute_read_relay:
  assumes "reading sh i start stop s" and "shard_signs cfg shs sh n sign" and "batch_size_of nets n \<noteq> 0"
    and "es = read_events gw start stop db"
    and "unat (task_id_counter s) + length es + 1 < 2 ^ 64" and "queues_have_room (length es) (ops_queued s)"
  shows "\<exists>s'. execute cfg (relay_params cfg nets shs conn who sign scale) bh block cctp n' gw sh i
      (ReadGatewayEvents start stop) \<lparr>pallet = s, target = db\<rparr> = Some (Inr (), \<lparr>pallet = s', target = db\<rparr>) \<and>
    relayed es s s' \<and>
    task_output s' i = (if es \<noteq> [] \<and> MAX_GMP_EVENTS dvd length es then None else Some (Inr ()))"
proof -
  let ?P = "relay_params cfg nets shs conn who sign scale" and ?w = "\<lparr>pallet = s, target = db\<rparr>"
  have rd: "read_events_call ?P gw start stop cctp ?w = Inr es" by (simp add: relay_params_def assms(4))
  have room: "queues_have_room (length es + 0) (ops_queued s)" using assms(6) by simp
  have empty: "submit_events cfg ?P block sh i [] \<lparr>pallet = t, target = db\<rparr> = (Inr (), \<lparr>pallet = t, target = db\<rparr>)"
    if "tasks t i \<noteq> None" "task_output t i = Some (Inr ())" for t
    using that by (auto simp: submit_events_def relay_params_def submit_extrinsic_def submit_task_result_def)
  show ?thesis
  proof (cases "es = []")
    case True
    have "unat (task_id_counter s) + 1 < 2 ^ 64" "queues_have_room (length ([] :: gmp_event list) + 0) (ops_queued s)"
      using assms(5) room True by simp_all
    from submit_chunk [OF assms(1-3) this, of conn who scale block ?w] obtain s' where
      "submit_events cfg ?P block sh i [] ?w = (Inr (), \<lparr>pallet = s', target = db\<rparr>)"
      "relayed [] s s'" "task_output s' i = Some (Inr ())"
      by (auto simp: MAX_GMP_EVENTS_def)
    then show ?thesis using rd True by (simp add: execute_def execute_read_def)
  next
    case False
    have "unat (task_id_counter s) + length es < 2 ^ 64" using assms(5) by simp
    from submit_chunks_relay [OF assms(1-3) this room False, of conn who scale block True ?w] obtain s' where
      "submit_chunks cfg ?P block sh i (chunks MAX_GMP_EVENTS es) True ?w =
        (Inr (\<not> MAX_GMP_EVENTS dvd length es), \<lparr>pallet = s', target = db\<rparr>)" "relayed es s s'"
      "if MAX_GMP_EVENTS dvd length es then reading sh i start stop s'
       else tasks s' i \<noteq> None \<and> task_output s' i = Some (Inr ())"
      by auto
    then show ?thesis using rd False empty by (auto simp: execute_def execute_read_def reading_def)
  qed
qed

end
