(* ===== verification/Relay_Properties.thy ===== *)
theory Relay_Properties
  imports Relay
begin

text \<open>
  What the pallet, the task executor and the target chain achieve together: events reach the pallet,
  batches reach the target chain and are reported back, and where this fails.
\<close>

section \<open>Reading events\<close>

text \<open>
  C27. A chronicle that executes a read task delivers every event of the range: the execution succeeds, and
  the pallet queues exactly the messages received by the gateway in these blocks, each for its
  destination network, in the order of the blocks. The task is finished, unless the number of events is
  a positive multiple of \<open>MAX_GMP_EVENTS\<close>: then the last chunk is full, the executor submits nothing
  more, and the task stays unfinished.
\<close>

theorem read_task_relays_events:
  assumes "reading sh i start stop s" and "shard_signs cfg shs sh n sign" and "batch_size_of nets n \<noteq> 0"
    and "es = read_events gw start stop db"
    and "unat (task_id_counter s) + length es + 1 < 2 ^ 64" and "queues_have_room (length es) (ops_queued s)"
  shows "\<exists>s'. execute cfg (relay_params cfg nets shs conn who sign scale) bh block cctp n' gw sh i
      (ReadGatewayEvents start stop) \<lparr>pallet = s, target = db\<rparr> = Some (Inr (), \<lparr>pallet = s', target = db\<rparr>) \<and>
    (\<forall>d. queue_list (ops_queued s') d = queue_list (ops_queued s) d @ queued_for d es) \<and>
    task_output s' i = (if es \<noteq> [] \<and> MAX_GMP_EVENTS dvd length es then None else Some (Inr ()))"
  using execute_read_relay [OF assms] unfolding relayed_def by blast

lemma demo_reading: "reading 0 1 0 32 demo_block"
  by (simp add: reading_def demo_defs)

lemma demo_signs: "shard_signs test_config demo_shards 0 1 (\<lambda>_. [])"
  by (simp add: shard_signs_def demo_defs tss_public_key_def verify_signature_def test_config_def)

lemma demo_batch_size: "batch_size_of demo_networks 1 \<noteq> 0"
  by (simp add: batch_size_of_def demo_defs)

lemma demo_room: "k < 1000000 \<Longrightarrow> queues_have_room k (ops_queued demo_block)"
  by (auto simp: queues_have_room_def queue_inv_def demo_defs insert_i_def remove_i_def empty_queue_def)

lemma demo_sent_events: "read_events [7] 0 32 (demo_sent 1) = [MessageReceived (hd (demo_messages 1))]"
proof -
  have table: "mget (events_table (demo_sent 1)) k = (if k = ([7], 0) then [MessageReceived (hd (demo_messages 1))] else [])" for k
    by (auto simp: demo_sent_def demo_messages_def send_message_def deploy_test_def write_tx_def Let_def mget_def minsert_def
        empty_db_def chain_block_def insort_insert_key_def)
  have "read_events [7] 1 32 (demo_sent 1) = []"
    by (auto simp: read_events_def table set_block_range simp del: One_nat_def)
  moreover have "read_events [7] 0 1 (demo_sent 1) = [MessageReceived (hd (demo_messages 1))]"
    using table [of "([7], 0)"] by (simp add: read_events_def block_range_def)
  ultimately show ?thesis using event_log.read_split [of 0 1 32 "[7]" "demo_sent 1"] by simp
qed

theorem read_task_relays_events_witness:
  "\<exists>s'. execute test_config (relay_params test_config demo_networks demo_shards demo_conn 5 (\<lambda>_. []) id)
      [] 0 None 1 [7] 0 1 (ReadGatewayEvents 0 32) \<lparr>pallet = demo_block, target = demo_sent 1\<rparr> =
      Some (Inr (), \<lparr>pallet = s', target = demo_sent 1\<rparr>) \<and>
    queue_list (ops_queued s') 2 = [SendMessage (hd (demo_messages 1))] \<and> task_output s' 1 = Some (Inr ())"
proof -
  let ?m = "hd (demo_messages 1)"
  have es: "[MessageReceived ?m] = read_events [7] 0 32 (demo_sent 1)" by (simp only: demo_sent_events)
  have "dest_network ?m = 2" by (simp add: demo_messages_def next_message_def)
  then have q: "queue_list (ops_queued demo_block) 2 @ queued_for 2 [MessageReceived ?m] = [SendMessage ?m]"
    by (simp add: queued_for_def queue_list_def demo_defs insert_i_def remove_i_def List.map_filter_simps)
  have "unat (task_id_counter demo_block) + length [MessageReceived ?m] + 1 < 2 ^ 64"
    "queues_have_room (length [MessageReceived ?m]) (ops_queued demo_block)"
    using demo_room [of 1] by (simp_all add: demo_defs)
  from read_task_relays_events [OF demo_reading demo_signs demo_batch_size es this,
      of demo_conn 5 id "[]" 0 None 1] q
  show ?thesis by (auto simp: MAX_GMP_EVENTS_def)
qed

section \<open>Full results\<close>

text \<open>
  A result with \<open>MAX_GMP_EVENTS\<close> events leaves its task unfinished, and the same signed result is
  accepted again, from any account: its messages are queued once more.
\<close>

theorem full_result_replays:
  assumes "reading sh i start stop s" "shard_network shs sh = Some n" "batch_size_of nets n \<noteq> 0"
    and "check_signature cfg shs sh (encode_gmp_events cfg i es) sig = Some (Inr ())"
    and "unat (task_id_counter s) + 2 < 2 ^ 64" "queues_have_room (2 * length es) (ops_queued s)"
    and "length es = MAX_GMP_EVENTS"
  shows "\<exists>s' s''.
    submit_task_result cfg nets shs (Signed who) i (ReadGatewayEventsResult es sig) s = Some (Inr s') \<and>
    submit_task_result cfg nets shs (Signed anyone) i (ReadGatewayEventsResult es sig) s' = Some (Inr s'') \<and>
    task_output s'' i = None \<and>
    (\<forall>d. queue_list (ops_queued s'') d = queue_list (ops_queued s) d @ queued_for d es @ queued_for d es)"
proof -
  have q: "queues_have_room (length es + length es) (ops_queued s)" using assms(6) by (simp add: mult_2)
  have c: "unat (task_id_counter s) + 1 < 2 ^ 64" using assms(5) by simp
  obtain s' where s': "submit_task_result cfg nets shs (Signed who) i (ReadGatewayEventsResult es sig) s = Some (Inr s')"
      "relayed es s s'" "queues_have_room (length es + 0) (ops_queued s')"
      "unat (task_id_counter s') \<le> unat (task_id_counter s) + 1" "reading sh i start stop s'"
    using submit_read_result [OF assms(1-4) c q, of who] assms(7) by auto
  have c': "unat (task_id_counter s') + 1 < 2 ^ 64" using s'(4) assms(5) by simp
  obtain s'' where "submit_task_result cfg nets shs (Signed anyone) i (ReadGatewayEventsResult es sig) s' = Some (Inr s'')"
      "relayed es s' s''" "reading sh i start stop s''"
    using submit_read_result [OF s'(5) assms(2-4) c' s'(3), of anyone] assms(7) by auto
  with s' show ?thesis by (auto simp: relayed_def reading_def)
qed

theorem full_result_replays_witness:
  "\<exists>s' s''. submit_task_result test_config demo_networks demo_shards (Signed 5) 1
      (ReadGatewayEventsResult (replicate 10000 (ShardRegistered [3])) []) demo_block = Some (Inr s') \<and>
    submit_task_result test_config demo_networks demo_shards (Signed 6) 1
      (ReadGatewayEventsResult (replicate 10000 (ShardRegistered [3])) []) s' = Some (Inr s'')"
proof -
  let ?es = "replicate 10000 (ShardRegistered [3])"
  have n: "shard_network demo_shards 0 = Some 1" by (simp add: demo_defs)
  have sig: "check_signature test_config demo_shards 0 (encode_gmp_events test_config 1 ?es) [] = Some (Inr ())"
    by (simp add: check_signature_def demo_defs tss_public_key_def verify_signature_def test_config_def)
  have len: "length ?es = MAX_GMP_EVENTS" by (simp add: MAX_GMP_EVENTS_def)
  have "queues_have_room (2 * length ?es) (ops_queued demo_block)"
    using demo_room [of 20000] by (simp)
  moreover have "unat (task_id_counter demo_block) + 2 < 2 ^ 64" by (simp add: demo_defs)
  ultimately show ?thesis
    using full_result_replays [OF demo_reading n demo_batch_size sig _ _ len, of 5 6] by blast
qed

section \<open>Submitting batches\<close>

lemma execute_submit_relay:
  assumes "batch_message s b = Some msg" and sg: "shard_signs cfg shs sh n sign"
  shows "\<exists>db'. execute cfg (relay_params cfg nets shs conn who sign scale) bh block cctp (conn_network conn) gw sh j
      (SubmitGatewayMessage b) \<lparr>pallet = s, target = db\<rparr> = Some (Inr (), \<lparr>pallet = s, target = db'\<rparr>) \<and>
    (\<exists>k. submit_commands cfg conn gw b msg k (sign (params_hash \<lparr>network = conn_network conn, gateway = gw\<rparr>
      (gateway_message_hash (keccak cfg) msg b))) db = (Inr (), db'))"
proof -
  let ?data = "params_hash \<lparr>network = conn_network conn, gateway = gw\<rparr> (gateway_message_hash (keccak cfg) msg b)"
  obtain k ks where k: "shard_commitment shs sh = Some (k # ks)" "verify_signature cfg k ?data (sign ?data)"
    using sg by (auto simp: shard_signs_def tss_public_key_def split: option.splits list.splits)
  then obtain db' where "submit_commands cfg conn gw b msg k (sign ?data) db = (Inr (), db')"
    by (auto simp: submit_commands_def Let_def write_tx_def)
  then show ?thesis
    using assms(1) k by (auto simp: execute_def execute_submit_def relay_params_def get_batch_message_def
        get_shard_commitment_def Let_def)
qed

lemma batch_reported:
  assumes "submit_commands cfg conn gw b msg k sig db = (Inr (), db')"
    and "start \<le> chain_block db" "chain_block db < stop"
  shows "BatchExecuted b None \<in> set (read_events gw start stop db')"
    and "SendMessage x \<in> set (msg_ops msg) \<Longrightarrow> x \<in> set (recv_messages (dest x) start stop db')"
proof -
  note ev = submit_commands_Inr(2) [OF assms(1), of _ "chain_block db"]
  have "BatchExecuted b None \<in> set (mget (events_table db') (gw, chain_block db))" using ev [of gw] by simp
  with assms(2,3) show "BatchExecuted b None \<in> set (read_events gw start stop db')"
    by (auto simp: set_read_events)
  have "MessageReceived x \<in> set (mget (events_table db') (dest x, chain_block db))"
    if "SendMessage x \<in> set (msg_ops msg)"
    using ev [of "dest x"] that by (auto intro!: bexI [of _ "SendMessage x"])
  with assms(2,3) show "x \<in> set (recv_messages (dest x) start stop db')" if "SendMessage x \<in> set (msg_ops msg)"
    using that by (auto simp: set_recv_messages set_read_events)
qed

text \<open>
  C28. A batch makes the round trip. A chronicle of a shard executes the
  task that submits the batch: every message of the batch arrives at its destination contract. When
  after that a range of blocks is read that holds the block of the batch, in whatever state the pallet is
  by then, the pallet learns that the batch was executed and finishes its task.
\<close>

theorem batch_round_trip:
  assumes batch: "batch_message s b = Some msg" and submitter: "shard_signs cfg shs sh m sign"
    and block: "start \<le> chain_block db" "chain_block db < stop"
  shows "\<exists>db'. execute cfg (relay_params cfg nets shs conn who sign scale) bh blk cctp (conn_network conn) gw sh j
      (SubmitGatewayMessage b) \<lparr>pallet = s, target = db\<rparr> = Some (Inr (), \<lparr>pallet = s, target = db'\<rparr>) \<and>
    (\<forall>x. SendMessage x \<in> set (msg_ops msg) \<longrightarrow> x \<in> set (recv_messages (dest x) start stop db')) \<and>
    (\<forall>t. reading sh' i start stop t \<and> shard_signs cfg shs sh' n sign' \<and> batch_size_of nets n \<noteq> 0 \<and>
       batch_task_id t b = Some j \<and> task_output t j = None \<and>
       unat (task_id_counter t) + length (read_events gw start stop db') + 1 < 2 ^ 64 \<and>
       queues_have_room (length (read_events gw start stop db')) (ops_queued t) \<longrightarrow>
       (\<exists>t'. execute cfg (relay_params cfg nets shs conn who' sign' scale') bh' blk' cctp' (conn_network conn) gw sh' i
          (ReadGatewayEvents start stop) \<lparr>pallet = t, target = db'\<rparr> = Some (Inr (), \<lparr>pallet = t', target = db'\<rparr>) \<and>
        task_output t' j = Some (Inr ())))"
proof -
  obtain db' k sig where db': "execute cfg (relay_params cfg nets shs conn who sign scale) bh blk cctp (conn_network conn) gw sh j
      (SubmitGatewayMessage b) \<lparr>pallet = s, target = db\<rparr> = Some (Inr (), \<lparr>pallet = s, target = db'\<rparr>)"
      "submit_commands cfg conn gw b msg k sig db = (Inr (), db')"
    using execute_submit_relay [OF batch submitter] by blast
  note rep = batch_reported [OF db'(2) block]
  have finishes: "\<exists>t'. execute cfg (relay_params cfg nets shs conn who' sign' scale') bh' blk' cctp' (conn_network conn) gw sh' i
        (ReadGatewayEvents start stop) \<lparr>pallet = t, target = db'\<rparr> = Some (Inr (), \<lparr>pallet = t', target = db'\<rparr>) \<and>
      task_output t' j = Some (Inr ())"
    if t: "reading sh' i start stop t" "shard_signs cfg shs sh' n sign'" "batch_size_of nets n \<noteq> 0"
      "batch_task_id t b = Some j" "task_output t j = None"
      "unat (task_id_counter t) + length (read_events gw start stop db') + 1 < 2 ^ 64"
      "queues_have_room (length (read_events gw start stop db')) (ops_queued t)" for t
  proof -
    obtain t' where t': "execute cfg (relay_params cfg nets shs conn who' sign' scale') bh' blk' cctp' (conn_network conn)
          gw sh' i (ReadGatewayEvents start stop) \<lparr>pallet = t, target = db'\<rparr> = Some (Inr (), \<lparr>pallet = t', target = db'\<rparr>)"
        "relayed (read_events gw start stop db') t t'"
      using execute_read_relay [OF t(1-3) refl t(6,7)] by blast
    then have "task_output t' j \<noteq> None" "only_finishes t t'"
      using rep(1) t(4) unfolding relayed_def by blast+
    then have "task_output t' j = Some (Inr ())" using t(5) unfolding only_finishes_def by metis
    with t'(1) show ?thesis by blast
  qed
  show ?thesis
    by (rule exI [of _ db'], rule conjI [OF db'(1)], rule conjI)
      (use rep(2) in blast, intro allI impI, elim conjE, rule finishes)
qed

definition demo_message :: gmp_message where
  "demo_message = \<lparr>src_network = 2, dest_network = 1, src = [8], dest = [9], nonce = 0, gas_limit = 0,
     gas_cost = 0, payload = []\<rparr>"

definition demo_batch :: tasks_store where
  "demo_batch = demo_block\<lparr>batch_message := [0 \<mapsto> GatewayMessage [SendMessage demo_message]]\<rparr>"

definition demo_delivered :: gmp_db where
  "demo_delivered = snd (submit_commands test_config demo_conn [7] 0 (GatewayMessage [SendMessage demo_message]) [7] [] empty_db)"

lemma demo_executes:
  "execute test_config (relay_params test_config demo_networks demo_shards demo_conn 5 (\<lambda>_. []) id)
      [] 0 None (conn_network demo_conn) [7] 0 2 (SubmitGatewayMessage 0) \<lparr>pallet = demo_batch, target = empty_db\<rparr> =
    Some (Inr (), \<lparr>pallet = demo_batch, target = demo_delivered\<rparr>)"
  by (simp add: execute_def execute_submit_def relay_params_def get_batch_message_def get_shard_commitment_def
      demo_batch_def demo_shards_def demo_delivered_def submit_commands_def verify_signature_def Let_def write_tx_def)
    (simp add: test_config_def)

lemma demo_delivered_events: "length (read_events [7] 0 32 demo_delivered) \<le> 2"
proof -
  have table: "mget (events_table demo_delivered) ([7], k) = (if k = 0 then
      insort_insert (BatchExecuted 0 None) [MessageExecuted (message_id_of (keccak test_config) demo_message)] else [])" for k
    by (auto simp: demo_delivered_def submit_commands_def verify_signature_def Let_def write_tx_def demo_message_def
        empty_db_def chain_block_def test_config_def insort_insert_key_def)
  have "read_events [7] 1 32 demo_delivered = []"
    by (auto simp: read_events_def table set_block_range)
  moreover have "length (read_events [7] 0 1 demo_delivered) \<le> 2"
    by (simp add: read_events_def table block_range_def insort_insert_key_def)
  ultimately show ?thesis using event_log.read_split [of 0 1 32 "[7]" demo_delivered] by simp
qed

theorem batch_round_trip_witness:
  "\<exists>db' t'. execute test_config (relay_params test_config demo_networks demo_shards demo_conn 5 (\<lambda>_. []) id)
      [] 0 None (conn_network demo_conn) [7] 0 2 (SubmitGatewayMessage 0) \<lparr>pallet = demo_batch, target = empty_db\<rparr> =
      Some (Inr (), \<lparr>pallet = demo_batch, target = db'\<rparr>) \<and>
    demo_message \<in> set (recv_messages [9] 0 32 db') \<and>
    execute test_config (relay_params test_config demo_networks demo_shards demo_conn 5 (\<lambda>_. []) id)
      [] 0 None (conn_network demo_conn) [7] 0 1 (ReadGatewayEvents 0 32) \<lparr>pallet = demo_batch, target = db'\<rparr> =
      Some (Inr (), \<lparr>pallet = t', target = db'\<rparr>) \<and> task_output t' 2 = Some (Inr ())"
proof -
  have b: "batch_message demo_batch 0 = Some (GatewayMessage [SendMessage demo_message])" by (simp add: demo_batch_def)
  have blk: "0 \<le> chain_block empty_db" "chain_block empty_db < 32" by (simp_all add: chain_block_def empty_db_def)
  let ?k = "length (read_events [7] 0 32 demo_delivered)"
  have t: "reading 0 1 0 32 demo_batch" "batch_task_id demo_batch 0 = Some 2" "task_output demo_batch 2 = None"
      "unat (task_id_counter demo_batch) + ?k + 1 < 2 ^ 64" "queues_have_room ?k (ops_queued demo_batch)"
    using demo_reading demo_room [of ?k] demo_delivered_events
    by (simp_all add: demo_batch_def reading_def) (simp_all add: demo_defs)
  from batch_round_trip [OF b demo_signs blk, where sh' = 0 and i = 1 and n = 1 and sign' = "\<lambda>_. []" and
      nets = demo_networks and conn = demo_conn and gw = "[7]" and j = 2]
  obtain db' where db': "execute test_config (relay_params test_config demo_networks demo_shards demo_conn 5 (\<lambda>_. []) id)
      [] 0 None (conn_network demo_conn) [7] 0 2 (SubmitGatewayMessage 0) \<lparr>pallet = demo_batch, target = empty_db\<rparr> =
      Some (Inr (), \<lparr>pallet = demo_batch, target = db'\<rparr>)"
    "demo_message \<in> set (recv_messages [9] 0 32 db')"
    "reading 0 1 0 32 t \<and> shard_signs test_config demo_shards 0 1 (\<lambda>_. []) \<and> batch_size_of demo_networks 1 \<noteq> 0 \<and>
       batch_task_id t 0 = Some 2 \<and> task_output t 2 = None \<and>
       unat (task_id_counter t) + length (read_events [7] 0 32 db') + 1 < 2 ^ 64 \<and>
       queues_have_room (length (read_events [7] 0 32 db')) (ops_queued t) \<Longrightarrow>
       \<exists>t'. execute test_config (relay_params test_config demo_networks demo_shards demo_conn 5 (\<lambda>_. []) id)
      [] 0 None (conn_network demo_conn) [7] 0 1 (ReadGatewayEvents 0 32) \<lparr>pallet = t, target = db'\<rparr> =
      Some (Inr (), \<lparr>pallet = t', target = db'\<rparr>) \<and> task_output t' 2 = Some (Inr ())" for t
    by (force simp: demo_message_def)
  then have "db' = demo_delivered" using demo_executes by simp
  with db' t demo_signs demo_batch_size show ?thesis by blast
qed

section \<open>The order of events within a block\<close>

text \<open>
  The events of a block are read in the order of their values, not in the order in which they
  happened. A shard that a batch unregisters and registers again is registered at the gateway, and unregistered
  for the pallet that has read the events.
\<close>

definition demo_reregistered :: gmp_db where
  "demo_reregistered =
     snd (submit_commands test_config demo_conn [7] 0 (GatewayMessage [UnregisterShard [2], RegisterShard [2]]) [] []
       (snd (set_shards demo_conn [7] [[2]] demo_chain_gateway)))"

theorem event_order_lost:
  "[2] \<in> set (chain_shards [7] demo_reregistered) \<and>
   shard_registered (process_events test_config 1 1 (read_events [7] 0 1 demo_reregistered) demo_block) [2] = None"
proof -
  have "read_events [7] 0 1 demo_reregistered = [ShardRegistered [2], ShardUnregistered [2], BatchExecuted 0 None]"
    by code_simp
  moreover have "chain_shards [7] demo_reregistered = [[2]]" by code_simp
  ultimately show ?thesis
    by (simp add: process_events_def finish_task_def deposit_event_def Let_def split: option.split)
qed

end
