(* ===== verification/Client_Calls.thy ===== *)
theory Client_Calls
  imports Extrinsics Registration Members
begin

text \<open>
  The transactions of \<open>tc-subxt\<close>: the calls that \<open>build_tx\<close> of \<open>worker.rs\<close> makes for them, directly or
  through the technical committee, and what becomes of these calls in the runtime, whose admin origin
  is set in \<open>runtime/src/configs/governance.rs\<close>.
\<close>

section \<open>Transactions and their calls\<close>

datatype tx =
    TxSetCode bytes
  | TxTransfer account_id u128
  | TxRegisterNetwork network_info
  | TxForceShardOffline shard_id
  | TxSetNetworkConfig network_id network_config
  | TxRegisterMember network_id public_key peer_id
  | TxUnregisterMember account_id
  | TxHeartbeat
  | TxCommitment shard_id commitment proof_of_knowledge
  | TxReady shard_id
  | TxSubmitTaskResult task_id task_result
  | TxSubmitGmpEvents network_id "gmp_event list"
  | TxRemoveTask task_id
  | TxRestartBatch batch_id

text \<open>A call as it is signed: by itself, or for the committee to execute, with the length of its encoding.\<close>

datatype call_payload = DirectCall runtime_call | CommitteeExecute runtime_call u32

definition sudo :: "(runtime_call \<Rightarrow> nat) \<Rightarrow> runtime_call \<Rightarrow> call_payload" where
  "sudo encoded_size call = CommitteeExecute call (of_nat (encoded_size call))"

fun tx_payload :: "(runtime_call \<Rightarrow> nat) \<Rightarrow> tx \<Rightarrow> call_payload" where
  "tx_payload sz (TxSetCode code) = sudo sz (SystemSetCode code)"
| "tx_payload sz (TxTransfer a amount) = DirectCall (BalancesTransferAllowDeath a amount)"
| "tx_payload sz (TxRegisterNetwork net) = sudo sz (NetworksRegisterNetwork net)"
| "tx_payload sz (TxForceShardOffline i) = sudo sz (ShardsForceShardOffline i)"
| "tx_payload sz (TxSetNetworkConfig n c) = sudo sz (NetworksSetNetworkConfig n c)"
| "tx_payload sz (TxRegisterMember n key peer) = sudo sz (MembersRegisterMember n key peer)"
| "tx_payload sz (TxUnregisterMember a) = DirectCall (MembersUnregisterMember a)"
| "tx_payload sz TxHeartbeat = DirectCall MembersSendHeartbeat"
| "tx_payload sz (TxCommitment i c pok) = DirectCall (ShardsCommit i c pok)"
| "tx_payload sz (TxReady i) = DirectCall (ShardsReady i)"
| "tx_payload sz (TxSubmitTaskResult i r) = DirectCall (TasksSubmitTaskResult i r)"
| "tx_payload sz (TxSubmitGmpEvents n es) = sudo sz (TasksSubmitGmpEvents n es)"
| "tx_payload sz (TxRemoveTask i) = sudo sz (TasksRemoveTask i)"
| "tx_payload sz (TxRestartBatch b) = sudo sz (TasksRestartBatch b)"

section \<open>Dispatch\<close>

datatype call_error =
    NetworksError networks_error
  | MembersError members_error
  | ShardsError shards_error
  | TasksError tasks_error
  | SdkError

definition lift_call :: "('e \<Rightarrow> call_error) \<Rightarrow> ('s \<Rightarrow> runtime) \<Rightarrow> ('e, 's) dispatch \<Rightarrow> (call_error, runtime) dispatch" where
  "lift_call err rt = map_option (map_sum (map_dispatch_error err) rt)"

text \<open>
  What the runtime takes from \<open>polkadot-sdk\<close>: the calls of its pallets, and the origin with which the
  technical committee executes a call for an account, if the account is a member.
\<close>

record sdk =
  sdk_dispatch :: "origin \<Rightarrow> runtime_call \<Rightarrow> runtime \<Rightarrow> (call_error, runtime) dispatch"
  committee_execute_origin :: "account_id \<Rightarrow> origin option"

fun dispatch_call :: "config \<Rightarrow> sdk \<Rightarrow> origin \<Rightarrow> runtime_call \<Rightarrow> runtime \<Rightarrow> (call_error, runtime) dispatch" where
  "dispatch_call cfg S orig (NetworksRegisterNetwork net) rt = lift_call NetworksError id (register_network cfg orig net rt)"
| "dispatch_call cfg S orig (NetworksSetNetworkConfig n c) rt =
     lift_call NetworksError (\<lambda>s. rt\<lparr>networks_of := s\<rparr>) (set_network_config cfg orig n c (networks_of rt))"
| "dispatch_call cfg S orig (MembersRegisterMember n key peer) rt =
     lift_call MembersError id (register_member cfg orig n key peer rt)"
| "dispatch_call cfg S orig (MembersUnregisterMember a) rt = lift_call MembersError id (unregister_member cfg orig a rt)"
| "dispatch_call cfg S orig MembersSendHeartbeat rt = lift_call MembersError id (send_heartbeat orig rt)"
| "dispatch_call cfg S orig (ShardsCommit i c pok) rt = lift_call ShardsError id (commit cfg orig i c pok rt)"
| "dispatch_call cfg S orig (ShardsReady i) rt = lift_call ShardsError id (ready cfg orig i rt)"
| "dispatch_call cfg S orig (ShardsForceShardOffline i) rt = lift_call ShardsError id (force_shard_offline cfg orig i rt)"
| "dispatch_call cfg S orig (TasksSubmitTaskResult i r) rt =
     lift_call TasksError (\<lambda>s. rt\<lparr>tasks_of := s\<rparr>)
       (submit_task_result cfg (networks_of rt) (shards_of rt) orig i r (tasks_of rt))"
| "dispatch_call cfg S orig (TasksSubmitGmpEvents n es) rt =
     lift_call TasksError (\<lambda>s. rt\<lparr>tasks_of := s\<rparr>) (submit_gmp_events cfg orig n es (tasks_of rt))"
| "dispatch_call cfg S orig (TasksRemoveTask i) rt =
     lift_call TasksError (\<lambda>s. rt\<lparr>tasks_of := s\<rparr>) (remove_task cfg orig i (tasks_of rt))"
| "dispatch_call cfg S orig (TasksRestartBatch b) rt =
     lift_call TasksError (\<lambda>s. rt\<lparr>tasks_of := s\<rparr>) (restart_batch cfg orig b (tasks_of rt))"
| "dispatch_call cfg S orig call rt = sdk_dispatch S orig call rt"

text \<open>
  The extrinsic of an account with a payload. The result of a call that the committee executes is the result of that call,
  which the committee reports in its event \<open>MemberExecuted\<close> (the extrinsic around it succeeds).
\<close>

fun dispatch_payload ::
  "config \<Rightarrow> sdk \<Rightarrow> account_id \<Rightarrow> call_payload \<Rightarrow> runtime \<Rightarrow> (call_error, runtime) dispatch" where
  "dispatch_payload cfg S who (DirectCall call) rt = dispatch_call cfg S (Signed who) call rt"
| "dispatch_payload cfg S who (CommitteeExecute call len) rt =
     (case committee_execute_origin S who of
        None \<Rightarrow> Some (Inl (ModuleError SdkError))
      | Some orig \<Rightarrow> dispatch_call cfg S orig call rt)"

section \<open>Origins\<close>

text \<open>
  \<open>DefaultAdminOrigin\<close>: root or half of the committee on the main network, root or any member of the
  committee on test networks.
\<close>

definition technical_half :: "origin \<Rightarrow> bool" where
  "technical_half orig = (case orig of CommitteeMembers n m \<Rightarrow> unat n * 2 \<ge> unat m | _ \<Rightarrow> False)"

definition technical_member :: "origin \<Rightarrow> bool" where
  "technical_member orig = (case orig of CommitteeMember a \<Rightarrow> True | _ \<Rightarrow> False)"

definition default_admin_origin :: "bool \<Rightarrow> origin \<Rightarrow> bool" where
  "default_admin_origin testnet orig \<longleftrightarrow>
     orig = Root \<or> (if testnet then technical_member orig else technical_half orig)"

definition through_committee :: "tx \<Rightarrow> bool" where
  "through_committee t = (case tx_payload (\<lambda>_. 0) t of DirectCall _ \<Rightarrow> False | CommitteeExecute _ _ \<Rightarrow> True)"

lemma dispatch_of_not_BadOrigin [simp]: "dispatch_of r \<noteq> Some (Inl BadOrigin)"
  by (auto simp: dispatch_of_def split: sum.splits)

lemma lift_call_BadOrigin [simp]: "lift_call f g r = Some (Inl BadOrigin) \<longleftrightarrow> r = Some (Inl BadOrigin)"
proof -
  have e: "map_dispatch_error f x = BadOrigin \<longleftrightarrow> x = BadOrigin" for x by (cases x) simp_all
  show ?thesis
    by (cases r; cases "the r") (simp_all add: lift_call_def e)
qed

text \<open>A call is refused for its origin exactly if it is no signed origin, respectively no admin origin.\<close>

lemma signed_calls_origin:
  "send_heartbeat (Signed a) rt \<noteq> Some (Inl BadOrigin)"
  "commit cfg (Signed a) i c pok rt \<noteq> Some (Inl BadOrigin)"
  "ready cfg (Signed a) i rt \<noteq> Some (Inl BadOrigin)"
  by (simp_all add: send_heartbeat_def commit_def ready_def)

lemma submit_task_result_origin:
  "submit_task_result cfg nets shs (Signed a) i r s \<noteq> Some (Inl BadOrigin)"
  by (auto simp: submit_task_result_def Let_def split: option.splits sum.splits task.splits task_result.splits if_splits)

lemma admin_calls_origin:
  "register_network cfg orig net rt = Some (Inl BadOrigin) \<longleftrightarrow> \<not> admin_origin cfg orig"
  "set_network_config cfg orig n c ns = Some (Inl BadOrigin) \<longleftrightarrow> \<not> admin_origin cfg orig"
  "register_member cfg orig n key peer rt = Some (Inl BadOrigin) \<longleftrightarrow> \<not> admin_origin cfg orig"
  "unregister_member cfg orig a rt = Some (Inl BadOrigin) \<longleftrightarrow> \<not> admin_origin cfg orig"
  "force_shard_offline cfg orig sh rt = Some (Inl BadOrigin) \<longleftrightarrow> \<not> admin_origin cfg orig"
  "submit_gmp_events cfg orig n es s = Some (Inl BadOrigin) \<longleftrightarrow> \<not> admin_origin cfg orig"
  "remove_task cfg orig i s = Some (Inl BadOrigin) \<longleftrightarrow> \<not> admin_origin cfg orig"
  "restart_batch cfg orig b s = Some (Inl BadOrigin) \<longleftrightarrow> \<not> admin_origin cfg orig"
  by (simp_all add: register_network_def set_network_config_def register_member_def unregister_member_def
      force_shard_offline_def submit_gmp_events_def remove_task_def restart_batch_def Let_def
      split: sum.splits option.splits prod.splits)

lemmas calls_origin = signed_calls_origin submit_task_result_origin admin_calls_origin

lemma admin_origin_of:
  "\<not> default_admin_origin testnet (Signed a)" "default_admin_origin testnet (CommitteeMember a) \<longleftrightarrow> testnet"
  by (simp_all add: default_admin_origin_def technical_half_def technical_member_def)

text \<open>
  C38. Which transactions of the client the runtime refuses for their origin, when a member of the
  technical committee sends them: of the transactions for the pallets of this repository the ones that
  remove a member, always, since the client signs the call itself while the pallet asks for the admin origin;
  and on the main network every one that goes through the committee, since a single member is not half of it. A
  transaction that sets the code is refused in any case: the system pallet asks for root.
\<close>

theorem client_calls_authorised:
  assumes admin: "admin_origin cfg = default_admin_origin testnet"
    and member: "committee_execute_origin S who = Some (CommitteeMember who)"
    and system: "\<And>orig code rt. orig \<noteq> Root \<Longrightarrow> sdk_dispatch S orig (SystemSetCode code) rt = Some (Inl BadOrigin)"
    and balances: "\<And>a b amount rt. sdk_dispatch S (Signed a) (BalancesTransferAllowDeath b amount) rt \<noteq> Some (Inl BadOrigin)"
  shows "dispatch_payload cfg S who (tx_payload sz t) rt = Some (Inl BadOrigin) \<longleftrightarrow>
    (case t of TxUnregisterMember a \<Rightarrow> True | TxSetCode code \<Rightarrow> True | _ \<Rightarrow> through_committee t \<and> \<not> testnet)"
  by (cases t) (simp_all add: sudo_def member system balances through_committee_def calls_origin admin admin_origin_of)

definition demo_sdk :: sdk where
  "demo_sdk = \<lparr>sdk_dispatch = (\<lambda>orig call rt. case call of
       BalancesTransferAllowDeath a amount \<Rightarrow> if ensure_signed orig = None then Some (Inl BadOrigin) else Some (Inr rt)
     | _ \<Rightarrow> if orig = Root then Some (Inr rt) else Some (Inl BadOrigin)),
     committee_execute_origin = (\<lambda>a. if a = 1 then Some (CommitteeMember a) else None)\<rparr>"

lemma demo_sdk_laws:
  "committee_execute_origin demo_sdk 1 = Some (CommitteeMember 1)"
  "orig \<noteq> Root \<Longrightarrow> sdk_dispatch demo_sdk orig (SystemSetCode code) rt = Some (Inl BadOrigin)"
  "sdk_dispatch demo_sdk (Signed a) (BalancesTransferAllowDeath b amount) rt \<noteq> Some (Inl BadOrigin)"
  by (simp_all add: demo_sdk_def)

definition demo_admin :: "bool \<Rightarrow> config" where
  "demo_admin testnet = test_config\<lparr>admin_origin := default_admin_origin testnet\<rparr>"

theorem client_calls_authorised_witness:
  "dispatch_payload (demo_admin True) demo_sdk 1 (tx_payload (\<lambda>_. 0) (TxUnregisterMember 2)) empty_runtime =
     Some (Inl BadOrigin) \<and>
   dispatch_payload (demo_admin True) demo_sdk 1 (tx_payload (\<lambda>_. 0) (TxRemoveTask 2)) empty_runtime \<noteq>
     Some (Inl BadOrigin) \<and>
   dispatch_payload (demo_admin False) demo_sdk 1 (tx_payload (\<lambda>_. 0) (TxRemoveTask 2)) empty_runtime =
     Some (Inl BadOrigin)"
proof -
  have "admin_origin (demo_admin testnet) = default_admin_origin testnet" for testnet by (simp add: demo_admin_def)
  from client_calls_authorised [OF this demo_sdk_laws] show ?thesis
    by (simp del: tx_payload.simps dispatch_payload.simps add: through_committee_def)
      (simp add: sudo_def)
qed

text \<open>The transactions of the chronicles are exempt from fees; no other transaction is.\<close>

lemma chronicle_txs_feeless:
  "(case tx_payload sz t of DirectCall call \<Rightarrow> is_feeless call | CommitteeExecute _ _ \<Rightarrow> False) \<longleftrightarrow>
   (case t of TxHeartbeat \<Rightarrow> True | TxCommitment _ _ _ \<Rightarrow> True | TxReady _ \<Rightarrow> True
      | TxSubmitTaskResult _ _ \<Rightarrow> True | _ \<Rightarrow> False)"
  by (cases t) (simp_all add: sudo_def)

end
