(* ===== verification/Tx_Worker.thy ===== *)
theory Tx_Worker
  imports Client_Calls "HOL-Library.List_Lexorder"
begin

text \<open>
  The worker of \<open>tc-subxt/src/worker.rs\<close>, which signs and submits the transactions of a client, watches
  the blocks for them, submits outdated ones again and answers the callers, and its database of pending
  transactions of \<open>tc-subxt/src/db.rs\<close>. The branches of its \<open>select!\<close> loop are the operations of this
  theory; a panic of the loop is \<open>None\<close>. Branches that only log leave no trace in the state, and so do the
  streams that are opened again after an error.
\<close>

section \<open>What the worker takes from outside\<close>

text \<open>
  \<open>sign_payload\<close> signs with a nonce and a mortality; signatures are randomised, its first argument counts
  the calls. \<open>submittable_hash\<close> and \<open>extrinsic_hash\<close> are the hashes of an encoded extrinsic and of an extrinsic of a
  block. The codec of the database is the derived one of \<open>parity_scale_codec\<close>, and \<open>disk_ok\<close> says which
  write transactions of \<open>redb\<close> succeed.
\<close>

record tx_data =
  td_hash :: tx_hash
  td_era :: u64
  td_nonce :: u64
  td_transaction :: tx

record 'x timechain_client =
  call_size :: "runtime_call \<Rightarrow> nat"
  sign_payload :: "nat \<Rightarrow> call_payload \<Rightarrow> u64 \<Rightarrow> u64 \<Rightarrow> bytes"
  submittable_hash :: "bytes \<Rightarrow> tx_hash"
  extrinsic_hash :: "'x \<Rightarrow> tx_hash"
  encode_tx_data :: "tx_data \<Rightarrow> bytes"
  decode_tx_data :: "bytes \<Rightarrow> tx_data option"
  disk_ok :: "nat \<Rightarrow> bool"

definition MORTALITY :: u8 where
  "MORTALITY = 32"

section \<open>The database\<close>

record transactions_db =
  tx_table :: "(bytes, bytes) smap"
  db_public_key :: bytes
  db_writes :: nat

datatype db_error = WriteFailed | DecodeFailed

text \<open>A write transaction: it is committed, or fails and leaves the table alone.\<close>

definition write_table ::
  "'x timechain_client \<Rightarrow> ((bytes, bytes) smap \<Rightarrow> (bytes, bytes) smap) \<Rightarrow> transactions_db \<Rightarrow> (db_error + unit) \<times> transactions_db" where
  "write_table C f db =
     (let db1 = db\<lparr>db_writes := Suc (db_writes db)\<rparr>
      in if disk_ok C (db_writes db) then (Inr (), db1\<lparr>tx_table := f (tx_table db)\<rparr>) else (Inl WriteFailed, db1))"

definition composite_key :: "transactions_db \<Rightarrow> tx_hash \<Rightarrow> bytes" where
  "composite_key db hash = db_public_key db @ hash"

definition store_tx :: "'x timechain_client \<Rightarrow> tx_data \<Rightarrow> transactions_db \<Rightarrow> (db_error + unit) \<times> transactions_db" where
  "store_tx C d db = write_table C (sput (composite_key db (td_hash d)) (encode_tx_data C d)) db"

definition remove_tx :: "'x timechain_client \<Rightarrow> tx_hash \<Rightarrow> transactions_db \<Rightarrow> (db_error + unit) \<times> transactions_db" where
  "remove_tx C hash db = write_table C (sdel (composite_key db hash)) db"

text \<open>The entries in a range of keys, in the order of the keys.\<close>

definition key_range :: "bytes \<Rightarrow> bytes \<Rightarrow> (bytes, bytes) smap \<Rightarrow> (bytes \<times> bytes) list" where
  "key_range lower upper m = sort_key fst (filter (\<lambda>e. lower \<le> fst e \<and> fst e \<le> upper) m)"

text \<open>The loop over the entries: the keys to delete, the transactions still pending.\<close>

fun sort_out :: "'x timechain_client \<Rightarrow> u64 \<Rightarrow> (bytes \<times> bytes) list \<Rightarrow> db_error + (bytes list \<times> tx_data list)" where
  "sort_out C n [] = Inr ([], [])"
| "sort_out C n ((k, v) # es) =
     (case decode_tx_data C v of
        None \<Rightarrow> Inl DecodeFailed
      | Some d \<Rightarrow>
          map_sum id (\<lambda>(ks, ds). if td_nonce d < n then (k # ks, ds) else (ks, d # ds)) (sort_out C n es))"

definition load_pending_txs ::
  "'x timechain_client \<Rightarrow> u64 \<Rightarrow> transactions_db \<Rightarrow> (db_error + tx_data list) \<times> transactions_db" where
  "load_pending_txs C n db =
     (let lower = db_public_key db @ replicate 32 0; upper = db_public_key db @ replicate 32 (- 1)
      in case sort_out C n (key_range lower upper (tx_table db)) of
           Inl e \<Rightarrow> (Inl e, db)
         | Inr (ks, ds) \<Rightarrow>
             (case write_table C (fold sdel ks) db of
                (Inl e, db') \<Rightarrow> (Inl e, db')
              | (Inr _, db') \<Rightarrow> (Inr (sort_key td_nonce ds), db')))"

section \<open>The worker\<close>

text \<open>A caller waits at the receiver of a channel, named by a number.\<close>

record tx_status =
  ts_data :: tx_data
  event_sender :: "nat option"
  best_block :: "u64 option"

record block_id =
  bid_number :: u64
  bid_hash :: bytes

text \<open>
  The pool holds the submitted extrinsics, of which a completed one is only logged; \<open>answers\<close> are the
  extrinsics sent to the callers, \<open>signings\<close> counts the calls of \<open>sign_payload\<close>.
\<close>

record 'x subxt_worker =
  worker_nonce :: u64
  latest_block :: block_id
  pending_tx :: "tx_status list"
  transaction_pool :: "bytes list"
  worker_db :: transactions_db
  signings :: nat
  answers :: "(nat \<times> 'x) list"

definition worker_new :: "'x timechain_client \<Rightarrow> u64 \<Rightarrow> block_id \<Rightarrow> transactions_db \<Rightarrow> db_error + 'x subxt_worker" where
  "worker_new C n latest db =
     (case load_pending_txs C n db of
        (Inl e, _) \<Rightarrow> Inl e
      | (Inr ds, db') \<Rightarrow> Inr \<lparr>worker_nonce = n, latest_block = latest,
          pending_tx = map (\<lambda>d. \<lparr>ts_data = d, event_sender = None, best_block = None\<rparr>) ds,
          transaction_pool = [], worker_db = db', signings = 0, answers = []\<rparr>)"

definition build_tx :: "'x timechain_client \<Rightarrow> tx \<Rightarrow> u64 \<Rightarrow> u64 \<Rightarrow> 'x subxt_worker \<Rightarrow> bytes \<times> 'x subxt_worker" where
  "build_tx C t n mortality w =
     (sign_payload C (signings w) (tx_payload (call_size C) t) n mortality, w\<lparr>signings := Suc (signings w)\<rparr>)"

definition add_tx_to_pool ::
  "'x timechain_client \<Rightarrow> tx \<Rightarrow> nat option \<Rightarrow> u64 option \<Rightarrow> 'x subxt_worker \<Rightarrow> 'x subxt_worker" where
  "add_tx_to_pool C t sender nonce_opt w =
     (let n = (case nonce_opt of Some n \<Rightarrow> n | None \<Rightarrow> worker_nonce w);
          (ext, w1) = build_tx C t n (ucast MORTALITY) w;
          status = \<lparr>ts_data = \<lparr>td_hash = submittable_hash C ext,
                       td_era = bid_number (latest_block w1) + ucast MORTALITY, td_nonce = n, td_transaction = t\<rparr>,
                     event_sender = sender, best_block = None\<rparr>;
          w2 = w1\<lparr>worker_db := snd (store_tx C (ts_data status) (worker_db w1))\<rparr>;
          w3 = (case nonce_opt of
                  None \<Rightarrow> w2\<lparr>pending_tx := pending_tx w2 @ [status], worker_nonce := worker_nonce w2 + 1\<rparr>
                | Some _ \<Rightarrow> w2\<lparr>pending_tx := status # pending_tx w2\<rparr>)
      in w3\<lparr>transaction_pool := transaction_pool w3 @ [ext]\<rparr>)"

text \<open>The first branch: a request of a caller.\<close>

definition on_request :: "'x timechain_client \<Rightarrow> tx \<Rightarrow> nat \<Rightarrow> 'x subxt_worker \<Rightarrow> 'x subxt_worker" where
  "on_request C t channel w = add_tx_to_pool C t (Some channel) None w"

text \<open>The branch of the finalized blocks. A recovered transaction has no caller, and its extrinsic panics.\<close>

definition finalize_extrinsic :: "'x timechain_client \<Rightarrow> 'x \<Rightarrow> 'x subxt_worker \<Rightarrow> 'x subxt_worker option" where
  "finalize_extrinsic C x w =
     (case pending_tx w of
        [] \<Rightarrow> Some w
      | t # ts \<Rightarrow>
          if extrinsic_hash C x = td_hash (ts_data t)
          then (let w1 = w\<lparr>pending_tx := ts, worker_db := snd (remove_tx C (td_hash (ts_data t)) (worker_db w))\<rparr>
                in case event_sender t of
                     None \<Rightarrow> None
                   | Some channel \<Rightarrow> Some (w1\<lparr>answers := answers w1 @ [(channel, x)]\<rparr>))
          else Some w)"

definition on_finalized :: "'x timechain_client \<Rightarrow> 'x list \<Rightarrow> 'x subxt_worker \<Rightarrow> 'x subxt_worker option" where
  "on_finalized C extrinsics w =
     (if pending_tx w = [] then Some w else ofold (finalize_extrinsic C) extrinsics w)"

text \<open>
  The branch of the best blocks. Its loop takes the pending transactions from the front; one to be
  submitted again is pushed back to the front and taken again, so that the loop ends only if
  it is then no longer outdated.
\<close>

definition mark_included :: "tx_hash set \<Rightarrow> u64 \<Rightarrow> tx_status \<Rightarrow> tx_status" where
  "mark_included hashes number t = (if td_hash (ts_data t) \<in> hashes then t\<lparr>best_block := Some number\<rparr> else t)"

definition outdated :: "u64 \<Rightarrow> tx_status \<Rightarrow> bool" where
  "outdated number t \<longleftrightarrow> best_block t = None \<and> number > td_era (ts_data t)"

partial_function (option) retry_loop ::
  "'x timechain_client \<Rightarrow> 'x subxt_worker \<Rightarrow> tx_status list \<Rightarrow> 'x subxt_worker option" where
  "retry_loop C w new_pending =
     (case pending_tx w of
        [] \<Rightarrow> Some (w\<lparr>pending_tx := new_pending\<rparr>)
      | t # ts \<Rightarrow>
          if outdated (bid_number (latest_block w)) t
          then retry_loop C (add_tx_to_pool C (td_transaction (ts_data t)) (event_sender t) (Some (td_nonce (ts_data t)))
                 (w\<lparr>pending_tx := ts\<rparr>)) new_pending
          else retry_loop C (w\<lparr>pending_tx := ts\<rparr>) (new_pending @ [t]))"

definition on_best_block :: "'x timechain_client \<Rightarrow> block_id \<Rightarrow> 'x list \<Rightarrow> 'x subxt_worker \<Rightarrow> 'x subxt_worker option" where
  "on_best_block C block extrinsics w =
     (let w1 = w\<lparr>latest_block := block\<rparr>
      in if pending_tx w1 = [] then Some w1
         else retry_loop C
                (w1\<lparr>pending_tx := map (mark_included (extrinsic_hash C ` set extrinsics) (bid_number block)) (pending_tx w1)\<rparr>)
                [])"

declare retry_loop.simps [code]

end
