(* ===== verification/Tx_Worker_Properties.thy ===== *)
theory Tx_Worker_Properties
  imports Tx_Worker
begin

text \<open>
  What the callers of the transaction worker can rely on: requests are answered in order, each with an extrinsic
  signed for it; the loop over outdated transactions ends; and what a restart recovers.
\<close>

section \<open>Pending transactions\<close>

text \<open>What does not change when a transaction is submitted again: its caller, the transaction, its nonce.\<close>

definition status_view :: "tx_status \<Rightarrow> nat option \<times> tx \<times> u64" where
  "status_view t = (event_sender t, td_transaction (ts_data t), td_nonce (ts_data t))"

definition signed_as :: "'x timechain_client \<Rightarrow> tx \<Rightarrow> u64 \<Rightarrow> tx_hash \<Rightarrow> bool" where
  "signed_as C t n h \<longleftrightarrow>
     (\<exists>r. h = submittable_hash C (sign_payload C r (tx_payload (call_size C) t) n (ucast MORTALITY)))"

definition status_ok :: "'x timechain_client \<Rightarrow> tx_status \<Rightarrow> bool" where
  "status_ok C t \<longleftrightarrow> signed_as C (td_transaction (ts_data t)) (td_nonce (ts_data t)) (td_hash (ts_data t))"

text \<open>The status and the extrinsic of a transaction added to the pool.\<close>

definition new_extrinsic :: "'x timechain_client \<Rightarrow> tx \<Rightarrow> u64 \<Rightarrow> 'x subxt_worker \<Rightarrow> bytes" where
  "new_extrinsic C t n w = sign_payload C (signings w) (tx_payload (call_size C) t) n (ucast MORTALITY)"

definition new_status :: "'x timechain_client \<Rightarrow> tx \<Rightarrow> nat option \<Rightarrow> u64 \<Rightarrow> 'x subxt_worker \<Rightarrow> tx_status" where
  "new_status C t sender n w = \<lparr>ts_data = \<lparr>td_hash = submittable_hash C (new_extrinsic C t n w),
     td_era = bid_number (latest_block w) + ucast MORTALITY, td_nonce = n, td_transaction = t\<rparr>,
     event_sender = sender, best_block = None\<rparr>"

lemma new_status_simps [simp]:
  "status_view (new_status C t sender n w) = (sender, t, n)" "status_ok C (new_status C t sender n w)"
  "td_hash (ts_data (new_status C t sender n w)) = submittable_hash C (new_extrinsic C t n w)"
  "best_block (new_status C t sender n w) = None"
  by (auto simp: new_status_def status_view_def status_ok_def signed_as_def new_extrinsic_def)

lemma add_tx_to_pool_eq:
  "add_tx_to_pool C t sender None w = w\<lparr>signings := Suc (signings w),
     worker_db := snd (store_tx C (ts_data (new_status C t sender (worker_nonce w) w)) (worker_db w)),
     pending_tx := pending_tx w @ [new_status C t sender (worker_nonce w) w], worker_nonce := worker_nonce w + 1,
     transaction_pool := transaction_pool w @ [new_extrinsic C t (worker_nonce w) w]\<rparr>"
  "add_tx_to_pool C t sender (Some n) w = w\<lparr>signings := Suc (signings w),
     worker_db := snd (store_tx C (ts_data (new_status C t sender n w)) (worker_db w)),
     pending_tx := new_status C t sender n w # pending_tx w,
     transaction_pool := transaction_pool w @ [new_extrinsic C t n w]\<rparr>"
  by (simp_all add: add_tx_to_pool_def build_tx_def new_status_def new_extrinsic_def Let_def)

section \<open>The loop over outdated transactions\<close>

text \<open>One round of the loop submits the front again or moves it to the new list.\<close>

definition retry_front :: "'x timechain_client \<Rightarrow> tx_status \<Rightarrow> tx_status list \<Rightarrow> 'x subxt_worker \<Rightarrow> 'x subxt_worker" where
  "retry_front C t ts w = add_tx_to_pool C (td_transaction (ts_data t)) (event_sender t) (Some (td_nonce (ts_data t)))
     (w\<lparr>pending_tx := ts\<rparr>)"

lemma retry_loop_induct [consumes 1, case_names finish retry keep]:
  assumes "retry_loop C w np = Some w'"
    and "\<And>w np. pending_tx w = [] \<Longrightarrow> P w np (w\<lparr>pending_tx := np\<rparr>)"
    and "\<And>w np t ts w'. pending_tx w = t # ts \<Longrightarrow> outdated (bid_number (latest_block w)) t \<Longrightarrow>
      P (retry_front C t ts w) np w' \<Longrightarrow> P w np w'"
    and "\<And>w np t ts w'. pending_tx w = t # ts \<Longrightarrow> \<not> outdated (bid_number (latest_block w)) t \<Longrightarrow>
      P (w\<lparr>pending_tx := ts\<rparr>) (np @ [t]) w' \<Longrightarrow> P w np w'"
  shows "P w np w'"
  using assms(1)
proof (rule retry_loop.raw_induct [of "\<lambda>C' w np w'. C' = C \<longrightarrow> P w np w'", THEN mp, rotated])
  fix loop :: "'a timechain_client \<Rightarrow> 'a subxt_worker \<Rightarrow> tx_status list \<Rightarrow> 'a subxt_worker option" and C' w np w'
  assume IH: "\<And>C' w np w'. loop C' w np = Some w' \<Longrightarrow> C' = C \<longrightarrow> P w np w'"
    and body: "(case pending_tx w of
        [] \<Rightarrow> Some (w\<lparr>pending_tx := np\<rparr>)
      | t # ts \<Rightarrow>
          if outdated (bid_number (latest_block w)) t
          then loop C' (add_tx_to_pool C' (td_transaction (ts_data t)) (event_sender t) (Some (td_nonce (ts_data t)))
                 (w\<lparr>pending_tx := ts\<rparr>)) np
          else loop C' (w\<lparr>pending_tx := ts\<rparr>) (np @ [t])) = Some w'"
  show "C' = C \<longrightarrow> P w np w'"
  proof
    assume "C' = C"
    with body IH assms(2-4) show "P w np w'"
      by (cases "pending_tx w") (fastforce simp: retry_front_def split: if_splits)+
  qed
qed simp

text \<open>The loop keeps the order of the transactions, and everything but their signatures.\<close>

lemma retry_loop_keeps:
  assumes "retry_loop C w np = Some w'"
  shows "map status_view (pending_tx w') = map status_view (np @ pending_tx w) \<and>
    (list_all (status_ok C) (np @ pending_tx w) \<longrightarrow> list_all (status_ok C) (pending_tx w')) \<and>
    answers w' = answers w \<and> worker_nonce w' = worker_nonce w \<and> latest_block w' = latest_block w"
  using assms
proof (induction rule: retry_loop_induct)
  case (retry w np t ts w')
  have "pending_tx (retry_front C t ts w) =
        new_status C (td_transaction (ts_data t)) (event_sender t) (td_nonce (ts_data t)) (w\<lparr>pending_tx := ts\<rparr>) # ts"
    "answers (retry_front C t ts w) = answers w" "worker_nonce (retry_front C t ts w) = worker_nonce w"
    "latest_block (retry_front C t ts w) = latest_block w"
    by (simp_all add: retry_front_def add_tx_to_pool_eq)
  note w = this
  have t: "status_view t = (event_sender t, td_transaction (ts_data t), td_nonce (ts_data t))" by (rule status_view_def)
  show ?case using retry.IH unfolding w retry.hyps(1) by (simp add: t)
next
  case (keep w np t ts w')
  show ?case using keep.IH unfolding keep.hyps(1) by simp
qed simp

text \<open>
  A transaction after the loop: as it was, or submitted again, if it was in no block and is outdated.
\<close>

definition tried_again :: "'x timechain_client \<Rightarrow> u64 \<Rightarrow> tx_status \<Rightarrow> tx_status \<Rightarrow> bool" where
  "tried_again C number t t' \<longleftrightarrow>
     (if outdated number t
      then status_view t' = status_view t \<and> status_ok C t' \<and> best_block t' = None \<and>
        td_era (ts_data t') = number + ucast MORTALITY
      else t' = t)"

lemma unat_mortality: "unat (ucast MORTALITY :: u64) = 32"
  by (simp add: MORTALITY_def)

lemma not_outdated_again:
  assumes "unat number + 32 < 2 ^ 64" and era: "td_era (ts_data t) = number + ucast MORTALITY"
  shows "\<not> outdated number t"
proof -
  have "number \<le> number + ucast MORTALITY"
    using assms(1) unat_mortality by (simp add: word_le_nat_alt unat_add_less)
  then show ?thesis using era by (auto simp: outdated_def dest: leD)
qed

lemma none_outdated:
  assumes "unat number + 32 < 2 ^ 64" "list_all2 (tried_again C number) ts ts'"
  shows "\<not> list_ex (outdated number) ts'"
  using assms(2)
proof (induction rule: list_all2_induct)
  case (Cons t ts t' ts')
  then show ?case
    using not_outdated_again [OF assms(1), of t'] by (cases "outdated number t") (auto simp: tried_again_def)
qed simp

lemma retry_loop_returns:
  assumes "unat (bid_number (latest_block w)) + 32 < 2 ^ 64"
  shows "\<exists>w'. retry_loop C w np = Some w' \<and>
    (\<exists>ts'. pending_tx w' = np @ ts' \<and> list_all2 (tried_again C (bid_number (latest_block w))) (pending_tx w) ts') \<and>
    length (transaction_pool w') =
      length (transaction_pool w) + length (filter (outdated (bid_number (latest_block w))) (pending_tx w))"
  using assms
proof (induction "pending_tx w" arbitrary: w np)
  case Nil
  then show ?case by (subst retry_loop.simps) simp
next
  case (Cons t ts)
  let ?n = "bid_number (latest_block w)"
  have p: "pending_tx w = t # ts" using Cons.hyps(2) by simp
  show ?case
  proof (cases "outdated ?n t")
    case False
    have "retry_loop C w np = retry_loop C (w\<lparr>pending_tx := ts\<rparr>) (np @ [t])"
      by (subst retry_loop.simps) (simp add: p False)
    moreover have "tried_again C ?n t t" using False by (simp add: tried_again_def)
    ultimately show ?thesis
      using Cons.hyps(1) [of "w\<lparr>pending_tx := ts\<rparr>" "np @ [t]"] Cons.prems False by (auto simp: p)
  next
    case True
    let ?w = "retry_front C t ts w"
    let ?s = "new_status C (td_transaction (ts_data t)) (event_sender t) (td_nonce (ts_data t)) (w\<lparr>pending_tx := ts\<rparr>)"
    have w: "pending_tx ?w = ?s # ts" "latest_block ?w = latest_block w"
      "length (transaction_pool ?w) = Suc (length (transaction_pool w))"
      by (simp_all add: retry_front_def add_tx_to_pool_eq)
    have era: "td_era (ts_data ?s) = ?n + ucast MORTALITY" by (simp add: new_status_def)
    have s: "\<not> outdated ?n ?s" by (rule not_outdated_again [OF Cons.prems era])
    have "retry_loop C w np = retry_loop C ?w np"
      by (subst retry_loop.simps) (simp add: p True retry_front_def)
    also have "\<dots> = retry_loop C (?w\<lparr>pending_tx := ts\<rparr>) (np @ [?s])"
      by (subst retry_loop.simps) (simp add: w s)
    finally have eq: "retry_loop C w np = retry_loop C (?w\<lparr>pending_tx := ts\<rparr>) (np @ [?s])" .
    have "tried_again C ?n t ?s" using True era by (simp add: tried_again_def) (simp add: status_view_def)
    then show ?thesis
      using Cons.hyps(1) [of "?w\<lparr>pending_tx := ts\<rparr>" "np @ [?s]"] Cons.prems True unfolding eq by (auto simp: p w)
  qed
qed

text \<open>
  C36. The worker gets through every best block: its loop ends, unless the block number is within the mortality
  of the largest number. The transactions keep their order, callers and nonces; one that is found in
  the block is marked with it; one that was in no block and whose era is over is submitted again under the same
  nonce, one time, with a new era; and afterwards none is outdated.
\<close>

theorem best_block_returns:
  assumes "unat (bid_number b) + 32 < 2 ^ 64"
  shows "\<exists>w'. on_best_block C b xs w = Some w' \<and> latest_block w' = b \<and>
    list_all2 (tried_again C (bid_number b))
      (map (mark_included (extrinsic_hash C ` set xs) (bid_number b)) (pending_tx w)) (pending_tx w') \<and>
    length (transaction_pool w') = length (transaction_pool w) +
      length (filter (outdated (bid_number b)) (map (mark_included (extrinsic_hash C ` set xs) (bid_number b)) (pending_tx w))) \<and>
    \<not> list_ex (outdated (bid_number b)) (pending_tx w')"
proof (cases "pending_tx w = []")
  case True
  then show ?thesis by (simp add: on_best_block_def)
next
  case False
  let ?ts = "map (mark_included (extrinsic_hash C ` set xs) (bid_number b)) (pending_tx w)"
  let ?w = "w\<lparr>latest_block := b, pending_tx := ?ts\<rparr>"
  obtain w' where w': "retry_loop C ?w [] = Some w'"
    "list_all2 (tried_again C (bid_number b)) ?ts (pending_tx w')"
    "length (transaction_pool w') = length (transaction_pool w) + length (filter (outdated (bid_number b)) ?ts)"
    using retry_loop_returns [of ?w C "[]"] assms by auto
  have "latest_block w' = b" using retry_loop_keeps [OF w'(1)] by simp
  with w' none_outdated [OF assms w'(2)] False show ?thesis by (simp add: on_best_block_def)
qed

section \<open>Answers\<close>

text \<open>The runs of a worker, with the requests it got so far. A worker that starts with nothing to recover is at the beginning of one.\<close>

inductive worker_step ::
  "'x timechain_client \<Rightarrow> 'x subxt_worker \<times> (nat \<times> tx) list \<Rightarrow> 'x subxt_worker \<times> (nat \<times> tx) list \<Rightarrow> bool"
  for C :: "'x timechain_client" where
  step_request: "worker_step C (w, rs) (on_request C t channel w, rs @ [(channel, t)])"
| step_finalized: "on_finalized C xs w = Some w' \<Longrightarrow> worker_step C (w, rs) (w', rs)"
| step_best_block: "on_best_block C b xs w = Some w' \<Longrightarrow> worker_step C (w, rs) (w', rs)"

definition worker_start :: "'x timechain_client \<Rightarrow> u64 \<Rightarrow> 'x subxt_worker \<times> (nat \<times> tx) list \<Rightarrow> bool" where
  "worker_start C n st \<longleftrightarrow>
     (\<exists>latest db w. worker_new C n latest db = Inr w \<and> pending_tx w = [] \<and> st = (w, []))"

definition requests_view :: "u64 \<Rightarrow> (nat \<times> tx) list \<Rightarrow> nat \<Rightarrow> (nat option \<times> tx \<times> u64) list" where
  "requests_view n rs k = map (\<lambda>i. (Some (fst (rs ! i)), snd (rs ! i), n + of_nat i)) [k..<length rs]"

definition worker_inv :: "'x timechain_client \<Rightarrow> u64 \<Rightarrow> 'x subxt_worker \<times> (nat \<times> tx) list \<Rightarrow> bool" where
  "worker_inv C n = (\<lambda>(w, rs).
     length (answers w) \<le> length rs \<and>
     (\<forall>i<length (answers w). fst (answers w ! i) = fst (rs ! i) \<and>
        signed_as C (snd (rs ! i)) (n + of_nat i) (extrinsic_hash C (snd (answers w ! i)))) \<and>
     map status_view (pending_tx w) = requests_view n rs (length (answers w)) \<and>
     list_all (status_ok C) (pending_tx w) \<and> worker_nonce w = n + of_nat (length rs))"

lemma worker_new_simps:
  "worker_new C n latest db = Inr w \<Longrightarrow> answers w = [] \<and> worker_nonce w = n \<and> transaction_pool w = []"
  by (auto simp: worker_new_def split: prod.splits sum.splits)

lemma worker_inv_start: "worker_start C n st \<Longrightarrow> worker_inv C n st"
  by (auto simp: worker_start_def worker_inv_def requests_view_def dest: worker_new_simps)

lemma requests_view_snoc:
  "k \<le> length rs \<Longrightarrow> requests_view n (rs @ [(channel, t)]) k =
     requests_view n rs k @ [(Some channel, t, n + of_nat (length rs))]"
  by (auto simp: requests_view_def nth_append)

lemma worker_inv_request:
  "worker_inv C n (w, rs) \<Longrightarrow> worker_inv C n (on_request C t channel w, rs @ [(channel, t)])"
  by (auto simp: worker_inv_def on_request_def add_tx_to_pool_eq requests_view_snoc nth_append)

lemma worker_inv_best_block:
  assumes "worker_inv C n (w, rs)" "on_best_block C b xs w = Some w'"
  shows "worker_inv C n (w', rs)"
proof (cases "pending_tx w = []")
  case True
  then show ?thesis using assms by (auto simp: on_best_block_def worker_inv_def)
next
  case False
  let ?m = "mark_included (extrinsic_hash C ` set xs) (bid_number b)"
  have m: "status_view (?m t) = status_view t" "status_ok C (?m t) = status_ok C t" for t
    by (simp_all add: mark_included_def status_view_def status_ok_def)
  have "map (status_view \<circ> ?m) ts = map status_view ts" "list_all (status_ok C \<circ> ?m) ts = list_all (status_ok C) ts" for ts
    by (simp_all add: m comp_def)
  with retry_loop_keeps [of C "w\<lparr>latest_block := b, pending_tx := map ?m (pending_tx w)\<rparr>" "[]" w'] assms False
  show ?thesis by (simp add: on_best_block_def worker_inv_def list.pred_map)
qed

lemma worker_inv_extrinsic:
  assumes inv: "worker_inv C n (w, rs)" and ok: "finalize_extrinsic C x w = Some w'"
  shows "worker_inv C n (w', rs)"
proof (cases "pending_tx w")
  case Nil
  then show ?thesis using assms by (simp add: finalize_extrinsic_def)
next
  case (Cons t ts)
  show ?thesis
  proof (cases "extrinsic_hash C x = td_hash (ts_data t)")
    case False
    then show ?thesis using assms Cons by (simp add: finalize_extrinsic_def)
  next
    case True
    let ?k = "length (answers w)"
    have v: "status_view t # map status_view ts = requests_view n rs ?k" using inv Cons by (simp add: worker_inv_def)
    have k: "?k < length rs"
    proof (rule ccontr)
      assume "\<not> ?k < length rs"
      with v show False by (simp add: requests_view_def)
    qed
    have "requests_view n rs ?k = (Some (fst (rs ! ?k)), snd (rs ! ?k), n + of_nat ?k) # requests_view n rs (Suc ?k)"
      using k by (simp add: requests_view_def upt_conv_Cons)
    with v have t: "status_view t = (Some (fst (rs ! ?k)), snd (rs ! ?k), n + of_nat ?k)"
      and ts: "map status_view ts = requests_view n rs (Suc ?k)" by simp_all
    have "status_ok C t" using inv Cons by (simp add: worker_inv_def)
    then have s: "signed_as C (snd (rs ! ?k)) (n + of_nat ?k) (extrinsic_hash C x)"
      using t True by (simp add: status_ok_def status_view_def)
    have w': "answers w' = answers w @ [(fst (rs ! ?k), x)]" "pending_tx w' = ts" "worker_nonce w' = worker_nonce w"
      using ok Cons True t by (auto simp: finalize_extrinsic_def status_view_def)
    show ?thesis using inv k ts s Cons by (auto simp: worker_inv_def w' nth_append less_Suc_eq)
  qed
qed

lemma worker_inv_finalized:
  assumes "worker_inv C n (w, rs)" "on_finalized C xs w = Some w'"
  shows "worker_inv C n (w', rs)"
proof (cases "pending_tx w = []")
  case False
  then have "ofold (finalize_extrinsic C) xs w = Some w'" using assms(2) by (simp add: on_finalized_def)
  then show ?thesis using assms(1)
    by (rule ofold_invariant [where P = "\<lambda>w. worker_inv C n (w, rs)"]) (blast intro: worker_inv_extrinsic)
qed (use assms in \<open>simp add: on_finalized_def\<close>)

lemma worker_inv_step: "worker_inv C n st \<Longrightarrow> worker_step C st st' \<Longrightarrow> worker_inv C n st'"
  by (erule worker_step.cases) (blast intro: worker_inv_request worker_inv_finalized worker_inv_best_block)+

interpretation worker_runs: step_invariant "worker_start C n" "worker_step C" "worker_inv C n" for C n
  by unfold_locales (blast intro: worker_inv_start worker_inv_step)+

text \<open>
  C35. A worker that started with no transaction to recover answers its callers in the order of their requests, each at
  most once: in every state it reaches, the answers given are those of the first requests, each an extrinsic with the hash of a
  signing of the transaction requested, under the nonce of its place in the order. The others are
  pending, in order, with consecutive nonces, and the next nonce of the worker follows.
\<close>

theorem requests_answered_in_order:
  assumes "reach (worker_start C n) (worker_step C) (w, rs)"
  shows "map (\<lambda>a. Some (fst a)) (answers w) @ map event_sender (pending_tx w) = map (\<lambda>r. Some (fst r)) rs \<and>
    list_all2 (\<lambda>a i. signed_as C (snd (rs ! i)) (n + of_nat i) (extrinsic_hash C (snd a))) (answers w) [0..<length (answers w)] \<and>
    map (\<lambda>t. (td_transaction (ts_data t), td_nonce (ts_data t))) (pending_tx w) =
      map (\<lambda>i. (snd (rs ! i), n + of_nat i)) [length (answers w)..<length rs] \<and>
    worker_nonce w = n + of_nat (length rs)"
proof -
  let ?k = "length (answers w)"
  have inv: "?k \<le> length rs" "\<forall>i<?k. fst (answers w ! i) = fst (rs ! i) \<and>
        signed_as C (snd (rs ! i)) (n + of_nat i) (extrinsic_hash C (snd (answers w ! i)))"
    "map status_view (pending_tx w) = requests_view n rs ?k" "worker_nonce w = n + of_nat (length rs)"
    using worker_runs.reachable_inv [OF assms] by (simp_all add: worker_inv_def)
  have "map fst (map status_view (pending_tx w)) = map (\<lambda>r. Some (fst r)) (drop ?k rs)"
    unfolding inv(3) by (rule nth_equalityI) (simp_all add: requests_view_def)
  moreover have "map (\<lambda>a. Some (fst a)) (answers w) = map (\<lambda>r. Some (fst r)) (take ?k rs)"
    using inv(1,2) by (intro nth_equalityI) simp_all
  moreover have "map snd (map status_view (pending_tx w)) = map (\<lambda>i. (snd (rs ! i), n + of_nat i)) [?k..<length rs]"
    unfolding inv(3) by (simp add: requests_view_def)
  ultimately show ?thesis
    using inv(2,4) by (simp add: status_view_def comp_def list_all2_conv_all_nth flip: map_append)
qed

section \<open>A small run\<close>

text \<open>A client that numbers its extrinsics, with the codec of heartbeats.\<close>

definition demo_client :: "bytes timechain_client" where
  "demo_client = \<lparr>call_size = (\<lambda>_. 0), sign_payload = (\<lambda>r p n m. [of_nat r]),
     submittable_hash = (\<lambda>bs. take 32 (bs @ replicate 32 0)), extrinsic_hash = (\<lambda>bs. take 32 (bs @ replicate 32 0)),
     encode_tx_data = (\<lambda>d. be_bytes 8 (unat (td_era d)) @ be_bytes 8 (unat (td_nonce d)) @ td_hash d),
     decode_tx_data = (\<lambda>bs. Some \<lparr>td_hash = drop 16 bs, td_era = of_nat (from_be (take 8 bs)),
       td_nonce = of_nat (from_be (take 8 (drop 8 bs))), td_transaction = TxHeartbeat\<rparr>),
     disk_ok = (\<lambda>_. True)\<rparr>"

definition demo_db :: transactions_db where
  "demo_db = \<lparr>tx_table = [], db_public_key = replicate 32 1, db_writes = 0\<rparr>"

definition demo_idle :: "bytes subxt_worker" where
  "demo_idle = \<lparr>worker_nonce = 7, latest_block = \<lparr>bid_number = 1, bid_hash = []\<rparr>, pending_tx = [],
     transaction_pool = [], worker_db = demo_db\<lparr>db_writes := 1\<rparr>, signings = 0, answers = []\<rparr>"

definition demo_busy :: "bytes subxt_worker" where
  "demo_busy = on_request demo_client TxHeartbeat 11 (on_request demo_client TxHeartbeat 10 demo_idle)"

definition demo_requests :: "(nat \<times> tx) list" where
  "demo_requests = [(10, TxHeartbeat), (11, TxHeartbeat)]"

lemma demo_idle_new: "worker_new demo_client 7 \<lparr>bid_number = 1, bid_hash = []\<rparr> demo_db = Inr demo_idle"
  by (simp add: worker_new_def load_pending_txs_def key_range_def write_table_def demo_db_def demo_idle_def demo_client_def Let_def)

lemma demo_busy_eq:
  "pending_tx demo_busy = [\<lparr>ts_data = \<lparr>td_hash = 0 # replicate 31 0, td_era = 33, td_nonce = 7, td_transaction = TxHeartbeat\<rparr>,
     event_sender = Some 10, best_block = None\<rparr>,
     \<lparr>ts_data = \<lparr>td_hash = 1 # replicate 31 0, td_era = 33, td_nonce = 8, td_transaction = TxHeartbeat\<rparr>,
     event_sender = Some 11, best_block = None\<rparr>]"
  "transaction_pool demo_busy = [[0], [1]]" "answers demo_busy = []" "worker_nonce demo_busy = 9"
  by (simp_all add: demo_busy_def demo_idle_def on_request_def add_tx_to_pool_eq new_status_def new_extrinsic_def
      demo_client_def MORTALITY_def)

lemma demo_busy_steps:
  assumes "start (demo_idle, [])"
  shows "reach start (worker_step demo_client) (demo_busy, demo_requests)"
proof -
  have "reach start (worker_step demo_client) (demo_idle, [])" by (rule reach_init) (rule assms)
  then have "reach start (worker_step demo_client) (on_request demo_client TxHeartbeat 10 demo_idle, [] @ [(10, TxHeartbeat)])"
    by (rule reach_step) (rule step_request)
  then have "reach start (worker_step demo_client) (demo_busy, ([] @ [(10, TxHeartbeat)]) @ [(11, TxHeartbeat)])"
    unfolding demo_busy_def by (rule reach_step) (rule step_request)
  then show ?thesis by (simp add: demo_requests_def)
qed

theorem requests_answered_in_order_witness:
  "map_option (\<lambda>w. map (\<lambda>a. Some (fst a)) (answers w) @ map event_sender (pending_tx w))
     (on_finalized demo_client [[9], [0]] demo_busy) = Some [Some 10, Some 11]"
proof -
  have "on_finalized demo_client [[9], [0]] demo_busy \<noteq> None"
    by (simp add: on_finalized_def finalize_extrinsic_def demo_busy_eq demo_client_def)
  then obtain w where w: "on_finalized demo_client [[9], [0]] demo_busy = Some w" by blast
  have "worker_start demo_client 7 (demo_idle, [])"
    using demo_idle_new by (auto simp: worker_start_def demo_idle_def)
  then have "reach (worker_start demo_client 7) (worker_step demo_client) (w, demo_requests)"
    by (intro reach_step [OF demo_busy_steps step_finalized [OF w]])
  from conjunct1 [OF requests_answered_in_order [OF this]] show ?thesis by (simp add: w demo_requests_def)
qed

theorem best_block_returns_witness:
  "\<exists>w. on_best_block demo_client \<lparr>bid_number = 34, bid_hash = []\<rparr> [[0]] demo_busy = Some w \<and>
     length (transaction_pool w) = 3"
proof -
  have "unat (bid_number \<lparr>bid_number = 34, bid_hash = []\<rparr>) + 32 < 2 ^ 64" by simp
  from best_block_returns [OF this, of demo_client "[[0]]" demo_busy] show ?thesis
    by (auto simp: demo_busy_eq mark_included_def outdated_def demo_client_def)
qed

end
