(* ===== verification/Tx_Recovery.thy ===== *)
theory Tx_Recovery
  imports Tx_Worker_Properties
begin

text \<open>
  The database of pending transactions: what it holds while the worker runs, and what a worker finds there that
  is started again.
\<close>

section \<open>The table while the worker runs\<close>

text \<open>
  \<open>disk_ok\<close> always holds below: a failed write is only logged, and its transaction is not in the
  table. Hashes have 32 bytes, and the codec decodes the transactions it encoded.
\<close>

definition client_laws :: "'x timechain_client \<Rightarrow> bool" where
  "client_laws C \<longleftrightarrow> (\<forall>i. disk_ok C i) \<and> (\<forall>bs. length (submittable_hash C bs) = 32)"

definition codec_ok :: "'x timechain_client \<Rightarrow> (nat \<times> tx) list \<Rightarrow> bool" where
  "codec_ok C rs \<longleftrightarrow> (\<forall>d. td_transaction d \<in> snd ` set rs \<longrightarrow> decode_tx_data C (encode_tx_data C d) = Some d)"

definition stored :: "'x timechain_client \<Rightarrow> transactions_db \<Rightarrow> tx_data \<Rightarrow> bool" where
  "stored C db d \<longleftrightarrow> sget (tx_table db) (composite_key db (td_hash d)) = Some (encode_tx_data C d)"

text \<open>
  Every pending transaction is in the table, every row is a transaction submitted for this
  account, and if nothing was submitted twice then the rows are the pending transactions.
\<close>

definition table_of ::
  "'x timechain_client \<Rightarrow> (nat \<times> tx) list \<Rightarrow> tx_hash list \<Rightarrow> tx_status list \<Rightarrow> transactions_db \<Rightarrow> bool" where
  "table_of C rs hashes ts db \<longleftrightarrow>
     distinct (map (td_hash \<circ> ts_data) ts) \<and> (td_hash \<circ> ts_data) ` set ts \<subseteq> set hashes \<and>
     (td_transaction \<circ> ts_data) ` set ts \<subseteq> snd ` set rs \<and>
     (\<forall>t\<in>set ts. stored C db (ts_data t)) \<and>
     (\<forall>k v. sget (tx_table db) k = Some v \<longrightarrow>
        (\<exists>d. v = encode_tx_data C d \<and> k = composite_key db (td_hash d) \<and> td_hash d \<in> set hashes \<and>
          td_transaction d \<in> snd ` set rs \<and> (length hashes = length rs \<longrightarrow> d \<in> ts_data ` set ts)))"

definition db_inv ::
  "'x timechain_client \<Rightarrow> (nat \<times> tx) list \<Rightarrow> bytes list \<Rightarrow> tx_status list \<Rightarrow> transactions_db \<Rightarrow> bool" where
  "db_inv C rs pool ts db \<longleftrightarrow> length (db_public_key db) = 32 \<and> swf (tx_table db) \<and> length rs \<le> length pool \<and>
     (distinct (map (submittable_hash C) pool) \<longrightarrow> table_of C rs (map (submittable_hash C) pool) ts db)"

lemma db_inv_perm: "set ts = set ts' \<Longrightarrow> length ts = length ts' \<Longrightarrow> db_inv C rs pool ts db = db_inv C rs pool ts' db"
proof -
  assume a: "set ts = set ts'" "length ts = length ts'"
  then have "distinct (map (td_hash \<circ> ts_data) ts) = distinct (map (td_hash \<circ> ts_data) ts')"
    by (metis (no_types, lifting) card_distinct distinct_card length_map list.set_map)
  with a show ?thesis by (simp add: db_inv_def table_of_def)
qed

lemma db_write_simps:
  assumes "client_laws C"
  shows "snd (store_tx C d db) = db\<lparr>db_writes := Suc (db_writes db),
      tx_table := sput (composite_key db (td_hash d)) (encode_tx_data C d) (tx_table db)\<rparr>"
    "snd (remove_tx C h db) = db\<lparr>db_writes := Suc (db_writes db), tx_table := sdel (composite_key db h) (tx_table db)\<rparr>"
  using assms by (simp_all add: client_laws_def store_tx_def remove_tx_def write_table_def Let_def)

lemma composite_key_simps [simp]:
  "composite_key (db\<lparr>db_writes := i\<rparr>) h = composite_key db h"
  "composite_key (db\<lparr>tx_table := m\<rparr>) h = composite_key db h"
  "composite_key db h = composite_key db h' \<longleftrightarrow> h = h'"
  by (simp_all add: composite_key_def)

lemma table_of_row:
  "table_of C rs hashes ts db \<Longrightarrow> sget (tx_table db) k = Some v \<Longrightarrow>
     \<exists>d. v = encode_tx_data C d \<and> k = composite_key db (td_hash d) \<and> td_hash d \<in> set hashes \<and>
       td_transaction d \<in> snd ` set rs \<and> (length hashes = length rs \<longrightarrow> d \<in> ts_data ` set ts)"
  by (simp add: table_of_def)

text \<open>
  A transaction takes its place in the table: a new one, or one submitted again, which leaves its old row behind.
\<close>

lemma table_of_store:
  assumes C: "client_laws C" and t: "table_of C rs hashes ts db" and h: "td_hash (ts_data s) \<notin> set hashes"
    and sub: "set ts' \<subseteq> set ts" "distinct (map (td_hash \<circ> ts_data) ts')" "set rs \<subseteq> set rs'"
    and tx: "td_transaction (ts_data s) \<in> snd ` set rs'"
    and m: "length hashes + 1 = length rs' \<Longrightarrow> length hashes = length rs \<and> ts' = ts"
  shows "table_of C rs' (hashes @ [td_hash (ts_data s)]) (s # ts') (snd (store_tx C (ts_data s) db))"
  unfolding table_of_def
proof (intro conjI ballI allI impI)
  have fresh: "td_hash (ts_data u) \<noteq> td_hash (ts_data s)" if "u \<in> set ts'" for u
  proof -
    have "(td_hash \<circ> ts_data) u \<in> set hashes" using that t sub(1) unfolding table_of_def by blast
    then show ?thesis using h by auto
  qed
  show "distinct (map (td_hash \<circ> ts_data) (s # ts'))" using sub(2) fresh by force
  show "(td_hash \<circ> ts_data) ` set (s # ts') \<subseteq> set (hashes @ [td_hash (ts_data s)])"
    using t sub(1) by (auto simp: table_of_def)
  show "(td_transaction \<circ> ts_data) ` set (s # ts') \<subseteq> snd ` set rs'"
    using t sub tx unfolding table_of_def by (simp add: image_subset_iff) blast
  show "stored C (snd (store_tx C (ts_data s) db)) (ts_data u)" if "u \<in> set (s # ts')" for u
    using that t sub(1) fresh by (auto simp: table_of_def stored_def db_write_simps [OF C])
  show "\<exists>d. v = encode_tx_data C d \<and> k = composite_key (snd (store_tx C (ts_data s) db)) (td_hash d) \<and>
      td_hash d \<in> set (hashes @ [td_hash (ts_data s)]) \<and> td_transaction d \<in> snd ` set rs' \<and>
      (length (hashes @ [td_hash (ts_data s)]) = length rs' \<longrightarrow> d \<in> ts_data ` set (s # ts'))"
    if "sget (tx_table (snd (store_tx C (ts_data s) db))) k = Some v" for k v
  proof (cases "k = composite_key db (td_hash (ts_data s))")
    case True
    then show ?thesis using that tx by (intro exI [where x = "ts_data s"]) (simp add: db_write_simps [OF C])
  next
    case False
    then have "sget (tx_table db) k = Some v" using that by (simp add: db_write_simps [OF C])
    then obtain d where d: "v = encode_tx_data C d" "k = composite_key db (td_hash d)" "td_hash d \<in> set hashes"
      "td_transaction d \<in> snd ` set rs" "length hashes = length rs \<longrightarrow> d \<in> ts_data ` set ts"
      using table_of_row [OF t] by blast
    have "td_transaction d \<in> snd ` set rs'" using d(4) sub(3) by blast
    with d m show ?thesis by (intro exI [where x = d]) (simp add: db_write_simps [OF C])
  qed
qed

lemma table_of_remove:
  assumes C: "client_laws C" and t: "table_of C rs hashes (u # ts) db"
  shows "table_of C rs hashes ts (snd (remove_tx C (td_hash (ts_data u)) db))"
  unfolding table_of_def
proof (intro conjI ballI allI impI)
  show "distinct (map (td_hash \<circ> ts_data) ts)" "(td_hash \<circ> ts_data) ` set ts \<subseteq> set hashes"
    "(td_transaction \<circ> ts_data) ` set ts \<subseteq> snd ` set rs"
    using t by (simp_all add: table_of_def)
  show "stored C (snd (remove_tx C (td_hash (ts_data u)) db)) (ts_data x)" if "x \<in> set ts" for x
  proof -
    have "stored C db (ts_data x)" "td_hash (ts_data u) \<noteq> td_hash (ts_data x)" using that t by (auto simp: table_of_def)
    then show ?thesis by (simp add: stored_def db_write_simps [OF C])
  qed
  show "\<exists>d. v = encode_tx_data C d \<and> k = composite_key (snd (remove_tx C (td_hash (ts_data u)) db)) (td_hash d) \<and>
      td_hash d \<in> set hashes \<and> td_transaction d \<in> snd ` set rs \<and> (length hashes = length rs \<longrightarrow> d \<in> ts_data ` set ts)"
    if "sget (tx_table (snd (remove_tx C (td_hash (ts_data u)) db))) k = Some v" for k v
  proof -
    have k: "sget (tx_table db) k = Some v" "k \<noteq> composite_key db (td_hash (ts_data u))"
      using that by (auto simp: db_write_simps [OF C] split: if_splits)
    obtain d where d: "v = encode_tx_data C d" "k = composite_key db (td_hash d)" "td_hash d \<in> set hashes"
      "td_transaction d \<in> snd ` set rs" "length hashes = length rs \<longrightarrow> d \<in> ts_data ` set (u # ts)"
      using table_of_row [OF t k(1)] by blast
    have "d \<noteq> ts_data u" using k(2) d(2) by auto
    with d show ?thesis by (intro exI [where x = d]) (simp add: db_write_simps [OF C])
  qed
qed

text \<open>The three ways in which the worker changes its database.\<close>

lemma db_inv_store:
  assumes C: "client_laws C" and inv: "db_inv C rs pool ts db" and ext: "td_hash (ts_data s) = submittable_hash C ext"
    and sub: "\<And>hs. table_of C rs hs ts db \<Longrightarrow> set ts' \<subseteq> set ts \<and> distinct (map (td_hash \<circ> ts_data) ts')"
    and rs: "set rs \<subseteq> set rs'" and tx: "\<And>hs. table_of C rs hs ts db \<Longrightarrow> td_transaction (ts_data s) \<in> snd ` set rs'"
    and m: "length rs' \<le> Suc (length pool)" "Suc (length pool) = length rs' \<Longrightarrow> length pool = length rs \<and> ts' = ts"
  shows "db_inv C rs' (pool @ [ext]) (s # ts') (snd (store_tx C (ts_data s) db))"
  unfolding db_inv_def
proof (intro conjI impI)
  let ?hs = "map (submittable_hash C) pool" and ?db = "snd (store_tx C (ts_data s) db)"
  show "length (db_public_key ?db) = 32" "swf (tx_table ?db)" "length rs' \<le> length (pool @ [ext])"
    using inv m(1) by (simp_all add: db_inv_def db_write_simps [OF C] swf_sput)
  assume "distinct (map (submittable_hash C) (pool @ [ext]))"
  then have h: "distinct ?hs" "td_hash (ts_data s) \<notin> set ?hs" by (auto simp: ext)
  then have t: "table_of C rs ?hs ts db" using inv by (simp add: db_inv_def)
  from table_of_store [OF C t h(2) conjunct1 [OF sub [OF t]] conjunct2 [OF sub [OF t]] rs tx [OF t]] m(2)
  show "table_of C rs' (map (submittable_hash C) (pool @ [ext])) (s # ts') ?db" by (simp add: ext)
qed

lemma db_inv_new:
  assumes "client_laws C" "db_inv C rs pool ts db" "td_hash (ts_data s) = submittable_hash C ext"
    and "td_transaction (ts_data s) = snd r"
  shows "db_inv C (rs @ [r]) (pool @ [ext]) (s # ts) (snd (store_tx C (ts_data s) db))"
  by (rule db_inv_store [OF assms(1-3)]) (use assms(2,4) in \<open>auto simp: db_inv_def table_of_def\<close>)

lemma db_inv_again:
  assumes "client_laws C" "db_inv C rs pool (u # ts) db" "td_hash (ts_data s) = submittable_hash C ext"
    and "td_transaction (ts_data s) = td_transaction (ts_data u)"
  shows "db_inv C rs (pool @ [ext]) (s # ts) (snd (store_tx C (ts_data s) db))"
proof (rule db_inv_store [OF assms(1-3)])
  show "set ts \<subseteq> set (u # ts) \<and> distinct (map (td_hash \<circ> ts_data) ts)" if "table_of C rs hs (u # ts) db" for hs
    using that by (auto simp: table_of_def)
  show "td_transaction (ts_data s) \<in> snd ` set rs" if "table_of C rs hs (u # ts) db" for hs
    using that assms(4) by (simp add: table_of_def)
  show "length rs \<le> Suc (length pool)" "Suc (length pool) = length rs \<Longrightarrow> length pool = length rs \<and> ts = u # ts"
    using assms(2) by (simp_all add: db_inv_def)
qed simp

lemma db_inv_remove:
  assumes "client_laws C" "db_inv C rs pool (u # ts) db"
  shows "db_inv C rs pool ts (snd (remove_tx C (td_hash (ts_data u)) db))"
  using assms(2) table_of_remove [OF assms(1), of rs "map (submittable_hash C) pool" u ts db]
  by (simp add: db_inv_def db_write_simps [OF assms(1)] swf_sdel)

lemma db_inv_cong:
  assumes "map ts_data ts = map ts_data ts'"
  shows "db_inv C rs pool ts db = db_inv C rs pool ts' db"
proof -
  have "map (td_hash \<circ> ts_data) ts = map (td_hash \<circ> ts_data) ts'" using assms by (metis map_map)
  moreover have "ts_data ` set ts = ts_data ` set ts'" using assms by (metis list.set_map)
  moreover have "(\<forall>t\<in>set ts. stored C db (ts_data t)) = (\<forall>t\<in>set ts'. stored C db (ts_data t))"
    using arg_cong [OF calculation(2), of "\<lambda>ds. \<forall>d\<in>ds. stored C db d"] by simp
  moreover have "(td_hash \<circ> ts_data) ` set ts = (td_hash \<circ> ts_data) ` set ts'" using calculation(1) by (metis list.set_map)
  moreover have "(td_transaction \<circ> ts_data) ` set ts = (td_transaction \<circ> ts_data) ` set ts'"
    using assms by (metis list.set_map map_map)
  ultimately show ?thesis unfolding db_inv_def table_of_def by (simp only:)
qed

text \<open>The runs of a worker that started with an empty database.\<close>

definition fresh_start :: "'x timechain_client \<Rightarrow> u64 \<Rightarrow> 'x subxt_worker \<times> (nat \<times> tx) list \<Rightarrow> bool" where
  "fresh_start C n st \<longleftrightarrow>
     (\<exists>latest db w. tx_table db = [] \<and> length (db_public_key db) = 32 \<and> worker_new C n latest db = Inr w \<and> st = (w, []))"

definition recovery_inv :: "'x timechain_client \<Rightarrow> u64 \<Rightarrow> 'x subxt_worker \<times> (nat \<times> tx) list \<Rightarrow> bool" where
  "recovery_inv C n = (\<lambda>(w, rs). worker_inv C n (w, rs) \<and>
     (client_laws C \<longrightarrow> db_inv C rs (transaction_pool w) (pending_tx w) (worker_db w)))"

lemma fresh_load: "tx_table db = [] \<Longrightarrow> load_pending_txs C n db =
    (if disk_ok C (db_writes db) then (Inr [], db\<lparr>db_writes := Suc (db_writes db)\<rparr>)
     else (Inl WriteFailed, db\<lparr>db_writes := Suc (db_writes db)\<rparr>))"
  by (cases db) (simp add: load_pending_txs_def key_range_def write_table_def Let_def)

lemma recovery_inv_start: "fresh_start C n st \<Longrightarrow> recovery_inv C n st"
proof -
  assume "fresh_start C n st"
  then obtain latest db w where w: "tx_table db = []" "length (db_public_key db) = 32"
    "worker_new C n latest db = Inr w" "st = (w, [])" by (auto simp: fresh_start_def)
  have p: "pending_tx w = []" "transaction_pool w = []" "worker_db w = db\<lparr>db_writes := Suc (db_writes db)\<rparr>"
    using w(1,3) by (auto simp: worker_new_def fresh_load split: if_splits)
  have "worker_start C n st" using w(3,4) p(1) by (auto simp: worker_start_def)
  then have "worker_inv C n st" by (rule worker_inv_start)
  then show ?thesis using w p by (simp add: recovery_inv_def db_inv_def table_of_def)
qed

lemma retry_loop_db:
  assumes "retry_loop C w np = Some w'" and C: "client_laws C"
  shows "db_inv C rs (transaction_pool w) (np @ pending_tx w) (worker_db w) \<longrightarrow>
    db_inv C rs (transaction_pool w') (pending_tx w') (worker_db w')"
  using assms(1)
proof (induction rule: retry_loop_induct)
  case (finish w np)
  then show ?case by simp
next
  case (keep w np t ts w')
  then show ?case by simp
next
  case (retry w np t ts w')
  let ?s = "new_status C (td_transaction (ts_data t)) (event_sender t) (td_nonce (ts_data t)) (w\<lparr>pending_tx := ts\<rparr>)"
  let ?x = "new_extrinsic C (td_transaction (ts_data t)) (td_nonce (ts_data t)) (w\<lparr>pending_tx := ts\<rparr>)"
  have w: "pending_tx (retry_front C t ts w) = ?s # ts" "transaction_pool (retry_front C t ts w) = transaction_pool w @ [?x]"
    "worker_db (retry_front C t ts w) = snd (store_tx C (ts_data ?s) (worker_db w))"
    by (simp_all add: retry_front_def add_tx_to_pool_eq)
  show ?case
  proof
    assume "db_inv C rs (transaction_pool w) (np @ pending_tx w) (worker_db w)"
    then have "db_inv C rs (transaction_pool w) (t # (np @ ts)) (worker_db w)"
      unfolding retry.hyps(1) by (subst (asm) db_inv_perm [where ts' = "t # (np @ ts)"]) auto
    then have "db_inv C rs (transaction_pool w @ [?x]) (?s # (np @ ts)) (snd (store_tx C (ts_data ?s) (worker_db w)))"
      by (rule db_inv_again [OF C]) (simp_all add: new_status_def)
    then have "db_inv C rs (transaction_pool (retry_front C t ts w)) (np @ pending_tx (retry_front C t ts w))
        (worker_db (retry_front C t ts w))"
      unfolding w by (subst (asm) db_inv_perm [where ts' = "np @ (?s # ts)"]) auto
    with retry.IH show "db_inv C rs (transaction_pool w') (pending_tx w') (worker_db w')" by blast
  qed
qed

lemma db_inv_extrinsic:
  assumes "client_laws C" "db_inv C rs (transaction_pool w) (pending_tx w) (worker_db w)" "finalize_extrinsic C x w = Some w'"
  shows "db_inv C rs (transaction_pool w') (pending_tx w') (worker_db w')"
  using assms(2,3) db_inv_remove [OF assms(1)]
  by (auto simp: finalize_extrinsic_def Let_def split: list.splits if_splits option.splits)

lemma recovery_inv_step: "recovery_inv C n st \<Longrightarrow> worker_step C st st' \<Longrightarrow> recovery_inv C n st'"
proof (erule worker_step.cases)
  fix w rs t channel
  assume inv: "recovery_inv C n st" and st: "st = (w, rs)" "st' = (on_request C t channel w, rs @ [(channel, t)])"
  have "db_inv C (rs @ [(channel, t)]) (transaction_pool (on_request C t channel w)) (pending_tx (on_request C t channel w))
      (worker_db (on_request C t channel w))"
    if "client_laws C" "db_inv C rs (transaction_pool w) (pending_tx w) (worker_db w)"
    using db_inv_new [OF that, of "new_status C t (Some channel) (worker_nonce w) w" "new_extrinsic C t (worker_nonce w) w" "(channel, t)"]
    by (simp add: on_request_def add_tx_to_pool_eq) (subst db_inv_perm; auto simp: new_status_def)
  then show "recovery_inv C n st'"
    using inv worker_inv_request unfolding st by (auto simp: recovery_inv_def)
next
  fix xs w w' rs
  assume inv: "recovery_inv C n st" and st: "st = (w, rs)" "st' = (w', rs)" and ok: "on_finalized C xs w = Some w'"
  have "db_inv C rs (transaction_pool w') (pending_tx w') (worker_db w')"
    if "client_laws C" "db_inv C rs (transaction_pool w) (pending_tx w) (worker_db w)"
  proof (cases "pending_tx w = []")
    case False
    then have "ofold (finalize_extrinsic C) xs w = Some w'" using ok by (simp add: on_finalized_def)
    then show ?thesis using that(2)
      by (rule ofold_invariant [where P = "\<lambda>w. db_inv C rs (transaction_pool w) (pending_tx w) (worker_db w)"])
        (blast intro: db_inv_extrinsic [OF that(1)])
  qed (use ok that(2) in \<open>simp add: on_finalized_def\<close>)
  then show "recovery_inv C n st'"
    using inv worker_inv_finalized ok unfolding st by (auto simp: recovery_inv_def)
next
  fix b xs w w' rs
  assume inv: "recovery_inv C n st" and st: "st = (w, rs)" "st' = (w', rs)" and ok: "on_best_block C b xs w = Some w'"
  have "db_inv C rs (transaction_pool w') (pending_tx w') (worker_db w')"
    if "client_laws C" "db_inv C rs (transaction_pool w) (pending_tx w) (worker_db w)"
  proof (cases "pending_tx w = []")
    case False
    let ?m = "mark_included (extrinsic_hash C ` set xs) (bid_number b)"
    have "map ts_data (map ?m (pending_tx w)) = map ts_data (pending_tx w)" by (simp add: mark_included_def)
    then have "db_inv C rs (transaction_pool w) (map ?m (pending_tx w)) (worker_db w)"
      using that(2) db_inv_cong by blast
    with retry_loop_db [of C "w\<lparr>latest_block := b, pending_tx := map ?m (pending_tx w)\<rparr>" "[]" w'] ok False that(1)
    show ?thesis by (simp add: on_best_block_def)
  qed (use ok that(2) in \<open>auto simp: on_best_block_def\<close>)
  then show "recovery_inv C n st'"
    using inv worker_inv_best_block ok unfolding st by (auto simp: recovery_inv_def)
qed

interpretation fresh_runs: step_invariant "fresh_start C n" "worker_step C" "recovery_inv C n" for C n
  by unfold_locales (blast intro: recovery_inv_start recovery_inv_step)+

section \<open>Loading the table\<close>

lemma append_le_append [simp]: "xs @ ys \<le> xs @ zs \<longleftrightarrow> ys \<le> zs" for xs :: "'a::order list"
  by (induction xs) simp_all

lemma byte_bounds: "replicate (length xs) 0 \<le> xs" "xs \<le> replicate (length xs) (- 1)" for xs :: "u8 list"
proof (induction xs)
  case (Cons x xs)
  { case 1 show ?case using Cons.IH(1) by (cases "x = 0") (simp_all add: word_gt_0) }
  { case 2 show ?case using Cons.IH(2) by (cases "x = - 1") (simp_all add: order.not_eq_order_implies_strict) }
qed simp_all

text \<open>The range holds every row of the account.\<close>

lemma key_range_own:
  assumes "\<And>k v. (k, v) \<in> set m \<Longrightarrow> \<exists>h. length h = 32 \<and> k = pk @ h"
  shows "key_range (pk @ replicate 32 0) (pk @ replicate 32 (- 1)) m = sort_key fst m"
proof -
  have "filter (\<lambda>e. pk @ replicate 32 0 \<le> fst e \<and> fst e \<le> pk @ replicate 32 (- 1)) m = m"
  proof (rule filter_True, rule ballI)
    fix e assume "e \<in> set m"
    then obtain h where h: "length h = 32" "fst e = pk @ h" using assms [of "fst e" "snd e"] by auto
    show "pk @ replicate 32 0 \<le> fst e \<and> fst e \<le> pk @ replicate 32 (- 1)"
      using byte_bounds [of h] unfolding h by simp
  qed
  then show ?thesis by (simp add: key_range_def)
qed

text \<open>The rows that decode, split by their nonces.\<close>

lemma sort_out_rows:
  assumes "\<forall>e\<in>set es. decode_tx_data C (snd e) = Some (dec (snd e))"
  shows "\<exists>ks. sort_out C n es = Inr (ks, filter (\<lambda>d. \<not> td_nonce d < n) (map (\<lambda>e. dec (snd e)) es)) \<and>
    set ks = fst ` set (filter (\<lambda>e. td_nonce (dec (snd e)) < n) es)"
  using assms by (induction es) auto

lemma sget_fold_sdel: "sget (fold sdel ks m) k = (if k \<in> set ks then None else sget m k)"
  by (induction ks arbitrary: m) simp_all

text \<open>Loading gives the transactions in the table whose nonce is not used up, by nonce, and deletes the others.\<close>

lemma load_pending_txs_rows:
  assumes C: "client_laws C" and wf: "swf (tx_table db)"
    and rows: "\<And>k v. sget (tx_table db) k = Some v \<Longrightarrow>
      \<exists>d. v = encode_tx_data C d \<and> k = composite_key db (td_hash d) \<and> length (td_hash d) = 32 \<and> td_transaction d \<in> snd ` set rs"
    and codec: "codec_ok C rs"
  shows "\<exists>ds db'. load_pending_txs C n db = (Inr ds, db') \<and> sorted (map td_nonce ds) \<and> distinct ds \<and>
    set ds = {d. stored C db d \<and> td_transaction d \<in> snd ` set rs \<and> n \<le> td_nonce d} \<and>
    (\<forall>d. td_transaction d \<in> snd ` set rs \<longrightarrow> stored C db' d = (stored C db d \<and> n \<le> td_nonce d))"
proof -
  let ?dec = "\<lambda>v. the (decode_tx_data C v)"
  let ?es = "sort_key fst (tx_table db)"
  have row: "\<exists>d. v = encode_tx_data C d \<and> k = composite_key db (td_hash d) \<and> length (td_hash d) = 32 \<and> td_transaction d \<in> snd ` set rs"
    if "(k, v) \<in> set (tx_table db)" for k v
    using rows that sget_iff [OF wf] by blast
  have es: "key_range (db_public_key db @ replicate 32 0) (db_public_key db @ replicate 32 (- 1)) (tx_table db) = ?es"
    by (rule key_range_own) (use row in \<open>fastforce simp: composite_key_def\<close>)
  have dec: "?dec (encode_tx_data C d) = d" "decode_tx_data C (encode_tx_data C d) = Some d"
    if "td_transaction d \<in> snd ` set rs" for d
    using codec that by (simp_all add: codec_ok_def)
  have "\<forall>e\<in>set ?es. decode_tx_data C (snd e) = Some (?dec (snd e))"
    using row dec by fastforce
  from sort_out_rows [OF this, of n] obtain ks where
    so: "sort_out C n ?es = Inr (ks, filter (\<lambda>d. \<not> td_nonce d < n) (map (\<lambda>e. ?dec (snd e)) ?es))"
    and ks: "set ks = fst ` set (filter (\<lambda>e. td_nonce (?dec (snd e)) < n) ?es)" by blast
  let ?ds = "filter (\<lambda>d. \<not> td_nonce d < n) (map (\<lambda>e. ?dec (snd e)) ?es)"
  have "set (map (\<lambda>e. ?dec (snd e)) ?es) = {d. stored C db d \<and> td_transaction d \<in> snd ` set rs}"
  proof (intro equalityI subsetI CollectI)
    fix d assume "d \<in> set (map (\<lambda>e. ?dec (snd e)) ?es)"
    then obtain k v where e: "(k, v) \<in> set (tx_table db)" "d = ?dec v" by auto
    obtain d' where d': "v = encode_tx_data C d'" "k = composite_key db (td_hash d')" "td_transaction d' \<in> snd ` set rs"
      using row [OF e(1)] by blast
    then have "d = d'" using e(2) dec(1) by simp
    with d' e(1) show "stored C db d \<and> td_transaction d \<in> snd ` set rs" by (simp add: stored_def sget_iff [OF wf])
  next
    fix d assume d: "d \<in> {d. stored C db d \<and> td_transaction d \<in> snd ` set rs}"
    then have "(composite_key db (td_hash d), encode_tx_data C d) \<in> set (tx_table db)"
      by (simp add: stored_def sget_iff [OF wf])
    then show "d \<in> set (map (\<lambda>e. ?dec (snd e)) ?es)" using d dec(1) [of d] by force
  qed
  then have set: "set ?ds = {d. stored C db d \<and> td_transaction d \<in> snd ` set rs \<and> n \<le> td_nonce d}" by (auto simp: not_less)
  have "inj_on (\<lambda>e. ?dec (snd e)) (set (tx_table db))"
  proof (rule inj_onI)
    fix e e' assume e: "e \<in> set (tx_table db)" "e' \<in> set (tx_table db)" "?dec (snd e) = ?dec (snd e')"
    obtain d where d: "snd e = encode_tx_data C d" "fst e = composite_key db (td_hash d)" "td_transaction d \<in> snd ` set rs"
      using row [of "fst e" "snd e"] e(1) by auto
    obtain d' where d': "snd e' = encode_tx_data C d'" "fst e' = composite_key db (td_hash d')" "td_transaction d' \<in> snd ` set rs"
      using row [of "fst e'" "snd e'"] e(2) by auto
    have "d = d'" using e(3) dec(1) [OF d(3)] dec(1) [OF d'(3)] by (simp only: d(1) d'(1))
    with d d' show "e = e'" by (simp add: prod_eq_iff)
  qed
  moreover have "distinct ?es" using wf by (simp add: swf_def distinct_map)
  ultimately have d: "distinct ?ds" by (simp add: distinct_map)
  let ?db = "db\<lparr>db_writes := Suc (db_writes db), tx_table := fold sdel ks (tx_table db)\<rparr>"
  have load: "load_pending_txs C n db = (Inr (sort_key td_nonce ?ds), ?db)"
    using C by (simp add: load_pending_txs_def es so write_table_def Let_def client_laws_def)
  have "stored C ?db d = (stored C db d \<and> n \<le> td_nonce d)" if t: "td_transaction d \<in> snd ` set rs" for d
  proof (cases "stored C db d")
    case True
    let ?k = "composite_key db (td_hash d)"
    have row: "sget (tx_table db) ?k = Some (encode_tx_data C d)" using True by (simp add: stored_def)
    have v: "v = encode_tx_data C d" if "(?k, v) \<in> set (tx_table db)" for v
      using that row sget_iff [OF wf, of ?k v] by simp
    have "?k \<in> set ks \<longleftrightarrow> td_nonce d < n"
    proof
      assume "?k \<in> set ks"
      then obtain v' where "(?k, v') \<in> set (tx_table db)" "td_nonce (?dec v') < n" unfolding ks by auto
      then show "td_nonce d < n" using v [of v'] dec(1) [OF t] by simp
    next
      assume "td_nonce d < n"
      then have "(?k, encode_tx_data C d) \<in> set (filter (\<lambda>e. td_nonce (?dec (snd e)) < n) ?es)"
        using row dec(1) [OF t] by (simp add: sget_iff [OF wf])
      then show "?k \<in> set ks" unfolding ks by (rule image_eqI [rotated]) simp
    qed
    then show ?thesis using True by (auto simp: stored_def sget_fold_sdel not_less)
  next
    case False
    then show ?thesis by (simp add: stored_def sget_fold_sdel)
  qed
  with load set d show ?thesis by (intro exI [of _ "sort_key td_nonce ?ds"] exI [of _ ?db]) simp
qed

section \<open>Restarting the worker\<close>

lemma recovered_rows:
  assumes reached: "reach (fresh_start C n) (worker_step C) (w, rs)" and C: "client_laws C" "codec_ok C rs"
    and hashes: "distinct (map (submittable_hash C) (transaction_pool w))"
  obtains w' where "worker_new C k latest (worker_db w) = Inr w'" "worker_nonce w' = k"
    "list_all (\<lambda>t. event_sender t = None) (pending_tx w')"
    "sorted (map td_nonce (map ts_data (pending_tx w')))" "distinct (map ts_data (pending_tx w'))"
    "set (map ts_data (pending_tx w')) = {d. stored C (worker_db w) d \<and> td_transaction d \<in> snd ` set rs \<and> k \<le> td_nonce d}"
    "table_of C rs (map (submittable_hash C) (transaction_pool w)) (pending_tx w) (worker_db w)"
    "\<forall>d. td_transaction d \<in> snd ` set rs \<longrightarrow> stored C (worker_db w') d = (stored C (worker_db w) d \<and> k \<le> td_nonce d)"
proof -
  have inv: "db_inv C rs (transaction_pool w) (pending_tx w) (worker_db w)"
    using fresh_runs.reachable_inv [OF reached] C(1) by (simp add: recovery_inv_def)
  then have t: "table_of C rs (map (submittable_hash C) (transaction_pool w)) (pending_tx w) (worker_db w)"
    and wf: "swf (tx_table (worker_db w))" using hashes by (simp_all add: db_inv_def)
  have "\<exists>d. v = encode_tx_data C d \<and> k = composite_key (worker_db w) (td_hash d) \<and> length (td_hash d) = 32 \<and>
      td_transaction d \<in> snd ` set rs" if "sget (tx_table (worker_db w)) k = Some v" for k v
    using table_of_row [OF t that] C(1) by (auto simp: client_laws_def)
  from load_pending_txs_rows [OF C(1) wf this C(2), of k] obtain ds db' where
    ds: "load_pending_txs C k (worker_db w) = (Inr ds, db')" "sorted (map td_nonce ds)" "distinct ds"
      "set ds = {d. stored C (worker_db w) d \<and> td_transaction d \<in> snd ` set rs \<and> k \<le> td_nonce d}"
      "\<forall>d. td_transaction d \<in> snd ` set rs \<longrightarrow> stored C db' d = (stored C (worker_db w) d \<and> k \<le> td_nonce d)" by blast
  let ?w = "\<lparr>worker_nonce = k, latest_block = latest,
    pending_tx = map (\<lambda>d. \<lparr>ts_data = d, event_sender = None, best_block = None\<rparr>) ds,
    transaction_pool = [], worker_db = db', signings = 0, answers = []\<rparr>"
  have "map ts_data (pending_tx ?w) = ds" by (simp add: comp_def)
  with ds t show ?thesis by (intro that [of ?w]) (simp_all add: worker_new_def list_all_iff)
qed

lemma pending_nonces:
  assumes "worker_inv C n (w, rs)" "unat n + length rs < 2 ^ 64"
  shows "sorted (map td_nonce (map ts_data (pending_tx w)))" "distinct (map td_nonce (map ts_data (pending_tx w)))"
proof -
  have "map (snd \<circ> snd) (map status_view (pending_tx w)) = map (\<lambda>i. n + of_nat i) [length (answers w)..<length rs]"
    using assms(1) by (simp add: worker_inv_def requests_view_def)
  then have eq: "map td_nonce (map ts_data (pending_tx w)) = map (\<lambda>i. n + of_nat i) [length (answers w)..<length rs]"
    by (simp add: status_view_def comp_def)
  have i: "unat (n + of_nat i) = unat n + i" if "i < length rs" for i
  proof -
    have "unat (of_nat i :: u64) = i" using that assms(2) by (simp add: unat_of_nat)
    then show ?thesis using that assms(2) by (simp add: unat_add_less)
  qed
  show "sorted (map td_nonce (map ts_data (pending_tx w)))"
    unfolding eq sorted_map by (rule sorted_wrt_mono_rel [OF _ sorted_wrt_upt]) (auto simp: word_le_nat_alt i)
  show "distinct (map td_nonce (map ts_data (pending_tx w)))"
    unfolding eq distinct_map by (auto intro!: inj_onI) (metis add_left_imp_eq i)
qed

lemma restarted_pending:
  assumes "reach (fresh_start C n) (worker_step C) (w, rs)" "client_laws C" "codec_ok C rs"
    and "distinct (map (submittable_hash C) (transaction_pool w))"
    and "unat n + length rs < 2 ^ 64"
  obtains w' where "worker_new C k latest (worker_db w) = Inr w'" "worker_nonce w' = k"
    "list_all (\<lambda>t. event_sender t = None \<and> k \<le> td_nonce (ts_data t)) (pending_tx w')"
    "set (filter (\<lambda>d. k \<le> td_nonce d) (map ts_data (pending_tx w))) \<subseteq> set (map ts_data (pending_tx w'))"
    "sorted (map td_nonce (map ts_data (pending_tx w')))"
    "list_all (\<lambda>t. stored C (worker_db w') (ts_data t) \<longleftrightarrow> k \<le> td_nonce (ts_data t)) (pending_tx w)"
    "length (transaction_pool w) = length rs \<Longrightarrow>
      map ts_data (pending_tx w') = filter (\<lambda>d. k \<le> td_nonce d) (map ts_data (pending_tx w))"
proof -
  obtain w' where w': "worker_new C k latest (worker_db w) = Inr w'" "worker_nonce w' = k"
    "list_all (\<lambda>t. event_sender t = None) (pending_tx w')"
    "sorted (map td_nonce (map ts_data (pending_tx w')))" "distinct (map ts_data (pending_tx w'))"
    "set (map ts_data (pending_tx w')) = {d. stored C (worker_db w) d \<and> td_transaction d \<in> snd ` set rs \<and> k \<le> td_nonce d}"
    and t: "table_of C rs (map (submittable_hash C) (transaction_pool w)) (pending_tx w) (worker_db w)"
    and rest: "\<forall>d. td_transaction d \<in> snd ` set rs \<longrightarrow> stored C (worker_db w') d = (stored C (worker_db w) d \<and> k \<le> td_nonce d)"
    by (rule recovered_rows [OF assms(1-4)])
  let ?ds = "filter (\<lambda>d. k \<le> td_nonce d) (map ts_data (pending_tx w))"
  have sub: "set ?ds \<subseteq> set (map ts_data (pending_tx w'))"
    unfolding w'(6) using t by (auto simp: table_of_def)
  have live: "list_all (\<lambda>t. event_sender t = None \<and> k \<le> td_nonce (ts_data t)) (pending_tx w')"
  proof -
    have "k \<le> td_nonce (ts_data t)" if "t \<in> set (pending_tx w')" for t
      using that w'(6) by auto
    then show ?thesis using w'(3) by (simp add: list_all_iff)
  qed
  have kept: "list_all (\<lambda>t. stored C (worker_db w') (ts_data t) \<longleftrightarrow> k \<le> td_nonce (ts_data t)) (pending_tx w)"
    unfolding list_all_iff
  proof
    fix u assume u: "u \<in> set (pending_tx w)"
    then have "td_transaction (ts_data u) \<in> snd ` set rs" "stored C (worker_db w) (ts_data u)"
      using t by (auto simp: table_of_def)
    then show "stored C (worker_db w') (ts_data u) \<longleftrightarrow> k \<le> td_nonce (ts_data u)" using rest by simp
  qed
  have "map ts_data (pending_tx w') = ?ds" if l: "length (transaction_pool w) = length rs"
  proof (rule sorted_by_key_unique [where f = td_nonce])
    have "d \<in> ts_data ` set (pending_tx w)" if d: "stored C (worker_db w) d" "td_transaction d \<in> snd ` set rs" for d
    proof -
      obtain d' where d': "encode_tx_data C d = encode_tx_data C d'" "td_transaction d' \<in> snd ` set rs"
        "d' \<in> ts_data ` set (pending_tx w)"
        using table_of_row [OF t d(1) [unfolded stored_def]] l by auto
      then have "d = d'" using d(2) assms(3) by (metis codec_ok_def option.inject)
      then show ?thesis using d'(3) by simp
    qed
    then show s: "set (map ts_data (pending_tx w')) = set ?ds"
      using sub unfolding w'(6) by auto
    have inv: "worker_inv C n (w, rs)" using fresh_runs.reachable_inv [OF assms(1)] by (simp add: recovery_inv_def)
    note n = pending_nonces [OF inv assms(5)]
    show n': "sorted (map td_nonce ?ds)" "distinct (map td_nonce ?ds)"
      by (rule sorted_filter [OF n(1)], rule distinct_map_filter [OF n(2)])
    show "sorted (map td_nonce (map ts_data (pending_tx w')))" by (fact w'(4))
    show "distinct (map td_nonce (map ts_data (pending_tx w')))"
      using n'(2) s w'(5) unfolding distinct_map [of td_nonce] by simp
  qed
  with w'(1,2,4) live sub kept show ?thesis by (intro that)
qed

text \<open>
  C37. A worker that is started again with the nonce \<open>k\<close> finds in the database, ordered by nonce, the transactions
  that were pending and whose nonce is at least \<open>k\<close>; their rows stay, and the rows of the pending transactions with a
  smaller nonce are deleted. If no transaction was submitted twice, it finds exactly those. This is given that
  the writes succeeded and no two extrinsics had the same hash. The client passes the next index of the account
  that the node reports, and the node counts the transactions of its pool: \<open>k\<close> is beyond the pending transactions that
  are still in the pool, and these are not recovered.
\<close>

theorem restart_recovers:
  assumes "reach (fresh_start C n) (worker_step C) (w, rs)" "client_laws C" "codec_ok C rs"
    and "distinct (map (submittable_hash C) (transaction_pool w))"
    and "unat n + length rs < 2 ^ 64"
  shows "\<exists>w'. worker_new C k latest (worker_db w) = Inr w' \<and> worker_nonce w' = k \<and>
    set (filter (\<lambda>d. k \<le> td_nonce d) (map ts_data (pending_tx w))) \<subseteq> set (map ts_data (pending_tx w')) \<and>
    list_all (\<lambda>t. k \<le> td_nonce (ts_data t)) (pending_tx w') \<and>
    sorted (map td_nonce (map ts_data (pending_tx w'))) \<and>
    list_all (\<lambda>t. stored C (worker_db w') (ts_data t) \<longleftrightarrow> k \<le> td_nonce (ts_data t)) (pending_tx w) \<and>
    (length (transaction_pool w) = length rs \<longrightarrow>
       map ts_data (pending_tx w') = filter (\<lambda>d. k \<le> td_nonce d) (map ts_data (pending_tx w)))"
  by (rule restarted_pending [OF assms, of k latest]) (auto simp: list_all_iff)

lemma pending_front_least:
  assumes "reach (fresh_start C n) (worker_step C) (w, rs)" "unat n + length rs < 2 ^ 64" "pending_tx w = t # ts"
  shows "list_all (\<lambda>u. td_nonce (ts_data t) \<le> td_nonce (ts_data u)) (pending_tx w)"
proof -
  have "worker_inv C n (w, rs)" using fresh_runs.reachable_inv [OF assms(1)] by (simp add: recovery_inv_def)
  from pending_nonces(1) [OF this assms(2)] show ?thesis by (simp add: assms(3) list_all_iff)
qed

text \<open>
  C39. A worker that recovers transactions does not get far. It is started with the nonce of the first transaction still
  pending: the next index of the account at a node that does not have that transaction in its pool. It gives
  its next request the nonce of that transaction, so that one of both is lost; and when that transaction is finalized the
  worker panics, since nobody waits for the answer. Here no transaction was submitted twice before.
\<close>

theorem restarted_worker_fails:
  assumes "reach (fresh_start C n) (worker_step C) (w, rs)" "client_laws C" "codec_ok C rs"
    and "distinct (map (submittable_hash C) (transaction_pool w))" "pending_tx w = t # ts"
    and "unat n + length rs < 2 ^ 64" "length (transaction_pool w) = length rs"
    and "extrinsic_hash C x = td_hash (ts_data t)"
  shows "\<exists>w'. worker_new C (td_nonce (ts_data t)) latest (worker_db w) = Inr w' \<and>
    ts_data (hd (pending_tx w')) = ts_data t \<and>
    td_nonce (ts_data (last (pending_tx (on_request C u channel w')))) = td_nonce (ts_data t) \<and>
    on_finalized C (x # xs) w' = None"
proof -
  let ?k = "td_nonce (ts_data t)"
  obtain w' where w': "worker_new C ?k latest (worker_db w) = Inr w'" "worker_nonce w' = ?k"
    "list_all (\<lambda>t. event_sender t = None \<and> ?k \<le> td_nonce (ts_data t)) (pending_tx w')"
    "map ts_data (pending_tx w') = filter (\<lambda>d. ?k \<le> td_nonce d) (map ts_data (pending_tx w))"
    by (rule restarted_pending [OF assms(1-4,6)]) (blast intro: assms(7))
  have "filter (\<lambda>d. ?k \<le> td_nonce d) (map ts_data (pending_tx w)) = map ts_data (pending_tx w)"
    using pending_front_least [OF assms(1,6,5)] by (intro filter_True) (auto simp: list_all_iff)
  note w' = w'(1,2,3) w'(4) [unfolded this]
  obtain t' ts' where t': "pending_tx w' = t' # ts'" "ts_data t' = ts_data t"
    using w'(4) by (auto simp: assms(5))
  have "td_nonce (ts_data (last (pending_tx (on_request C u channel w')))) = ?k"
    by (simp add: on_request_def add_tx_to_pool_eq new_status_def w'(2))
  moreover have "on_finalized C (x # xs) w' = None"
    using w'(3) by (simp add: on_finalized_def finalize_extrinsic_def t' assms(8))
  ultimately show ?thesis using w'(1) t' by auto
qed

section \<open>A small restart\<close>

lemma demo_client_laws: "client_laws demo_client" "codec_ok demo_client demo_requests"
proof -
  show "client_laws demo_client" by (simp add: client_laws_def demo_client_def min_def)
  have "of_nat (from_be (be_bytes 8 (unat x))) = x" for x :: u64
    using unsigned_less [of x, where ?'a = nat] by (simp add: from_be_be_bytes)
  then show "codec_ok demo_client demo_requests"
    by (auto simp: codec_ok_def demo_client_def demo_requests_def length_be_bytes)
qed

lemma demo_busy_fresh: "reach (fresh_start demo_client 7) (worker_step demo_client) (demo_busy, demo_requests)"
proof (rule demo_busy_steps)
  have "tx_table demo_db = []" "length (db_public_key demo_db) = 32" by (simp_all add: demo_db_def)
  then show "fresh_start demo_client 7 (demo_idle, [])" using demo_idle_new unfolding fresh_start_def by blast
qed

lemma demo_busy_distinct: "distinct (map (submittable_hash demo_client) (transaction_pool demo_busy))"
  by (simp add: demo_busy_eq demo_client_def)

theorem restart_recovers_witness:
  "(\<exists>w. worker_new demo_client 7 \<lparr>bid_number = 5, bid_hash = []\<rparr> (worker_db demo_busy) = Inr w \<and>
     map ts_data (pending_tx w) = map ts_data (pending_tx demo_busy)) \<and>
   (\<exists>w. worker_new demo_client 9 \<lparr>bid_number = 5, bid_hash = []\<rparr> (worker_db demo_busy) = Inr w \<and> pending_tx w = [])"
proof -
  have "unat (7 :: u64) + length demo_requests < 2 ^ 64" by (simp add: demo_requests_def)
  note r = restart_recovers [OF demo_busy_fresh demo_client_laws demo_busy_distinct this,
    of _ "\<lparr>bid_number = 5, bid_hash = []\<rparr>"]
  from r [of 7] r [of 9] show ?thesis by (auto simp: demo_requests_def demo_busy_eq)
qed

theorem restarted_worker_fails_witness:
  "\<exists>w. worker_new demo_client 7 \<lparr>bid_number = 5, bid_hash = []\<rparr> (worker_db demo_busy) = Inr w \<and>
     on_finalized demo_client [[0]] w = None"
proof -
  have "unat (7 :: u64) + length demo_requests < 2 ^ 64" "length (transaction_pool demo_busy) = length demo_requests"
    "extrinsic_hash demo_client [0] = 0 # replicate 31 0"
    by (simp_all add: demo_requests_def demo_busy_eq demo_client_def)
  with restarted_worker_fails [OF demo_busy_fresh demo_client_laws demo_busy_distinct demo_busy_eq(1), of "[0]"]
  show ?thesis by simp blast
qed

end
