(* ===== verification/Chronicle_Tss.thy ===== *)
theory Chronicle_Tss
  imports Tss_Properties Runtime_Config "HOL-Library.List_Lexorder"
begin

text \<open>
  The signing state of a chronicle for one shard, \<open>chronicle/src/shards/tss.rs\<close>: a threshold signer of the \<open>tss\<close>
  crate, or, in a shard of one member, a plain signing key; and the directory in which it keeps its key shares.
\<close>

section \<open>What it takes from outside\<close>

text \<open>
  The peer identifiers of \<open>peernet\<close>, the codecs of \<open>bincode\<close> and \<open>hex\<close>, the hash of \<open>sha3\<close>, the keys of \<open>frost_evm\<close> and
  the file system: whether a file can be written and the permissions a new file gets. \<open>random_key\<close> is
  numbered by its calls.
\<close>

type_synonym signing_key = bytes

record keyshare_env =
  peer_id_ok :: "peer_id \<Rightarrow> bool"
  peer_frost_id :: "peer_id \<Rightarrow> frost_id"
  bincode_commitment :: "vss_commitment \<Rightarrow> bytes"
  sha3_256 :: "bytes \<Rightarrow> bytes"
  hex_encode :: "bytes \<Rightarrow> bytes"
  bincode_share :: "scalar \<Rightarrow> bytes"
  debincode_share :: "bytes \<Rightarrow> scalar option"
  bincode_key :: "bytes \<Rightarrow> bytes"
  debincode_key :: "bytes \<Rightarrow> bytes option"
  signing_key_bytes :: "signing_key \<Rightarrow> bytes"
  signing_key_from :: "bytes \<Rightarrow> signing_key option"
  random_key :: "nat \<Rightarrow> signing_key"
  public_of :: "signing_key \<Rightarrow> bytes"
  vss_deserialize :: "bytes list \<Rightarrow> vss_commitment option"
  vss_serialize :: "vss_commitment \<Rightarrow> bytes list"
  construct_proof_of_knowledge :: "peer_id \<Rightarrow> signing_key \<Rightarrow> vss_commitment \<Rightarrow> dkg_proof option"
  sign_prehashed :: "signing_key \<Rightarrow> bytes \<Rightarrow> signature"
  write_ok :: "bytes \<Rightarrow> bool"
  default_mode :: u32

section \<open>The key shares on disk\<close>

record keyshare_file =
  file_bytes :: bytes
  file_mode :: u32

type_synonym keyshare_cache = "(bytes, keyshare_file) smap"

datatype tss_error = InvalidPeerId | ReadFailed | DeserializeFailed

definition signing_share_path :: "keyshare_env \<Rightarrow> vss_commitment \<Rightarrow> bytes" where
  "signing_share_path E c = hex_encode E (sha3_256 E (bincode_commitment E c))"

definition read_signing_share ::
  "keyshare_env \<Rightarrow> (bytes \<Rightarrow> 'a option) \<Rightarrow> keyshare_cache \<Rightarrow> vss_commitment \<Rightarrow> tss_error + 'a" where
  "read_signing_share E debincode cache c =
     (case sget cache (signing_share_path E c) of
        None \<Rightarrow> Inl ReadFailed
      | Some f \<Rightarrow> (case debincode (file_bytes f) of None \<Rightarrow> Inl DeserializeFailed | Some x \<Rightarrow> Inr x))"

text \<open>
  The permissions are set before the file is written: on a file that is not there this fails, and the failure is ignored.
  A new file gets the default permissions, an existing one keeps its own. A failed write is only logged.
\<close>

definition write_signing_share :: "keyshare_env \<Rightarrow> keyshare_cache \<Rightarrow> vss_commitment \<Rightarrow> bytes \<Rightarrow> keyshare_cache" where
  "write_signing_share E cache c bs =
     (let name = signing_share_path E c;
          cache1 = (case sget cache name of None \<Rightarrow> cache | Some f \<Rightarrow> sput name (f\<lparr>file_mode := 384\<rparr>) cache)
      in if write_ok E name
         then sput name \<lparr>file_bytes = bs,
                file_mode = (case sget cache1 name of None \<Rightarrow> default_mode E | Some f \<Rightarrow> file_mode f)\<rparr> cache1
         else cache1)"

section \<open>The signing state\<close>

datatype node_tss_action =
    ActSend "(peer_id \<times> tss_message) list"
  | ActCommit vss_commitment dkg_proof
  | ActPublicKey bytes
  | ActSignature u64 bytes signature

datatype node_tss =
    TssEnabled "peer_id tss"
  | TssDisabled signing_key "node_tss_action option" bool

text \<open>
  The members are those of an ordered set. \<open>None\<close> is a panic, in \<open>unwrap\<close> or in the threshold
  signer. The first argument numbers the random keys.
\<close>

definition node_tss_new ::
  "frost \<Rightarrow> keyshare_env \<Rightarrow> nat \<Rightarrow> peer_id \<Rightarrow> peer_id list \<Rightarrow> u16 \<Rightarrow> vss_commitment option \<Rightarrow> keyshare_cache \<Rightarrow>
     ((tss_error + node_tss) \<times> keyshare_cache) option" where
  "node_tss_new F E rnd p ms t commitment cache =
     (if \<not> peer_id_ok E p \<or> \<not> list_all (peer_id_ok E) ms then Some (Inl InvalidPeerId, cache)
      else if length ms = 1 then
        (case commitment of
           Some c \<Rightarrow>
             (case read_signing_share E (debincode_key E) cache c of
                Inl e \<Rightarrow> Some (Inl e, cache)
              | Inr bs \<Rightarrow>
                  (case signing_key_from E bs of
                     None \<Rightarrow> Some (Inl DeserializeFailed, cache)
                   | Some key \<Rightarrow> Some (Inr (TssDisabled key None True), cache)))
         | None \<Rightarrow>
             (let key = random_key E rnd
              in case vss_deserialize E [public_of E key] of
                   None \<Rightarrow> None
                 | Some c \<Rightarrow>
                     (case construct_proof_of_knowledge E p key c of
                        None \<Rightarrow> None
                      | Some proof \<Rightarrow>
                          Some (Inr (TssDisabled key (Some (ActCommit c proof)) False),
                                write_signing_share E cache c (bincode_key E (signing_key_bytes E key))))))
      else
        (case commitment of
           None \<Rightarrow> map_option (\<lambda>s. (Inr (TssEnabled s), cache)) (tss_new F (peer_frost_id E) p ms t None)
         | Some c \<Rightarrow>
             (case read_signing_share E (debincode_share E) cache c of
                Inl e \<Rightarrow> Some (Inl e, cache)
              | Inr share \<Rightarrow>
                  map_option (\<lambda>s. (Inr (TssEnabled s), cache)) (tss_new F (peer_frost_id E) p ms t (Some (share, c))))))"

fun node_committed :: "node_tss \<Rightarrow> bool" where
  "node_committed (TssEnabled s) = tss_committed s"
| "node_committed (TssDisabled _ _ committed) = committed"

fun node_on_commit :: "keyshare_env \<Rightarrow> vss_commitment \<Rightarrow> node_tss \<Rightarrow> node_tss" where
  "node_on_commit E c (TssEnabled s) = TssEnabled (tss_on_commit c s)"
| "node_on_commit E c (TssDisabled key _ _) = TssDisabled key (Some (ActPublicKey (public_of E key))) True"

fun node_on_start :: "u64 \<Rightarrow> node_tss \<Rightarrow> node_tss" where
  "node_on_start i (TssEnabled s) = TssEnabled (tss_on_start i s)"
| "node_on_start i (TssDisabled key a b) = TssDisabled key a b"

fun node_on_sign :: "frost \<Rightarrow> keyshare_env \<Rightarrow> u64 \<Rightarrow> bytes \<Rightarrow> node_tss \<Rightarrow> node_tss" where
  "node_on_sign F E i data (TssEnabled s) = TssEnabled (tss_on_sign i data s)"
| "node_on_sign F E i data (TssDisabled key _ b) =
     (let h = message_hash F data in TssDisabled key (Some (ActSignature i h (sign_prehashed E key h))) b)"

fun node_on_complete :: "u64 \<Rightarrow> node_tss \<Rightarrow> node_tss" where
  "node_on_complete i (TssEnabled s) = TssEnabled (tss_on_complete i s)"
| "node_on_complete i (TssDisabled key a b) = TssDisabled key a b"

definition node_on_message :: "keyshare_env \<Rightarrow> peer_id \<Rightarrow> tss_message \<Rightarrow> node_tss \<Rightarrow> tss_error + node_tss" where
  "node_on_message E p msg n =
     (if \<not> peer_id_ok E p then Inl InvalidPeerId
      else (case n of
              TssEnabled s \<Rightarrow> Inr (TssEnabled (tss_on_message (peer_frost_id E) p msg s))
            | TssDisabled _ _ _ \<Rightarrow> Inr n))"

text \<open>The next action; a key share is written when the threshold signer is ready.\<close>

definition node_next_action ::
  "frost \<Rightarrow> keyshare_env \<Rightarrow> keyshare_cache \<Rightarrow> node_tss \<Rightarrow> (node_tss_action option \<times> node_tss \<times> keyshare_cache) option" where
  "node_next_action F E cache n =
     (case n of
        TssDisabled key a b \<Rightarrow> Some (a, TssDisabled key None b, cache)
      | TssEnabled s \<Rightarrow>
          map_option (\<lambda>(act, s'). case act of
              None \<Rightarrow> (None, TssEnabled s', cache)
            | Some (TssSend msgs) \<Rightarrow> (Some (ActSend msgs), TssEnabled s', cache)
            | Some (TssCommit c proof) \<Rightarrow> (Some (ActCommit c proof), TssEnabled s', cache)
            | Some (TssReady share c public) \<Rightarrow>
                (Some (ActPublicKey public), TssEnabled s', write_signing_share E cache c (bincode_share E share))
            | Some (TssSignature i h sig) \<Rightarrow> (Some (ActSignature i h sig), TssEnabled s', cache))
            (tss_next_action F s))"

section \<open>Key shares survive a restart\<close>

lemma sget_write_signing_share:
  "write_ok E (signing_share_path E c) \<Longrightarrow>
    map_option file_bytes (sget (write_signing_share E cache c bs) (signing_share_path E c)) = Some bs"
  by (simp add: write_signing_share_def Let_def)

text \<open>A key share that is written for the first time gets the default permissions, not those of its owner alone.\<close>

lemma new_share_default_mode:
  assumes "write_ok E (signing_share_path E c)" "sget cache (signing_share_path E c) = None"
  shows "map_option file_mode (sget (write_signing_share E cache c bs) (signing_share_path E c)) = Some (default_mode E)"
  using assms by (simp add: write_signing_share_def Let_def)

text \<open>What the codecs and keys promise: what was encoded can be decoded.\<close>

definition codecs_ok :: "keyshare_env \<Rightarrow> bool" where
  "codecs_ok E \<longleftrightarrow> (\<forall>s. debincode_share E (bincode_share E s) = Some s) \<and>
     (\<forall>bs. debincode_key E (bincode_key E bs) = Some bs) \<and>
     (\<forall>k. signing_key_from E (signing_key_bytes E k) = Some k)"

text \<open>What \<open>frost_evm\<close> promises: a key package holds the share it was made from.\<close>

definition share_kept :: "frost \<Rightarrow> bool" where
  "share_kept F \<longleftrightarrow> (\<forall>i x c kp. key_package_of F i x c = Inr kp \<longrightarrow> signing_share_of F kp = x)"

lemma read_written:
  assumes "write_ok E (signing_share_path E c)" "debincode bs = Some x"
  shows "read_signing_share E debincode (write_signing_share E cache c bs) c = Inr x"
  using sget_write_signing_share [OF assms(1), of cache bs] assms(2) by (auto simp: read_signing_share_def)

text \<open>The fields of a threshold signer that never change, and the members its key generation knows.\<close>

definition signer_base :: "('p \<Rightarrow> frost_id) \<Rightarrow> 'p \<Rightarrow> 'p list \<Rightarrow> u16 \<Rightarrow> 'p tss \<Rightarrow> bool" where
  "signer_base to_frost p ms t s \<longleftrightarrow>
     tss_peer_id s = p \<and> tss_frost_id s = to_frost p \<and> tss_frost_to_peer s = peer_map to_frost ms \<and>
     tss_threshold s = t \<and> tss_coordinators s = coordinators_of (id_keys (peer_map to_frost ms)) t \<and>
     (\<forall>d. tss_state s = TssDkg d \<longrightarrow> dkg_id d = to_frost p \<and> dkg_members d = id_set (id_keys (peer_map to_frost ms)))"

lemma signer_base_new: "tss_new F to_frost p ms t recover = Some s \<Longrightarrow> signer_base to_frost p ms t s"
  by (auto simp: tss_new_def signer_base_def dkg_new_def Let_def split: option.splits prod.splits sum.splits)

lemma signer_base_state:
  assumes "signer_base f p ms t s"
    and "\<And>d. st = TssDkg d \<Longrightarrow> dkg_id d = f p \<and> dkg_members d = id_set (id_keys (peer_map f ms))"
  shows "signer_base f p ms t (s\<lparr>tss_state := st\<rparr>)"
  using assms by (simp add: signer_base_def)

lemma signer_base_dkg:
  assumes "signer_base f p ms t s" "tss_state s = TssDkg d" "dkg_id d' = dkg_id d" "dkg_members d' = dkg_members d"
  shows "signer_base f p ms t (s\<lparr>tss_state := TssDkg d'\<rparr>)"
  by (rule signer_base_state [OF assms(1)]) (use assms in \<open>simp add: signer_base_def\<close>)

lemma signer_base_roast: "signer_base f p ms t s \<Longrightarrow> signer_base f p ms t (s\<lparr>tss_state := TssRoast kp pkp ss\<rparr>)"
  by (rule signer_base_state) simp_all

lemma signer_base_opened [simp]: "signer_base f p ms t (s\<lparr>tss_opened := n\<rparr>) = signer_base f p ms t s"
  "signer_base f p ms t (s\<lparr>tss_committed := b\<rparr>) = signer_base f p ms t s"
  by (simp_all add: signer_base_def)

lemma signer_base_on_message:
  assumes "signer_base f p ms t s"
  shows "signer_base f p ms t (tss_on_message f q msg s)"
proof (cases "tss_state s")
  case (TssDkg d)
  then show ?thesis
    using assms signer_base_dkg [OF assms TssDkg]
    by (cases msg) (simp_all add: tss_on_message_def dkg_on_message_def)
next
  case (TssRoast kp pkp ss)
  then show ?thesis
    using assms signer_base_roast [OF assms]
    by (cases msg) (simp_all add: tss_on_message_def split: option.split)
qed (use assms in \<open>simp add: tss_on_message_def\<close>)

lemma signer_base_on_commit:
  assumes "signer_base f p ms t s"
  shows "signer_base f p ms t (tss_on_commit c s)"
proof (cases "tss_state s")
  case (TssDkg d)
  then show ?thesis
    using assms signer_base_dkg [OF assms TssDkg, of "dkg_on_commit c d"] by (simp add: tss_on_commit_def dkg_on_commit_def)
qed (use assms in \<open>simp_all add: tss_on_commit_def\<close>)

lemma signer_base_put: "signer_base f p ms t s \<Longrightarrow> signer_base f p ms t (put_session i r s)"
  by (cases "tss_state s") (simp_all add: put_session_def signer_base_roast)

lemma signer_base_insert:
  assumes "signer_base f p ms t s" "get_or_insert_session i s = Some (r, s')"
  shows "signer_base f p ms t s'"
proof (cases "tss_state s")
  case (TssRoast kp pkp ss)
  show ?thesis
  proof (cases "sget ss i")
    case None
    then have "s' = s\<lparr>tss_state := tss_state s', tss_opened := tss_opened s'\<rparr>" "\<exists>ss'. tss_state s' = TssRoast kp pkp ss'"
      using assms(2) TssRoast by (auto simp: get_or_insert_session_def Let_def)
    then show ?thesis using signer_base_roast [OF assms(1)] by (metis signer_base_opened(1))
  qed (use assms TssRoast in \<open>simp add: get_or_insert_session_def\<close>)
qed (use assms in \<open>simp_all add: get_or_insert_session_def\<close>)

lemma signer_base_sessions:
  assumes "signer_base f p ms t s"
  shows "signer_base f p ms t (tss_on_start i s)" "signer_base f p ms t (tss_on_sign i data s)"
    "signer_base f p ms t (tss_on_complete i s)"
proof -
  show "signer_base f p ms t (tss_on_start i s)" "signer_base f p ms t (tss_on_sign i data s)"
    by (auto simp: tss_on_start_def tss_on_sign_def assms split: option.split
        intro: signer_base_put signer_base_insert [OF assms])
  show "signer_base f p ms t (tss_on_complete i s)"
    using assms signer_base_roast [OF assms] by (cases "tss_state s") (simp_all add: tss_on_complete_def)
qed

lemma signer_base_roast_actions:
  "signer_base f p ms t s \<Longrightarrow> roast_actions F is s = Some (act, s') \<Longrightarrow> signer_base f p ms t s'"
proof (induction "is" arbitrary: s)
  case (Cons i "is")
  show ?case
  proof (cases "tss_state s")
    case (TssRoast kp pkp ss)
    then obtain r a r' where r: "sget ss i = Some r" "session_loop F (tss_frost_id s) r = Some (a, r')"
      using Cons.prems(2) by (cases "sget ss i") (auto simp: bind_eq_Some_conv)
    show ?thesis
    proof (cases a)
      case None
      then have "roast_actions F is (put_session i r' s) = Some (act, s')" using Cons.prems(2) TssRoast r by simp
      then show ?thesis by (rule Cons.IH [OF signer_base_put [OF Cons.prems(1)]])
    next
      case (Some x)
      then have "s' = put_session i r' s" using Cons.prems(2) TssRoast r by auto
      then show ?thesis using signer_base_put [OF Cons.prems(1)] by simp
    qed
  qed (use Cons.prems in simp_all)
qed simp

lemma dkg_next_action_members:
  "dkg_next_action F d = Some (act, d') \<Longrightarrow> dkg_id d' = dkg_id d \<and> dkg_members d' = dkg_members d"
  by (auto simp: dkg_next_action_def split: option.splits sum.splits if_splits)

lemma signer_base_next_action:
  assumes "signer_base f p ms t s" "tss_next_action F s = Some (act, s')"
  shows "signer_base f p ms t s'"
proof (cases "tss_state s")
  case (TssDkg d)
  then obtain a d' where a: "dkg_next_action F d = Some (a, d')"
    using assms(2) by (auto simp: tss_next_action_def dkg_actions_def bind_eq_Some_conv)
  have "dkg_id d = f p \<and> dkg_members d = id_set (id_keys (peer_map f ms))"
    using assms(1) TssDkg by (simp add: signer_base_def)
  then have d': "dkg_id d' = f p \<and> dkg_members d' = id_set (id_keys (peer_map f ms))"
    using dkg_next_action_members [OF a] by simp
  have "\<exists>st. s' = s\<lparr>tss_state := st\<rparr> \<and> (\<forall>e. st = TssDkg e \<longrightarrow> e = d')"
  proof (cases a)
    case None
    then show ?thesis using assms(2) TssDkg a by (auto simp: tss_next_action_def dkg_actions_def)
  next
    case (Some x)
    then show ?thesis
      using assms(2) TssDkg a by (cases x) (auto simp: tss_next_action_def dkg_actions_def)
  qed
  then show ?thesis using signer_base_state [OF assms(1)] d' by auto
next
  case (TssRoast kp pkp ss)
  then have "roast_actions F (map fst (siter unat ss)) s = Some (act, s')" using assms(2) by (simp add: tss_next_action_def)
  then show ?thesis by (rule signer_base_roast_actions [OF assms(1)])
next
  case TssFailed
  then show ?thesis using assms by (simp add: tss_next_action_def)
qed

text \<open>A signing state of a chronicle: every state that is reached from a new one by its operations.\<close>

inductive node_run :: "frost \<Rightarrow> keyshare_env \<Rightarrow> peer_id \<Rightarrow> peer_id list \<Rightarrow> u16 \<Rightarrow> node_tss \<Rightarrow> bool"
  for F E p ms t where
  run_new: "node_tss_new F E rnd p ms t c cache = Some (Inr n, cache') \<Longrightarrow> node_run F E p ms t n"
| run_commit: "node_run F E p ms t n \<Longrightarrow> node_run F E p ms t (node_on_commit E c n)"
| run_start: "node_run F E p ms t n \<Longrightarrow> node_run F E p ms t (node_on_start i n)"
| run_sign: "node_run F E p ms t n \<Longrightarrow> node_run F E p ms t (node_on_sign F E i data n)"
| run_complete: "node_run F E p ms t n \<Longrightarrow> node_run F E p ms t (node_on_complete i n)"
| run_message: "node_run F E p ms t n \<Longrightarrow> node_on_message E q msg n = Inr n' \<Longrightarrow> node_run F E p ms t n'"
| run_action: "node_run F E p ms t n \<Longrightarrow> node_next_action F E cache n = Some (act, n', cache') \<Longrightarrow> node_run F E p ms t n'"

definition node_base :: "keyshare_env \<Rightarrow> peer_id \<Rightarrow> peer_id list \<Rightarrow> u16 \<Rightarrow> node_tss \<Rightarrow> bool" where
  "node_base E p ms t n \<longleftrightarrow> peer_id_ok E p \<and> list_all (peer_id_ok E) ms \<and>
     (case n of TssEnabled s \<Rightarrow> length ms \<noteq> 1 \<and> signer_base (peer_frost_id E) p ms t s | TssDisabled _ _ _ \<Rightarrow> length ms = 1)"

lemma node_base_new:
  "node_tss_new F E rnd p ms t c cache = Some (Inr n, cache') \<Longrightarrow> node_base E p ms t n"
  by (auto simp: node_tss_new_def node_base_def Let_def split: if_splits option.splits sum.splits dest: signer_base_new)

lemma node_base_action:
  assumes "node_base E p ms t n" "node_next_action F E cache n = Some (act, n', cache')"
  shows "node_base E p ms t n'"
proof (cases n)
  case (TssEnabled s)
  then obtain a s' where s': "tss_next_action F s = Some (a, s')" using assms(2) by (auto simp: node_next_action_def)
  then have "n' = TssEnabled s'"
    using assms(2) TssEnabled by (cases a; cases "the a") (auto simp: node_next_action_def)
  then show ?thesis using assms(1) TssEnabled signer_base_next_action [OF _ s'] by (auto simp: node_base_def)
next
  case (TssDisabled key a b)
  then show ?thesis using assms by (auto simp: node_base_def node_next_action_def)
qed

lemma node_run_base: "node_run F E p ms t n \<Longrightarrow> node_base E p ms t n"
proof (induction rule: node_run.induct)
  case (run_new rnd c cache n cache')
  then show ?case by (rule node_base_new)
next
  case (run_action n cache act n' cache')
  then show ?case by (blast intro: node_base_action)
next
  case (run_message n q msg n')
  then show ?case
    by (cases n) (auto simp: node_base_def node_on_message_def signer_base_on_message split: if_splits)
qed (auto simp: node_base_def signer_base_on_commit signer_base_sessions Let_def split: node_tss.split_asm)

lemma id_keys_id_set:
  assumes "swf m"
  shows "id_keys (id_set (id_keys m)) = id_keys m"
proof -
  have sorted: "sorted (map unat (id_keys m'))" for m' :: "'b idmap"
    by (simp add: id_keys_def siter_def comp_def)
  have d: "distinct (id_keys m)" using assms mset_eq_imp_distinct_iff [OF mset_id_keys [of m]] by (simp add: swf_def)
  have m: "mset (id_keys (id_set (id_keys m))) = mset (id_keys m)"
    using mset_id_keys [of "id_set (id_keys m)"] mset_keys_id_set [OF d] by simp
  show ?thesis
  proof (rule sorted_by_key_unique [where f = unat])
    show "set (id_keys (id_set (id_keys m))) = set (id_keys m)" using mset_eq_setD [OF m] .
    show "distinct (map unat (id_keys m))" using d by (simp add: distinct_map inj_on_def flip: word_unat_eq_iff)
    show "distinct (map unat (id_keys (id_set (id_keys m))))"
      using d mset_eq_imp_distinct_iff [OF m] by (simp add: distinct_map inj_on_def flip: word_unat_eq_iff)
  qed (fact sorted)+
qed

lemma swf_peer_map: "swf (peer_map f ms)"
proof -
  have "swf m \<Longrightarrow> swf (fold (\<lambda>p m. sput (f p) p m) ms m)" for m by (induction ms arbitrary: m) simp_all
  then show ?thesis by (simp add: peer_map_def)
qed

lemma tss_action_of_not_ready: "tss_action_of s i a \<noteq> Some (TssReady share c public)"
  by (cases a) (auto simp: tss_action_of_def split: prod.splits option.splits)

lemma roast_actions_not_ready: "roast_actions F is s \<noteq> Some (Some (TssReady share c public), s')"
proof (induction "is" arbitrary: s)
  case (Cons i "is")
  show ?case
  proof (cases "tss_state s")
    case (TssRoast kp pkp ss)
    show ?thesis
    proof (cases "sget ss i")
      case (Some r)
      show ?thesis
      proof (cases "session_loop F (tss_frost_id s) r")
        case (Some ar)
        then show ?thesis
          using TssRoast \<open>sget ss i = Some r\<close> Cons.IH
          by (cases ar; cases "fst ar") (auto simp: tss_action_of_not_ready)
      qed (use TssRoast Some in simp)
    qed (use TssRoast in simp)
  qed simp_all
qed simp

text \<open>A signer gives out its public key when its key generation is complete, and then writes the share.\<close>

lemma public_key_action:
  assumes "node_next_action F E cache (TssEnabled s) = Some (Some (ActPublicKey public), n', cache')"
  obtains d x kp pkp c where "tss_state s = TssDkg d" "key_package_of F (dkg_id d) x c = Inr kp"
    "public_key_package_of F (id_keys (dkg_members d)) c = Some pkp" "n' = TssEnabled (s\<lparr>tss_state := TssRoast kp pkp []\<rparr>)"
    "cache' = write_signing_share E cache c (bincode_share E (signing_share_of F kp))"
proof -
  obtain share c s' where r: "tss_next_action F s = Some (Some (TssReady share c public), s')"
    "n' = TssEnabled s'" "cache' = write_signing_share E cache c (bincode_share E share)"
  proof -
    obtain a s' where a: "tss_next_action F s = Some (a, s')" using assms by (auto simp: node_next_action_def)
    show ?thesis
    proof (cases a)
      case (Some x)
      then show ?thesis using assms a by (cases x) (auto simp: node_next_action_def intro: that)
    qed (use assms a in \<open>simp add: node_next_action_def\<close>)
  qed
  show ?thesis
  proof (cases "tss_state s")
    case (TssDkg d)
    obtain kp pkp d' where a: "dkg_next_action F d = Some (Some (DkgComplete kp pkp c), d')"
      "share = signing_share_of F kp" "s' = s\<lparr>tss_state := TssRoast kp pkp []\<rparr>"
    proof -
      obtain a d' where a: "dkg_next_action F d = Some (a, d')"
        using r(1) TssDkg by (auto simp: tss_next_action_def dkg_actions_def bind_eq_Some_conv)
      show ?thesis
      proof (cases a)
        case (Some x)
        then show ?thesis using r(1) a TssDkg by (cases x) (auto simp: tss_next_action_def dkg_actions_def intro: that)
      qed (use r(1) a TssDkg in \<open>simp add: tss_next_action_def dkg_actions_def\<close>)
    qed
    obtain x where "key_package_of F (dkg_id d) x c = Inr kp"
      "public_key_package_of F (id_keys (dkg_members d)) c = Some pkp"
      using a(1) by (auto simp: dkg_next_action_def split: option.splits sum.splits if_splits)
    with TssDkg a r show ?thesis by (intro that) auto
  next
    case (TssRoast kp pkp ss)
    then have "roast_actions F (map fst (siter unat ss)) s = Some (Some (TssReady share c public), s')"
      using r(1) by (simp add: tss_next_action_def)
    then show ?thesis using roast_actions_not_ready by blast
  qed (use r(1) in \<open>simp add: tss_next_action_def\<close>)
qed

text \<open>
  C34. The key share of a chronicle survives a restart: when a shard has generated its key, a signer that is created
  again with the commitment of the shard and the directory as it was left has the same key package and public keys, and
  the same place among the same peers.
\<close>

theorem keyshare_survives_restart:
  assumes run: "node_run F E p ms t (TssEnabled s)"
    and act: "node_next_action F E cache (TssEnabled s) = Some (Some (ActPublicKey public), n', cache')"
    and E: "codecs_ok E" "\<And>name. write_ok E name"
    and share: "share_kept F"
  shows "\<exists>c s' s2. n' = TssEnabled s' \<and> node_tss_new F E rnd p ms t (Some c) cache' = Some (Inr (TssEnabled s2), cache') \<and>
    tss_state s2 = tss_state s' \<and> tss_committed s2 \<and> tss_peer_id s2 = tss_peer_id s' \<and>
    tss_frost_to_peer s2 = tss_frost_to_peer s' \<and> tss_threshold s2 = tss_threshold s' \<and> tss_coordinators s2 = tss_coordinators s'"
proof -
  let ?f = "peer_frost_id E"
  obtain d x kp pkp c where r: "tss_state s = TssDkg d" "key_package_of F (dkg_id d) x c = Inr kp"
    "public_key_package_of F (id_keys (dkg_members d)) c = Some pkp" "n' = TssEnabled (s\<lparr>tss_state := TssRoast kp pkp []\<rparr>)"
    "cache' = write_signing_share E cache c (bincode_share E (signing_share_of F kp))"
    by (rule public_key_action [OF act])
  have base: "length ms \<noteq> 1" "peer_id_ok E p" "list_all (peer_id_ok E) ms" "signer_base ?f p ms t s"
    using node_run_base [OF run] by (simp_all add: node_base_def)
  then have d: "dkg_id d = ?f p" "dkg_members d = id_set (id_keys (peer_map ?f ms))"
    using r(1) by (simp_all add: signer_base_def)
  have "read_signing_share E (debincode_share E) cache' c = Inr (signing_share_of F kp)"
    unfolding r(5) by (rule read_written) (use E in \<open>simp_all add: codecs_ok_def\<close>)
  then have new: "node_tss_new F E rnd p ms t (Some c) cache' =
      map_option (\<lambda>s. (Inr (TssEnabled s), cache')) (tss_new F ?f p ms t (Some (signing_share_of F kp, c)))"
    using base by (simp add: node_tss_new_def)
  have "key_package_of F (?f p) (signing_share_of F kp) c = Inr kp" using r(2) share d(1) by (auto simp: share_kept_def)
  moreover have "public_key_package_of F (id_keys (peer_map ?f ms)) c = Some pkp"
    using r(3) by (simp add: d(2) id_keys_id_set [OF swf_peer_map])
  ultimately obtain s2 where s2: "tss_new F ?f p ms t (Some (signing_share_of F kp, c)) = Some s2"
    "tss_state s2 = TssRoast kp pkp []" "tss_committed s2"
    by (simp add: tss_new_def Let_def)
  have "signer_base ?f p ms t s2" by (rule signer_base_new [OF s2(1)])
  with new s2 base(4) show ?thesis by (auto simp: r(4) signer_base_def)
qed

text \<open>The same holds for the key of a shard with one member, which is written before it is committed to.\<close>

theorem solo_key_survives_restart:
  assumes new: "node_tss_new F E rnd p [m] t None cache = Some (Inr n, cache')"
    and E: "codecs_ok E" "\<And>name. write_ok E name"
  shows "\<exists>key c pok. n = TssDisabled key (Some (ActCommit c pok)) False \<and>
    node_tss_new F E rnd' p [m] t (Some c) cache' = Some (Inr (TssDisabled key None True), cache')"
proof -
  obtain c pok where c: "vss_deserialize E [public_of E (random_key E rnd)] = Some c"
    "n = TssDisabled (random_key E rnd) (Some (ActCommit c pok)) False" "peer_id_ok E p" "peer_id_ok E m"
    "cache' = write_signing_share E cache c (bincode_key E (signing_key_bytes E (random_key E rnd)))"
    using new by (auto simp: node_tss_new_def Let_def split: if_splits option.splits)
  have "read_signing_share E (debincode_key E) cache' c = Inr (signing_key_bytes E (random_key E rnd))"
    unfolding c(5) by (rule read_written) (use E in \<open>simp_all add: codecs_ok_def\<close>)
  then show ?thesis using E(1) c by (simp add: node_tss_new_def codecs_ok_def)
qed

section \<open>A small shard\<close>

definition demo_env :: keyshare_env where
  "demo_env = \<lparr>peer_id_ok = (\<lambda>p. p \<noteq> []), peer_frost_id = (\<lambda>p. of_nat (from_be p)), bincode_commitment = (\<lambda>c. c),
     sha3_256 = (\<lambda>bs. bs), hex_encode = (\<lambda>bs. bs), bincode_share = (\<lambda>x. be_bytes 32 (unat x)),
     debincode_share = (\<lambda>bs. Some (of_nat (from_be bs))), bincode_key = (\<lambda>bs. bs), debincode_key = (\<lambda>bs. Some bs),
     signing_key_bytes = (\<lambda>k. k), signing_key_from = (\<lambda>bs. Some bs), random_key = (\<lambda>i. [of_nat i]), public_of = (\<lambda>k. k),
     vss_deserialize = (\<lambda>ps. Some (concat ps)), vss_serialize = (\<lambda>c. [c]),
     construct_proof_of_knowledge = (\<lambda>p k c. Some p), sign_prehashed = (\<lambda>k h. k @ h), write_ok = (\<lambda>_. True), default_mode = 420\<rparr>"

definition demo_keys :: frost where
  "demo_keys = demo_frost\<lparr>key_package_of := (\<lambda>i x c. Inr (be_bytes 32 (unat x))), signing_share_of := (\<lambda>kp. of_nat (from_be kp))\<rparr>"

lemma scalar_bytes: "of_nat (from_be (be_bytes 32 (unat x))) = x" for x :: scalar
  using unsigned_less [of x, where ?'a = nat] by (simp add: from_be_be_bytes)

lemma demo_laws: "codecs_ok demo_env" "write_ok demo_env name"
  "share_kept demo_keys"
  by (auto simp: share_kept_def codecs_ok_def demo_env_def demo_keys_def scalar_bytes)

definition demo_signer :: "bool \<Rightarrow> dkg \<Rightarrow> peer_id tss" where
  "demo_signer committed d = \<lparr>tss_peer_id = [1], tss_frost_id = 1, tss_frost_to_peer = [(2, [2]), (1, [1])], tss_threshold = 2,
     tss_coordinators = coordinators_of [1, 2] 2, tss_state = TssDkg d, tss_committed = committed, tss_opened = 0\<rparr>"

definition demo_dkg :: dkg where
  "demo_dkg = dkg_new 1 [(2, ()), (1, ())] 2 0"

definition demo_generated :: dkg where
  "demo_generated = demo_dkg\<lparr>dkg_secret := Some [1], dkg_commitment := Some [9], dkg_sent := True, dkg_packages := [(2, 5)]\<rparr>"

lemma demo_peers: "peer_map (peer_frost_id demo_env) [[1], [2]] = [(2, [2]), (1, [1])]"
  "id_keys [(2, [2]), (1, [1] :: peer_id)] = [1, 2]" "id_set [1, 2] = [(2, ()), (1, ())]" "id_keys [(2, ()), (1, ())] = [1, 2]"
  by (simp_all add: peer_map_def id_set_def id_keys_def siter_def sput_def sdel_def demo_env_def from_be_def)

lemma demo_keygen:
  "node_tss_new demo_keys demo_env 0 [1] [[1], [2]] 2 None [] = Some (Inr (TssEnabled (demo_signer False demo_dkg)), [])"
  "node_next_action demo_keys demo_env [] (TssEnabled (demo_signer False demo_dkg)) =
     Some (Some (ActCommit [1] [7]), TssEnabled (demo_signer False (demo_dkg\<lparr>dkg_secret := Some [1]\<rparr>)), [])"
  "node_next_action demo_keys demo_env []
     (node_on_commit demo_env [9] (TssEnabled (demo_signer False (demo_dkg\<lparr>dkg_secret := Some [1]\<rparr>)))) =
     Some (Some (ActSend [([2], MsgDkg 2)]),
       TssEnabled (demo_signer True (demo_dkg\<lparr>dkg_secret := Some [1], dkg_commitment := Some [9], dkg_sent := True\<rparr>)), [])"
  "node_on_message demo_env [2] (MsgDkg 5)
     (TssEnabled (demo_signer True (demo_dkg\<lparr>dkg_secret := Some [1], dkg_commitment := Some [9], dkg_sent := True\<rparr>))) =
     Inr (TssEnabled (demo_signer True demo_generated))"
proof -
  have f: "peer_frost_id demo_env [1] = 1" "peer_frost_id demo_env [2] = 2" "peer_id_ok demo_env [1]" "peer_id_ok demo_env [2]"
    by (simp_all add: demo_env_def from_be_def)
  show "node_tss_new demo_keys demo_env 0 [1] [[1], [2]] 2 None [] = Some (Inr (TssEnabled (demo_signer False demo_dkg)), [])"
    by (simp add: node_tss_new_def tss_new_def Let_def demo_peers f demo_signer_def demo_dkg_def)
  show "node_next_action demo_keys demo_env [] (TssEnabled (demo_signer False demo_dkg)) =
     Some (Some (ActCommit [1] [7]), TssEnabled (demo_signer False (demo_dkg\<lparr>dkg_secret := Some [1]\<rparr>)), [])"
    by (simp add: node_next_action_def tss_next_action_def dkg_actions_def dkg_next_action_def demo_signer_def demo_dkg_def dkg_new_def
        demo_keys_def demo_frost_def)
  show "node_next_action demo_keys demo_env []
     (node_on_commit demo_env [9] (TssEnabled (demo_signer False (demo_dkg\<lparr>dkg_secret := Some [1]\<rparr>)))) =
     Some (Some (ActSend [([2], MsgDkg 2)]),
       TssEnabled (demo_signer True (demo_dkg\<lparr>dkg_secret := Some [1], dkg_commitment := Some [9], dkg_sent := True\<rparr>)), [])"
    by (simp add: node_next_action_def tss_next_action_def dkg_actions_def dkg_next_action_def demo_signer_def demo_dkg_def dkg_new_def
        tss_on_commit_def dkg_on_commit_def dkg_round2_def demo_peers demo_keys_def demo_frost_def sget_def)
  show "node_on_message demo_env [2] (MsgDkg 5)
     (TssEnabled (demo_signer True (demo_dkg\<lparr>dkg_secret := Some [1], dkg_commitment := Some [9], dkg_sent := True\<rparr>))) =
     Inr (TssEnabled (demo_signer True demo_generated))"
    by (simp add: node_on_message_def f tss_on_message_def dkg_on_message_def demo_signer_def demo_dkg_def demo_generated_def
        dkg_new_def sget_def sput_def sdel_def)
qed

lemma demo_generated_run: "node_run demo_keys demo_env [1] [[1], [2]] 2 (TssEnabled (demo_signer True demo_generated))"
  by (rule run_message [OF run_action [OF run_commit [OF run_action [OF run_new [OF demo_keygen(1)] demo_keygen(2)]] demo_keygen(3)]
        demo_keygen(4)])

lemma demo_ready:
  "node_next_action demo_keys demo_env [] (TssEnabled (demo_signer True demo_generated)) =
     Some (Some (ActPublicKey [9]), TssEnabled ((demo_signer True demo_generated)\<lparr>tss_state := TssRoast (be_bytes 32 (unat (6 :: scalar))) [9] []\<rparr>),
       [([9], \<lparr>file_bytes = be_bytes 32 (unat (6 :: scalar)), file_mode = 420\<rparr>)])"
  by (simp add: node_next_action_def tss_next_action_def dkg_actions_def dkg_next_action_def demo_signer_def demo_dkg_def dkg_new_def
      demo_generated_def dkg_signing_share_def siter_def demo_peers demo_keys_def demo_frost_def sget_def sput_def sdel_def
      write_signing_share_def signing_share_path_def demo_env_def Let_def from_be_be_bytes)

theorem keyshare_survives_restart_witness:
  "\<exists>c s2. node_tss_new demo_keys demo_env 1 [1] [[1], [2]] 2 (Some c)
       [([9], \<lparr>file_bytes = be_bytes 32 (unat (6 :: scalar)), file_mode = 420\<rparr>)] =
     Some (Inr (TssEnabled s2), [([9], \<lparr>file_bytes = be_bytes 32 (unat (6 :: scalar)), file_mode = 420\<rparr>)]) \<and>
     tss_state s2 = TssRoast (be_bytes 32 (unat (6 :: scalar))) [9] []"
  using keyshare_survives_restart [OF demo_generated_run demo_ready demo_laws, of 1] by auto

theorem solo_key_survives_restart_witness:
  "node_tss_new demo_keys demo_env 8 [1] [[1]] 1 (Some [3]) (snd (the (node_tss_new demo_keys demo_env 3 [1] [[1]] 1 None []))) =
     Some (Inr (TssDisabled [3] None True), snd (the (node_tss_new demo_keys demo_env 3 [1] [[1]] 1 None [])))"
proof -
  have new: "node_tss_new demo_keys demo_env 3 [1] [[1]] 1 None [] =
      Some (Inr (TssDisabled [3] (Some (ActCommit [3] [1])) False), [([3], \<lparr>file_bytes = [3], file_mode = 420\<rparr>)])"
    by (simp add: node_tss_new_def demo_env_def write_signing_share_def signing_share_path_def sput_def sdel_def sget_def Let_def)
  from solo_key_survives_restart [OF new demo_laws(1,2), of 8] show ?thesis by (auto simp: new)
qed

end
