(* ===== verification/Chronicle_Worker.thy ===== *)
theory Chronicle_Worker
  imports Chronicle_Tss Chronicle_Tasks Shards_Store
begin

text \<open>
  The event loop of a chronicle, \<open>chronicle/src/shards/service.rs\<close>: it joins the shards the chain assigns to it, drives
  their signing states, starts their tasks, and sends heartbeats. Messages and signing requests wait in
  buffers, ordered by block, until their block is final. The branches of the \<open>select!\<close> loop are operations on
  the state \<open>time_worker\<close>; \<open>None\<close> as a result is a panic, or a loop that never ends.
\<close>

section \<open>State\<close>

text \<open>
  The calls of the chain client. A query is answered for a block from the state \<open>'w\<close> of the world around the node.
\<close>

record 'w substrate =
  sub_account_id :: account_id
  get_shards_call :: "account_id \<Rightarrow> block_hash \<Rightarrow> 'w \<Rightarrow> node_error + shard_id list"
  get_shard_members_call :: "shard_id \<Rightarrow> block_hash \<Rightarrow> 'w \<Rightarrow> node_error + (account_id \<times> member_status) list"
  get_shard_threshold_call :: "shard_id \<Rightarrow> block_hash \<Rightarrow> 'w \<Rightarrow> node_error + u16"
  get_member_peer_id_call :: "account_id \<Rightarrow> block_hash \<Rightarrow> 'w \<Rightarrow> node_error + peer_id option"
  shard_commitment_call :: "shard_id \<Rightarrow> block_hash \<Rightarrow> 'w \<Rightarrow> node_error + commitment option"
  get_shard_status_call :: "shard_id \<Rightarrow> block_hash \<Rightarrow> 'w \<Rightarrow> node_error + shard_status"
  get_heartbeat_timeout_call :: "block_hash \<Rightarrow> 'w \<Rightarrow> node_error + block_number"
  is_heartbeat_submitted_call :: "account_id \<Rightarrow> block_hash \<Rightarrow> 'w \<Rightarrow> node_error + bool"
  submit_heartbeat_call :: "'w \<Rightarrow> (node_error + unit) \<times> 'w"
  submit_commitment_call :: "shard_id \<Rightarrow> commitment \<Rightarrow> proof_of_knowledge \<Rightarrow> 'w \<Rightarrow> (node_error + unit) \<times> 'w"
  submit_online_call :: "shard_id \<Rightarrow> 'w \<Rightarrow> (node_error + unit) \<times> 'w"

text \<open>What the worker was created with.\<close>

record 'w worker_params =
  wp_frost :: frost
  wp_env :: keyshare_env
  wp_substrate :: "'w substrate"
  wp_tasks :: "'w task_params"
  wp_peer_id :: peer_id

record net_message =
  nm_shard_id :: shard_id
  nm_block :: block_number
  nm_payload :: tss_message

type_synonym tss_request = "shard_id \<times> task_id \<times> bytes"
type_synonym peer_message = "shard_id \<times> peer_id \<times> tss_message"

text \<open>
  The field \<open>outgoing\<close> holds the messages handed to the network, \<open>answered\<close> the signatures sent to the channels of the task
  executors, named by numbers, \<open>spawned\<close> the tasks started, and \<open>admin\<close> the shards last reported.
\<close>

record 'w time_worker =
  tss_states :: "(shard_id, node_tss) smap"
  executor_states :: "(shard_id, running_tasks) smap"
  messages :: "(block_number, peer_message list) smap"
  requests :: "(block_number, tss_request list) smap"
  channels :: "(task_id, nat) smap"
  outgoing :: "(peer_id \<times> net_message) list"
  keyshares :: keyshare_cache
  answered :: "(nat \<times> bytes \<times> signature) list"
  spawned :: "(shard_id \<times> task_id \<times> task) list"
  keys_drawn :: nat
  admin_shards :: "shard_id list"
  world :: 'w

definition time_worker_new :: "keyshare_cache \<Rightarrow> 'w \<Rightarrow> 'w time_worker" where
  "time_worker_new cache w = \<lparr>tss_states = [], executor_states = [], messages = [], requests = [], channels = [],
     outgoing = [], keyshares = cache, answered = [], spawned = [], keys_drawn = 0, admin_shards = [], world = w\<rparr>"

datatype worker_error = SubstrateError node_error | TssFailure tss_error | BadCommitment

section \<open>Actions\<close>

text \<open>
  What is done with an action of a signing state. A response is sent for block 0, so that its receiver does not buffer it. A
  submission to the chain that fails panics.
\<close>

definition send_message_to :: "shard_id \<Rightarrow> block_number \<Rightarrow> peer_id \<times> tss_message \<Rightarrow> peer_id \<times> net_message" where
  "send_message_to sh block m =
     (fst m, \<lparr>nm_shard_id = sh, nm_block = (if tss_is_response (snd m) then 0 else block), nm_payload = snd m\<rparr>)"

definition handle_action ::
  "'w worker_params \<Rightarrow> shard_id \<Rightarrow> block_number \<Rightarrow> node_tss_action \<Rightarrow> 'w time_worker \<Rightarrow> 'w time_worker option" where
  "handle_action wp sh block act w =
     (case act of
        ActSend msgs \<Rightarrow> Some (w\<lparr>outgoing := outgoing w @ map (send_message_to sh block) msgs\<rparr>)
      | ActCommit c proof \<Rightarrow>
          (case submit_commitment_call (wp_substrate wp) sh (take (unat MAX_SHARD_SIZE) (vss_serialize (wp_env wp) c)) proof (world w) of
             (Inl _, _) \<Rightarrow> None
           | (Inr _, wd) \<Rightarrow> Some (w\<lparr>world := wd\<rparr>))
      | ActPublicKey _ \<Rightarrow>
          (case submit_online_call (wp_substrate wp) sh (world w) of
             (Inl _, _) \<Rightarrow> None
           | (Inr _, wd) \<Rightarrow> Some (w\<lparr>world := wd\<rparr>))
      | ActSignature i h sig \<Rightarrow>
          (case sget (channels w) i of
             None \<Rightarrow> Some w
           | Some tx \<Rightarrow> Some (w\<lparr>channels := sdel i (channels w), answered := answered w @ [(tx, h, sig)]\<rparr>)))"

partial_function (option) poll_actions ::
  "'w worker_params \<Rightarrow> shard_id \<Rightarrow> block_number \<Rightarrow> 'w time_worker \<Rightarrow> 'w time_worker option" where
  "poll_actions wp sh block w =
     (case sget (tss_states w) sh of
        None \<Rightarrow> None
      | Some n \<Rightarrow>
          (case node_next_action (wp_frost wp) (wp_env wp) (keyshares w) n of
             None \<Rightarrow> None
           | Some (act, n', cache) \<Rightarrow>
               (let w1 = w\<lparr>tss_states := sput sh n' (tss_states w), keyshares := cache\<rparr>
                in case act of
                     None \<Rightarrow> Some w1
                   | Some a \<Rightarrow>
                       (case handle_action wp sh block a w1 of
                          None \<Rightarrow> None
                        | Some w2 \<Rightarrow> poll_actions wp sh block w2))))"

declare poll_actions.simps [code]

section \<open>Finalized blocks\<close>

text \<open>A loop over a list whose body may return early with an error.\<close>

fun try_each :: "('a \<Rightarrow> 's \<Rightarrow> (('e + unit) \<times> 's) option) \<Rightarrow> 'a list \<Rightarrow> 's \<Rightarrow> (('e + unit) \<times> 's) option" where
  "try_each f [] s = Some (Inr (), s)"
| "try_each f (x # xs) s =
     (case f x s of
        None \<Rightarrow> None
      | Some (Inl e, s') \<Rightarrow> Some (Inl e, s')
      | Some (Inr _, s') \<Rightarrow> try_each f xs s')"

definition succeeded :: "'s option \<Rightarrow> (('e + unit) \<times> 's) option" where
  "succeeded r = map_option (\<lambda>s. (Inr (), s)) r"

text \<open>The peers of the members, those that the chain knows, as an ordered set.\<close>

definition member_peers :: "'w worker_params \<Rightarrow> block_hash \<Rightarrow> (account_id \<times> member_status) list \<Rightarrow> 'w \<Rightarrow> peer_id list" where
  "member_peers wp bh ms wd =
     sort (remdups (List.map_filter (\<lambda>(a, _). case get_member_peer_id_call (wp_substrate wp) a bh wd of
       Inr (Some p) \<Rightarrow> Some p | _ \<Rightarrow> None) ms))"

text \<open>The first loop: a shard without a signing state is joined.\<close>

definition join_shard ::
  "'w worker_params \<Rightarrow> block_hash \<Rightarrow> block_number \<Rightarrow> shard_id \<Rightarrow> 'w time_worker \<Rightarrow>
     ((worker_error + unit) \<times> 'w time_worker) option" where
  "join_shard wp bh block sh w =
     (let S = wp_substrate wp
      in if sget (tss_states w) sh \<noteq> None then Some (Inr (), w)
      else (case get_shard_members_call S sh bh (world w) of
        Inl e \<Rightarrow> Some (Inl (SubstrateError e), w)
      | Inr ms \<Rightarrow>
      (case get_shard_threshold_call S sh bh (world w) of
        Inl e \<Rightarrow> Some (Inl (SubstrateError e), w)
      | Inr t \<Rightarrow>
      (case shard_commitment_call S sh bh (world w) of
        Inl e \<Rightarrow> Some (Inl (SubstrateError e), w)
      | Inr found \<Rightarrow>
          (let commitment = (case found of
                 None \<Rightarrow> Inr None
               | Some points \<Rightarrow> (case vss_deserialize (wp_env wp) points of
                                   None \<Rightarrow> Inl BadCommitment | Some c \<Rightarrow> Inr (Some c)))
           in case commitment of
                Inl e \<Rightarrow> Some (Inl e, w)
              | Inr c \<Rightarrow>
                  (case node_tss_new (wp_frost wp) (wp_env wp) (keys_drawn w) (wp_peer_id wp) (member_peers wp bh ms (world w)) t c
                          (keyshares w) of
                     None \<Rightarrow> None
                   | Some (Inl e, cache) \<Rightarrow> Some (Inl (TssFailure e), w\<lparr>keyshares := cache, keys_drawn := Suc (keys_drawn w)\<rparr>)
                   | Some (Inr n, cache) \<Rightarrow>
                       succeeded (poll_actions wp sh block
                         (w\<lparr>tss_states := sput sh n (tss_states w), keyshares := cache, keys_drawn := Suc (keys_drawn w)\<rparr>))))))))"

text \<open>The second loop: the joint commitment of a shard reaches its signing state.\<close>

definition commit_shard ::
  "'w worker_params \<Rightarrow> block_hash \<Rightarrow> block_number \<Rightarrow> shard_id \<Rightarrow> 'w time_worker \<Rightarrow>
     ((worker_error + unit) \<times> 'w time_worker) option" where
  "commit_shard wp bh block sh w =
     (let S = wp_substrate wp
      in case sget (tss_states w) sh of
        None \<Rightarrow> Some (Inr (), w)
      | Some n \<Rightarrow>
          if node_committed n then Some (Inr (), w)
          else (case get_shard_status_call S sh bh (world w) of
            Inl e \<Rightarrow> Some (Inl (SubstrateError e), w)
          | Inr st \<Rightarrow>
              if st \<noteq> SCommitted then Some (Inr (), w)
              else (case shard_commitment_call S sh bh (world w) of
                Inl e \<Rightarrow> Some (Inl (SubstrateError e), w)
              | Inr None \<Rightarrow> None
              | Inr (Some points) \<Rightarrow>
                  (case vss_deserialize (wp_env wp) points of
                     None \<Rightarrow> Some (Inl BadCommitment, w)
                   | Some c \<Rightarrow>
                       succeeded (poll_actions wp sh block
                         (w\<lparr>tss_states := sput sh (node_on_commit (wp_env wp) c n) (tss_states w)\<rparr>))))))"

text \<open>The third loop: the signing requests of blocks up to this one, block by block.\<close>

definition serve_request ::
  "'w worker_params \<Rightarrow> block_number \<Rightarrow> tss_request \<Rightarrow> 'w time_worker \<Rightarrow> 'w time_worker option" where
  "serve_request wp block r w =
     (case r of (sh, i, data) \<Rightarrow>
        (case sget (tss_states w) sh of
           None \<Rightarrow> Some (w\<lparr>channels := sdel i (channels w)\<rparr>)
         | Some n \<Rightarrow>
             poll_actions wp sh block
               (w\<lparr>tss_states := sput sh (node_on_sign (wp_frost wp) (wp_env wp) i data n) (tss_states w)\<rparr>)))"

partial_function (option) drain_requests ::
  "'w worker_params \<Rightarrow> block_number \<Rightarrow> 'w time_worker \<Rightarrow> 'w time_worker option" where
  "drain_requests wp block w =
     (case siter unat (requests w) of
        [] \<Rightarrow> Some w
      | (n, rs) # _ \<Rightarrow>
          if n > block then Some w
          else (case ofold (serve_request wp block) rs (w\<lparr>requests := sdel n (requests w)\<rparr>) of
                  None \<Rightarrow> None
                | Some w' \<Rightarrow> drain_requests wp block w'))"

text \<open>The fourth loop: the tasks of the shards that are online.\<close>

definition run_tasks ::
  "'w worker_params \<Rightarrow> block_hash \<Rightarrow> shard_id \<Rightarrow> 'w time_worker \<Rightarrow> ((worker_error + unit) \<times> 'w time_worker) option" where
  "run_tasks wp bh sh w =
     (case get_shard_status_call (wp_substrate wp) sh bh (world w) of
        Inl e \<Rightarrow> Some (Inl (SubstrateError e), w)
      | Inr st \<Rightarrow>
          if st \<noteq> SOnline then Some (Inr (), w)
          else (case process_tasks (wp_tasks wp) bh sh (world w) (value_or [] (sget (executor_states w) sh)) of
            (res, run, started) \<Rightarrow>
              (let w1 = w\<lparr>executor_states := sput sh run (executor_states w),
                          spawned := spawned w @ map (\<lambda>(i, t). (sh, i, t)) started\<rparr>
               in case res of
                    Inl e \<Rightarrow> Some (Inr (), w1)
                  | Inr (starts, completed) \<Rightarrow>
                      (case sget (tss_states w1) sh of
                         None \<Rightarrow> Some (Inr (), w1)
                       | Some n \<Rightarrow> Some (Inr (), w1\<lparr>tss_states :=
                           sput sh (fold node_on_start starts (fold node_on_complete completed n)) (tss_states w1)\<rparr>)))))"

text \<open>
  The fifth loop: the messages of blocks up to this one. A message from a peer whose identifier is not valid ends
  the whole operation, and the messages of its block that were not yet delivered are lost.
\<close>

definition deliver_message ::
  "'w worker_params \<Rightarrow> block_number \<Rightarrow> peer_message \<Rightarrow> 'w time_worker \<Rightarrow> ((worker_error + unit) \<times> 'w time_worker) option" where
  "deliver_message wp n m w =
     (case m of (sh, p, msg) \<Rightarrow>
        (case sget (tss_states w) sh of
           None \<Rightarrow> Some (Inr (), w)
         | Some s \<Rightarrow>
             (case node_on_message (wp_env wp) p msg s of
                Inl e \<Rightarrow> Some (Inl (TssFailure e), w)
              | Inr s' \<Rightarrow> succeeded (poll_actions wp sh n (w\<lparr>tss_states := sput sh s' (tss_states w)\<rparr>)))))"

partial_function (option) drain_messages ::
  "'w worker_params \<Rightarrow> block_number \<Rightarrow> 'w time_worker \<Rightarrow> ((worker_error + unit) \<times> 'w time_worker) option" where
  "drain_messages wp block w =
     (case siter unat (messages w) of
        [] \<Rightarrow> Some (Inr (), w)
      | (n, ms) # _ \<Rightarrow>
          if n > block then Some (Inr (), w)
          else (case try_each (deliver_message wp n) ms (w\<lparr>messages := sdel n (messages w)\<rparr>) of
                  None \<Rightarrow> None
                | Some (Inl e, w') \<Rightarrow> Some (Inl e, w')
                | Some (Inr _, w') \<Rightarrow> drain_messages wp block w'))"

declare drain_requests.simps [code] drain_messages.simps [code]

text \<open>One after the other, until an error.\<close>

definition unless_failed ::
  "(('e + unit) \<times> 's) option \<Rightarrow> ('s \<Rightarrow> (('e + unit) \<times> 's) option) \<Rightarrow> (('e + unit) \<times> 's) option" where
  "unless_failed r f =
     (case r of
        None \<Rightarrow> None
      | Some (Inl e, s) \<Rightarrow> Some (Inl e, s)
      | Some (Inr _, s) \<Rightarrow> f s)"

definition retain_shards :: "shard_id list \<Rightarrow> 'w time_worker \<Rightarrow> 'w time_worker" where
  "retain_shards shards w = w\<lparr>tss_states := filter (\<lambda>e. fst e \<in> set shards) (tss_states w),
     executor_states := filter (\<lambda>e. fst e \<in> set shards) (executor_states w)\<rparr>"

definition on_finality ::
  "'w worker_params \<Rightarrow> block_hash \<Rightarrow> block_number \<Rightarrow> 'w time_worker \<Rightarrow> ((worker_error + unit) \<times> 'w time_worker) option" where
  "on_finality wp bh block w =
     (case get_shards_call (wp_substrate wp) (sub_account_id (wp_substrate wp)) bh (world w) of
        Inl e \<Rightarrow> Some (Inl (SubstrateError e), w)
      | Inr shards \<Rightarrow>
          unless_failed (try_each (join_shard wp bh block) shards (retain_shards shards w)) (\<lambda>w.
          unless_failed (try_each (commit_shard wp bh block) shards w) (\<lambda>w.
          unless_failed (succeeded (drain_requests wp block w)) (\<lambda>w.
          unless_failed (try_each (run_tasks wp bh) shards w) (\<lambda>w.
          unless_failed (drain_messages wp block w) (\<lambda>w.
          Some (Inr (), w\<lparr>admin_shards := shards\<rparr>)))))))"

section \<open>The other branches of the loop\<close>

definition on_tss_request :: "task_id \<Rightarrow> shard_id \<Rightarrow> bytes \<Rightarrow> nat \<Rightarrow> block_number \<Rightarrow> 'w time_worker \<Rightarrow> 'w time_worker" where
  "on_tss_request i sh data tx block w = w\<lparr>
     requests := sput block (value_or [] (sget (requests w) block) @ [(sh, i, data)]) (requests w),
     channels := sput i tx (channels w)\<rparr>"

definition on_net_message :: "peer_id \<Rightarrow> net_message \<Rightarrow> 'w time_worker \<Rightarrow> 'w time_worker" where
  "on_net_message p m w = w\<lparr>
     messages := sput (nm_block m) (value_or [] (sget (messages w) (nm_block m)) @ [(nm_shard_id m, p, nm_payload m)]) (messages w)\<rparr>"

text \<open>Heartbeats: the period, and the branch of the block notifications, with the flag \<open>send_heartbeat\<close>.\<close>

definition DEFAULT_HEARTBEAT_PERIOD :: block_number where
  "DEFAULT_HEARTBEAT_PERIOD = 100"

definition heartbeat_period :: "'w substrate \<Rightarrow> block_hash \<Rightarrow> 'w \<Rightarrow> block_number" where
  "heartbeat_period S bh wd =
     (case get_heartbeat_timeout_call S bh wd of
        Inl _ \<Rightarrow> DEFAULT_HEARTBEAT_PERIOD
      | Inr t \<Rightarrow> if t > 1 then t div 2 else DEFAULT_HEARTBEAT_PERIOD)"

definition on_block :: "'w substrate \<Rightarrow> block_number \<Rightarrow> block_hash \<Rightarrow> block_number \<Rightarrow> bool \<Rightarrow> 'w \<Rightarrow> bool \<times> 'w" where
  "on_block S period bh block send_heartbeat wd =
     (let send = (send_heartbeat \<or> block mod period = 0)
      in if send
         then (case is_heartbeat_submitted_call S (sub_account_id S) bh wd of
                 Inl _ \<Rightarrow> (True, wd)
               | Inr True \<Rightarrow> (False, wd)
               | Inr False \<Rightarrow>
                   (case submit_heartbeat_call S wd of
                      (Inr _, wd') \<Rightarrow> (False, wd')
                    | (Inl _, wd') \<Rightarrow> (True, wd')))
         else (False, wd))"

end
