(* ===== verification/Chronicle_Worker_Properties.thy ===== *)
theory Chronicle_Worker_Properties
  imports Chronicle_Worker
begin

text \<open>
  What a finalized block does in a chronicle: the buffers are served up to the block and not beyond, a missing key share
  stops everything, and a chronicle whose shards have one member signs every request.
\<close>

section \<open>Buffers\<close>

definition same_buffers :: "'w time_worker \<Rightarrow> 'w time_worker \<Rightarrow> bool" where
  "same_buffers w w' \<longleftrightarrow> requests w' = requests w \<and> messages w' = messages w"

lemma same_buffers_refl [simp]: "same_buffers w w"
  by (simp add: same_buffers_def)

lemma same_buffers_trans: "same_buffers w w1 \<Longrightarrow> same_buffers w1 w2 \<Longrightarrow> same_buffers w w2"
  by (simp add: same_buffers_def)

text \<open>The shards with a signing state, as a set.\<close>

definition joined :: "'w time_worker \<Rightarrow> shard_id set" where
  "joined w = fst ` set (tss_states w)"

lemma joined_sput: "fst ` set (sput k v m) = insert k (fst ` set m)"
  by (auto simp: sput_def sdel_def image_iff)

lemma joined_iff: "sh \<in> joined w \<longleftrightarrow> sget (tss_states w) sh \<noteq> None"
  by (simp add: joined_def sget_def map_of_eq_None_iff)

lemma handle_action_keeps:
  "handle_action wp sh block a w = Some w' \<Longrightarrow> same_buffers w w' \<and> tss_states w' = tss_states w"
  by (auto simp: handle_action_def same_buffers_def split: node_tss_action.splits option.splits prod.splits sum.splits)

lemma poll_actions_keeps:
  assumes "poll_actions wp sh block w = Some w'"
  shows "same_buffers w w' \<and> joined w' = joined w"
  using assms
proof (induction wp sh block w w' rule: poll_actions.raw_induct [rotated 1, consumes 1])
  case (1 poll wp sh block w w')
  then obtain n act n' cache where n: "sget (tss_states w) sh = Some n"
    "node_next_action (wp_frost wp) (wp_env wp) (keyshares w) n = Some (act, n', cache)"
    by (auto split: option.splits)
  let ?w = "w\<lparr>tss_states := sput sh n' (tss_states w), keyshares := cache\<rparr>"
  have "sh \<in> joined w" using n(1) by (simp add: joined_iff)
  then have w1: "same_buffers w ?w" "joined ?w = joined w" by (auto simp: same_buffers_def joined_def joined_sput)
  show ?case
  proof (cases act)
    case None
    then have "w' = ?w" using 1(2) n by simp
    then show ?thesis using w1 by blast
  next
    case (Some a)
    then obtain w2 where w2: "handle_action wp sh block a ?w = Some w2" "poll wp sh block w2 = Some w'"
      using 1(2) n by (auto simp: Let_def split: option.splits)
    have "same_buffers ?w w2" "joined w2 = joined ?w" using handle_action_keeps [OF w2(1)] by (simp_all add: joined_def)
    with 1(1) [OF w2(2)] w1 show ?thesis by (blast intro: same_buffers_trans)
  qed
qed

lemma serve_request_keeps:
  "serve_request wp block r w = Some w' \<Longrightarrow> same_buffers w w' \<and> joined w' = joined w"
proof -
  obtain sh i data where r: "r = (sh, i, data)" by (cases r)
  assume a: "serve_request wp block r w = Some w'"
  show ?thesis
  proof (cases "sget (tss_states w) sh")
    case None
    then show ?thesis using a by (auto simp: serve_request_def r same_buffers_def joined_def)
  next
    case (Some n)
    let ?w = "w\<lparr>tss_states := sput sh (node_on_sign (wp_frost wp) (wp_env wp) i data n) (tss_states w)\<rparr>"
    have "same_buffers w ?w" "joined ?w = joined w" using Some joined_iff [of sh w] by (auto simp: same_buffers_def joined_def joined_sput)
    moreover have "poll_actions wp sh block ?w = Some w'" using a Some by (simp add: serve_request_def r)
    ultimately show ?thesis using poll_actions_keeps same_buffers_trans by blast
  qed
qed

lemma serve_requests_keep:
  assumes "ofold (serve_request wp block) rs w = Some w'"
  shows "same_buffers w w' \<and> joined w' = joined w"
proof (rule ofold_invariant [OF assms])
  fix r v v' assume v: "same_buffers w v \<and> joined v = joined w" and r: "serve_request wp block r v = Some v'"
  show "same_buffers w v' \<and> joined v' = joined w"
    using v serve_request_keeps [OF r] same_buffers_trans [of w v v'] by simp
qed simp

text \<open>The first entry of a buffer has the least block.\<close>

definition later :: "block_number \<Rightarrow> (block_number, 'a) smap \<Rightarrow> (block_number, 'a) smap" where
  "later block m = filter (\<lambda>e. fst e > block) m"

lemma later_all:
  assumes "siter unat m = (n, x) # es" "n > block"
  shows "later block m = m"
proof -
  have "sorted (map (\<lambda>e. unat (fst e)) (siter unat m))" by (simp add: siter_def)
  then have "\<forall>e\<in>set (siter unat m). unat n \<le> unat (fst e)" using assms(1) by auto
  then have "\<forall>e\<in>set m. n \<le> fst e" by (simp add: word_le_nat_alt)
  then show ?thesis unfolding later_def using assms(2) by (auto intro!: filter_True)
qed

lemma later_sdel: "n \<le> block \<Longrightarrow> later block (sdel n m) = later block m"
  by (auto simp: later_def sdel_def intro!: filter_cong)

lemma drain_requests_keeps:
  assumes "drain_requests wp block w = Some w'"
  shows "requests w' = later block (requests w) \<and> messages w' = messages w \<and> joined w' = joined w"
  using assms
proof (induction wp block w w' rule: drain_requests.raw_induct [rotated 1, consumes 1])
  case (1 drain wp block w w')
  show ?case
  proof (cases "siter unat (requests w)")
    case Nil
    then show ?thesis using 1(2) by (simp add: later_def)
  next
    case (Cons e es)
    obtain n rs where e: "e = (n, rs)" by (cases e)
    show ?thesis
    proof (cases "n > block")
      case True
      then show ?thesis using 1(2) Cons later_all [of "requests w" n rs es] by (simp add: e)
    next
      case False
      then obtain w1 where w1: "ofold (serve_request wp block) rs (w\<lparr>requests := sdel n (requests w)\<rparr>) = Some w1"
        "drain wp block w1 = Some w'"
        using 1(2) Cons by (auto simp: e split: option.splits)
      have "requests w1 = sdel n (requests w)" "messages w1 = messages w" "joined w1 = joined w"
        using serve_requests_keep [OF w1(1)] by (simp_all add: same_buffers_def joined_def)
      with 1(1) [OF w1(2)] False show ?thesis by (simp add: later_sdel not_less)
    qed
  qed
qed

lemma unless_failed_Some:
  "unless_failed r f = Some (Inr (), w') \<longleftrightarrow> (\<exists>w. r = Some (Inr (), w) \<and> f w = Some (Inr (), w'))"
  by (auto simp: unless_failed_def split: option.splits prod.splits sum.splits)

lemma succeeded_Some [simp]: "succeeded r = Some (Inr (), w) \<longleftrightarrow> r = Some w" "succeeded r = Some (Inl e, w) \<longleftrightarrow> False"
  by (auto simp: succeeded_def)

lemma try_each_invariant:
  assumes "try_each f xs s = Some (res, t)" "I s" "\<And>x s t res. x \<in> set xs \<Longrightarrow> I s \<Longrightarrow> f x s = Some (res, t) \<Longrightarrow> I t"
  shows "I t"
  using assms
proof (induction xs arbitrary: s)
  case (Cons x xs)
  obtain res1 s1 where s1: "f x s = Some (res1, s1)" using Cons.prems(1) by (auto split: option.splits)
  have "I s1" by (rule Cons.prems(3) [OF _ Cons.prems(2) s1]) simp
  show ?case
  proof (cases res1)
    case (Inl e)
    then show ?thesis using Cons.prems(1) s1 \<open>I s1\<close> by simp
  next
    case (Inr u)
    then have "try_each f xs s1 = Some (res, t)" using Cons.prems(1) s1 by simp
    then show ?thesis by (rule Cons.IH [OF _ \<open>I s1\<close>]) (use Cons.prems(3) in auto)
  qed
qed simp

lemma deliver_message_keeps:
  "deliver_message wp n m w = Some (res, w') \<Longrightarrow> same_buffers w w' \<and> joined w' = joined w"
proof -
  obtain sh p msg where m: "m = (sh, p, msg)" by (cases m)
  assume a: "deliver_message wp n m w = Some (res, w')"
  show ?thesis
  proof (cases "sget (tss_states w) sh")
    case (Some s)
    show ?thesis
    proof (cases "node_on_message (wp_env wp) p msg s")
      case (Inr s')
      let ?w = "w\<lparr>tss_states := sput sh s' (tss_states w)\<rparr>"
      have "same_buffers w ?w" "joined ?w = joined w" using Some joined_iff [of sh w] by (auto simp: same_buffers_def joined_def joined_sput)
      moreover have "poll_actions wp sh n ?w = Some w'" using a Some Inr by (auto simp: deliver_message_def m succeeded_def)
      ultimately show ?thesis using poll_actions_keeps same_buffers_trans by blast
    qed (use a Some in \<open>simp add: deliver_message_def m\<close>)
  qed (use a in \<open>simp add: deliver_message_def m\<close>)
qed

lemma deliver_messages_keep:
  assumes "try_each (deliver_message wp n) ms w = Some (res, w')"
  shows "same_buffers w w' \<and> joined w' = joined w"
proof (rule try_each_invariant [OF assms])
  fix m v v' res assume v: "same_buffers w v \<and> joined v = joined w" and m: "deliver_message wp n m v = Some (res, v')"
  show "same_buffers w v' \<and> joined v' = joined w"
    using v deliver_message_keeps [OF m] same_buffers_trans [of w v v'] by simp
qed simp

lemma drain_messages_keeps:
  assumes "drain_messages wp block w = Some r"
  shows "fst r = Inr () \<longrightarrow> messages (snd r) = later block (messages w) \<and> requests (snd r) = requests w \<and> joined (snd r) = joined w"
  using assms
proof (induction wp block w r rule: drain_messages.raw_induct [rotated 1, consumes 1])
  case (1 drain wp block w r)
  show ?case
  proof (cases "siter unat (messages w)")
    case Nil
    then show ?thesis using 1(2) by (auto simp: later_def)
  next
    case (Cons e es)
    obtain n ms where e: "e = (n, ms)" by (cases e)
    show ?thesis
    proof (cases "n > block")
      case True
      then show ?thesis using 1(2) Cons later_all [of "messages w" n ms es] by (auto simp: e)
    next
      case False
      then obtain res w1 where w1: "try_each (deliver_message wp n) ms (w\<lparr>messages := sdel n (messages w)\<rparr>) = Some (res, w1)"
        using 1(2) Cons by (auto simp: e split: option.splits)
      have k: "messages w1 = sdel n (messages w)" "requests w1 = requests w" "joined w1 = joined w"
        using deliver_messages_keep [OF w1(1)] by (simp_all add: same_buffers_def joined_def)
      show ?thesis
      proof (cases res)
        case (Inl x)
        then show ?thesis using 1(2) Cons False w1 by (auto simp: e)
      next
        case (Inr u)
        then have "drain wp block w1 = Some r" using 1(2) Cons False w1 by (simp add: e)
        with 1(1) [OF this] k False show ?thesis by (simp add: later_sdel not_less)
      qed
    qed
  qed
qed

lemma join_shard_keeps:
  assumes "join_shard wp bh block sh w = Some (res, w')"
  shows "same_buffers w w' \<and> (res = Inr () \<longrightarrow> joined w' = insert sh (joined w))"
proof (cases "sget (tss_states w) sh = None")
  case False
  then show ?thesis using assms joined_iff [of sh w] by (auto simp: join_shard_def)
next
  case True
  show ?thesis
  proof (cases "\<exists>n cache k. poll_actions wp sh block (w\<lparr>tss_states := sput sh n (tss_states w), keyshares := cache, keys_drawn := k\<rparr>) = Some w' \<and> res = Inr ()")
    case True
    then obtain n cache k where
      "poll_actions wp sh block (w\<lparr>tss_states := sput sh n (tss_states w), keyshares := cache, keys_drawn := k\<rparr>) = Some w'" by blast
    from poll_actions_keeps [OF this] show ?thesis by (simp add: same_buffers_def joined_def joined_sput)
  next
    case False
    then have "res \<noteq> Inr () \<and> same_buffers w w'"
      using assms True
      by (auto simp: join_shard_def Let_def same_buffers_def succeeded_def split: sum.splits option.splits prod.splits)
    then show ?thesis by blast
  qed
qed

lemma commit_shard_keeps:
  assumes "commit_shard wp bh block sh w = Some (res, w')"
  shows "same_buffers w w' \<and> joined w' = joined w"
proof (cases "\<exists>n. sget (tss_states w) sh \<noteq> None \<and> poll_actions wp sh block (w\<lparr>tss_states := sput sh n (tss_states w)\<rparr>) = Some w'")
  case True
  then obtain n where n: "sget (tss_states w) sh \<noteq> None"
    "poll_actions wp sh block (w\<lparr>tss_states := sput sh n (tss_states w)\<rparr>) = Some w'" by blast
  from poll_actions_keeps [OF n(2)] n(1) joined_iff [of sh w] show ?thesis
    by (auto simp: same_buffers_def joined_def joined_sput)
next
  case False
  then have "w' = w"
    using assms
    by (auto simp: commit_shard_def Let_def succeeded_def split: sum.splits option.splits if_splits)
  then show ?thesis by simp
qed

lemma run_tasks_keeps:
  assumes "run_tasks wp bh sh w = Some (res, w')"
  shows "same_buffers w w' \<and> joined w' = joined w"
proof -
  have "same_buffers w w' \<and> (tss_states w' = tss_states w \<or>
      (sget (tss_states w) sh \<noteq> None \<and> (\<exists>n. tss_states w' = sput sh n (tss_states w))))"
    using assms by (auto simp: run_tasks_def Let_def same_buffers_def split: sum.splits if_splits prod.splits option.splits)
  moreover have "joined w' = insert sh (joined w)" if "tss_states w' = sput sh n (tss_states w)" for n
    by (simp only: joined_def that joined_sput)
  moreover have "insert sh (joined w) = joined w" if "sget (tss_states w) sh \<noteq> None"
    using that joined_iff [of sh w] by blast
  moreover have "joined w' = joined w" if "tss_states w' = tss_states w" using that by (simp only: joined_def)
  ultimately show ?thesis by metis
qed

lemma join_shards_keep:
  "try_each (join_shard wp bh block) shs w = Some (res, w') \<Longrightarrow>
     same_buffers w w' \<and> (res = Inr () \<longrightarrow> joined w' = set shs \<union> joined w)"
proof (induction shs arbitrary: w)
  case (Cons sh shs)
  obtain r w1 where w1: "join_shard wp bh block sh w = Some (r, w1)" using Cons.prems by (auto split: option.splits)
  note k = join_shard_keeps [OF w1]
  show ?case
  proof (cases r)
    case (Inl e)
    then show ?thesis using Cons.prems w1 k by auto
  next
    case (Inr u)
    then have "try_each (join_shard wp bh block) shs w1 = Some (res, w')" using Cons.prems w1 by simp
    from Cons.IH [OF this] k Inr show ?thesis using same_buffers_trans [of w w1 w'] by auto
  qed
qed simp

lemma each_keeps:
  assumes "try_each f shs w = Some (res, w')"
    and "\<And>sh v v' res. f sh v = Some (res, v') \<Longrightarrow> same_buffers v v' \<and> joined v' = joined v"
  shows "same_buffers w w' \<and> joined w' = joined w"
proof (rule try_each_invariant [OF assms(1)])
  fix x v v' res assume v: "same_buffers w v \<and> joined v = joined w" and x: "f x v = Some (res, v')"
  show "same_buffers w v' \<and> joined v' = joined w"
    using v assms(2) [OF x] same_buffers_trans [of w v v'] by simp
qed simp

lemma retain_shards_keeps: "same_buffers w (retain_shards shs w) \<and> joined (retain_shards shs w) = joined w \<inter> set shs"
  by (auto simp: retain_shards_def same_buffers_def joined_def)

text \<open>The requests of blocks up to this one, in the order of their blocks.\<close>

definition due_requests :: "block_number \<Rightarrow> (block_number, tss_request list) smap \<Rightarrow> tss_request list" where
  "due_requests block m = concat (map snd (filter (\<lambda>e. fst e \<le> block) (siter unat m)))"

lemma siter_sdel: "swf m \<Longrightarrow> siter ord m = (k, v) # es \<Longrightarrow> siter ord (sdel k m) = es"
proof -
  assume m: "swf m" "siter ord m = (k, v) # es"
  have "distinct (map fst ((k, v) # es))" using distinct_siter [OF m(1), of ord] m(2) by simp
  then have "filter (\<lambda>e. fst e \<noteq> k) ((k, v) # es) = es" by (auto intro!: filter_True)
  then show ?thesis unfolding sdel_def siter_def filter_sort [symmetric] m(2) [unfolded siter_def] .
qed

lemma due_requests_later:
  assumes "siter unat m = (n, x) # es" "n > block"
  shows "due_requests block m = []"
proof -
  have "\<forall>e\<in>set (siter unat m). fst e > block"
    using later_all [OF assms] by (simp add: later_def filter_id_conv)
  then show ?thesis by (auto simp: due_requests_def)
qed

text \<open>The messages of blocks up to this one, in the order of their blocks, each with its block.\<close>

definition due_messages :: "block_number \<Rightarrow> (block_number, peer_message list) smap \<Rightarrow> (block_number \<times> peer_message) list" where
  "due_messages block m = concat (map (\<lambda>(n, ms). map (Pair n) ms) (filter (\<lambda>e. fst e \<le> block) (siter unat m)))"

lemma due_messages_later:
  assumes "siter unat m = (n, x) # es" "n > block"
  shows "due_messages block m = []"
proof -
  have "\<forall>e\<in>set (siter unat m). fst e > block"
    using later_all [OF assms] by (simp add: later_def filter_id_conv)
  then show ?thesis by (auto simp: due_messages_def)
qed

lemma due_first:
  assumes "swf m" "siter unat m = (n, xs) # es" "n \<le> block"
  shows "due_requests block m = xs @ due_requests block (sdel n m)"
  using siter_sdel [OF assms(1,2)] assms(2,3) by (simp add: due_requests_def)

lemma due_first_message:
  assumes "swf m" "siter unat m = (n, xs) # es" "n \<le> block"
  shows "due_messages block m = map (Pair n) xs @ due_messages block (sdel n m)"
  using siter_sdel [OF assms(1,2)] assms(2,3) by (simp add: due_messages_def)

text \<open>
  Serving a list of requests one after the other: the request of a shard without a signing state closes its channel,
  every other one is signed by the state of its shard and all actions of that state are polled. Delivering a list of
  messages one after the other: the message for a shard without a signing state is skipped, every other one is taken
  by the state of its shard and all its actions are polled, for the block of the message.
\<close>

inductive served :: "'w worker_params \<Rightarrow> block_number \<Rightarrow> tss_request list \<Rightarrow> 'w time_worker \<Rightarrow> 'w time_worker \<Rightarrow> bool"
  for wp block where
  served_none: "served wp block [] w w"
| served_dropped: "sget (tss_states w) sh = None \<Longrightarrow> served wp block rs (w\<lparr>channels := sdel i (channels w)\<rparr>) w' \<Longrightarrow>
    served wp block ((sh, i, data) # rs) w w'"
| served_signed: "sget (tss_states w) sh = Some n \<Longrightarrow>
    poll_actions wp sh block
      (w\<lparr>tss_states := sput sh (node_on_sign (wp_frost wp) (wp_env wp) i data n) (tss_states w)\<rparr>) = Some w1 \<Longrightarrow>
    served wp block rs w1 w' \<Longrightarrow> served wp block ((sh, i, data) # rs) w w'"

inductive delivered :: "'w worker_params \<Rightarrow> (block_number \<times> peer_message) list \<Rightarrow> 'w time_worker \<Rightarrow> 'w time_worker \<Rightarrow> bool"
  for wp where
  delivered_none: "delivered wp [] w w"
| delivered_skipped: "sget (tss_states w) sh = None \<Longrightarrow> delivered wp ms w w' \<Longrightarrow>
    delivered wp ((n, sh, p, msg) # ms) w w'"
| delivered_taken: "sget (tss_states w) sh = Some s \<Longrightarrow> node_on_message (wp_env wp) p msg s = Inr s' \<Longrightarrow>
    poll_actions wp sh n (w\<lparr>tss_states := sput sh s' (tss_states w)\<rparr>) = Some w1 \<Longrightarrow>
    delivered wp ms w1 w' \<Longrightarrow> delivered wp ((n, sh, p, msg) # ms) w w'"

lemma served_append: "served wp block rs w w1 \<Longrightarrow> served wp block qs w1 w' \<Longrightarrow> served wp block (rs @ qs) w w'"
  by (induction rule: served.induct) (auto intro: served.intros)

lemma delivered_append: "delivered wp ms w w1 \<Longrightarrow> delivered wp qs w1 w' \<Longrightarrow> delivered wp (ms @ qs) w w'"
  by (induction rule: delivered.induct) (auto intro: delivered.intros)

text \<open>The signing states do not see the buffers.\<close>

lemma buffers_commute:
  "w\<lparr>requests := R, messages := M, tss_states := T\<rparr> = w\<lparr>tss_states := T, requests := R, messages := M\<rparr>"
  "w\<lparr>requests := R, messages := M, channels := C\<rparr> = w\<lparr>channels := C, requests := R, messages := M\<rparr>"
  "w\<lparr>requests := R, messages := M, keyshares := K\<rparr> = w\<lparr>keyshares := K, requests := R, messages := M\<rparr>"
  by (cases w; simp)+

lemma same_buffer:
  "requests w = R \<Longrightarrow> w\<lparr>requests := R\<rparr> = w" "messages w = M \<Longrightarrow> w\<lparr>messages := M\<rparr> = w"
  by (cases w; simp)+

lemma handle_action_buffers:
  "handle_action wp sh block a w = Some w' \<Longrightarrow>
     handle_action wp sh block a (w\<lparr>requests := R, messages := M\<rparr>) = Some (w'\<lparr>requests := R, messages := M\<rparr>)"
  by (auto simp: handle_action_def split: node_tss_action.splits option.splits prod.splits sum.splits)

lemma poll_actions_buffers:
  assumes "poll_actions wp sh block w = Some w'"
  shows "poll_actions wp sh block (w\<lparr>requests := R, messages := M\<rparr>) = Some (w'\<lparr>requests := R, messages := M\<rparr>)"
  using assms
proof (induction wp sh block w w' rule: poll_actions.raw_induct [rotated 1, consumes 1])
  case (1 poll wp sh block w w')
  then obtain n act n' cache where n: "sget (tss_states w) sh = Some n"
    "node_next_action (wp_frost wp) (wp_env wp) (keyshares w) n = Some (act, n', cache)"
    by (auto split: option.splits)
  let ?w = "w\<lparr>tss_states := sput sh n' (tss_states w), keyshares := cache\<rparr>"
  show ?case
  proof (cases act)
    case None
    then have "w' = ?w" using 1(2) n by simp
    then show ?thesis using n None by (subst poll_actions.simps) simp
  next
    case (Some a)
    then obtain w2 where w2: "handle_action wp sh block a ?w = Some w2" "poll wp sh block w2 = Some w'"
      using 1(2) n by (auto simp: Let_def split: option.splits)
    have "poll_actions wp sh block (w\<lparr>requests := R, messages := M\<rparr>) =
        poll_actions wp sh block (w2\<lparr>requests := R, messages := M\<rparr>)"
      using handle_action_buffers [OF w2(1), where R = R and M = M] n Some by (subst poll_actions.simps) (simp add: buffers_commute)
    with 1(1) [OF w2(2)] show ?thesis by simp
  qed
qed

lemma served_block:
  "ofold (serve_request wp block) rs w = Some w' \<Longrightarrow>
     served wp block rs (w\<lparr>requests := R, messages := M\<rparr>) (w'\<lparr>requests := R, messages := M\<rparr>)"
proof (induction rs arbitrary: w)
  case (Cons r rs)
  obtain sh i data where r: "r = (sh, i, data)" by (cases r)
  obtain w1 where w1: "serve_request wp block r w = Some w1" "ofold (serve_request wp block) rs w1 = Some w'"
    using Cons.prems by (auto split: option.splits)
  note tail = Cons.IH [OF w1(2)]
  show ?case
  proof (cases "sget (tss_states w) sh")
    case None
    then have "w1 = w\<lparr>channels := sdel i (channels w)\<rparr>" using w1(1) by (simp add: serve_request_def r)
    then show ?thesis using tail unfolding r by (intro served_dropped) (simp_all add: None buffers_commute)
  next
    case (Some n)
    then have "poll_actions wp sh block
        (w\<lparr>tss_states := sput sh (node_on_sign (wp_frost wp) (wp_env wp) i data n) (tss_states w)\<rparr>) = Some w1"
      using w1(1) by (simp add: serve_request_def r)
    from poll_actions_buffers [OF this, where R = R and M = M] show ?thesis
      unfolding r by (intro served_signed [OF _ _ tail]) (simp_all add: Some buffers_commute)
  qed
qed (simp add: served_none)

lemma delivered_block:
  "try_each (deliver_message wp n) ms w = Some (Inr (), w') \<Longrightarrow>
     delivered wp (map (Pair n) ms) (w\<lparr>requests := R, messages := M\<rparr>) (w'\<lparr>requests := R, messages := M\<rparr>)"
proof (induction ms arbitrary: w)
  case (Cons m ms)
  obtain sh p msg where m: "m = (sh, p, msg)" by (cases m)
  obtain w1 where w1: "deliver_message wp n m w = Some (Inr (), w1)" "try_each (deliver_message wp n) ms w1 = Some (Inr (), w')"
    using Cons.prems by (auto split: option.splits sum.splits)
  note tail = Cons.IH [OF w1(2)]
  show ?case
  proof (cases "sget (tss_states w) sh")
    case None
    then have "w1 = w" using w1(1) by (simp add: deliver_message_def m)
    then show ?thesis using None tail by (simp add: m delivered_skipped)
  next
    case (Some s)
    then obtain s' where s': "node_on_message (wp_env wp) p msg s = Inr s'"
      "poll_actions wp sh n (w\<lparr>tss_states := sput sh s' (tss_states w)\<rparr>) = Some w1"
      using w1(1) by (auto simp: deliver_message_def m split: sum.splits)
    from poll_actions_buffers [OF s'(2), where R = R and M = M] show ?thesis
      unfolding m list.map by (intro delivered_taken [OF _ s'(1) _ tail]) (simp_all add: Some buffers_commute)
  qed
qed (simp add: delivered_none)

lemma drain_requests_served:
  assumes "drain_requests wp block w = Some w'"
  shows "swf (requests w) \<longrightarrow> served wp block (due_requests block (requests w)) (w\<lparr>requests := later block (requests w)\<rparr>) w'"
  using assms
proof (induction wp block w w' rule: drain_requests.raw_induct [rotated 1, consumes 1])
  case (1 drain wp block w w')
  show ?case
  proof (cases "siter unat (requests w)")
    case Nil
    then have "w' = w" "requests w = []" using 1(2) by simp_all
    then show ?thesis by (simp add: later_def due_requests_def same_buffer served_none)
  next
    case (Cons e es)
    obtain n rs where e: "e = (n, rs)" by (cases e)
    show ?thesis
    proof (cases "n > block")
      case True
      then have "w' = w" using 1(2) Cons by (simp add: e)
      then show ?thesis
        using later_all [OF Cons [unfolded e] True] due_requests_later [OF Cons [unfolded e] True] by (simp add: served_none)
    next
      case False
      then obtain w1 where w1: "ofold (serve_request wp block) rs (w\<lparr>requests := sdel n (requests w)\<rparr>) = Some w1"
        "drain wp block w1 = Some w'"
        using 1(2) Cons by (auto simp: e split: option.splits)
      have k: "requests w1 = sdel n (requests w)" "messages w1 = messages w"
        using serve_requests_keep [OF w1(1)] by (simp_all add: same_buffers_def)
      have l: "later block (sdel n (requests w)) = later block (requests w)" using False by (simp add: later_sdel)
      have head: "served wp block rs (w\<lparr>requests := later block (requests w)\<rparr>) (w1\<lparr>requests := later block (requests w)\<rparr>)"
        using served_block [OF w1(1), where R = "later block (requests w)" and M = "messages w"] by (simp add: same_buffer k(2))
      show ?thesis
      proof
        assume wf: "swf (requests w)"
        then have "served wp block (due_requests block (sdel n (requests w))) (w1\<lparr>requests := later block (requests w)\<rparr>) w'"
          using 1(1) [OF w1(2)] by (simp add: k l)
        from served_append [OF head this] show "served wp block (due_requests block (requests w))
            (w\<lparr>requests := later block (requests w)\<rparr>) w'"
          using due_first [OF wf Cons [unfolded e], of block] False by simp
      qed
    qed
  qed
qed

lemma drain_messages_delivered:
  assumes "drain_messages wp block w = Some r"
  shows "fst r = Inr () \<and> swf (messages w) \<longrightarrow>
    delivered wp (due_messages block (messages w)) (w\<lparr>messages := later block (messages w)\<rparr>) (snd r)"
  using assms
proof (induction wp block w r rule: drain_messages.raw_induct [rotated 1, consumes 1])
  case (1 drain wp block w r)
  show ?case
  proof (cases "siter unat (messages w)")
    case Nil
    then have "snd r = w" "messages w = []" using 1(2) by auto
    then show ?thesis by (simp add: later_def due_messages_def same_buffer delivered_none)
  next
    case (Cons e es)
    obtain n ms where e: "e = (n, ms)" by (cases e)
    show ?thesis
    proof (cases "n > block")
      case True
      then have "snd r = w" using 1(2) Cons by (auto simp: e)
      then show ?thesis
        using later_all [OF Cons [unfolded e] True] due_messages_later [OF Cons [unfolded e] True] by (simp add: delivered_none)
    next
      case False
      obtain res w1 where w1: "try_each (deliver_message wp n) ms (w\<lparr>messages := sdel n (messages w)\<rparr>) = Some (res, w1)"
        using False 1(2) Cons by (auto simp: e split: option.splits)
      have k: "messages w1 = sdel n (messages w)" "requests w1 = requests w"
        using deliver_messages_keep [OF w1] by (simp_all add: same_buffers_def)
      have l: "later block (sdel n (messages w)) = later block (messages w)" using False by (simp add: later_sdel)
      show ?thesis
      proof (cases res)
        case (Inl x)
        then show ?thesis using 1(2) Cons False w1 by (auto simp: e)
      next
        case (Inr u)
        then have d: "drain wp block w1 = Some r" using 1(2) Cons False w1 by (simp add: e)
        have "try_each (deliver_message wp n) ms (w\<lparr>messages := sdel n (messages w)\<rparr>) = Some (Inr (), w1)"
          using w1 Inr by simp
        from delivered_block [OF this, where R = "requests w" and M = "later block (messages w)"]
        have head: "delivered wp (map (Pair n) ms) (w\<lparr>messages := later block (messages w)\<rparr>) (w1\<lparr>messages := later block (messages w)\<rparr>)"
          by (simp add: same_buffer k(2))
        show ?thesis
        proof
          assume wf: "fst r = Inr () \<and> swf (messages w)"
          then have "delivered wp (due_messages block (sdel n (messages w))) (w1\<lparr>messages := later block (messages w)\<rparr>) (snd r)"
            using 1(1) [OF d] by (simp add: k l)
          from delivered_append [OF head this] show "delivered wp (due_messages block (messages w))
              (w\<lparr>messages := later block (messages w)\<rparr>) (snd r)"
            using due_first_message [OF conjunct2 [OF wf] Cons [unfolded e], of block] False by simp
        qed
      qed
    qed
  qed
qed

text \<open>
  C33. When a finalized block has been processed without an error, the chronicle has joined exactly the shards that the
  chain assigns to it, and every signing request and message that was waiting for a block up to this one has been
  dealt with once, in the order of the blocks and within a block in the order of arrival: after the shards were
  joined and committed the requests are signed by the states of their shards, then the tasks run, then the messages are taken
  by the states of their shards, each for its own block, and after each of them all actions of the state are polled.
  What waits for a later block is kept.
\<close>

theorem finality_serves_buffers:
  assumes "get_shards_call (wp_substrate wp) (sub_account_id (wp_substrate wp)) bh (world w) = Inr shards"
    and "on_finality wp bh block w = Some (Inr (), w')" and wf: "swf (requests w)" "swf (messages w)"
  shows "joined w' = set shards \<and> requests w' = filter (\<lambda>e. fst e > block) (requests w) \<and>
    messages w' = filter (\<lambda>e. fst e > block) (messages w) \<and>
    (\<exists>w1 w2 w3 w4 w5.
       try_each (join_shard wp bh block) shards (retain_shards shards w) = Some (Inr (), w1) \<and>
       try_each (commit_shard wp bh block) shards w1 = Some (Inr (), w2) \<and>
       served wp block (due_requests block (requests w))
         (w2\<lparr>requests := filter (\<lambda>e. fst e > block) (requests w)\<rparr>) w3 \<and>
       try_each (run_tasks wp bh) shards w3 = Some (Inr (), w4) \<and>
       delivered wp (due_messages block (messages w))
         (w4\<lparr>messages := filter (\<lambda>e. fst e > block) (messages w)\<rparr>) w5 \<and>
       w' = w5\<lparr>admin_shards := shards\<rparr>)"
proof -
  obtain w1 w2 w3 w4 w5 where
    1: "try_each (join_shard wp bh block) shards (retain_shards shards w) = Some (Inr (), w1)" and
    2: "try_each (commit_shard wp bh block) shards w1 = Some (Inr (), w2)" and
    3: "drain_requests wp block w2 = Some w3" and
    4: "try_each (run_tasks wp bh) shards w3 = Some (Inr (), w4)" and
    5: "drain_messages wp block w4 = Some (Inr (), w5)" and w': "w' = w5\<lparr>admin_shards := shards\<rparr>"
    using assms by (auto simp: on_finality_def unless_failed_Some)
  note k1 = join_shards_keep [OF 1] retain_shards_keeps [of w shards]
  have k2: "same_buffers w1 w2 \<and> joined w2 = joined w1" by (rule each_keeps [OF 2]) (rule commit_shard_keeps)
  note k3 = drain_requests_keeps [OF 3]
  have k4: "same_buffers w3 w4 \<and> joined w4 = joined w3" by (rule each_keeps [OF 4]) (rule run_tasks_keeps)
  note k5 = drain_messages_keeps [OF 5]
  have "joined w' = joined w5" "requests w' = requests w5" "messages w' = messages w5" by (simp_all add: w' joined_def)
  with k1 k2 k3 k4 k5 have "joined w' = set shards \<and> requests w' = filter (\<lambda>e. fst e > block) (requests w) \<and>
      messages w' = filter (\<lambda>e. fst e > block) (messages w)" by (auto simp: same_buffers_def later_def)
  moreover have b: "requests w2 = requests w" "messages w4 = messages w"
    using k1 k2 k3 k4 by (simp_all add: same_buffers_def)
  have "served wp block (due_requests block (requests w)) (w2\<lparr>requests := filter (\<lambda>e. fst e > block) (requests w)\<rparr>) w3"
    using drain_requests_served [OF 3] wf(1) by (simp add: b later_def)
  moreover have "delivered wp (due_messages block (messages w)) (w4\<lparr>messages := filter (\<lambda>e. fst e > block) (messages w)\<rparr>) w5"
    using drain_messages_delivered [OF 5] wf(2) by (simp add: b later_def)
  ultimately show ?thesis using 1 2 4 w' by blast
qed

section \<open>A missing key share\<close>

text \<open>
  C40. A chronicle that is assigned a shard whose commitment is on the chain, but whose key share it does not
  have, fails at every finalized block, although it has joined all shards listed before: it serves no signing request,
  starts no task and delivers no message for any of its shards. This happens to a chronicle that was stopped after the members of
  the shard committed and before it stored its share.
\<close>

theorem missing_share_stops_node:
  assumes shards: "get_shards_call (wp_substrate wp) (sub_account_id (wp_substrate wp)) bh (world w) = Inr (pre @ sh # post)"
    and pre: "list_all (\<lambda>i. sget (tss_states w) i \<noteq> None) pre" and new: "sget (tss_states w) sh = None"
    and chain: "get_shard_members_call (wp_substrate wp) sh bh (world w) = Inr ms"
      "get_shard_threshold_call (wp_substrate wp) sh bh (world w) = Inr t"
      "shard_commitment_call (wp_substrate wp) sh bh (world w) = Inr (Some points)"
      "vss_deserialize (wp_env wp) points = Some c"
    and peers: "list_all (peer_id_ok (wp_env wp)) (wp_peer_id wp # member_peers wp bh ms (world w))"
    and missing: "sget (keyshares w) (signing_share_path (wp_env wp) c) = None"
  shows "\<exists>w'. on_finality wp bh block w = Some (Inl (TssFailure ReadFailed), w') \<and>
    requests w' = requests w \<and> messages w' = messages w \<and> answered w' = answered w \<and> spawned w' = spawned w \<and>
    sget (tss_states w') sh = None \<and> keyshares w' = keyshares w"
proof -
  let ?w = "retain_shards (pre @ sh # post) w"
  have keep: "sget (tss_states ?w) i = sget (tss_states w) i" if "i \<in> set (pre @ sh # post)" for i
  proof -
    have "map_of (filter (\<lambda>e. fst e \<in> X) m) i = map_of m i" if "i \<in> X" for X and m :: "(shard_id \<times> node_tss) list"
      using that by (induction m) auto
    from this [OF that] show ?thesis by (simp add: retain_shards_def sget_def)
  qed
  have skip: "try_each (join_shard wp bh block) (xs @ sh # post) ?w = try_each (join_shard wp bh block) (sh # post) ?w"
    if "set xs \<subseteq> set pre" for xs
    using that
  proof (induction xs)
    case (Cons x xs)
    then have "sget (tss_states ?w) x \<noteq> None" using keep [of x] pre by (auto simp: list_all_iff)
    then show ?case using Cons by (simp add: join_shard_def)
  qed simp
  let ?w' = "?w\<lparr>keys_drawn := Suc (keys_drawn ?w)\<rparr>"
  have "sget (tss_states ?w) sh = None" using keep [of sh] new by simp
  moreover have f: "world ?w = world w" "keyshares ?w = keyshares w" by (simp_all add: retain_shards_def)
  ultimately have "join_shard wp bh block sh ?w = Some (Inl (TssFailure ReadFailed), ?w')"
    using chain peers missing by (simp add: join_shard_def node_tss_new_def read_signing_share_def)
  then have "on_finality wp bh block w = Some (Inl (TssFailure ReadFailed), ?w')"
    using shards skip [of pre] by (simp add: on_finality_def unless_failed_def)
  moreover have "sget (tss_states ?w') sh = None" using keep [of sh] new by simp
  ultimately show ?thesis by (intro exI [of _ ?w']) (simp add: retain_shards_def)
qed

section \<open>Shards of one member\<close>

text \<open>The signing states of a chronicle all of whose shards have one member, committed and idle, up to the order of the map.\<close>

definition solo :: "'w time_worker \<Rightarrow> bool" where
  "solo w \<longleftrightarrow> (\<forall>sh n. sget (tss_states w) sh = Some n \<longrightarrow> (\<exists>key. n = TssDisabled key None True))"

definition solo_key :: "'w time_worker \<Rightarrow> shard_id \<Rightarrow> signing_key option" where
  "solo_key w sh = (case sget (tss_states w) sh of Some (TssDisabled key _ _) \<Rightarrow> Some key | _ \<Rightarrow> None)"

text \<open>The state outside the signing states.\<close>

definition same_rest :: "'w time_worker \<Rightarrow> 'w time_worker \<Rightarrow> bool" where
  "same_rest w w' \<longleftrightarrow> sget (tss_states w') = sget (tss_states w) \<and> requests w' = requests w \<and> messages w' = messages w \<and>
     world w' = world w"

definition same_channels :: "'w time_worker \<Rightarrow> 'w time_worker \<Rightarrow> bool" where
  "same_channels w w' \<longleftrightarrow> channels w' = channels w \<and> answered w' = answered w"

lemma same_rest_refl [simp]: "same_rest w w" "same_channels w w"
  by (simp_all add: same_rest_def same_channels_def)

lemma same_rest_trans: "same_rest w v \<Longrightarrow> same_rest v u \<Longrightarrow> same_rest w u"
  by (simp add: same_rest_def)

lemma same_rest_solo: "same_rest w w' \<Longrightarrow> solo w' = solo w" "same_rest w w' \<Longrightarrow> solo_key w' sh = solo_key w sh"
  by (simp_all add: same_rest_def solo_def solo_key_def)

lemma sget_sput_fun: "sget (sput k v m) = (sget m)(k \<mapsto> v)"
  by (rule ext) simp

lemma poll_idle:
  assumes "sget (tss_states w) sh = Some (TssDisabled key None b)"
  shows "\<exists>w'. poll_actions wp sh block w = Some w' \<and> same_rest w w' \<and> same_channels w w'"
proof -
  have "(sget (tss_states w))(sh \<mapsto> TssDisabled key None b) = sget (tss_states w)" using assms by (simp add: fun_upd_idem)
  then show ?thesis
    by (subst poll_actions.simps)
      (simp add: assms node_next_action_def Let_def same_rest_def same_channels_def sget_sput_fun)
qed

text \<open>A signature is handed to the channel of its task.\<close>

definition give_signature :: "task_id \<Rightarrow> bytes \<Rightarrow> signature \<Rightarrow> 'w time_worker \<Rightarrow> 'w time_worker" where
  "give_signature i h sig w =
     (case sget (channels w) i of
        None \<Rightarrow> w
      | Some tx \<Rightarrow> w\<lparr>channels := sdel i (channels w), answered := answered w @ [(tx, h, sig)]\<rparr>)"

lemma serve_solo:
  assumes solo: "solo w" and key: "solo_key w sh = Some key"
  shows "\<exists>w'. serve_request wp block (sh, i, data) w = Some w' \<and> same_rest w w' \<and>
    same_channels (give_signature i (message_hash (wp_frost wp) data)
      (sign_prehashed (wp_env wp) key (message_hash (wp_frost wp) data)) w) w'"
proof -
  let ?h = "message_hash (wp_frost wp) data"
  let ?sig = "sign_prehashed (wp_env wp) key ?h"
  have n: "sget (tss_states w) sh = Some (TssDisabled key None True)"
    using solo key by (auto simp: solo_def solo_key_def split: option.splits node_tss.splits)
  let ?a = "ActSignature i ?h ?sig"
  let ?w = "w\<lparr>tss_states := sput sh (TssDisabled key (Some ?a) True) (tss_states w)\<rparr>"
  let ?w1 = "?w\<lparr>tss_states := sput sh (TssDisabled key None True) (tss_states ?w), keyshares := keyshares ?w\<rparr>"
  let ?w2 = "give_signature i ?h ?sig ?w1"
  have h: "handle_action wp sh block ?a ?w1 = Some ?w2"
    by (simp add: handle_action_def give_signature_def split: option.split)
  have s: "sget (tss_states ?w) sh = Some (TssDisabled key (Some ?a) True)" by simp
  have a: "node_next_action (wp_frost wp) (wp_env wp) (keyshares ?w) (TssDisabled key (Some ?a) True) =
      Some (Some ?a, TssDisabled key None True, keyshares ?w)" by (simp add: node_next_action_def)
  have "poll_actions wp sh block ?w = poll_actions wp sh block ?w2"
    by (subst poll_actions.simps) (simp only: s a h option.case prod.case Let_def)
  moreover have "serve_request wp block (sh, i, data) w = poll_actions wp sh block ?w"
    by (simp add: serve_request_def n Let_def)
  ultimately have poll: "serve_request wp block (sh, i, data) w = poll_actions wp sh block ?w2" by simp
  have "sget (tss_states ?w1) = sget (tss_states w)"
    using n by (simp add: sget_sput_fun fun_upd_idem)
  then have r: "same_rest w ?w2" by (simp add: same_rest_def give_signature_def split: option.split)
  have c: "same_channels (give_signature i ?h ?sig w) ?w2"
    by (simp add: same_channels_def give_signature_def split: option.split)
  have "sget (tss_states ?w2) sh = Some (TssDisabled key None True)" using r n by (simp add: same_rest_def)
  then obtain w' where w': "poll_actions wp sh block ?w2 = Some w'" "same_rest ?w2 w'" "same_channels ?w2 w'"
    using poll_idle by blast
  have "same_rest w w'" using r w'(2) by (rule same_rest_trans)
  moreover have "same_channels (give_signature i ?h ?sig w) w'" using c w'(3) by (simp add: same_channels_def)
  ultimately show ?thesis using poll w'(1) by simp
qed

text \<open>The answers to a list of requests, for their channels and the keys of their shards.\<close>

definition solo_answers ::
  "'w worker_params \<Rightarrow> (task_id, nat) smap \<Rightarrow> (shard_id \<Rightarrow> signing_key option) \<Rightarrow> tss_request list \<Rightarrow> (nat \<times> bytes \<times> signature) list" where
  "solo_answers wp chans keys rs = map (\<lambda>(sh, i, data).
     (the (sget chans i), message_hash (wp_frost wp) data,
      sign_prehashed (wp_env wp) (the (keys sh)) (message_hash (wp_frost wp) data))) rs"

text \<open>Every request comes from a task of its own, and somebody waits for it.\<close>

definition requests_ok :: "(task_id, nat) smap \<Rightarrow> (shard_id \<Rightarrow> signing_key option) \<Rightarrow> tss_request list \<Rightarrow> bool" where
  "requests_ok chans keys rs \<longleftrightarrow> distinct (map (\<lambda>(sh, i, data). i) rs) \<and>
     list_all (\<lambda>(sh, i, data). sget chans i \<noteq> None \<and> keys sh \<noteq> None) rs"

lemma serve_solos:
  assumes "solo w" "requests_ok (channels w) (solo_key w) rs"
  shows "\<exists>w'. ofold (serve_request wp block) rs w = Some w' \<and> same_rest w w' \<and>
    answered w' = answered w @ solo_answers wp (channels w) (solo_key w) rs \<and>
    channels w' = filter (\<lambda>e. fst e \<notin> (\<lambda>(sh, i, data). i) ` set rs) (channels w)"
  using assms
proof (induction rs arbitrary: w)
  case Nil
  then show ?case by (auto simp: solo_answers_def)
next
  case (Cons r rs)
  obtain sh i data where r: "r = (sh, i, data)" by (cases r)
  obtain tx key where k: "sget (channels w) i = Some tx" "solo_key w sh = Some key"
    using Cons.prems(2) by (auto simp: requests_ok_def r)
  obtain w1 where w1: "serve_request wp block r w = Some w1" "same_rest w w1"
    "channels w1 = sdel i (channels w)"
    "answered w1 = answered w @ [(tx, message_hash (wp_frost wp) data, sign_prehashed (wp_env wp) key (message_hash (wp_frost wp) data))]"
    using serve_solo [OF Cons.prems(1) k(2), of wp block i data] k(1) by (auto simp: r same_channels_def give_signature_def)
  have i: "i \<notin> (\<lambda>(sh, i, data). i) ` set rs" using Cons.prems(2) by (simp add: requests_ok_def r)
  have same: "solo_key w1 = solo_key w" by (rule ext) (rule same_rest_solo(2) [OF w1(2)])
  have c: "sget (channels w1) j = sget (channels w) j" if "(s, j, d) \<in> set rs" for s j d
    using that i w1(3) by force
  have "requests_ok (channels w1) (solo_key w1) rs"
    using Cons.prems(2) c unfolding same by (auto simp: requests_ok_def r list_all_iff)
  then obtain w' where w': "ofold (serve_request wp block) rs w1 = Some w'" "same_rest w1 w'"
    "answered w' = answered w1 @ solo_answers wp (channels w1) (solo_key w1) rs"
    "channels w' = filter (\<lambda>e. fst e \<notin> (\<lambda>(sh, i, data). i) ` set rs) (channels w1)"
    using Cons.IH [of w1] same_rest_solo(1) [OF w1(2)] Cons.prems(1) by blast
  have "solo_answers wp (channels w1) (solo_key w1) rs = solo_answers wp (channels w) (solo_key w) rs"
    unfolding same solo_answers_def by (rule map_cong) (use c in auto)
  then show ?case
    using w1 w' k same_rest_trans [OF w1(2) w'(2)] by (auto simp: r solo_answers_def sdel_def intro!: filter_cong)
qed

lemma drain_solo:
  assumes "solo w" "swf (requests w)" "requests_ok (channels w) (solo_key w) (due_requests block (requests w))"
  shows "\<exists>w'. drain_requests wp block w = Some w' \<and> sget (tss_states w') = sget (tss_states w) \<and> world w' = world w \<and>
    messages w' = messages w \<and>
    answered w' = answered w @ solo_answers wp (channels w) (solo_key w) (due_requests block (requests w))"
  using assms
proof (induction "length (requests w)" arbitrary: w rule: less_induct)
  case less
  show ?case
  proof (cases "siter unat (requests w)")
    case Nil
    then have "drain_requests wp block w = Some w" by (subst drain_requests.simps) simp
    then show ?thesis using Nil by (simp add: due_requests_def solo_answers_def)
  next
    case (Cons e es)
    obtain n rs where e: "e = (n, rs)" by (cases e)
    show ?thesis
    proof (cases "n > block")
      case True
      then have "drain_requests wp block w = Some w" by (subst drain_requests.simps) (simp add: Cons e)
      then show ?thesis using due_requests_later [OF Cons [unfolded e] True] by (simp add: solo_answers_def)
    next
      case False
      let ?w = "w\<lparr>requests := sdel n (requests w)\<rparr>"
      have es: "siter unat (sdel n (requests w)) = es" by (rule siter_sdel [OF less.prems(2) Cons [unfolded e]])
      then have due: "due_requests block (requests w) = rs @ due_requests block (sdel n (requests w))"
        using False by (simp add: due_requests_def Cons e not_less)
      have keys: "solo_key ?w = solo_key w" "solo ?w" using less.prems(1) by (simp_all add: solo_key_def solo_def fun_eq_iff)
      have ok: "requests_ok (channels w) (solo_key w) rs" "requests_ok (channels w) (solo_key w) (due_requests block (sdel n (requests w)))"
        and dis: "(\<lambda>(sh, i, data). i) ` set rs \<inter> (\<lambda>(sh, i, data). i) ` set (due_requests block (sdel n (requests w))) = {}"
        using less.prems(3) unfolding due by (auto simp: requests_ok_def)
      obtain w1 where w1: "ofold (serve_request wp block) rs ?w = Some w1" "same_rest ?w w1"
        "answered w1 = answered w @ solo_answers wp (channels w) (solo_key w) rs"
        "channels w1 = filter (\<lambda>e. fst e \<notin> (\<lambda>(sh, i, data). i) ` set rs) (channels w)"
        using serve_solos [of ?w rs wp block] keys ok(1) by auto
      have k1: "solo_key w1 = solo_key w" "solo w1"
        using same_rest_solo [OF w1(2)] keys by (simp_all add: fun_eq_iff)
      have req1: "requests w1 = sdel n (requests w)" using w1(2) by (simp add: same_rest_def)
      have c: "sget (channels w1) j = sget (channels w) j" if "(s, j, d) \<in> set (due_requests block (requests w1))" for s j d
      proof -
        have "j \<notin> (\<lambda>(sh, i, data). i) ` set rs" using that dis by (force simp: req1)
        moreover have "map_of (filter (\<lambda>e. fst e \<notin> X) m) j = map_of m j" if "j \<notin> X" for X and m :: "(task_id, nat) smap"
          using that by (induction m) auto
        ultimately show ?thesis by (simp add: w1(4) sget_def)
      qed
      have "requests_ok (channels w1) (solo_key w1) (due_requests block (requests w1))"
        using ok(2) c unfolding k1(1) by (auto simp: requests_ok_def list_all_iff req1)
      moreover have "length (requests w1) < length (requests w)"
        using Cons es by (metis req1 length_siter length_Cons lessI)
      moreover have "swf (requests w1)" using less.prems(2) by (simp add: req1)
      ultimately obtain w' where w': "drain_requests wp block w1 = Some w'" "sget (tss_states w') = sget (tss_states w1)"
        "world w' = world w1" "messages w' = messages w1"
        "answered w' = answered w1 @ solo_answers wp (channels w1) (solo_key w1) (due_requests block (requests w1))"
        using less.hyps [of w1] k1(2) by blast
      have "drain_requests wp block w = drain_requests wp block w1"
        by (subst drain_requests.simps) (use Cons False w1(1) in \<open>simp add: e\<close>)
      moreover have "solo_answers wp (channels w1) (solo_key w1) (due_requests block (requests w1)) =
          solo_answers wp (channels w) (solo_key w) (due_requests block (sdel n (requests w)))"
        unfolding k1(1) req1 solo_answers_def by (rule map_cong) (use c [unfolded req1] in auto)
      ultimately show ?thesis
        using w' w1 by (simp add: due same_rest_def solo_answers_def)
    qed
  qed
qed

lemma fold_idle: "fold node_on_start xs (fold node_on_complete ys (TssDisabled key a b)) = TssDisabled key a b"
proof -
  have "fold node_on_complete ys (TssDisabled key a b) = TssDisabled key a b" by (induction ys) simp_all
  moreover have "fold node_on_start xs (TssDisabled key a b) = TssDisabled key a b" by (induction xs) simp_all
  ultimately show ?thesis by simp
qed

text \<open>What the rest of a finalized block leaves alone.\<close>

definition idle_step :: "'w time_worker \<Rightarrow> 'w time_worker \<Rightarrow> bool" where
  "idle_step w w' \<longleftrightarrow> sget (tss_states w') = sget (tss_states w) \<and> world w' = world w \<and> answered w' = answered w"

lemma idle_step_refl [simp]: "idle_step w w"
  by (simp add: idle_step_def)

lemma idle_step_trans: "idle_step w v \<Longrightarrow> idle_step v u \<Longrightarrow> idle_step w u"
  by (simp add: idle_step_def)

lemma idle_step_solo: "idle_step w w' \<Longrightarrow> solo w' = solo w"
  by (simp add: idle_step_def solo_def)

lemma run_tasks_solo:
  assumes "solo w" "get_shard_status_call (wp_substrate wp) sh bh (world w) = Inr st"
  shows "\<exists>w'. run_tasks wp bh sh w = Some (Inr (), w') \<and> idle_step w w' \<and> messages w' = messages w"
proof (cases "st = SOnline")
  case True
  obtain res run started where p: "process_tasks (wp_tasks wp) bh sh (world w) (value_or [] (sget (executor_states w) sh)) = (res, run, started)"
    by (cases "process_tasks (wp_tasks wp) bh sh (world w) (value_or [] (sget (executor_states w) sh))")
  show ?thesis
  proof (cases "sget (tss_states w) sh")
    case None
    then show ?thesis using assms(2) True p by (cases res) (auto simp: run_tasks_def idle_step_def Let_def)
  next
    case (Some n)
    then obtain key where n: "n = TssDisabled key None True" using assms(1) by (auto simp: solo_def)
    have "(sget (tss_states w))(sh \<mapsto> n) = sget (tss_states w)" using Some by (simp add: fun_upd_idem)
    then show ?thesis
      using assms(2) True p Some
      by (cases res) (auto simp: run_tasks_def idle_step_def n fold_idle sget_sput_fun Let_def)
  qed
qed (use assms in \<open>simp add: run_tasks_def\<close>)

lemma deliver_solo:
  assumes "solo w" "peer_id_ok (wp_env wp) p"
  shows "\<exists>w'. deliver_message wp n (sh, p, msg) w = Some (Inr (), w') \<and> idle_step w w' \<and> messages w' = messages w"
proof (cases "sget (tss_states w) sh")
  case None
  then show ?thesis by (simp add: deliver_message_def)
next
  case (Some s)
  then obtain key where s: "s = TssDisabled key None True" using assms(1) by (auto simp: solo_def)
  let ?w = "w\<lparr>tss_states := sput sh s (tss_states w)\<rparr>"
  have "sget (tss_states ?w) sh = Some (TssDisabled key None True)" by (simp add: s)
  from poll_idle [OF this, of wp n] obtain w' where
    w': "poll_actions wp sh n ?w = Some w'" "same_rest ?w w'" "same_channels ?w w'" by blast
  have "deliver_message wp n (sh, p, msg) w = succeeded (poll_actions wp sh n ?w)"
    using Some assms(2) by (simp add: deliver_message_def node_on_message_def s)
  moreover have "(sget (tss_states w))(sh \<mapsto> s) = sget (tss_states w)" using Some by (simp add: fun_upd_idem)
  ultimately show ?thesis using w' by (simp add: same_rest_def same_channels_def idle_step_def sget_sput_fun succeeded_def)
qed

text \<open>A loop whose body succeeds in every state like the first one.\<close>

lemma try_each_succeeds:
  assumes "I s" "\<And>x s. x \<in> set xs \<Longrightarrow> I s \<Longrightarrow> \<exists>t. f x s = Some (Inr (), t) \<and> I t"
  shows "\<exists>t. try_each f xs s = Some (Inr (), t) \<and> I t"
  using assms
proof (induction xs arbitrary: s)
  case (Cons x xs)
  obtain t where t: "f x s = Some (Inr (), t)" "I t" using Cons.prems(2) [of x s] Cons.prems(1) by auto
  have "\<exists>u. try_each f xs t = Some (Inr (), u) \<and> I u"
    by (rule Cons.IH [OF t(2)]) (use Cons.prems(2) in auto)
  then show ?case using t(1) by simp
qed simp

definition peers_ok :: "'w worker_params \<Rightarrow> (block_number, peer_message list) smap \<Rightarrow> bool" where
  "peers_ok wp m \<longleftrightarrow> list_all (\<lambda>e. list_all (\<lambda>(sh, p, msg). peer_id_ok (wp_env wp) p) (snd e)) m"

lemma drain_messages_solo:
  assumes "solo w" "swf (messages w)" "peers_ok wp (messages w)"
  shows "\<exists>w'. drain_messages wp block w = Some (Inr (), w') \<and> idle_step w w'"
  using assms
proof (induction "length (messages w)" arbitrary: w rule: less_induct)
  case less
  show ?case
  proof (cases "siter unat (messages w)")
    case Nil
    then show ?thesis by (subst drain_messages.simps) simp
  next
    case (Cons e es)
    obtain n ms where e: "e = (n, ms)" by (cases e)
    show ?thesis
    proof (cases "n > block")
      case True
      then show ?thesis by (subst drain_messages.simps) (simp add: Cons e)
    next
      case False
      let ?w = "w\<lparr>messages := sdel n (messages w)\<rparr>"
      have es: "siter unat (sdel n (messages w)) = es" by (rule siter_sdel [OF less.prems(2) Cons [unfolded e]])
      have "(n, ms) \<in> set (siter unat (messages w))" by (simp add: Cons e)
      then have "(n, ms) \<in> set (messages w)" by simp
      then have ms: "list_all (\<lambda>(sh, p, msg). peer_id_ok (wp_env wp) p) ms"
        using less.prems(3) by (auto simp: peers_ok_def list_all_iff)
      have "\<exists>w1. try_each (deliver_message wp n) ms ?w = Some (Inr (), w1) \<and>
          (idle_step w w1 \<and> messages w1 = sdel n (messages w))"
      proof (rule try_each_succeeds)
        show "idle_step w ?w \<and> messages ?w = sdel n (messages w)" by (simp add: idle_step_def)
        fix m v assume m: "m \<in> set ms" and v: "idle_step w v \<and> messages v = sdel n (messages w)"
        obtain sh p msg where mm: "m = (sh, p, msg)" by (cases m)
        have "solo v" using v less.prems(1) idle_step_solo [of w v] by simp
        moreover have "peer_id_ok (wp_env wp) p" using ms m by (auto simp: list_all_iff mm)
        ultimately obtain v' where v': "deliver_message wp n m v = Some (Inr (), v')" "idle_step v v'" "messages v' = messages v"
          using deliver_solo [of v wp p n sh msg] by (auto simp: mm)
        then show "\<exists>t. deliver_message wp n m v = Some (Inr (), t) \<and> idle_step w t \<and> messages t = sdel n (messages w)"
          using v idle_step_trans [OF _ v'(2), of w] by simp
      qed
      then obtain w1 where w1: "try_each (deliver_message wp n) ms ?w = Some (Inr (), w1)" "idle_step w w1"
        "messages w1 = sdel n (messages w)" by blast
      have "length (messages w1) = length es" using arg_cong [OF es, of length] by (simp add: w1(3))
      then have "length (messages w1) < length (messages w)" using arg_cong [OF Cons, of length] by simp
      moreover have "solo w1" "swf (messages w1)" using idle_step_solo [OF w1(2)] less.prems by (simp_all add: w1(3))
      moreover have "peers_ok wp (messages w1)" using less.prems(3) unfolding w1(3) peers_ok_def sdel_def list_all_iff by (simp only: set_filter mem_Collect_eq) blast
      ultimately obtain w' where w': "drain_messages wp block w1 = Some (Inr (), w')" "idle_step w1 w'"
        using less.hyps [of w1] by blast
      have "drain_messages wp block w = drain_messages wp block w1"
        by (subst drain_messages.simps) (use Cons False w1(1) in \<open>simp add: e\<close>)
      then show ?thesis using w' idle_step_trans [OF w1(2) w'(2)] by simp
    qed
  qed
qed

lemma join_known: "sget (tss_states w) sh = Some n \<Longrightarrow> join_shard wp bh block sh w = Some (Inr (), w)"
  by (simp add: join_shard_def Let_def)

lemma commit_known: "sget (tss_states w) sh = Some (TssDisabled key None True) \<Longrightarrow> commit_shard wp bh block sh w = Some (Inr (), w)"
  by (simp add: commit_shard_def Let_def)

lemma solo_finality:
  assumes shards: "get_shards_call (wp_substrate wp) (sub_account_id (wp_substrate wp)) bh (world w) = Inr shards"
    and dom: "set shards = joined w" and solo: "solo w" and wf: "swf (requests w)" "swf (messages w)"
    and status: "list_all (\<lambda>sh. \<not> isl (get_shard_status_call (wp_substrate wp) sh bh (world w))) shards"
    and peers: "peers_ok wp (messages w)"
    and reqs: "requests_ok (channels w) (solo_key w) (due_requests block (requests w))"
  shows "\<exists>w'. on_finality wp bh block w = Some (Inr (), w') \<and>
    answered w' = answered w @ solo_answers wp (channels w) (solo_key w) (due_requests block (requests w))"
proof -
  let ?w = "retain_shards shards w"
  have states: "tss_states ?w = tss_states w"
    using dom by (auto simp: retain_shards_def joined_def intro!: filter_True)
  have f: "requests ?w = requests w" "messages ?w = messages w" "channels ?w = channels w" "answered ?w = answered w"
    "world ?w = world w" by (simp_all add: retain_shards_def)
  have s: "solo ?w" "solo_key ?w = solo_key w" using solo states by (simp_all add: solo_def solo_key_def fun_eq_iff)
  have known: "\<exists>key. sget (tss_states ?w) sh = Some (TssDisabled key None True)" if "sh \<in> set shards" for sh
    using that dom joined_iff [of sh w] solo by (auto simp: states solo_def)
  have jk: "join_shard wp bh block sh ?w = Some (Inr (), ?w)" if "sh \<in> set shards" for sh
    using known [OF that] join_known by blast
  have ck: "commit_shard wp bh block sh ?w = Some (Inr (), ?w)" if "sh \<in> set shards" for sh
    using known [OF that] commit_known by blast
  have j: "\<exists>t. try_each (join_shard wp bh block) shards ?w = Some (Inr (), t) \<and> t = ?w"
    by (rule try_each_succeeds) (simp_all add: jk)
  have c: "\<exists>t. try_each (commit_shard wp bh block) shards ?w = Some (Inr (), t) \<and> t = ?w"
    by (rule try_each_succeeds) (simp_all add: ck)
  obtain w3 where w3: "drain_requests wp block ?w = Some w3" "sget (tss_states w3) = sget (tss_states w)" "world w3 = world w"
    "messages w3 = messages w"
    "answered w3 = answered w @ solo_answers wp (channels w) (solo_key w) (due_requests block (requests w))"
    using drain_solo [OF s(1), of block wp] wf(1) reqs unfolding f s(2) states by blast
  have solo3: "solo w3" using solo by (simp add: solo_def w3(2))
  have "\<exists>t. try_each (run_tasks wp bh) shards w3 = Some (Inr (), t) \<and> (idle_step w3 t \<and> messages t = messages w3)"
  proof (rule try_each_succeeds)
    fix sh v assume sh: "sh \<in> set shards" and v: "idle_step w3 v \<and> messages v = messages w3"
    obtain st where "get_shard_status_call (wp_substrate wp) sh bh (world v) = Inr st"
      using status sh v w3(3) by (auto simp: list_all_iff idle_step_def) (metis isl_def sum.exhaust_sel)
    from run_tasks_solo [OF _ this] obtain v' where v': "run_tasks wp bh sh v = Some (Inr (), v')" "idle_step v v'" "messages v' = messages v"
      using v solo3 idle_step_solo [of w3 v] by auto
    then show "\<exists>t. run_tasks wp bh sh v = Some (Inr (), t) \<and> idle_step w3 t \<and> messages t = messages w3"
      using v idle_step_trans [of w3 v v'] by simp
  qed simp
  then obtain w4 where w4: "try_each (run_tasks wp bh) shards w3 = Some (Inr (), w4)" "idle_step w3 w4" "messages w4 = messages w" 
    using w3(4) by auto
  have "solo w4" using idle_step_solo [OF w4(2)] solo3 by simp
  then obtain w5 where w5: "drain_messages wp block w4 = Some (Inr (), w5)" "idle_step w4 w5"
    using drain_messages_solo [of w4 wp block] wf(2) peers unfolding w4(3) by blast
  have "on_finality wp bh block w = Some (Inr (), w5\<lparr>admin_shards := shards\<rparr>)"
    using shards j c w3(1) w4(1) w5(1) by (simp add: on_finality_def unless_failed_def succeeded_def)
  moreover have "answered w5 = answered w3" using w4(2) w5(2) by (simp add: idle_step_def)
  ultimately show ?thesis using w3(5) by simp
qed

text \<open>
  C32. A chronicle whose shards all have one member signs every request: when a block is finalized, it gets through all its work,
  and every signing request that was waiting for a block up to this one is answered, in the order of the blocks, with
  the hash of its data and the signature of that hash under the key of its shard. The requests are from tasks of
  their own, and for shards it has; the chain answers its queries and the peers that sent messages have valid identifiers.
\<close>

theorem solo_node_signs:
  assumes shards: "get_shards_call (wp_substrate wp) (sub_account_id (wp_substrate wp)) bh (world w) = Inr shards"
    and dom: "set shards = joined w" and solo: "solo w" and wf: "swf (requests w)" "swf (messages w)"
    and status: "list_all (\<lambda>sh. \<not> isl (get_shard_status_call (wp_substrate wp) sh bh (world w))) shards"
    and peers: "peers_ok wp (messages w)"
    and reqs: "requests_ok (channels w) (solo_key w) (due_requests block (requests w))"
  shows "\<exists>w'. on_finality wp bh block w = Some (Inr (), w') \<and>
    answered w' = answered w @ solo_answers wp (channels w) (solo_key w) (due_requests block (requests w))"
  by (rule solo_finality [OF assms])

section \<open>A small chronicle\<close>

text \<open>A chain client without shards to join, and a task executor without a gateway.\<close>

definition demo_chain :: "unit substrate" where
  "demo_chain = \<lparr>sub_account_id = 1, get_shards_call = (\<lambda>a bh w. Inr [5]), get_shard_members_call = (\<lambda>sh bh w. Inr [(1, Added)]),
     get_shard_threshold_call = (\<lambda>sh bh w. Inr 1), get_member_peer_id_call = (\<lambda>a bh w. Inr (Some [1])),
     shard_commitment_call = (\<lambda>sh bh w. Inr (Some [[3]])), get_shard_status_call = (\<lambda>sh bh w. Inr SOnline),
     get_heartbeat_timeout_call = (\<lambda>bh w. Inr 10), is_heartbeat_submitted_call = (\<lambda>a bh w. Inr False),
     submit_heartbeat_call = (\<lambda>w. (Inr (), w)), submit_commitment_call = (\<lambda>sh c p w. (Inr (), w)),
     submit_online_call = (\<lambda>sh w. (Inr (), w))\<rparr>"

definition demo_tasks :: "unit task_params" where
  "demo_tasks = \<lparr>network_of = 1, read_events_call = (\<lambda>g a b c w. Inr []), submit_commands_call = (\<lambda>g b m k s w. (Inr (), w)),
     finalized_block_call = (\<lambda>w. Inr 0), tss_sign = (\<lambda>b sh i d w. Inl NoGateway), get_gateway_call = (\<lambda>n bh w. Inr None),
     get_cctp_info_call = (\<lambda>n bh w. Inr None), get_shard_tasks_call = (\<lambda>sh bh w. Inr []), get_task_call = (\<lambda>i bh w. Inr None),
     get_batch_message_call = (\<lambda>b bh w. Inr None), get_shard_commitment_call = (\<lambda>sh bh w. Inr None),
     submit_task_result_call = (\<lambda>i r w. (Inr (), w)), scale_string = (\<lambda>s. s)\<rparr>"

definition demo_params :: "unit worker_params" where
  "demo_params = \<lparr>wp_frost = demo_keys, wp_env = demo_env, wp_substrate = demo_chain, wp_tasks = demo_tasks, wp_peer_id = [1]\<rparr>"

text \<open>A chronicle in shard 5, with a request for block 2 and one for block 9.\<close>

definition demo_worker :: "unit time_worker" where
  "demo_worker = on_tss_request 40 5 [7] 70 2 (on_tss_request 41 5 [8] 71 9
     ((time_worker_new [] ())\<lparr>tss_states := [(5, TssDisabled [3] None True)]\<rparr>))"

lemma demo_worker_eq: "tss_states demo_worker = [(5, TssDisabled [3] None True)]" "messages demo_worker = []"
  "requests demo_worker = [(2, [(5, 40, [7])]), (9, [(5, 41, [8])])]" "channels demo_worker = [(40, 70), (41, 71)]"
  "answered demo_worker = []" "world demo_worker = ()" "keyshares demo_worker = []"
  by (simp_all add: demo_worker_def on_tss_request_def time_worker_new_def sput_def sdel_def sget_def value_or_def)

lemma demo_due: "due_requests 4 (requests demo_worker) = [(5, 40, [7])]"
  by (simp add: due_requests_def demo_worker_eq siter_def)

lemma demo_solo: "joined demo_worker = {5}" "solo demo_worker" "solo_key demo_worker 5 = Some [3]"
  by (auto simp: joined_def solo_def solo_key_def demo_worker_eq sget_def split: if_splits)

lemma demo_assigned:
  "get_shards_call (wp_substrate demo_params) (sub_account_id (wp_substrate demo_params)) [] (world demo_worker) = Inr [5]"
  "set [5] = joined demo_worker"
  by (simp_all add: demo_params_def demo_chain_def demo_solo)

lemma demo_buffers:
  "swf (requests demo_worker)" "swf (messages demo_worker)"
  "list_all (\<lambda>sh. \<not> isl (get_shard_status_call (wp_substrate demo_params) sh [] (world demo_worker))) [5]"
  "peers_ok demo_params (messages demo_worker)"
  "requests_ok (channels demo_worker) (solo_key demo_worker) (due_requests 4 (requests demo_worker))"
  unfolding demo_due
  by (simp_all add: swf_def demo_worker_eq demo_params_def demo_chain_def peers_ok_def requests_ok_def sget_def demo_solo)

theorem solo_node_signs_witness:
  "\<exists>w'. on_finality demo_params [] 4 demo_worker = Some (Inr (), w') \<and> answered w' = [(70, [7], [3, 7])]"
  using solo_node_signs [OF demo_assigned demo_solo(2) demo_buffers]
  unfolding demo_due
  by (simp add: solo_answers_def demo_worker_eq demo_solo sget_def demo_params_def demo_keys_def demo_frost_def demo_env_def)

theorem finality_serves_buffers_witness:
  "\<exists>w' w2 w3. on_finality demo_params [] 4 demo_worker = Some (Inr (), w') \<and> map fst (requests w') = [9] \<and> messages w' = [] \<and>
     served demo_params 4 [(5, 40, [7])] w2 w3"
proof -
  obtain w' where w': "on_finality demo_params [] 4 demo_worker = Some (Inr (), w')"
    using solo_finality [OF demo_assigned demo_solo(2) demo_buffers] by blast
  from finality_serves_buffers [OF demo_assigned(1) w' demo_buffers(1,2)] w' show ?thesis
    unfolding demo_due by (simp add: demo_worker_eq) blast
qed

theorem missing_share_stops_node_witness:
  "\<exists>w'. on_finality demo_params [] 4 (demo_worker\<lparr>tss_states := []\<rparr>) = Some (Inl (TssFailure ReadFailed), w') \<and>
     requests w' = requests demo_worker"
proof -
  let ?w = "demo_worker\<lparr>tss_states := []\<rparr>" and ?S = "wp_substrate demo_params"
  have "get_shards_call ?S (sub_account_id ?S) [] (world ?w) = Inr ([] @ 5 # [])"
    "list_all (\<lambda>i. sget (tss_states ?w) i \<noteq> None) []" "sget (tss_states ?w) 5 = None"
    "get_shard_members_call ?S 5 [] (world ?w) = Inr [(1, Added)]" "get_shard_threshold_call ?S 5 [] (world ?w) = Inr 1"
    "shard_commitment_call ?S 5 [] (world ?w) = Inr (Some [[3]])" "vss_deserialize (wp_env demo_params) [[3]] = Some [3]"
    "list_all (peer_id_ok (wp_env demo_params)) (wp_peer_id demo_params # member_peers demo_params [] [(1, Added)] (world ?w))"
    "sget (keyshares ?w) (signing_share_path (wp_env demo_params) [3]) = None"
    by (simp_all add: demo_params_def demo_chain_def demo_env_def member_peers_def demo_worker_eq map_filter_simps)
  from missing_share_stops_node [OF this, of 4] show ?thesis by auto
qed

end
