(* ===== verification/Heartbeats.thy ===== *)
theory Heartbeats
  imports Chronicle_Worker Members_Properties
begin

text \<open>
  The heartbeats of a chronicle and the timeouts of the members pallet: the event loop of the node and the runtime, block by
  block. A heartbeat that the node submits when it is notified of a block is in the next block.
\<close>

section \<open>The node and the runtime\<close>

definition present :: "account_id \<Rightarrow> runtime \<Rightarrow> bool" where
  "present a rt \<longleftrightarrow> sget (heartbeats (members_of rt)) a \<noteq> None"

text \<open>
  What the node takes from its chain client, whose world is the runtime after the last block and whether a heartbeat is on its way: the storage
  of the heartbeats, the timeout of the runtime, and the submission.
\<close>

definition reads_heartbeats :: "config \<Rightarrow> (runtime \<times> bool) substrate \<Rightarrow> bool" where
  "reads_heartbeats cfg S \<longleftrightarrow>
     (\<forall>bh rt due. is_heartbeat_submitted_call S (sub_account_id S) bh (rt, due) = Inr (present (sub_account_id S) rt)) \<and>
     (\<forall>rt due. submit_heartbeat_call S (rt, due) = (Inr (), (rt, True))) \<and>
     (\<forall>bh w. get_heartbeat_timeout_call S bh w = Inr (get_heartbeat_timeout cfg))"

definition heartbeat_extrinsic :: "account_id \<Rightarrow> runtime \<Rightarrow> runtime" where
  "heartbeat_extrinsic a rt = (case send_heartbeat (Signed a) rt of Some (Inr rt') \<Rightarrow> rt' | _ \<Rightarrow> rt)"

text \<open>The other extrinsics of a block leave the member registered, and are not its heartbeats.\<close>

definition leaves_member :: "account_id \<Rightarrow> runtime \<Rightarrow> runtime \<Rightarrow> bool" where
  "leaves_member a rt rt' \<longleftrightarrow> present a rt' = present a rt \<and>
     is_member_online (members_of rt') a = is_member_online (members_of rt) a"

text \<open>
  The runs of both: the block, the runtime after it, the flag \<open>send_heartbeat\<close> of the node, and whether a heartbeat is on its way.
\<close>

inductive chronicle_run ::
  "config \<Rightarrow> (networks_store \<Rightarrow> bool) \<Rightarrow> (runtime \<times> bool) substrate \<Rightarrow> block_number \<times> runtime \<times> bool \<times> bool \<Rightarrow> bool"
  for cfg adm S where
  run_start: "runtime_reachable cfg adm rt \<Longrightarrow> present (sub_account_id S) rt \<Longrightarrow>
    is_member_online (members_of rt) (sub_account_id S) \<Longrightarrow> chronicle_run cfg adm S (n, rt, flag, False)"
| run_block: "chronicle_run cfg adm S (n, rt, flag, due) \<Longrightarrow> unat n + 1 < 2 ^ 32 \<Longrightarrow>
    initialize_block cfg (n + 1) rt = Some rt1 \<Longrightarrow> member_network (members_of rt1) (sub_account_id S) \<noteq> None \<Longrightarrow>
    rt2 = (if due then heartbeat_extrinsic (sub_account_id S) rt1 else rt1) \<Longrightarrow>
    runtime_reachable cfg adm rt3 \<Longrightarrow> leaves_member (sub_account_id S) rt2 rt3 \<Longrightarrow>
    on_block S (heartbeat_period S bh0 w0) bh (n + 1) flag (rt3, False) = (flag', rt', due') \<Longrightarrow>
    chronicle_run cfg adm S (n + 1, rt3, flag', due')"

section \<open>Blocks and heartbeats\<close>

lemma heartbeat_period_half:
  "reads_heartbeats cfg S \<Longrightarrow> heartbeat_timeout cfg > 1 \<Longrightarrow> heartbeat_period S bh w = heartbeat_timeout cfg div 2"
  by (cases w) (simp add: reads_heartbeats_def heartbeat_period_def get_heartbeat_timeout_def)

lemma on_block_cases:
  assumes "reads_heartbeats cfg S"
  shows "on_block S p bh n flag (rt, False) =
    (False, rt, (flag \<or> n mod p = 0) \<and> \<not> present (sub_account_id S) rt)"
  using assms by (cases "present (sub_account_id S) rt") (simp_all add: on_block_def reads_heartbeats_def Let_def)

lemma heartbeat_extrinsic_present:
  assumes "\<not> present a rt" "member_network (members_of rt) a \<noteq> None" "is_member_online (members_of rt) a"
  shows "present a (heartbeat_extrinsic a rt) \<and> is_member_online (members_of (heartbeat_extrinsic a rt)) a"
  using assms
  by (auto simp: heartbeat_extrinsic_def send_heartbeat_def execute_send_heartbeat_def dispatch_of_def present_def
      is_member_online_def emit_members_def Let_def)

text \<open>
  The arithmetic of the two periods, \<open>t\<close> the timeout: among the blocks of a round of \<open>t\<close> blocks the first one at which
  the node looks is in its first half, and not the last one.
\<close>

lemma no_multiple_short:
  fixes n p i :: nat
  assumes "0 < p" "i \<le> n" "\<forall>j\<le>i. (n - j) mod p \<noteq> 0"
  shows "i + 1 < p"
proof (rule ccontr)
  assume "\<not> i + 1 < p"
  then have "p \<le> i + 1" by simp
  with mod_less_divisor [OF assms(1), of n] have "n mod p \<le> i" by linarith
  from assms(3) [rule_format, OF this] show False by (simp add: minus_mod_eq_mult_div)
qed


lemma round_next:
  fixes n t :: nat
  assumes "1 < t" "(n + 1) mod t \<noteq> 0"
  shows "(n + 1) mod t = n mod t + 1"
  using assms by (simp add: mod_Suc split: if_splits)

text \<open>
  Between two timeouts the member lacks a heartbeat only while one is on its way in the first half of the round, or while no
  block of the round was one at which the node looks.
\<close>

definition awaited :: "nat \<Rightarrow> nat \<Rightarrow> bool \<Rightarrow> bool" where
  "awaited t n due \<longleftrightarrow> (if due then n mod t < t div 2 else \<forall>j\<le>n mod t. (n - j) mod (t div 2) \<noteq> 0)"

lemma awaited_not_last:
  assumes "1 < t" "awaited t n due"
  shows "(n + 1) mod t \<noteq> 0"
proof
  assume "(n + 1) mod t = 0"
  then have last: "n mod t = t - 1" using assms(1) by (simp add: mod_Suc split: if_splits)
  have p: "0 < t div 2" "t div 2 \<le> t - 1" using assms(1) by linarith+
  show False
  proof (cases due)
    case True
    then show False using assms(2) last p(2) by (simp add: awaited_def)
  next
    case False
    with assms(2) have "\<forall>j\<le>n mod t. (n - j) mod (t div 2) \<noteq> 0" by (simp add: awaited_def)
    from no_multiple_short [OF p(1) mod_less_eq_dividend this] last p(2) show False by linarith
  qed
qed

lemma awaited_next:
  assumes "1 < t" "awaited t n False" "due' \<or> (n + 1) mod (t div 2) \<noteq> 0"
  shows "awaited t (n + 1) due'"
proof -
  have p: "0 < t div 2" using assms(1) by linarith
  have none: "\<forall>j\<le>n mod t. (n - j) mod (t div 2) \<noteq> 0" using assms(2) by (simp add: awaited_def)
  note i = round_next [OF assms(1) awaited_not_last [OF assms(1,2)]]
  show ?thesis
  proof (cases due')
    case True
    with no_multiple_short [OF p mod_less_eq_dividend none] i show ?thesis by (simp add: awaited_def)
  next
    case False
    have "(n + 1 - j) mod (t div 2) \<noteq> 0" if "j \<le> n mod t + 1" for j
    proof (cases j)
      case 0
      with False assms(3) show ?thesis by simp
    next
      case (Suc k)
      with that have "(n - k) mod (t div 2) \<noteq> 0" using none by simp
      with Suc show ?thesis by simp
    qed
    with False i show ?thesis by (simp add: awaited_def)
  qed
qed

lemma awaited_first:
  assumes "1 < t" "n mod t = 0" "due' \<or> n mod (t div 2) \<noteq> 0"
  shows "awaited t n due'"
  using assms by (cases due') (auto simp: awaited_def)

section \<open>The invariant\<close>

definition kept_alive :: "nat \<Rightarrow> account_id \<Rightarrow> nat \<Rightarrow> runtime \<Rightarrow> bool \<Rightarrow> bool" where
  "kept_alive t a n rt due \<longleftrightarrow> is_member_online (members_of rt) a \<and>
     (if present a rt then \<not> due else awaited t n due)"

lemma kept_alive_block:
  assumes "kept_alive t a n rt due" "1 < t" "t = unat (heartbeat_timeout cfg)" "m = unat k" "m = n + 1"
    and "runtime_reachable cfg adm rt" "initialize_block cfg k rt = Some rt1"
    and "member_network (members_of rt1) a \<noteq> None" "rt2 = (if due then heartbeat_extrinsic a rt1 else rt1)"
    and "leaves_member a rt2 rt3" "due' = ((flag \<or> m mod (t div 2) = 0) \<and> \<not> present a rt3)"
  shows "kept_alive t a m rt3 due'"
proof -
  have on: "is_member_online (members_of rt) a" using assms(1) by (simp add: kept_alive_def)
  have k: "k mod heartbeat_timeout cfg = 0 \<longleftrightarrow> m mod t = 0"
    by (simp add: assms(3,4) unat_mod [symmetric] unat_eq_0)
  note step = initialize_block_members [OF assms(7,6), of a]
  show ?thesis
  proof (cases "m mod t = 0")
    case True
    then have "present a rt" using assms(1,2,5) awaited_not_last by (fastforce simp: kept_alive_def)
    then have "\<not> due" using assms(1) by (simp add: kept_alive_def)
    have "\<not> present a rt1" "is_member_online (members_of rt1) a"
      using step k True \<open>present a rt\<close> on by (auto simp: present_def)
    with assms(9,10) \<open>\<not> due\<close> have "\<not> present a rt3" "is_member_online (members_of rt3) a"
      by (simp_all add: leaves_member_def)
    with awaited_first [OF assms(2) True, of due'] assms(11) show ?thesis by (auto simp: kept_alive_def)
  next
    case False
    then have 1: "present a rt1 = present a rt" "is_member_online (members_of rt1) a"
      using step k on by (auto simp: present_def)
    show ?thesis
    proof (cases "present a rt \<or> due")
      case True
      have "present a rt2 \<and> is_member_online (members_of rt2) a"
      proof (cases "present a rt")
        case True
        with 1 assms(1,9) show ?thesis by (simp add: kept_alive_def)
      next
        case False
        with \<open>present a rt \<or> due\<close> heartbeat_extrinsic_present [OF _ assms(8)] 1 assms(9) show ?thesis by simp
      qed
      with assms(10,11) show ?thesis by (simp add: kept_alive_def leaves_member_def)
    next
      case False
      with 1 assms(9,10) have 3: "\<not> present a rt3" "is_member_online (members_of rt3) a"
        by (simp_all add: leaves_member_def)
      have "awaited t n False" using False assms(1) by (simp add: kept_alive_def)
      from awaited_next [OF assms(2) this, of due'] 3 assms(5,11) show ?thesis by (auto simp: kept_alive_def)
    qed
  qed
qed

lemma unat_add_one: "unat (n :: block_number) + 1 < 2 ^ 32 \<Longrightarrow> unat (n + 1) = unat n + 1"
  by (simp add: unat_word_ariths)

lemma word_mod_half: "(n :: block_number) mod (t div 2) = 0 \<longleftrightarrow> unat n mod (unat t div 2) = 0"
  by (simp add: unat_eq_0 [symmetric] unat_mod unat_div)

lemma chronicle_run_kept:
  assumes "chronicle_run cfg adm S s" and laws: "reads_heartbeats cfg S" and t: "1 < heartbeat_timeout cfg"
  shows "case s of (n, rt, flag, due) \<Rightarrow> runtime_reachable cfg adm rt \<and>
    kept_alive (unat (heartbeat_timeout cfg)) (sub_account_id S) (unat n) rt due"
  using assms(1)
proof induction
  case (run_start rt n flag)
  then show ?case by (simp add: kept_alive_def)
next
  case (run_block n rt flag due rt1 rt2 rt3 bh0 w0 bh flag' rt' due')
  have m: "unat (n + 1) = unat n + 1" using run_block.hyps(2) by (rule unat_add_one)
  have t': "1 < unat (heartbeat_timeout cfg)" using t by (simp add: word_less_nat_alt)
  have "due' = ((flag \<or> (n + 1) mod (heartbeat_timeout cfg div 2) = 0) \<and> \<not> present (sub_account_id S) rt3)"
    using run_block.hyps(8) unfolding on_block_cases [OF laws] heartbeat_period_half [OF laws t] prod.inject by (elim conjE) (rule sym)
  then have d: "due' = ((flag \<or> unat (n + 1) mod (unat (heartbeat_timeout cfg) div 2) = 0) \<and> \<not> present (sub_account_id S) rt3)"
    unfolding word_mod_half .
  from run_block.IH have "runtime_reachable cfg adm rt" and
    kept: "kept_alive (unat (heartbeat_timeout cfg)) (sub_account_id S) (unat n) rt due" by simp_all
  from kept_alive_block [OF kept t' refl refl m this(1) run_block.hyps(3,4,5,7) d] run_block.hyps(6)
  show ?case unfolding prod.case by blast
qed

text \<open>
  C31. A chronicle whose heartbeats reach the next block is never taken offline: along every run of the node's event loop with the runtime, from
  a reachable state in which it is online with a heartbeat, and while it stays registered, the member is online after every
  block, with the period the node computes from any timeout of more than one block.
\<close>

theorem chronicle_stays_online:
  assumes "chronicle_run cfg adm S (n, rt, flag, due)" and "reads_heartbeats cfg S" and "1 < heartbeat_timeout cfg"
  shows "is_member_online (members_of rt) (sub_account_id S)"
  using chronicle_run_kept [OF assms] by (simp add: kept_alive_def)

text \<open>The client of the member 7 of the recorded run, and the block in which its shard gets its first task.\<close>

definition heartbeat_client :: "(runtime \<times> bool) substrate" where
  "heartbeat_client = \<lparr>sub_account_id = 7, get_shards_call = (\<lambda>a bh w. Inr []), get_shard_members_call = (\<lambda>sh bh w. Inr []),
     get_shard_threshold_call = (\<lambda>sh bh w. Inr 0), get_member_peer_id_call = (\<lambda>a bh w. Inr None),
     shard_commitment_call = (\<lambda>sh bh w. Inr None), get_shard_status_call = (\<lambda>sh bh w. Inr SOnline),
     get_heartbeat_timeout_call = (\<lambda>bh w. Inr (get_heartbeat_timeout test_config)),
     is_heartbeat_submitted_call = (\<lambda>a bh w. Inr (present a (fst w))),
     submit_heartbeat_call = (\<lambda>w. (Inr (), (fst w, True))), submit_commitment_call = (\<lambda>sh c p w. (Inr (), w)),
     submit_online_call = (\<lambda>sh w. (Inr (), w))\<rparr>"

lemma heartbeat_client_laws: "sub_account_id heartbeat_client = 7" "reads_heartbeats test_config heartbeat_client"
  by (simp_all add: heartbeat_client_def reads_heartbeats_def)

lemma run_member: "present 7 run_online" "is_member_online (members_of run_online) 7" "present 7 run_assigned"
  "member_network (members_of run_assigned) 7 \<noteq> None"
  by (simp_all add: present_def run_defs is_member_online_def sget_def)

lemma recorded_chronicle_run:
  "chronicle_run test_config positive_thresholds heartbeat_client (2, run_assigned, False, False)"
proof -
  note start = chronicle_run.run_start [of test_config positive_thresholds run_online heartbeat_client 1 True, unfolded heartbeat_client_laws,
      OF run_reachable(3) run_member(1,2)]
  have assign: "initialize_block test_config (1 + 1) run_online = Some run_assigned" using run_assign by simp
  have block: "on_block heartbeat_client (heartbeat_period heartbeat_client [] (run_online, False)) [] (1 + 1) True (run_assigned, False) =
      (False, run_assigned, False)"
    unfolding on_block_cases [OF heartbeat_client_laws(2)] heartbeat_client_laws(1) using run_member(3) by simp
  have "leaves_member 7 run_assigned run_assigned" by (simp add: leaves_member_def)
  from chronicle_run.run_block [OF start _ assign _ _ run_reachable(4) _ block, unfolded heartbeat_client_laws(1), of run_assigned,
      OF _ run_member(4) _ this]
  show ?thesis by simp
qed

theorem chronicle_stays_online_witness:
  "is_member_online (members_of run_assigned) (sub_account_id heartbeat_client)"
  using chronicle_stays_online [OF recorded_chronicle_run heartbeat_client_laws(2)] by (simp add: test_config_def)

end
