(* ===== verification/Spec2Isabelle.thy ===== *)
theory Spec2Isabelle
  imports Cctp Networks Tasks_Properties Tasks_Batches Elections_Properties Shards_Properties
    Tss_Properties Timegraph Launch_Properties Extrinsics Relay_Properties
    Tx_Recovery Chronicle_Worker_Properties Heartbeats
begin

text \<open>
  A model of Timechain in Isabelle/HOL: the pallets of its runtime, the primitives they share, the threshold
  signing library, the chronicle nodes with their chain client, and the Rust connector, with the theorems that make
  them correct.

  \<^bold>\<open>The program.\<close> Timechain is a Substrate chain that passes messages between other chains. Nodes that run
  chronicle register as members (\<open>pallets/members\<close>) and send heartbeats; members without a shard are elected into
  shards (\<open>pallets/elections\<close>); the members of a shard run a distributed key generation and report it to the chain
  (\<open>pallets/shards\<close>); an online shard is assigned tasks: to read the events of the gateway contract of its network,
  and to sign and submit batches of messages (\<open>pallets/tasks\<close>). \<open>pallets/networks\<close> holds the configuration of the
  networks. In each block the hooks of the four pallets run in the order of \<open>runtime/src/lib.rs\<close>. Off the chain the
  event loop of a chronicle (\<open>chronicle/src/shards\<close>) drives the signing states of its shards, which use the ROAST protocol over
  FROST (\<open>tss\<close>), and executes their tasks (\<open>chronicle/src/tasks\<close>) against a target chain, here the chain simulated in a
  database (\<open>gmp/rust\<close>); it sends its extrinsics through the transaction worker of \<open>tc-subxt\<close>. Beside this, \<open>pallets/timegraph\<close>, \<open>pallets/airdrop\<close> and
  \<open>pallets/launch\<close> handle tokens, \<open>pallets/dmail\<close> and \<open>pallets/governance\<close> are thin wrappers.

  \<^bold>\<open>Conventions.\<close> A Rust integer is a word of its width; \<open>+\<close> and \<open>-\<close> wrap, as in a release build, and the saturating
  and checked operations are defined in \<open>Prelude\<close>. A storage map that the code iterates is an association list with at
  most one entry per key (\<open>smap\<close>), iterated in the order of the hashed keys, which is a parameter; a \<open>BTreeMap\<close> is one
  that is iterated in the order of its keys; other storage maps are functions. An error is \<open>Inl\<close>; a panic is \<open>None\<close>
  around the result; FRAME rolls a failed call back, so that \<open>Inl\<close> carries no state. Code that is not in the
  repository is an argument of the definitions that use it: the hash functions, signature schemes, codecs and the
  order of the storage trie (the record \<open>config\<close> of \<open>Runtime_Config\<close>), \<open>frost_evm\<close> (\<open>frost\<close> of \<open>Frost\<close>),
  \<open>pallet_balances\<close> and \<open>pallet_vesting\<close> (\<open>currency\<close> of \<open>Currency\<close>), and the derivations of \<open>sp_core\<close>
  (\<open>airdrop_config\<close>, \<open>launch_config\<close>), the serialisation and file system below the key shares (\<open>keyshare_env\<close> of
  \<open>Chronicle_Tss\<close>), and subxt (\<open>timechain_client\<close> of \<open>Tx_Worker\<close>, \<open>substrate\<close> of \<open>Chronicle_Worker\<close>). Asynchronous code
  is modelled by its atomic parts: a branch of a \<open>select!\<close> loop is one operation on the state. What a theorem needs of them is a hypothesis of it.

  \<^bold>\<open>The theories.\<close>

  \<^item> \<open>Prelude\<close>: integers, storage maps, folds that may panic, and the lemmas on them that all theories share.
  \<^item> \<open>Gmp\<close> (\<open>primitives/src/gmp.rs\<close>, \<open>task.rs\<close>), \<open>Cctp\<close> (\<open>cctp.rs\<close>): messages, gateway operations, the digest that a
    shard signs, the batch builder, the CCTP codec. The digest binds the batch and its operations up to their
    gas costs, the codec is a round trip (for the \<open>usize\<close> of a 64-bit target), and the builder's gas limit is shown not to bound a batch.
  \<^item> \<open>Queue\<close> (\<open>pallets/tasks/src/queue.rs\<close>): the queue over three storage maps, the locale \<open>fifo\<close> that states its
    contract, its interpretation, and the refinement to lists.
  \<^item> \<open>Networks\<close>, \<open>Registration\<close> (\<open>pallets/networks\<close>): configuration, the block ranges that are read (locale
    \<open>batch_sizes\<close>), registration and genesis.
  \<^item> \<open>Shards_Store\<close>, \<open>Tasks\<close> (\<open>pallets/tasks/src/lib.rs\<close>, every call and hook), with the lemmas in \<open>Tasks_Assignment\<close>,
    \<open>Tasks_Schedule\<close>, \<open>Tasks_Correct\<close>, \<open>Tasks_Batches\<close>, runs in \<open>Tasks_Run\<close>, properties in \<open>Tasks_Properties\<close>: assignments are
    consistent, no submission is lost or leaves its network, scheduling respects its limits, results are only accepted from the shard.
  \<^item> \<open>Runtime_State\<close>, \<open>Shards\<close>, \<open>Elections\<close>, \<open>Members\<close>: the other three pallets on one record \<open>runtime\<close>, with the
    calls between them as the code makes them. \<open>Runtime_Inv\<close> is the invariant that spans the pallets,
    \<open>Runtime_Keeps\<close>, \<open>Runtime_Steps\<close> and \<open>Runtime_Reach\<close> show that every call and the block hooks keep it (a call that
    removes shards in a loop breaks it on the way, so that the lemmas carry the set of shards still to be removed),
    \<open>Runtime_Total\<close> that the hooks return. The properties are in \<open>Runtime_Properties\<close>, \<open>Shards_Properties\<close>,
    \<open>Elections_Properties\<close> and \<open>Members_Properties\<close>; \<open>Runtime_Run\<close> has the concrete run their witnesses use.
  \<^item> \<open>Frost\<close>, \<open>Roast\<close>, \<open>Dkg\<close>, \<open>Tss\<close> (\<open>tss/src\<close>), with \<open>Roast_Lemmas\<close> and \<open>Tss_Properties\<close>: signer, coordinator, key generation
    and the state machine of a node. No nonces are signed with twice, a signature comes from a full session, the
    loop over the actions of a session ends, and the key generation computes the sum of all shares.
  \<^item> \<open>Currency\<close>, \<open>Timegraph\<close>, \<open>Airdrop\<close>, \<open>Launch\<close>, \<open>Launch_Properties\<close>, \<open>Extrinsics\<close>: the token pallets and the remaining ones.
    Reserved funds are protected, a claim is paid in full and once (given what \<open>paying\<close> says of the currency; locale \<open>claim_store\<close> is what the launch pallet relies on),
    a launch plan is complete and in order, and the ledger of this runtime adds up and moves no funds.
  \<^item> \<open>Connector\<close>, \<open>Connector_Properties\<close> (\<open>gmp/rust/src/lib.rs\<close>): the simulated chain, its tables and transactions, and every
    operation of the connector traits. Message identifiers are unique, the admin of a gateway and nobody else sets its shards, and the tables
    keep their type in every reachable state (\<open>step_invariant\<close> of \<open>Prelude\<close>, interpreted on the calls of the connector).
  \<^item> \<open>Chronicle_Tasks\<close> (\<open>chronicle/src/tasks/mod.rs\<close>), \<open>Relay\<close>, \<open>Relay_Properties\<close>: the task executor, and its composition with
    the tasks pallet and the simulated chain. A read task queues exactly the messages of its range, and an executed
    batch is finished by the read task that finds its event.
  \<^item> \<open>Chronicle_Tss\<close> (\<open>chronicle/src/shards/tss.rs\<close>): the signing state of one shard and the key shares on disk, which survive a restart.
    \<open>Chronicle_Worker\<close>, \<open>Chronicle_Worker_Properties\<close> (\<open>shards/service.rs\<close>): the event loop. A finalized block hands
    every request and message that is due to the signing state of its shard, in order (\<open>served\<close>, \<open>delivered\<close>), a node with shards of one member answers every request, and a missing key share stops all its shards.
    \<open>Heartbeats\<close> composes the loop with the members pallet: a chronicle whose heartbeats are included stays online.
  \<^item> \<open>Client_Calls\<close> (\<open>tc-subxt/src/metadata.rs\<close>, \<open>build_tx\<close> of \<open>worker.rs\<close>, \<open>configs/governance.rs\<close>): the calls behind the
    transactions of the client, and which the runtime refuses for their origin. \<open>Tx_Worker\<close>, \<open>Tx_Worker_Properties\<close>, \<open>Tx_Recovery\<close>
    (\<open>worker.rs\<close>, \<open>db.rs\<close>): the worker and its database. A worker with nothing to recover answers its requests in order, the
    loop over the pending transactions ends, a restart recovers those from its start nonce on, and what goes wrong after one.

  \<^bold>\<open>Loops.\<close> Structural recursion where the code iterates over a collection. \<open>skip_holes\<close> and \<open>give_back\<close> terminate by a
  measure. The loop of \<open>Elections::on_initialize\<close> over the networks, \<open>elect_loop\<close>, has as fuel one more than the number
  of networks: a round either ends the loop or moves to the next network, and \<open>Runtime_Total\<close> proves it enough. The
  \<open>while\<close> loop of \<open>Tss::next_action\<close>, \<open>session_loop\<close>, need not end (with a threshold of one and shares that never
  aggregate it does not), so it is a \<open>partial_function\<close>, and that it returns is a theorem with its conditions. So are
  \<open>retry_loop\<close> of the transaction worker, which ends since a transaction submitted again is not outdated (unless the block number
  is within the mortality of the largest), and \<open>poll_actions\<close>, \<open>drain_requests\<close> and \<open>drain_messages\<close> of the
  chronicle, whose end is part of the theorem on nodes with shards of one member.

  \<^bold>\<open>Not modelled.\<close> The connectors to EVM chains and over gRPC (\<open>gmp/evm\<close>, \<open>gmp/grpc\<close>), \<open>tc-cli\<close>, \<open>node\<close>, \<open>slack-bot\<close> and
  \<open>e2e-tests\<close>, the network and administration services of the chronicle and the storage queries of \<open>tc-subxt\<close> are
  asynchronous I/O against networks and generated clients, with no state of their own beyond it; the streams that
  \<open>create_stream_with_retry\<close> opens again are the inputs of the worker's operations. The configuration of the pallets of
  polkadot-sdk, weights, benchmarks, logging and the formatting of values carry no behaviour of the modelled parts.
  \<open>verify_proof_of_knowledge\<close> and \<open>construct_proof_of_knowledge\<close> only call \<open>frost_evm\<close>.
\<close>

end
